(* ===== verification/Prelude.thy ===== *)
theory Prelude
  imports Main "HOL-Library.List_Lexorder" "HOL-Library.Char_ord" "HOL-Library.Product_Lexorder"
begin

text \<open>
  Shared vocabulary of the development: exceptions as values, database time, tables as
  lists of rows with the SQL statements the services issue, and the character classes of
  the regular expressions they validate identifiers with.

  A service function that takes a SQLAlchemy session is a function on the tables it
  reads and writes. It returns \<open>Inl e\<close> where the Python raises \<open>e\<close>: the caller owns the
  transaction, so an exception leaves no write behind and the model carries no state on
  that side. The value of every clock read, of every \<open>uuid4()\<close> and of every digest is
  an argument.
\<close>

subsection \<open>Exceptions\<close>

datatype exn =
    ValueError
  | KeyError
  | IndexError
  | StopIteration
  | TimeoutError
  | LostOwnership
  | CoordinationOwnershipLost
  | ChatRunConflict
  | ChatRunOwnershipLost
  | ChatCapacityExceeded
  | ChatOwnershipError
  | ChatSessionDeletedError
  | MaintenanceRefused
  | GenerationConflict
  | DocumentUpdateCancelled
  | BlobConflict
  | BlobLeaseLost
  | RateLimitExceeded int
  | LLMCancelled
  | ArchiveLimitError
  | ArchiveReadError string
  | ProcessingScopeConflict string
  | ReferenceError string nat
  | DomainError string
  | ConflictError string
  | IntegrityError
  | NotFoundError string
  | JobNotFoundError
  | SelfApprovalError
  | ZeroDivisionError
  | TypeError
  | QueueOverloadedError
  | ChatBudgetUnavailable
  | GlossaryError string

type_synonym 'a result = "exn + 'a"

text \<open>Sequencing: the first exception ends the function.\<close>

definition bindr :: "'a result \<Rightarrow> ('a \<Rightarrow> 'b result) \<Rightarrow> 'b result" where
  "bindr m f = (case m of Inl e \<Rightarrow> Inl e | Inr x \<Rightarrow> f x)"

definition is_ok :: "'a result \<Rightarrow> bool" where
  "is_ok m = (case m of Inl e \<Rightarrow> False | Inr x \<Rightarrow> True)"

lemma bindr_simps [simp]:
  "bindr (Inl e) f = Inl e"
  "bindr (Inr x) f = f x"
  by (simp_all add: bindr_def)

lemma bindr_eq_Inr [simp]: "bindr m f = Inr y \<longleftrightarrow> (\<exists>x. m = Inr x \<and> f x = Inr y)"
  by (cases m) auto

lemma bindrE: "bindr m f = Inr y \<Longrightarrow> (\<And>x. m = Inr x \<Longrightarrow> f x = Inr y \<Longrightarrow> thesis) \<Longrightarrow> thesis"
  by auto

lemma bindr_pairE:
  "bindr m (\<lambda>(a, b). f a b) = Inr y \<Longrightarrow> (\<And>a b. m = Inr (a, b) \<Longrightarrow> f a b = Inr y \<Longrightarrow> thesis) \<Longrightarrow> thesis"
  by auto

lemma is_ok_simps [simp]: "\<not> is_ok (Inl e)" "is_ok (Inr x)"
  by (simp_all add: is_ok_def)

lemma is_ok_iff: "is_ok m \<longleftrightarrow> (\<exists>x. m = Inr x)"
  by (cases m) auto

lemma if_Inl_eq_Inr [simp]: "(if b then Inl e else m) = Inr y \<longleftrightarrow> \<not> b \<and> m = Inr y"
  by simp

subsection \<open>Database time\<close>

text \<open>Timestamps count microseconds, the resolution of \<open>datetime\<close>.\<close>

type_synonym time = int

definition seconds :: "int \<Rightarrow> time" where
  "seconds s = s * 1000000"

lemma seconds_mono [simp]: "seconds a \<le> seconds b \<longleftrightarrow> a \<le> b"
  by (simp add: seconds_def)

lemma seconds_pos [simp]: "0 < seconds a \<longleftrightarrow> 0 < a"
  by (simp add: seconds_def)

lemma seconds_le_0 [simp]: "seconds a \<le> 0 \<longleftrightarrow> a \<le> 0"
  by (simp add: seconds_def)

text \<open>A nullable timestamp compared with the clock; NULL is never later.\<close>

definition later :: "time option \<Rightarrow> time \<Rightarrow> bool" where
  "later t now = (case t of None \<Rightarrow> False | Some x \<Rightarrow> now < x)"

lemma later_simps [simp]: "\<not> later None now" "later (Some x) now \<longleftrightarrow> now < x"
  by (simp_all add: later_def)

lemma later_antimono: "later t now' \<Longrightarrow> now \<le> now' \<Longrightarrow> later t now"
  by (cases t) auto

lemma later_iff: "later t now \<longleftrightarrow> (\<exists>x. t = Some x \<and> now < x)"
  by (cases t) auto

subsection \<open>Tables\<close>

text \<open>
  \<open>session.get\<close>, \<open>UPDATE .. WHERE\<close>, \<open>DELETE .. WHERE\<close> and \<open>ORDER BY .. LIMIT\<close>. Rows are kept
  in insertion order and \<open>sort_key\<close> is stable; wherever the code states an order it
  is a total one (it ends in the primary key).
\<close>

definition get_by :: "('r \<Rightarrow> 'k) \<Rightarrow> 'k \<Rightarrow> 'r list \<Rightarrow> 'r option" where
  "get_by key k rows = find (\<lambda>r. key r = k) rows"

definition update_where :: "('r \<Rightarrow> bool) \<Rightarrow> ('r \<Rightarrow> 'r) \<Rightarrow> 'r list \<Rightarrow> 'r list" where
  "update_where P f rows = map (\<lambda>r. if P r then f r else r) rows"

definition delete_where :: "('r \<Rightarrow> bool) \<Rightarrow> 'r list \<Rightarrow> 'r list" where
  "delete_where P rows = filter (\<lambda>r. \<not> P r) rows"

definition order_by :: "('r \<Rightarrow> 'k::linorder) \<Rightarrow> 'r list \<Rightarrow> 'r list" where
  "order_by k rows = sort_key k rows"

text \<open>Flush of one ORM object: the row with the same primary key is replaced.\<close>

definition put_by :: "('r \<Rightarrow> 'k) \<Rightarrow> 'r \<Rightarrow> 'r list \<Rightarrow> 'r list" where
  "put_by key row rows = update_where (\<lambda>r. key r = key row) (\<lambda>_. row) rows"

definition unique_key :: "('r \<Rightarrow> 'k) \<Rightarrow> 'r list \<Rightarrow> bool" where
  "unique_key key rows = distinct (map key rows)"

lemma get_by_Nil [simp]: "get_by key k [] = None"
  by (simp add: get_by_def)

lemma get_by_Cons [simp]: "get_by key k (r # rs) = (if key r = k then Some r else get_by key k rs)"
  by (simp add: get_by_def)

lemma get_by_SomeD: "get_by key k rows = Some r \<Longrightarrow> r \<in> set rows \<and> key r = k"
  by (induction rows) (auto split: if_splits)

lemma get_by_key: "get_by key k rows = Some r \<Longrightarrow> key r = k"
  by (drule get_by_SomeD) simp

lemma get_by_None: "get_by key k rows = None \<longleftrightarrow> k \<notin> key ` set rows"
  by (induction rows) auto

lemma get_by_unique:
  "unique_key key rows \<Longrightarrow> get_by key k rows = Some r \<longleftrightarrow> r \<in> set rows \<and> key r = k"
  by (induction rows) (auto simp: unique_key_def image_iff split: if_splits)

lemma get_by_self: "unique_key key rows \<Longrightarrow> r \<in> set rows \<Longrightarrow> get_by key (key r) rows = Some r"
  by (simp add: get_by_unique)

lemma get_by_append: "get_by key k (xs @ ys) =
    (case get_by key k xs of None \<Rightarrow> get_by key k ys | Some r \<Rightarrow> Some r)"
  by (induction xs) auto

lemma update_where_simps [simp]:
  "update_where P f [] = []"
  "update_where P f (r # rs) = (if P r then f r else r) # update_where P f rs"
  by (simp_all add: update_where_def)

lemma set_update_where: "set (update_where P f rows) = (\<lambda>r. if P r then f r else r) ` set rows"
  by (simp add: update_where_def)

lemma length_update_where [simp]: "length (update_where P f rows) = length rows"
  by (simp add: update_where_def)

lemma update_where_cong_key:
  "(\<And>r. r \<in> set rows \<Longrightarrow> P r \<Longrightarrow> key (f r) = key r) \<Longrightarrow> map key (update_where P f rows) = map key rows"
  by (induction rows) auto

lemma get_by_update_where:
  "(\<And>r. P r \<Longrightarrow> key (f r) = key r) \<Longrightarrow>
   get_by key k (update_where P f rows) = map_option (\<lambda>r. if P r then f r else r) (get_by key k rows)"
  by (induction rows) auto

lemma map_key_put_by [simp]: "map key (put_by key row rows) = map key rows"
  unfolding put_by_def by (rule update_where_cong_key) auto

lemma get_by_put_by: "get_by key k (put_by key row rows) =
    (if key row = k then map_option (\<lambda>_. row) (get_by key k rows) else get_by key k rows)"
  by (induction rows) (auto simp: put_by_def)

lemma unique_key_put_by [simp]: "unique_key key (put_by key row rows) = unique_key key rows"
  by (simp add: unique_key_def)

lemma put_by_member:
  "r \<in> set (put_by key row rows) \<Longrightarrow> r = row \<or> (r \<in> set rows \<and> key r \<noteq> key row)"
  by (auto simp: put_by_def set_update_where)

lemma row_in_put_by: "key row \<in> key ` set rows \<Longrightarrow> row \<in> set (put_by key row rows)"
  by (auto simp: put_by_def set_update_where image_iff)

lemma put_by_keeps: "r \<in> set rows \<Longrightarrow> key r \<noteq> key row \<Longrightarrow> r \<in> set (put_by key row rows)"
  by (auto simp: put_by_def set_update_where image_iff)

lemma delete_where_simps [simp]:
  "delete_where P [] = []"
  "delete_where P (r # rs) = (if P r then delete_where P rs else r # delete_where P rs)"
  by (simp_all add: delete_where_def)

lemma set_delete_where [simp]: "set (delete_where P rows) = {r \<in> set rows. \<not> P r}"
  by (auto simp: delete_where_def)

lemma set_order_by [simp]: "set (order_by k rows) = set rows"
  by (simp add: order_by_def)

lemma sorted_order_by: "sorted (map k (order_by k rows))"
  by (simp add: order_by_def)

lemma order_by_hd_least:
  assumes "order_by k rows = r # rs" and "x \<in> set rows"
  shows "k r \<le> k x"
proof -
  have "sorted (map k (r # rs))" using sorted_order_by [of k rows] assms(1) by simp
  moreover have "x \<in> set (r # rs)" using assms by (metis set_order_by)
  ultimately show ?thesis by auto
qed

lemma unique_key_delete [simp]: "unique_key key rows \<Longrightarrow> unique_key key (delete_where P rows)"
  unfolding unique_key_def delete_where_def by (rule distinct_map_filter)

lemma unique_key_append: "unique_key key (rows @ [r]) \<longleftrightarrow> unique_key key rows \<and> get_by key (key r) rows = None"
  by (auto simp: unique_key_def get_by_None)

lemma find_SomeD: "find P xs = Some x \<Longrightarrow> x \<in> set xs \<and> P x"
  by (induction xs) (auto split: if_splits)

text \<open>Equality of two dicts kept as association lists.\<close>

definition same_dict :: "('k \<times> 'v) list \<Rightarrow> ('k \<times> 'v) list \<Rightarrow> bool" where
  "same_dict a b \<longleftrightarrow> list_all (\<lambda>k. map_of a k = map_of b k) (map fst a @ map fst b)"

lemma same_dict_iff: "same_dict a b \<longleftrightarrow> map_of a = map_of b"
proof
  assume same: "same_dict a b"
  show "map_of a = map_of b"
  proof
    fix k show "map_of a k = map_of b k"
    proof (cases "k \<in> set (map fst a @ map fst b)")
      case True
      with same show ?thesis unfolding same_dict_def list_all_iff by blast
    next
      case False
      then have "map_of a k = None" "map_of b k = None" by (auto simp: map_of_eq_None_iff)
      then show ?thesis by simp
    qed
  qed
qed (simp add: same_dict_def list_all_iff)

subsection \<open>Character classes\<close>

definition char_in :: "string \<Rightarrow> char \<Rightarrow> bool" where
  "char_in cs c = (c \<in> set cs)"

definition lower_az :: string where "lower_az = ''abcdefghijklmnopqrstuvwxyz''"
definition upper_az :: string where "upper_az = ''ABCDEFGHIJKLMNOPQRSTUVWXYZ''"
definition digits09 :: string where "digits09 = ''0123456789''"

text \<open>\<open>re.fullmatch\<close> of one class repeated between two bounds, and of a head class followed
  by up to \<open>n\<close> characters of a tail class.\<close>

definition fullmatch_class :: "string \<Rightarrow> nat \<Rightarrow> nat \<Rightarrow> string \<Rightarrow> bool" where
  "fullmatch_class cs lo hi s = (list_all (char_in cs) s \<and> lo \<le> length s \<and> length s \<le> hi)"

definition fullmatch_head :: "string \<Rightarrow> string \<Rightarrow> nat \<Rightarrow> string \<Rightarrow> bool" where
  "fullmatch_head hs cs n s =
     (case s of [] \<Rightarrow> False | c # rest \<Rightarrow> char_in hs c \<and> list_all (char_in cs) rest \<and> length rest \<le> n)"

definition hex_string :: "nat \<Rightarrow> string \<Rightarrow> bool" where
  "hex_string n s = fullmatch_class (digits09 @ ''abcdef'') n n s"

lemmas charclass_defs = char_in_def lower_az_def upper_az_def digits09_def
  fullmatch_class_def fullmatch_head_def hex_string_def

end
