(* ===== verification/Interfaces.thy ===== *)
theory Interfaces
  imports Prelude
begin

text \<open>
  Contracts that several components provide and others rely on. A component states its
  operations as a step relation on its tables and interprets the contract it satisfies;
  the lemmas below are then facts about that component.
\<close>

subsection \<open>Inductive invariants of a step relation\<close>

locale invariant_system =
  fixes step :: "'s \<Rightarrow> 's \<Rightarrow> bool"
    and inv :: "'s \<Rightarrow> bool"
  assumes step_inv: "step s s' \<Longrightarrow> inv s \<Longrightarrow> inv s'"
begin

lemma steps_inv: "step\<^sup>*\<^sup>* s s' \<Longrightarrow> inv s \<Longrightarrow> inv s'"
  by (induction rule: rtranclp_induct) (auto intro: step_inv)

end

subsection \<open>Fencing tokens\<close>

text \<open>
  A resource is owned through a token that carries the resource's fence at the time it
  was granted. No step lowers a fence, and a token is accepted only while the fence is
  still its own: a holder that lost the resource can never write to it again.
\<close>

locale fenced_resource = invariant_system step inv
  for step :: "'s \<Rightarrow> 's \<Rightarrow> bool" and inv :: "'s \<Rightarrow> bool" +
  fixes fence_of :: "'s \<Rightarrow> 'k \<Rightarrow> int"
    and accepts :: "'s \<Rightarrow> time \<Rightarrow> 't \<Rightarrow> bool"
    and tok_key :: "'t \<Rightarrow> 'k"
    and tok_fence :: "'t \<Rightarrow> int"
  assumes accepts_fence: "accepts s now t \<Longrightarrow> fence_of s (tok_key t) = tok_fence t"
    and step_fence: "step s s' \<Longrightarrow> inv s \<Longrightarrow> fence_of s k \<le> fence_of s' k"
begin

lemma steps_fence: "step\<^sup>*\<^sup>* s s' \<Longrightarrow> inv s \<Longrightarrow> fence_of s k \<le> fence_of s' k"
  by (induction rule: rtranclp_induct) (auto dest: step_fence steps_inv intro: order_trans)

lemma superseded_rejected:
  assumes "tok_fence t < fence_of s (tok_key t)" and "step\<^sup>*\<^sup>* s s'" and "inv s"
  shows "\<not> accepts s' now t"
proof
  assume "accepts s' now t"
  then have "fence_of s' (tok_key t) = tok_fence t" by (rule accepts_fence)
  with steps_fence [OF assms(2,3), of "tok_key t"] assms(1) show False by simp
qed

lemma one_fence_accepted:
  "accepts s now t \<Longrightarrow> accepts s now' t' \<Longrightarrow> tok_key t = tok_key t' \<Longrightarrow> tok_fence t = tok_fence t'"
  by (metis accepts_fence)

end

end
