(* ===== verification/Coordination.thy ===== *)
theory Coordination
  imports Interfaces
begin

text \<open>
  \<open>backend/app/services/work/coordination.py\<close>: capacity slots shared by all replicas, the
  shared sliding-window rate limit and the configuration revisions. The rows are those of
  \<open>backend/app/db/models.py\<close>; every operation runs under the row lock of its resource or
  key, so it is one atomic function of the tables.
\<close>

subsection \<open>Rows\<close>

record capacity_resource =
  cr_resource :: string
  cr_capacity_limit :: int

record capacity_slot =
  cs_id :: string
  cs_resource :: string
  cs_slot :: int
  cs_owner_id :: "string option"
  cs_fence :: int
  cs_expires_at :: "time option"
  cs_protected_until :: "time option"
  cs_release_required :: bool

record rate_bucket =
  rb_key_hash :: string
  rb_request_limit :: int
  rb_window_seconds :: int

record rate_event =
  re_id :: string
  re_key_hash :: string
  re_accepted_at :: time
  re_cost :: int

record config_revision =
  cv_domain :: string
  cv_revision :: int

record coord_db =
  resources :: "capacity_resource list"
  slots :: "capacity_slot list"
  buckets :: "rate_bucket list"
  events :: "rate_event list"
  revisions :: "config_revision list"

text \<open>The token a caller holds: what \<open>CapacityLease\<close> remembers of its row.\<close>

record capacity_lease =
  cl_id :: string
  cl_resource :: string
  cl_owner_id :: string
  cl_fence :: int
  cl_expires_at :: time

subsection \<open>Argument checks\<close>

definition name_ok :: "string \<Rightarrow> bool" where
  "name_ok value = fullmatch_head lower_az (lower_az @ digits09 @ ''_.:-'') 63 value"

definition integer_ok :: "int \<Rightarrow> int \<Rightarrow> bool" where
  "integer_ok value maximum = (1 \<le> value \<and> value \<le> maximum)"

subsection \<open>Capacity\<close>

definition resource_row :: "'a coord_db_scheme \<Rightarrow> string \<Rightarrow> capacity_resource result" where
  "resource_row db resource =
     (case get_by cr_resource resource (resources db) of
        None \<Rightarrow> Inl CoordinationOwnershipLost
      | Some row \<Rightarrow> Inr row)"

definition lock_capacity_resource ::
    "string \<Rightarrow> int \<Rightarrow> 'a coord_db_scheme \<Rightarrow> (capacity_resource \<times> 'a coord_db_scheme) result" where
  "lock_capacity_resource resource limit db =
     (if \<not> name_ok resource then Inl ValueError
      else if \<not> integer_ok limit 10000 then Inl ValueError
      else let db1 = (case get_by cr_resource resource (resources db) of
                 None \<Rightarrow> db\<lparr>resources := resources db
                            @ [\<lparr>cr_resource = resource, cr_capacity_limit = limit\<rparr>]\<rparr>
               | Some _ \<Rightarrow> db)
      in bindr (resource_row db1 resource) (\<lambda>row. Inr (row, db1)))"

definition slot_lease :: "capacity_slot \<Rightarrow> string \<Rightarrow> time \<Rightarrow> capacity_lease" where
  "slot_lease row owner expires =
     \<lparr>cl_id = cs_id row, cl_resource = cs_resource row, cl_owner_id = owner,
      cl_fence = cs_fence row, cl_expires_at = expires\<rparr>"

definition busy_slot :: "time \<Rightarrow> capacity_slot \<Rightarrow> bool" where
  "busy_slot now row \<longleftrightarrow> cs_owner_id row \<noteq> None \<and>
     (cs_release_required row \<or> later (cs_expires_at row) now \<or> later (cs_protected_until row) now)"

definition resource_slots :: "'a coord_db_scheme \<Rightarrow> string \<Rightarrow> capacity_slot list" where
  "resource_slots db resource = order_by cs_slot (filter (\<lambda>r. cs_resource r = resource) (slots db))"

definition occupy :: "time \<Rightarrow> string \<Rightarrow> int \<Rightarrow> int \<Rightarrow> bool \<Rightarrow> capacity_slot \<Rightarrow> capacity_slot" where
  "occupy now owner ttl hold release_required row = row
     \<lparr>cs_owner_id := Some owner, cs_expires_at := Some (now + seconds ttl),
      cs_protected_until := Some (now + seconds hold), cs_release_required := release_required\<rparr>"

text \<open>
  The row that is granted: the first free row below the limit with its fence raised, or a
  new row in the first unoccupied slot number (\<open>next()\<close> over \<open>range(limit)\<close>).
\<close>

definition pick_slot ::
    "string \<Rightarrow> string \<Rightarrow> int \<Rightarrow> time \<Rightarrow> capacity_slot list \<Rightarrow> (capacity_slot \<times> bool) result" where
  "pick_slot new_id resource limit now rows =
     (let busy_ids = map cs_id (filter (busy_slot now) rows) in
      case find (\<lambda>r. cs_id r \<notin> set busy_ids \<and> cs_slot r < limit) rows of
        Some row \<Rightarrow> Inr (row\<lparr>cs_fence := cs_fence row + 1\<rparr>, False)
      | None \<Rightarrow>
         (case find (\<lambda>v. v \<notin> set (map cs_slot rows)) [0..limit - 1] of
            None \<Rightarrow> Inl StopIteration
          | Some v \<Rightarrow> Inr (\<lparr>cs_id = new_id, cs_resource = resource, cs_slot = v, cs_owner_id = None,
                            cs_fence = 1, cs_expires_at = None, cs_protected_until = None,
                            cs_release_required = False\<rparr>, True)))"

definition reserve_args_ok :: "string \<Rightarrow> string \<Rightarrow> int \<Rightarrow> int \<Rightarrow> int option \<Rightarrow> bool" where
  "reserve_args_ok resource owner limit ttl hold \<longleftrightarrow>
     name_ok resource \<and> integer_ok limit 10000 \<and> integer_ok ttl 86400 \<and>
     (case hold of None \<Rightarrow> True | Some h \<Rightarrow> integer_ok h 86400 \<and> ttl \<le> h) \<and>
     1 \<le> length owner \<and> length owner \<le> 128"

definition reserve_capacity ::
    "time \<Rightarrow> string \<Rightarrow> string \<Rightarrow> string \<Rightarrow> int \<Rightarrow> int \<Rightarrow> int option \<Rightarrow> bool \<Rightarrow> 'a coord_db_scheme
     \<Rightarrow> (capacity_lease option \<times> 'a coord_db_scheme) result" where
  "reserve_capacity now new_id resource owner limit ttl hold release_required db =
     (if \<not> reserve_args_ok resource owner limit ttl hold then Inl ValueError
      else bindr (lock_capacity_resource resource limit db) (\<lambda>(policy, db1).
        let hold_seconds = (case hold of None \<Rightarrow> ttl | Some h \<Rightarrow> h);
            rows = resource_slots db1 resource;
            busy = filter (busy_slot now) rows
        in if cr_capacity_limit policy \<noteq> limit \<and> busy \<noteq> [] then Inl ValueError
        else let db2 = (if cr_capacity_limit policy \<noteq> limit
               then db1\<lparr>resources := put_by cr_resource (policy\<lparr>cr_capacity_limit := limit\<rparr>) (resources db1)\<rparr>
               else db1)
        in if limit \<le> int (length busy) then Inr (None, db2)
        else bindr (pick_slot new_id resource limit now rows) (\<lambda>(row, fresh).
          let row' = occupy now owner ttl hold_seconds release_required row
          in Inr (Some (slot_lease row' owner (now + seconds ttl)),
                  db2\<lparr>slots := (if fresh then slots db2 @ [row'] else put_by cs_id row' (slots db2))\<rparr>))))"

text \<open>
  \<open>_owned\<close>: \<open>completed\<close> is the provider's acknowledgement, which ignores expiry and needs a
  protected slot; \<open>current_identity\<close> accepts a token that has been renewed since.
\<close>

definition owned ::
    "time \<Rightarrow> bool \<Rightarrow> bool \<Rightarrow> capacity_lease \<Rightarrow> 'a coord_db_scheme \<Rightarrow> capacity_slot result" where
  "owned now completed current_identity lease db =
     bindr (resource_row db (cl_resource lease)) (\<lambda>_.
       case get_by cs_id (cl_id lease) (slots db) of
         None \<Rightarrow> Inl CoordinationOwnershipLost
       | Some row \<Rightarrow>
          (case cs_expires_at row of
             None \<Rightarrow> Inl CoordinationOwnershipLost
           | Some expires \<Rightarrow>
              if cs_resource row \<noteq> cl_resource lease \<or> cs_owner_id row \<noteq> Some (cl_owner_id lease)
                 \<or> cs_fence row \<noteq> cl_fence lease
                 \<or> \<not> completed \<and> (\<not> current_identity \<and> expires \<noteq> cl_expires_at lease \<or> expires \<le> now)
                 \<or> completed \<and> \<not> cs_release_required row
              then Inl CoordinationOwnershipLost
              else Inr row))"

definition assert_capacity_live :: "time \<Rightarrow> capacity_lease \<Rightarrow> 'a coord_db_scheme \<Rightarrow> unit result" where
  "assert_capacity_live now lease db = bindr (owned now False True lease db) (\<lambda>_. Inr ())"

definition max_time :: "time option \<Rightarrow> time \<Rightarrow> time" where
  "max_time t x = (case t of None \<Rightarrow> x | Some y \<Rightarrow> max y x)"

definition renew_capacity ::
    "time \<Rightarrow> capacity_lease \<Rightarrow> int \<Rightarrow> 'a coord_db_scheme \<Rightarrow> (capacity_lease \<times> 'a coord_db_scheme) result" where
  "renew_capacity now lease ttl db =
     (if \<not> integer_ok ttl 86400 then Inl ValueError
      else bindr (owned now False False lease db) (\<lambda>row.
        let expires = now + seconds ttl;
            row' = row\<lparr>cs_expires_at := Some expires,
                       cs_protected_until := Some (max_time (cs_protected_until row) expires)\<rparr>
        in Inr (slot_lease row' (cl_owner_id lease) expires,
                db\<lparr>slots := put_by cs_id row' (slots db)\<rparr>)))"

definition vacate :: "capacity_slot \<Rightarrow> capacity_slot" where
  "vacate row = row\<lparr>cs_owner_id := None, cs_expires_at := None, cs_protected_until := None,
                    cs_release_required := False\<rparr>"

definition release_capacity ::
    "time \<Rightarrow> capacity_lease \<Rightarrow> 'a coord_db_scheme \<Rightarrow> 'a coord_db_scheme result" where
  "release_capacity now lease db =
     bindr (owned now False False lease db) (\<lambda>row.
       if cs_release_required row then Inl ValueError
       else Inr (db\<lparr>slots := put_by cs_id (vacate row) (slots db)\<rparr>))"

definition complete_capacity ::
    "time \<Rightarrow> capacity_lease \<Rightarrow> 'a coord_db_scheme \<Rightarrow> 'a coord_db_scheme result" where
  "complete_capacity now lease db =
     bindr (owned now True False lease db) (\<lambda>row.
       Inr (db\<lparr>slots := put_by cs_id (vacate row) (slots db)\<rparr>))"

subsection \<open>Rate limit and configuration revisions\<close>

text \<open>\<open>sha256\<close> is the digest of the key; nothing below depends on which function it is.\<close>

definition rate_events :: "rate_event list \<Rightarrow> string \<Rightarrow> rate_event list" where
  "rate_events evs key_hash = filter (\<lambda>e. re_key_hash e = key_hash) evs"

definition consume_rate ::
    "(string \<Rightarrow> string) \<Rightarrow> time \<Rightarrow> string \<Rightarrow> string \<Rightarrow> int \<Rightarrow> int \<Rightarrow> int \<Rightarrow> 'a coord_db_scheme
     \<Rightarrow> (bool \<times> 'a coord_db_scheme) result" where
  "consume_rate sha256 now new_id key limit window weight db =
     (if \<not> integer_ok limit 10000 \<or> \<not> integer_ok window 86400 \<or> \<not> integer_ok weight 10000
         \<or> \<not> (1 \<le> length key \<and> length key \<le> 512) then Inl ValueError
      else let key_hash = sha256 key;
               db1 = (case get_by rb_key_hash key_hash (buckets db) of
                   None \<Rightarrow> db\<lparr>buckets := buckets db @ [\<lparr>rb_key_hash = key_hash,
                              rb_request_limit = limit, rb_window_seconds = window\<rparr>]\<rparr>
                 | Some _ \<Rightarrow> db)
      in case get_by rb_key_hash key_hash (buckets db1) of
           None \<Rightarrow> Inl KeyError
         | Some policy \<Rightarrow>
            let cutoff = now - seconds (rb_window_seconds policy);
                db2 = db1\<lparr>events := delete_where
                        (\<lambda>e. re_key_hash e = key_hash \<and> re_accepted_at e \<le> cutoff) (events db1)\<rparr>;
                count = (\<Sum>e \<leftarrow> rate_events (events db2) key_hash. re_cost e);
                differs = (rb_request_limit policy, rb_window_seconds policy) \<noteq> (limit, window)
            in if differs \<and> count \<noteq> 0 then Inl ValueError
               else let db3 = (if differs
                      then db2\<lparr>buckets := put_by rb_key_hash
                             (policy\<lparr>rb_request_limit := limit, rb_window_seconds := window\<rparr>) (buckets db2)\<rparr>
                      else db2)
               in if limit < count + weight then Inr (False, db3)
               else Inr (True, db3\<lparr>events := events db3
                      @ [\<lparr>re_id = new_id, re_key_hash = key_hash, re_accepted_at = now, re_cost = weight\<rparr>]\<rparr>))"

definition config_revision_of :: "string \<Rightarrow> 'a coord_db_scheme \<Rightarrow> int result" where
  "config_revision_of domain db =
     (if \<not> name_ok domain then Inl ValueError
      else Inr (case get_by cv_domain domain (revisions db) of None \<Rightarrow> 0 | Some r \<Rightarrow> cv_revision r))"

definition bump_config_revision :: "string \<Rightarrow> 'a coord_db_scheme \<Rightarrow> (int \<times> 'a coord_db_scheme) result" where
  "bump_config_revision domain db =
     (if \<not> name_ok domain then Inl ValueError
      else let rows = (case get_by cv_domain domain (revisions db) of
                 None \<Rightarrow> revisions db @ [\<lparr>cv_domain = domain, cv_revision = 0\<rparr>]
               | Some _ \<Rightarrow> revisions db);
               rows' = update_where (\<lambda>r. cv_domain r = domain)
                         (\<lambda>r. r\<lparr>cv_revision := cv_revision r + 1\<rparr>) rows
      in case get_by cv_domain domain rows' of
           None \<Rightarrow> Inl KeyError
         | Some r \<Rightarrow> Inr (cv_revision r, db\<lparr>revisions := rows'\<rparr>))"

subsection \<open>The table invariant\<close>

text \<open>
  Nullable columns of a slot agree, slot numbers of a resource are unique, and every slot
  that is busy lies below the resource's current limit. The bound on the number of busy
  slots follows: they occupy distinct numbers below the limit.
\<close>

definition slot_wf :: "capacity_slot \<Rightarrow> bool" where
  "slot_wf r \<longleftrightarrow> 0 \<le> cs_slot r \<and> 1 \<le> cs_fence r \<and>
     (cs_expires_at r = None \<longleftrightarrow> cs_owner_id r = None) \<and>
     (cs_protected_until r = None \<longleftrightarrow> cs_owner_id r = None) \<and>
     (cs_owner_id r = None \<longrightarrow> \<not> cs_release_required r)"

definition slot_number :: "capacity_slot \<Rightarrow> string \<times> int" where
  "slot_number r = (cs_resource r, cs_slot r)"

definition below_limit :: "'a coord_db_scheme \<Rightarrow> capacity_slot \<Rightarrow> bool" where
  "below_limit db r \<longleftrightarrow>
     (\<exists>p \<in> set (resources db). cr_resource p = cs_resource r \<and> cs_slot r < cr_capacity_limit p)"

definition capacity_inv :: "time \<Rightarrow> 'a coord_db_scheme \<Rightarrow> bool" where
  "capacity_inv now db \<longleftrightarrow>
     unique_key cr_resource (resources db) \<and> unique_key cs_id (slots db) \<and>
     unique_key slot_number (slots db) \<and> (\<forall>r \<in> set (slots db). slot_wf r) \<and>
     (\<forall>r \<in> set (slots db). busy_slot now r \<longrightarrow> below_limit db r)"

lemma busy_slot_antimono: "busy_slot now' r \<Longrightarrow> now \<le> now' \<Longrightarrow> busy_slot now r"
  by (auto simp: busy_slot_def dest: later_antimono)

lemma capacity_inv_time: "capacity_inv now db \<Longrightarrow> now \<le> now' \<Longrightarrow> capacity_inv now' db"
  by (auto simp: capacity_inv_def dest: busy_slot_antimono)

lemma vacate_simps [simp]:
  "cs_id (vacate r) = cs_id r" "slot_number (vacate r) = slot_number r"
  "cs_fence (vacate r) = cs_fence r" "\<not> busy_slot now (vacate r)" "slot_wf r \<Longrightarrow> slot_wf (vacate r)"
  by (auto simp: vacate_def slot_number_def busy_slot_def slot_wf_def)

lemma occupy_simps [simp]:
  "cs_id (occupy now o' ttl hold rr r) = cs_id r" "cs_resource (occupy now o' ttl hold rr r) = cs_resource r"
  "cs_slot (occupy now o' ttl hold rr r) = cs_slot r" "cs_fence (occupy now o' ttl hold rr r) = cs_fence r"
  "cs_owner_id (occupy now o' ttl hold rr r) = Some o'"
  "cs_expires_at (occupy now o' ttl hold rr r) = Some (now + seconds ttl)"
  "cs_release_required (occupy now o' ttl hold rr r) = rr"
  by (simp_all add: occupy_def)

lemma slot_wf_occupy: "0 \<le> cs_slot r \<Longrightarrow> 1 \<le> cs_fence r \<Longrightarrow> slot_wf (occupy now o' ttl hold rr r)"
  by (simp add: slot_wf_def occupy_def)

lemma map_slot_number_put:
  assumes "unique_key cs_id rows" and "row \<in> set rows" and "cs_id row' = cs_id row"
    and "slot_number row' = slot_number row"
  shows "map slot_number (put_by cs_id row' rows) = map slot_number rows"
  unfolding put_by_def
proof (rule update_where_cong_key)
  fix r assume "r \<in> set rows" and "cs_id r = cs_id row'"
  with assms have "r = row" using get_by_unique [OF assms(1)] by (metis option.inject)
  then show "slot_number row' = slot_number r" using assms(4) by simp
qed

lemma capacity_inv_put:
  assumes inv: "capacity_inv now db" and row: "row \<in> set (slots db)"
    and key: "cs_id row' = cs_id row" "slot_number row' = slot_number row"
    and wf: "slot_wf row'" and busy: "busy_slot now row' \<Longrightarrow> below_limit db row'"
  shows "capacity_inv now (db\<lparr>slots := put_by cs_id row' (slots db)\<rparr>)"
proof -
  have u: "unique_key cs_id (slots db)" using inv by (simp add: capacity_inv_def)
  have "map slot_number (put_by cs_id row' (slots db)) = map slot_number (slots db)"
    by (rule map_slot_number_put [OF u row key])
  then show ?thesis
    using inv wf busy by (auto simp: capacity_inv_def unique_key_def below_limit_def dest!: put_by_member)
qed

lemma capacity_inv_append:
  assumes inv: "capacity_inv now db" and "get_by cs_id (cs_id row) (slots db) = None"
    and "get_by slot_number (slot_number row) (slots db) = None"
    and "slot_wf row" and "busy_slot now row \<Longrightarrow> below_limit db row"
  shows "capacity_inv now (db\<lparr>slots := slots db @ [row]\<rparr>)"
  using assms by (auto simp: capacity_inv_def unique_key_append below_limit_def)

lemma owned_SomeD:
  assumes "owned now completed current lease db = Inr row"
  shows "get_by cs_id (cl_id lease) (slots db) = Some row"
    and "row \<in> set (slots db)" and "cs_id row = cl_id lease"
    and "cs_resource row = cl_resource lease" and "cs_owner_id row = Some (cl_owner_id lease)"
    and "cs_fence row = cl_fence lease"
    and "completed \<Longrightarrow> cs_release_required row"
    and "\<not> completed \<Longrightarrow> later (cs_expires_at row) now"
    and "\<not> completed \<Longrightarrow> \<not> current \<Longrightarrow> cs_expires_at row = Some (cl_expires_at lease)"
proof -
  show g: "get_by cs_id (cl_id lease) (slots db) = Some row"
    using assms by (auto simp: owned_def split: option.splits if_splits)
  show "row \<in> set (slots db)" "cs_id row = cl_id lease" using get_by_SomeD [OF g] by auto
qed (use assms in \<open>auto simp: owned_def split: option.splits if_splits\<close>)

lemma owned_busy: "owned now False current lease db = Inr row \<Longrightarrow> busy_slot now row"
  using owned_SomeD [of now False current lease db row] by (auto simp: busy_slot_def)

subsection \<open>Each operation keeps it\<close>

lemma below_limit_resources: "resources db' = resources db \<Longrightarrow> below_limit db' r = below_limit db r"
  by (simp add: below_limit_def)

lemma lock_capacity_resource_inv:
  assumes "lock_capacity_resource resource limit db = Inr (policy, db')" and "capacity_inv now db"
  shows "capacity_inv now db' \<and> policy \<in> set (resources db') \<and> cr_resource policy = resource \<and> slots db' = slots db"
  using assms
  by (auto simp: lock_capacity_resource_def resource_row_def Let_def capacity_inv_def unique_key_append
      below_limit_def get_by_append split: option.splits dest!: get_by_SomeD)

lemma capacity_inv_policy:
  assumes inv: "capacity_inv now db" and p: "policy \<in> set (resources db)"
    and idle: "\<And>r. r \<in> set (slots db) \<Longrightarrow> cs_resource r = cr_resource policy \<Longrightarrow> \<not> busy_slot now r"
  shows "capacity_inv now (db\<lparr>resources := put_by cr_resource (policy\<lparr>cr_capacity_limit := l\<rparr>) (resources db)\<rparr>)"
proof -
  have "below_limit db r \<Longrightarrow> cs_resource r \<noteq> cr_resource policy \<Longrightarrow>
      below_limit (db\<lparr>resources := put_by cr_resource (policy\<lparr>cr_capacity_limit := l\<rparr>) (resources db)\<rparr>) r" for r
    by (auto simp: below_limit_def intro!: bexI [OF _ put_by_keeps])
  with inv idle show ?thesis by (fastforce simp: capacity_inv_def)
qed

lemma pick_slot_cases:
  assumes "pick_slot new_id resource limit now rows = Inr (row, fresh)"
  shows "(\<exists>r \<in> set rows. \<not> fresh \<and> \<not> busy_slot now r \<and> cs_slot r < limit \<and> row = r\<lparr>cs_fence := cs_fence r + 1\<rparr>) \<or>
    (fresh \<and> 0 \<le> cs_slot row \<and> cs_slot row < limit \<and> cs_slot row \<notin> cs_slot ` set rows \<and>
      cs_id row = new_id \<and> cs_resource row = resource \<and> cs_fence row = 1)"
proof (cases "find (\<lambda>r. cs_id r \<notin> set (map cs_id (filter (busy_slot now) rows)) \<and> cs_slot r < limit) rows")
  case (Some r)
  from find_SomeD [OF this] have "r \<in> set rows \<and> \<not> busy_slot now r \<and> cs_slot r < limit" by auto
  moreover from Some assms have "row = r\<lparr>cs_fence := cs_fence r + 1\<rparr> \<and> \<not> fresh"
    by (simp add: pick_slot_def del: set_map)
  ultimately show ?thesis by blast
next
  case None
  with assms obtain v where v: "find (\<lambda>v. v \<notin> set (map cs_slot rows)) [0..limit - 1] = Some v"
    and "fresh" "cs_slot row = v" "cs_id row = new_id" "cs_resource row = resource" "cs_fence row = 1"
    by (auto simp: pick_slot_def simp del: set_map split: option.splits)
  with find_SomeD [OF v] show ?thesis by auto
qed

lemma set_resource_slots [simp]: "set (resource_slots db res) = {r \<in> set (slots db). cs_resource r = res}"
  by (auto simp: resource_slots_def)

lemma reserve_capacityE:
  assumes "reserve_capacity now new_id resource owner limit ttl hold rr db = Inr (res, db')"
    and "capacity_inv now db"
  obtains (full) db2 where "res = None" "db' = db2" "capacity_inv now db2" "slots db2 = slots db"
      "limit \<le> int (length (filter (busy_slot now) (resource_slots db resource)))"
  | (granted) db2 row fresh row' where
      "res = Some (slot_lease row' owner (now + seconds ttl))"
      "row' = occupy now owner ttl (case hold of None \<Rightarrow> ttl | Some h \<Rightarrow> h) rr row"
      "db' = db2\<lparr>slots := (if fresh then slots db2 @ [row'] else put_by cs_id row' (slots db2))\<rparr>"
      "capacity_inv now db2" "slots db2 = slots db"
      "pick_slot new_id resource limit now (resource_slots db resource) = Inr (row, fresh)"
      "\<exists>p \<in> set (resources db2). cr_resource p = resource \<and> cr_capacity_limit p = limit"
      "int (length (filter (busy_slot now) (resource_slots db resource))) < limit"
proof -
  let ?busy = "filter (busy_slot now) (resource_slots db resource)"
  let ?set = "\<lambda>policy db1. if cr_capacity_limit policy \<noteq> limit
      then db1\<lparr>resources := put_by cr_resource (policy\<lparr>cr_capacity_limit := limit\<rparr>) (resources db1)\<rparr> else db1"
  obtain policy db1 where lock: "lock_capacity_resource resource limit db = Inr (policy, db1)"
    using assms(1) by (auto simp: reserve_capacity_def split: if_splits)
  from lock_capacity_resource_inv [OF lock assms(2)]
  have inv1: "capacity_inv now db1" and p: "policy \<in> set (resources db1)" "cr_resource policy = resource"
    and s1: "slots db1 = slots db" by auto
  have rs: "resource_slots db1 resource = resource_slots db resource" by (simp add: resource_slots_def s1)
  define db2 where "db2 = ?set policy db1"
  have idle: "\<not> (cr_capacity_limit policy \<noteq> limit \<and> ?busy \<noteq> [])"
    using assms(1) lock rs by (auto simp: reserve_capacity_def Let_def split: if_splits)
  have inv2: "capacity_inv now db2"
    using inv1 p idle unfolding db2_def
    by (auto intro!: capacity_inv_policy simp: filter_empty_conv s1)
  have s2: "slots db2 = slots db" by (simp add: db2_def s1)
  have p2: "\<exists>p \<in> set (resources db2). cr_resource p = resource \<and> cr_capacity_limit p = limit"
    using p row_in_put_by [of cr_resource "policy\<lparr>cr_capacity_limit := limit\<rparr>" "resources db1"]
    by (auto simp: db2_def intro: rev_bexI)
  show ?thesis
  proof (cases "limit \<le> int (length ?busy)")
    case True
    then have "res = None" "db' = db2" using assms(1) lock rs idle
      by (auto simp: reserve_capacity_def Let_def db2_def split: if_splits)
    with True inv2 s2 show ?thesis by (intro full)
  next
    case False
    then obtain row fresh where pick: "pick_slot new_id resource limit now (resource_slots db resource) = Inr (row, fresh)"
      and "res = Some (slot_lease (occupy now owner ttl (case hold of None \<Rightarrow> ttl | Some h \<Rightarrow> h) rr row) owner (now + seconds ttl))"
      and "db' = db2\<lparr>slots := (if fresh then slots db2 @ [occupy now owner ttl (case hold of None \<Rightarrow> ttl | Some h \<Rightarrow> h) rr row]
             else put_by cs_id (occupy now owner ttl (case hold of None \<Rightarrow> ttl | Some h \<Rightarrow> h) rr row) (slots db2))\<rparr>"
      using assms(1) lock rs idle
      by (auto simp: reserve_capacity_def Let_def db2_def split: if_splits)
    then show ?thesis using False inv2 s2 p2 by (intro granted) auto
  qed
qed

lemma reserve_capacity_inv:
  assumes r: "reserve_capacity now new_id resource owner limit ttl hold rr db = Inr (res, db')"
    and inv: "capacity_inv now db" and new: "get_by cs_id new_id (slots db) = None"
  shows "capacity_inv now db'"
  using r inv
proof (cases rule: reserve_capacityE)
  case full
  then show ?thesis by simp
next
  case (granted db2 row fresh row')
  from granted(2) have same: "cs_id row' = cs_id row" "slot_number row' = slot_number row"
    "cs_resource row' = cs_resource row" "cs_slot row' = cs_slot row"
    by (auto simp: slot_number_def)
  from pick_slot_cases [OF granted(6)] show ?thesis
  proof (elim disjE bexE conjE)
    fix r0 assume r0: "r0 \<in> set (resource_slots db resource)" "\<not> fresh" "\<not> busy_slot now r0"
      "cs_slot r0 < limit" "row = r0\<lparr>cs_fence := cs_fence r0 + 1\<rparr>"
    then have "r0 \<in> set (slots db2)" "cs_resource r0 = resource" using granted(5) by auto
    moreover from this granted(4) have "slot_wf r0" by (simp add: capacity_inv_def)
    ultimately have "capacity_inv now (db2\<lparr>slots := put_by cs_id row' (slots db2)\<rparr>)"
      using r0 granted(2,4,7) same
      by (intro capacity_inv_put [where row = r0])
        (auto simp: slot_number_def below_limit_def slot_wf_def occupy_def)
    then show ?thesis using granted(3) r0(2) by simp
  next
    assume f: fresh "0 \<le> cs_slot row" "cs_slot row < limit" "cs_slot row \<notin> cs_slot ` set (resource_slots db resource)"
      "cs_id row = new_id" "cs_resource row = resource" "cs_fence row = 1"
    then have "get_by slot_number (slot_number row') (slots db2) = None"
      using granted(5) same by (auto simp: get_by_None slot_number_def)
    then have "capacity_inv now (db2\<lparr>slots := slots db2 @ [row']\<rparr>)"
      using f granted(2,4,5,7) same new
      by (intro capacity_inv_append) (auto simp: below_limit_def slot_wf_def occupy_def)
    then show ?thesis using granted(3) f(1) by simp
  qed
qed

lemma renew_capacity_inv:
  assumes "renew_capacity now lease ttl db = Inr (lease', db')" and inv: "capacity_inv now db"
  shows "capacity_inv now db'"
proof -
  from assms(1) obtain row where o: "owned now False False lease db = Inr row"
    and db': "db' = db\<lparr>slots := put_by cs_id (row\<lparr>cs_expires_at := Some (now + seconds ttl),
        cs_protected_until := Some (max_time (cs_protected_until row) (now + seconds ttl))\<rparr>) (slots db)\<rparr>"
    by (auto simp: renew_capacity_def Let_def)
  from owned_SomeD [OF o] owned_busy [OF o] inv
  have "slot_wf row" "below_limit db row" "row \<in> set (slots db)" "cs_owner_id row \<noteq> None"
    by (auto simp: capacity_inv_def)
  then show ?thesis unfolding db'
    by (intro capacity_inv_put [OF inv, where row = row]) (auto simp: slot_number_def slot_wf_def below_limit_def)
qed

lemma vacate_inv:
  "capacity_inv now db \<Longrightarrow> row \<in> set (slots db) \<Longrightarrow> capacity_inv now (db\<lparr>slots := put_by cs_id (vacate row) (slots db)\<rparr>)"
  by (rule capacity_inv_put [where row = row]) (auto simp: capacity_inv_def)

lemma release_capacity_inv:
  "release_capacity now lease db = Inr db' \<Longrightarrow> capacity_inv now db \<Longrightarrow> capacity_inv now db'"
  by (auto simp: release_capacity_def dest: owned_SomeD intro: vacate_inv)

lemma complete_capacity_inv:
  "complete_capacity now lease db = Inr db' \<Longrightarrow> capacity_inv now db \<Longrightarrow> capacity_inv now db'"
  by (auto simp: complete_capacity_def dest: owned_SomeD intro: vacate_inv)

subsection \<open>The bound\<close>

lemma busy_numbers_distinct:
  assumes "capacity_inv now db"
  shows "distinct (map cs_slot (filter (busy_slot now) (resource_slots db res)))"
proof -
  have "distinct (map slot_number (slots db))" using assms by (simp add: capacity_inv_def unique_key_def)
  then have "inj_on slot_number (set (slots db))" "distinct (slots db)"
    by (simp_all add: distinct_map)
  then have "inj_on cs_slot (set (filter (busy_slot now) (resource_slots db res)))"
    and "distinct (filter (busy_slot now) (resource_slots db res))"
    by (auto simp: inj_on_def slot_number_def resource_slots_def order_by_def)
  then show ?thesis by (simp add: distinct_map)
qed

lemma distinct_ints_bounded:
  assumes "distinct xs" and "set xs \<subseteq> {0..<n}"
  shows "int (length xs) \<le> max 0 n"
proof -
  have "length xs = card (set xs)" using assms(1) by (simp add: distinct_card)
  also have "\<dots> \<le> card {0..<n}" using assms(2) by (intro card_mono) auto
  finally show ?thesis by simp
qed

lemma capacity_inv_bound:
  assumes inv: "capacity_inv now db" and p: "p \<in> set (resources db)"
  shows "int (length (filter (busy_slot now) (resource_slots db (cr_resource p)))) \<le> max 0 (cr_capacity_limit p)"
proof -
  let ?busy = "filter (busy_slot now) (resource_slots db (cr_resource p))"
  have "set (map cs_slot ?busy) \<subseteq> {0..<cr_capacity_limit p}"
  proof
    fix v assume "v \<in> set (map cs_slot ?busy)"
    then obtain r where r: "r \<in> set (slots db)" "cs_resource r = cr_resource p" "busy_slot now r" "v = cs_slot r"
      by auto
    then obtain q where q: "q \<in> set (resources db)" "cr_resource q = cr_resource p" "v < cr_capacity_limit q"
      using inv by (auto simp: capacity_inv_def below_limit_def)
    have "q = p" using q(1,2) p inv by (auto simp: capacity_inv_def unique_key_def distinct_map inj_on_def)
    with q r inv show "v \<in> {0..<cr_capacity_limit p}" by (auto simp: capacity_inv_def slot_wf_def)
  qed
  from distinct_ints_bounded [OF busy_numbers_distinct [OF inv] this] show ?thesis by simp
qed

text \<open>With fewer busy slots than the limit a slot is always found, so \<open>next()\<close> never fails.\<close>

lemma pick_slot_finds:
  assumes inv: "capacity_inv now db" and limit: "1 \<le> limit"
    and room: "int (length (filter (busy_slot now) (resource_slots db res))) < limit"
  shows "is_ok (pick_slot new_id res limit now (resource_slots db res))"
proof (rule ccontr)
  let ?rows = "resource_slots db res"
  let ?busy = "filter (busy_slot now) ?rows"
  assume "\<not> is_ok (pick_slot new_id res limit now ?rows)"
  then have free: "find (\<lambda>r. cs_id r \<notin> set (map cs_id ?busy) \<and> cs_slot r < limit) ?rows = None"
    and full: "find (\<lambda>v. v \<notin> set (map cs_slot ?rows)) [0..limit - 1] = None"
    by (auto simp: pick_slot_def simp del: set_map split: option.splits)
  have "{0..<limit} \<subseteq> cs_slot ` set ?busy"
  proof
    fix v assume v: "v \<in> {0..<limit}"
    with full obtain r where r: "r \<in> set ?rows" "cs_slot r = v" by (fastforce simp: find_None_iff)
    with free v obtain b where b: "b \<in> set ?busy" "cs_id b = cs_id r" by (fastforce simp: find_None_iff)
    have "b = r" using b r inv by (auto simp: capacity_inv_def unique_key_def distinct_map inj_on_def)
    with b r show "v \<in> cs_slot ` set ?busy" by auto
  qed
  then have "card {0..<limit} \<le> card (cs_slot ` set ?busy)" by (intro card_mono) auto
  also have "\<dots> \<le> length ?busy" by (meson card_image_le card_length le_trans List.finite_set)
  finally show False using room limit by simp
qed

subsection \<open>Runs\<close>

datatype coord_op =
    Lock string int
  | Reserve string string string int int "int option" bool
  | Renew capacity_lease int
  | Release capacity_lease
  | Complete capacity_lease
  | Consume string string int int int
  | Bump string

text \<open>One transaction: its writes, or none when it raised.\<close>

definition committed :: "'s \<Rightarrow> 's result \<Rightarrow> 's" where
  "committed db r = (case r of Inl e \<Rightarrow> db | Inr db' \<Rightarrow> db')"

fun coord_exec :: "(string \<Rightarrow> string) \<Rightarrow> time \<Rightarrow> coord_op \<Rightarrow> 'a coord_db_scheme \<Rightarrow> 'a coord_db_scheme" where
  "coord_exec sha now (Lock res limit) db = committed db (map_sum id snd (lock_capacity_resource res limit db))"
| "coord_exec sha now (Reserve new_id res owner limit ttl hold rr) db =
     committed db (map_sum id snd (reserve_capacity now new_id res owner limit ttl hold rr db))"
| "coord_exec sha now (Renew lease ttl) db = committed db (map_sum id snd (renew_capacity now lease ttl db))"
| "coord_exec sha now (Release lease) db = committed db (release_capacity now lease db)"
| "coord_exec sha now (Complete lease) db = committed db (complete_capacity now lease db)"
| "coord_exec sha now (Consume new_id key limit window weight) db =
     committed db (map_sum id snd (consume_rate sha now new_id key limit window weight db))"
| "coord_exec sha now (Bump domain) db = committed db (map_sum id snd (bump_config_revision domain db))"

text \<open>\<open>uuid4()\<close> never returns the id of an existing slot.\<close>

fun fresh_op :: "coord_op \<Rightarrow> 'a coord_db_scheme \<Rightarrow> bool" where
  "fresh_op (Reserve new_id res owner limit ttl hold rr) db = (get_by cs_id new_id (slots db) = None)"
| "fresh_op _ db = True"

inductive coord_step ::
    "(string \<Rightarrow> string) \<Rightarrow> time \<times> 'a coord_db_scheme \<Rightarrow> time \<times> 'a coord_db_scheme \<Rightarrow> bool" for sha where
  tick: "now \<le> now' \<Longrightarrow> coord_step sha (now, db) (now', db)"
| exec: "fresh_op op db \<Longrightarrow> coord_step sha (now, db) (now, coord_exec sha now op db)"

inductive_cases coord_stepE: "coord_step sha (now, db) (now', db')"

lemma committed_simps [simp]: "committed db (Inl e) = db" "committed db (Inr db') = db'"
  by (simp_all add: committed_def)

lemma committed_inv:
  "P db \<Longrightarrow> (\<And>db'. r = Inr db' \<Longrightarrow> P db') \<Longrightarrow> P (committed db r)"
  by (cases r) auto

lemma map_sum_eq_Inr [simp]: "map_sum id f m = Inr y \<longleftrightarrow> (\<exists>x. m = Inr x \<and> f x = y)"
  by (cases m) auto

lemma capacity_inv_slots: "slots db' = slots db \<Longrightarrow> resources db' = resources db \<Longrightarrow> capacity_inv now db' = capacity_inv now db"
  by (simp add: capacity_inv_def below_limit_def)

lemma lock_capacity_resource_slots:
  "lock_capacity_resource res limit db = Inr (p, db') \<Longrightarrow> slots db' = slots db"
  by (auto simp: lock_capacity_resource_def Let_def split: option.splits if_splits)

lemma consume_rate_slots:
  "consume_rate sha now i key l w c db = Inr (ok, db') \<Longrightarrow> slots db' = slots db \<and> resources db' = resources db"
  by (auto simp: consume_rate_def Let_def split: option.splits if_splits)

lemma bump_config_revision_slots:
  "bump_config_revision d db = Inr (n, db') \<Longrightarrow> slots db' = slots db \<and> resources db' = resources db"
  by (auto simp: bump_config_revision_def Let_def split: option.splits if_splits)

lemma coord_exec_inv: "fresh_op op db \<Longrightarrow> capacity_inv now db \<Longrightarrow> capacity_inv now (coord_exec sha now op db)"
proof -
  assume fresh: "fresh_op op db" and inv: "capacity_inv now db"
  note keep = committed_inv [where P = "capacity_inv now", OF inv]
  show ?thesis
  proof (cases op)
    case (Lock res limit)
    then show ?thesis by (auto intro!: keep dest: lock_capacity_resource_inv [OF _ inv])
  next
    case (Reserve new_id res owner limit ttl hold rr)
    with fresh show ?thesis by (auto intro!: keep dest: reserve_capacity_inv [OF _ inv])
  next
    case (Renew lease ttl)
    then show ?thesis by (auto intro!: keep dest: renew_capacity_inv [OF _ inv])
  next
    case (Release lease)
    then show ?thesis by (auto intro!: keep dest: release_capacity_inv [OF _ inv])
  next
    case (Complete lease)
    then show ?thesis by (auto intro!: keep dest: complete_capacity_inv [OF _ inv])
  next
    case (Consume new_id key limit window weight)
    with inv show ?thesis by (auto intro!: keep dest!: consume_rate_slots intro: capacity_inv_slots [THEN iffD2, OF _ _ inv])
  next
    case (Bump d)
    with inv show ?thesis by (auto intro!: keep dest!: bump_config_revision_slots intro: capacity_inv_slots [THEN iffD2, OF _ _ inv])
  qed
qed

definition timed_capacity_inv :: "time \<times> 'a coord_db_scheme \<Rightarrow> bool" where
  "timed_capacity_inv s = capacity_inv (fst s) (snd s)"

interpretation coord: invariant_system "coord_step sha" timed_capacity_inv
  by unfold_locales
    (auto simp: timed_capacity_inv_def elim!: coord_step.cases intro: coord_exec_inv capacity_inv_time)

subsection \<open>Fencing\<close>

definition slot_fence :: "string \<Rightarrow> capacity_slot list \<Rightarrow> int" where
  "slot_fence i rows = (case get_by cs_id i rows of None \<Rightarrow> 0 | Some r \<Rightarrow> cs_fence r)"

definition lease_accepted :: "time \<Rightarrow> capacity_lease \<Rightarrow> 'a coord_db_scheme \<Rightarrow> bool" where
  "lease_accepted now lease db \<longleftrightarrow>
     is_ok (owned now True False lease db) \<or> is_ok (owned now False True lease db)"

lemma owned_accepted: "owned now completed current lease db = Inr row \<Longrightarrow> lease_accepted now lease db"
  unfolding lease_accepted_def is_ok_iff owned_def
  by (cases completed) (auto split: option.splits if_splits)

lemma owned_fence: "owned now completed current lease db = Inr row \<Longrightarrow> slot_fence (cl_id lease) (slots db) = cl_fence lease"
  using owned_SomeD(1,6) [of now completed current lease db row] by (simp add: slot_fence_def)

lemma lease_accepted_fence: "lease_accepted now lease db \<Longrightarrow> slot_fence (cl_id lease) (slots db) = cl_fence lease"
  by (auto simp: lease_accepted_def is_ok_iff intro: owned_fence)

lemma slot_fence_put:
  assumes "unique_key cs_id rows" and "row \<in> set rows" and "cs_id row' = cs_id row" and "cs_fence row \<le> cs_fence row'"
  shows "slot_fence i rows \<le> slot_fence i (put_by cs_id row' rows)"
  using assms get_by_unique [OF assms(1), of "cs_id row" row]
  by (auto simp: slot_fence_def get_by_put_by split: option.splits)

lemma slot_fence_put_owned:
  "owned now completed current lease db = Inr row \<Longrightarrow> unique_key cs_id (slots db) \<Longrightarrow> cs_id row' = cs_id row \<Longrightarrow>
   cs_fence row \<le> cs_fence row' \<Longrightarrow> slot_fence i (slots db) \<le> slot_fence i (put_by cs_id row' (slots db))"
  by (rule slot_fence_put) (auto dest: owned_SomeD)

lemma slot_fence_append:
  "get_by cs_id (cs_id row) rows = None \<Longrightarrow> 0 \<le> cs_fence row \<Longrightarrow> slot_fence i rows \<le> slot_fence i (rows @ [row])"
  by (auto simp: slot_fence_def get_by_append split: option.splits)

lemma reserve_capacity_fence:
  assumes r: "reserve_capacity now new_id resource owner limit ttl hold rr db = Inr (res, db')"
    and inv: "capacity_inv now db" and new: "get_by cs_id new_id (slots db) = None"
  shows "slot_fence i (slots db) \<le> slot_fence i (slots db')"
  using r inv
proof (cases rule: reserve_capacityE)
  case full
  then show ?thesis by simp
next
  case (granted db2 row fresh row')
  have u: "unique_key cs_id (slots db)" using inv by (simp add: capacity_inv_def)
  from pick_slot_cases [OF granted(6)] granted(2,3,5) new u show ?thesis
    by (auto intro!: slot_fence_put slot_fence_append)
qed

lemma coord_exec_fence:
  assumes fresh: "fresh_op op db" and inv: "capacity_inv now db"
  shows "slot_fence i (slots db) \<le> slot_fence i (slots (coord_exec sha now op db))"
proof -
  note keep = committed_inv [where P = "\<lambda>d. slot_fence i (slots db) \<le> slot_fence i (slots d)", OF order_refl]
  have u: "unique_key cs_id (slots db)" using inv by (simp add: capacity_inv_def)
  show ?thesis
  proof (cases op)
    case (Lock res limit)
    then show ?thesis by (auto intro!: keep dest!: lock_capacity_resource_slots)
  next
    case (Reserve new_id res owner limit ttl hold rr)
    with fresh show ?thesis by (auto intro!: keep dest: reserve_capacity_fence [OF _ inv])
  next
    case (Renew lease ttl)
    then show ?thesis
      by (auto intro!: keep simp: renew_capacity_def Let_def elim!: slot_fence_put_owned [OF _ u])
  next
    case (Release lease)
    then show ?thesis
      by (auto intro!: keep simp: release_capacity_def elim!: slot_fence_put_owned [OF _ u])
  next
    case (Complete lease)
    then show ?thesis
      by (auto intro!: keep simp: complete_capacity_def elim!: slot_fence_put_owned [OF _ u])
  next
    case (Consume new_id key limit window weight)
    then show ?thesis by (auto intro!: keep dest!: consume_rate_slots)
  next
    case (Bump d)
    then show ?thesis by (auto intro!: keep dest!: bump_config_revision_slots)
  qed
qed

interpretation coord_fence: fenced_resource "coord_step sha" timed_capacity_inv
    "\<lambda>s i. slot_fence i (slots (snd s))" "\<lambda>s now lease. lease_accepted now lease (snd s)" cl_id cl_fence
  by unfold_locales
    (auto simp: timed_capacity_inv_def lease_accepted_fence elim!: coord_step.cases intro: coord_exec_fence)

subsection \<open>Protected slots\<close>

text \<open>
  A slot granted with \<open>release_required\<close> stands for a provider call whose outcome is not
  known: neither expiry nor another reservation may reuse it, only the acknowledgement
  that names its owner and fence.
\<close>

definition holds_protected :: "'a coord_db_scheme \<Rightarrow> string \<Rightarrow> string \<Rightarrow> int \<Rightarrow> bool" where
  "holds_protected db i owner fence \<longleftrightarrow>
     (\<exists>r. get_by cs_id i (slots db) = Some r \<and> cs_owner_id r = Some owner \<and> cs_fence r = fence \<and> cs_release_required r)"

lemma holds_protected_slots: "slots db' = slots db \<Longrightarrow> holds_protected db i owner fence \<Longrightarrow> holds_protected db' i owner fence"
  by (simp add: holds_protected_def)

lemma holds_protected_other:
  "holds_protected db i owner fence \<Longrightarrow> cs_id row' \<noteq> i \<Longrightarrow>
   holds_protected (db\<lparr>slots := put_by cs_id row' (slots db)\<rparr>) i owner fence"
  by (simp add: holds_protected_def get_by_put_by)

lemma owned_protected_same:
  assumes "owned now completed current lease db = Inr row" and "holds_protected db (cl_id lease) owner fence"
  shows "cs_release_required row \<and> cl_owner_id lease = owner \<and> cl_fence lease = fence"
  using owned_SomeD [OF assms(1)] assms(2) by (auto simp: holds_protected_def)

lemma holds_protected_put:
  assumes o: "owned now completed current lease db = Inr row" and h: "holds_protected db i owner fence"
    and key: "cs_id row' = cs_id row"
    and same: "cl_id lease = i \<Longrightarrow> cs_owner_id row' = cs_owner_id row \<and> cs_fence row' = cs_fence row \<and>
      cs_release_required row' = cs_release_required row"
  shows "holds_protected (db\<lparr>slots := put_by cs_id row' (slots db)\<rparr>) i owner fence"
proof (cases "cl_id lease = i")
  case True
  with h owned_SomeD(1,3) [OF o] same key show ?thesis by (auto simp: holds_protected_def get_by_put_by)
next
  case False
  with h owned_SomeD(3) [OF o] key show ?thesis by (intro holds_protected_other) auto
qed

lemma reserve_capacity_protected:
  assumes r: "reserve_capacity now new_id resource o' limit ttl hold rr db = Inr (res, db')"
    and inv: "capacity_inv now db" and prot: "holds_protected db i owner fence"
  shows "holds_protected db' i owner fence"
  using r inv
proof (cases rule: reserve_capacityE)
  case full
  with prot show ?thesis by (simp add: holds_protected_def)
next
  case (granted db2 row fresh row')
  from prot obtain p where p: "get_by cs_id i (slots db) = Some p" "cs_owner_id p = Some owner" "cs_release_required p"
    by (auto simp: holds_protected_def)
  then have busy: "busy_slot now p" by (simp add: busy_slot_def)
  have p2: "holds_protected db2 i owner fence" using prot granted(5) by (simp add: holds_protected_def)
  have other: "\<not> fresh \<Longrightarrow> cs_id row' \<noteq> i"
  proof
    assume "\<not> fresh" and same: "cs_id row' = i"
    with pick_slot_cases [OF granted(6)] obtain r where "r \<in> set (slots db)" "\<not> busy_slot now r" "cs_id r = i"
      using granted(2) by auto
    with inv p(1) have "r = p" by (metis capacity_inv_def get_by_unique option.inject)
    with busy \<open>\<not> busy_slot now r\<close> show False by simp
  qed
  show ?thesis
  proof (cases fresh)
    case True
    with p2 granted(3) show ?thesis by (auto simp: holds_protected_def get_by_append)
  next
    case False
    with p2 granted(3) other show ?thesis by (simp add: holds_protected_other)
  qed
qed

lemma coord_exec_protected:
  assumes inv: "capacity_inv now db" and prot: "holds_protected db i owner fence"
    and not_ack: "\<And>lease. op = Complete lease \<Longrightarrow> \<not> (cl_id lease = i \<and> cl_owner_id lease = owner \<and> cl_fence lease = fence)"
  shows "holds_protected (coord_exec sha now op db) i owner fence"
proof -
  note keep = committed_inv [where P = "\<lambda>d. holds_protected d i owner fence", OF prot]
  show ?thesis
  proof (cases op)
    case (Lock res limit)
    then show ?thesis using prot
      by (auto intro!: keep dest!: lock_capacity_resource_slots intro: holds_protected_slots)
  next
    case (Reserve new_id res o' limit ttl hold rr)
    then show ?thesis by (auto intro!: keep dest: reserve_capacity_protected [OF _ inv prot])
  next
    case (Renew lease ttl)
    then show ?thesis using prot
      by (auto intro!: keep holds_protected_put simp: renew_capacity_def Let_def dest: owned_protected_same)
  next
    case (Release lease)
    then show ?thesis using prot
      by (auto intro!: keep holds_protected_put simp: release_capacity_def dest: owned_protected_same)
  next
    case (Complete lease)
    then show ?thesis using prot not_ack [OF Complete]
      by (auto intro!: keep holds_protected_put simp: complete_capacity_def dest: owned_protected_same)
  next
    case (Consume new_id key limit window weight)
    then show ?thesis using prot by (auto intro!: keep dest!: consume_rate_slots intro: holds_protected_slots)
  next
    case (Bump d)
    then show ?thesis using prot by (auto intro!: keep dest!: bump_config_revision_slots intro: holds_protected_slots)
  qed
qed

subsection \<open>The sliding window\<close>

text \<open>
  A run of requests by any callers over any keys; the accepted ones of one key are
  collected with their times and weights.
\<close>

record rate_request =
  rq_now :: time
  rq_id :: string
  rq_key :: string
  rq_limit :: int
  rq_window :: int
  rq_weight :: int

fun rate_run ::
    "(string \<Rightarrow> string) \<Rightarrow> string \<Rightarrow> rate_request list \<Rightarrow> 'a coord_db_scheme \<Rightarrow> (time \<times> int) list" where
  "rate_run sha kh [] db = []"
| "rate_run sha kh (q # qs) db =
     (case consume_rate sha (rq_now q) (rq_id q) (rq_key q) (rq_limit q) (rq_window q) (rq_weight q) db of
        Inl e \<Rightarrow> rate_run sha kh qs db
      | Inr (ok, db') \<Rightarrow>
          (if ok \<and> sha (rq_key q) = kh then [(rq_now q, rq_weight q)] else []) @ rate_run sha kh qs db')"

definition window_sum :: "time \<Rightarrow> (time \<times> int) list \<Rightarrow> time \<Rightarrow> int" where
  "window_sum W H t = (\<Sum>(x, c) \<leftarrow> filter (\<lambda>(x, c). t - W < x \<and> x \<le> t) H. c)"

definition event_pairs :: "rate_event list \<Rightarrow> string \<Rightarrow> (time \<times> int) list" where
  "event_pairs evs kh = map (\<lambda>e. (re_accepted_at e, re_cost e)) (rate_events evs kh)"

definition rate_state :: "string \<Rightarrow> int \<Rightarrow> int \<Rightarrow> (time \<times> int) list \<Rightarrow> time \<Rightarrow> 'a coord_db_scheme \<Rightarrow> bool" where
  "rate_state kh limit window H now db \<longleftrightarrow>
     (case get_by rb_key_hash kh (buckets db) of
        None \<Rightarrow> True | Some b \<Rightarrow> rb_request_limit b = limit \<and> rb_window_seconds b = window) \<and>
     filter (\<lambda>(t, c). now - seconds window < t) (event_pairs (events db) kh) =
       filter (\<lambda>(t, c). now - seconds window < t) H \<and>
     (\<forall>(t, c) \<in> set H. t \<le> now \<and> 0 \<le> c) \<and> (\<forall>t. window_sum (seconds window) H t \<le> limit)"

lemma event_pairs_delete:
  "event_pairs (delete_where (\<lambda>e. re_key_hash e = kh \<and> re_accepted_at e \<le> c) evs) kh =
   filter (\<lambda>(t, w). c < t) (event_pairs evs kh)"
  by (induction evs) (auto simp: event_pairs_def rate_events_def)

lemma event_pairs_delete_other:
  "kh \<noteq> kh' \<Longrightarrow> event_pairs (delete_where (\<lambda>e. re_key_hash e = kh' \<and> re_accepted_at e \<le> c) evs) kh = event_pairs evs kh"
  by (induction evs) (auto simp: event_pairs_def rate_events_def)

lemma event_pairs_append:
  "event_pairs (evs @ [e]) kh =
   event_pairs evs kh @ (if re_key_hash e = kh then [(re_accepted_at e, re_cost e)] else [])"
  by (simp add: event_pairs_def rate_events_def)

lemma sum_rate_events: "(\<Sum>e \<leftarrow> rate_events evs kh. re_cost e) = sum_list (map snd (event_pairs evs kh))"
  by (simp add: event_pairs_def comp_def)

lemma window_sum_map_snd: "window_sum W H t = sum_list (map snd (filter (\<lambda>(x, c). t - W < x \<and> x \<le> t) H))"
  by (simp add: window_sum_def case_prod_beta')

lemma sum_list_filter_mono:
  fixes xs :: "(time \<times> int) list"
  assumes "\<And>x. x \<in> set xs \<Longrightarrow> P x \<Longrightarrow> Q x" and "\<And>x. x \<in> set xs \<Longrightarrow> 0 \<le> snd x"
  shows "sum_list (map snd (filter P xs)) \<le> sum_list (map snd (filter Q xs))"
  using assms by (induction xs) (auto, fastforce+)

lemma window_sum_extend:
  assumes H: "\<forall>(t, c) \<in> set H. t \<le> now \<and> 0 \<le> c" and old: "\<forall>t. window_sum W H t \<le> limit" and w: "0 \<le> w"
    and new: "sum_list (map snd (filter (\<lambda>(t, c). now - W < t) H)) + w \<le> limit"
  shows "window_sum W (H @ [(now, w)]) t \<le> limit"
proof (cases "t < now")
  case True
  then have "window_sum W (H @ [(now, w)]) t = window_sum W H t" by (simp add: window_sum_def)
  with old show ?thesis by simp
next
  case False
  have "sum_list (map snd (filter (\<lambda>(x, c). t - W < x \<and> x \<le> t) H)) \<le>
      sum_list (map snd (filter (\<lambda>(t, c). now - W < t) H))"
    using H False by (intro sum_list_filter_mono) auto
  with new w show ?thesis by (auto simp: window_sum_map_snd)
qed

lemma consume_rate_bucket:
  assumes "consume_rate sha now i key limit window w db = Inr (ok, db')"
  shows "get_by rb_key_hash kh (buckets db') =
    (if sha key = kh then Some \<lparr>rb_key_hash = kh, rb_request_limit = limit, rb_window_seconds = window\<rparr>
     else get_by rb_key_hash kh (buckets db))"
  using assms
  by (auto simp: consume_rate_def Let_def get_by_append get_by_put_by 
      get_by_key [where key = rb_key_hash and k = "sha key" and rows = "buckets db"]
      split: option.splits if_splits intro!: rate_bucket.equality)

lemma consume_rate_events:
  assumes "consume_rate sha now i key limit window w db = Inr (ok, db')"
    and "case get_by rb_key_hash (sha key) (buckets db) of
        None \<Rightarrow> True | Some b \<Rightarrow> rb_request_limit b = limit \<and> rb_window_seconds b = window"
  shows "event_pairs (events db') (sha key) =
      filter (\<lambda>(t, c). now - seconds window < t) (event_pairs (events db) (sha key)) @
      (if ok then [(now, w)] else [])"
    and "ok \<longleftrightarrow> sum_list (map snd (filter (\<lambda>(t, c). now - seconds window < t)
      (event_pairs (events db) (sha key)))) + w \<le> limit"
    and "1 \<le> w \<and> 1 \<le> window"
  using assms
  by (auto simp: consume_rate_def Let_def get_by_append event_pairs_append event_pairs_delete sum_rate_events
      integer_ok_def split: option.splits if_splits dest!: get_by_SomeD)

lemma consume_rate_other:
  assumes "consume_rate sha now i key limit window w db = Inr (ok, db')" and "sha key \<noteq> kh"
  shows "event_pairs (events db') kh = event_pairs (events db) kh"
  using assms
  by (auto simp: consume_rate_def Let_def event_pairs_append event_pairs_delete_other split: option.splits if_splits)

text \<open>The requests of a run that name the key: they agree on the policy and their clocks do not go back.\<close>

definition same_policy :: "(string \<Rightarrow> string) \<Rightarrow> string \<Rightarrow> int \<Rightarrow> int \<Rightarrow> rate_request list \<Rightarrow> bool" where
  "same_policy sha kh limit window qs =
     list_all (\<lambda>q. sha (rq_key q) = kh \<longrightarrow> rq_limit q = limit \<and> rq_window q = window) qs"

lemma filter_window_later:
  "now \<le> now' \<Longrightarrow> filter (\<lambda>(t, c). now' - W < (t::int)) (filter (\<lambda>(t, c). now - W < t) H) = filter (\<lambda>(t, c). now' - W < t) H"
  by (induction H) auto

lemma rate_state_request:
  assumes st: "rate_state kh limit window H now db" and t: "now \<le> now'" and w: "0 < window"
    and c: "consume_rate sha now' i key limit window wt db = Inr (ok, db')" and k: "sha key = kh"
  shows "rate_state kh limit window (H @ (if ok then [(now', wt)] else [])) now' db'"
proof -
  from st k have pol: "case get_by rb_key_hash (sha key) (buckets db) of
      None \<Rightarrow> True | Some b \<Rightarrow> rb_request_limit b = limit \<and> rb_window_seconds b = window"
    by (simp add: rate_state_def)
  let ?F = "filter (\<lambda>(t, c). now - seconds window < t)"
  let ?F' = "filter (\<lambda>(t, c). now' - seconds window < t)"
  have "?F' (event_pairs (events db) kh) = ?F' (?F (event_pairs (events db) kh))"
    by (simp add: filter_window_later [OF t] del: filter_filter)
  also have "\<dots> = ?F' (?F H)" using st by (simp add: rate_state_def)
  finally have ev: "?F' (event_pairs (events db) (sha key)) = ?F' H" using k by (simp add: filter_window_later [OF t] del: filter_filter)
  from st have H: "\<forall>(t, c) \<in> set H. t \<le> now \<and> 0 \<le> c" and old: "\<forall>t. window_sum (seconds window) H t \<le> limit"
    by (auto simp: rate_state_def)
  from H t have H': "\<forall>(t, c) \<in> set H. t \<le> now' \<and> 0 \<le> c" by fastforce
  note e = consume_rate_events [OF c pol, unfolded ev]
  have "\<forall>t. window_sum (seconds window) (H @ (if ok then [(now', wt)] else [])) t \<le> limit"
    using e(2,3) old window_sum_extend [OF H' old] by auto
  then show ?thesis
    using consume_rate_bucket [OF c, of kh] e(1,3) H' k w by (auto simp: rate_state_def)
qed

lemma rate_state_keep:
  assumes st: "rate_state kh limit window H now db" and t: "now \<le> now'"
    and b: "get_by rb_key_hash kh (buckets db') = get_by rb_key_hash kh (buckets db)"
    and e: "event_pairs (events db') kh = event_pairs (events db) kh"
  shows "rate_state kh limit window H now' db'"
proof -
  let ?F = "filter (\<lambda>(t, c). now - seconds window < t)"
  let ?F' = "filter (\<lambda>(t, c). now' - seconds window < t)"
  have "?F' (event_pairs (events db') kh) = ?F' (?F (event_pairs (events db) kh))"
    by (simp add: filter_window_later [OF t] e del: filter_filter)
  also have "\<dots> = ?F' (?F H)" using st by (simp add: rate_state_def)
  finally have "?F' (event_pairs (events db') kh) = ?F' H" by (simp add: filter_window_later [OF t] del: filter_filter)
  with st b t show ?thesis by (fastforce simp: rate_state_def)
qed

lemma rate_run_window:
  assumes "rate_state kh limit window H now db" and "0 < window"
    and "same_policy sha kh limit window qs" and "sorted (now # map rq_now qs)"
  shows "window_sum (seconds window) (H @ rate_run sha kh qs db) t \<le> limit"
  using assms
proof (induction qs arbitrary: H now db)
  case Nil
  then show ?case by (simp add: rate_state_def)
next
  case (Cons q qs)
  note st = Cons.prems(1)
  have t: "now \<le> rq_now q" and rest: "same_policy sha kh limit window qs" "sorted (rq_now q # map rq_now qs)"
    using Cons.prems(3,4) by (auto simp: same_policy_def)
  show ?case
  proof (cases "consume_rate sha (rq_now q) (rq_id q) (rq_key q) (rq_limit q) (rq_window q) (rq_weight q) db")
    case (Inl e)
    have "rate_state kh limit window H (rq_now q) db" using st t by (rule rate_state_keep) simp_all
    with Cons.IH [OF _ \<open>0 < window\<close> rest] Inl show ?thesis by simp
  next
    case (Inr r)
    obtain ok db' where c: "consume_rate sha (rq_now q) (rq_id q) (rq_key q) (rq_limit q) (rq_window q) (rq_weight q) db = Inr (ok, db')"
      using Inr by (cases r) auto
    show ?thesis
    proof (cases "sha (rq_key q) = kh")
      case True
      with Cons.prems(3) have p: "rq_limit q = limit" "rq_window q = window" by (auto simp: same_policy_def)
      have "rate_state kh limit window (H @ (if ok then [(rq_now q, rq_weight q)] else [])) (rq_now q) db'"
        using st t \<open>0 < window\<close> c [unfolded p] True by (rule rate_state_request)
      from Cons.IH [OF this \<open>0 < window\<close> rest] c True show ?thesis by simp
    next
      case False
      have "rate_state kh limit window H (rq_now q) db'"
        using st t by (rule rate_state_keep) (simp_all add: consume_rate_bucket [OF c] consume_rate_other [OF c False] False)
      from Cons.IH [OF this \<open>0 < window\<close> rest] c False show ?thesis by simp
    qed
  qed
qed

subsection \<open>What a reservation decides\<close>

definition policy_free :: "time \<Rightarrow> string \<Rightarrow> int \<Rightarrow> 'a coord_db_scheme \<Rightarrow> bool" where
  "policy_free now resource limit db \<longleftrightarrow>
     (case get_by cr_resource resource (resources db) of None \<Rightarrow> True
      | Some p \<Rightarrow> cr_capacity_limit p = limit \<or> filter (busy_slot now) (resource_slots db resource) = [])"

lemma lock_capacity_resource_ok:
  assumes "name_ok resource" and "integer_ok limit 10000"
  obtains policy db1 where "lock_capacity_resource resource limit db = Inr (policy, db1)"
    and "slots db1 = slots db" and "get_by cr_resource resource (resources db1) = Some policy"
    and "get_by cr_resource resource (resources db) = None \<Longrightarrow> cr_capacity_limit policy = limit"
    and "\<And>q. get_by cr_resource resource (resources db) = Some q \<Longrightarrow> policy = q"
  using assms that
  by (fastforce simp: lock_capacity_resource_def resource_row_def Let_def get_by_append split: option.splits)

lemma reserve_capacity_ok:
  assumes inv: "capacity_inv now db" and args: "reserve_args_ok resource owner limit ttl hold"
    and pol: "policy_free now resource limit db"
  shows "is_ok (reserve_capacity now new_id resource owner limit ttl hold rr db)"
proof -
  obtain policy db1 where l: "lock_capacity_resource resource limit db = Inr (policy, db1)" "slots db1 = slots db"
    and p: "get_by cr_resource resource (resources db) = None \<Longrightarrow> cr_capacity_limit policy = limit"
      "\<And>q. get_by cr_resource resource (resources db) = Some q \<Longrightarrow> policy = q"
    using args by (auto simp: reserve_args_ok_def elim: lock_capacity_resource_ok [of resource limit db])
  have rs: "resource_slots db1 resource = resource_slots db resource" by (simp add: resource_slots_def l)
  have ok: "\<not> (cr_capacity_limit policy \<noteq> limit \<and> filter (busy_slot now) (resource_slots db resource) \<noteq> [])"
    using pol p by (auto simp: policy_free_def split: option.splits)
  have find: "int (length (filter (busy_slot now) (resource_slots db resource))) < limit \<Longrightarrow>
      \<exists>x. pick_slot new_id resource limit now (resource_slots db resource) = Inr x"
    using pick_slot_finds [OF inv, of limit resource new_id] args
    by (auto simp: reserve_args_ok_def integer_ok_def is_ok_iff)
  show ?thesis
  proof (cases "limit \<le> int (length (filter (busy_slot now) (resource_slots db resource)))")
    case True
    with args l(1) rs ok show ?thesis by (auto simp: reserve_capacity_def Let_def)
  next
    case False
    with find obtain x where "pick_slot new_id resource limit now (resource_slots db resource) = Inr x" by auto
    with args l(1) rs ok False show ?thesis by (cases x) (auto simp: reserve_capacity_def Let_def)
  qed
qed

lemma pick_slot_resource:
  "pick_slot new_id resource limit now (resource_slots db resource) = Inr (row, fresh) \<Longrightarrow> cs_resource row = resource"
  by (drule pick_slot_cases) auto

lemma granted_live:
  assumes r: "reserve_capacity now new_id resource owner limit ttl hold rr db = Inr (Some lease, db')"
    and inv: "capacity_inv now db" and new: "get_by cs_id new_id (slots db) = None" and ttl: "0 < ttl"
  shows "assert_capacity_live now lease db' = Inr () \<and> slot_fence (cl_id lease) (slots db) < cl_fence lease"
  using r inv
proof (cases rule: reserve_capacityE)
  case full
  then show ?thesis by simp
next
  case (granted db2 row fresh row')
  have res: "cs_resource row = resource" by (rule pick_slot_resource [OF granted(6)])
  obtain p where "p \<in> set (resources db2)" "cr_resource p = resource" using granted(7) by auto
  then have p: "get_by cr_resource resource (resources db2) \<noteq> None" by (auto simp: get_by_None)
  have lease: "lease = slot_lease row' owner (now + seconds ttl)" using granted(1) by simp
  have u: "unique_key cs_id (slots db)" using inv by (simp add: capacity_inv_def)
  have g: "get_by cs_id (cs_id row') (slots db') = Some row' \<and> slot_fence (cs_id row') (slots db) < cs_fence row'"
  proof (cases fresh)
    case True
    with pick_slot_cases [OF granted(6)] have "cs_id row = new_id" "cs_fence row = 1" by auto
    with True granted(2,3,5) new show ?thesis by (simp add: get_by_append slot_fence_def)
  next
    case False
    with pick_slot_cases [OF granted(6)] obtain r where "r \<in> set (slots db)" "row = r\<lparr>cs_fence := cs_fence r + 1\<rparr>" by auto
    with get_by_unique [OF u, of "cs_id r" r] granted(2,3,5) False show ?thesis
      by (simp add: get_by_put_by slot_fence_def)
  qed
  have row': "cs_resource row' = resource" "cs_owner_id row' = Some owner" "cs_expires_at row' = Some (now + seconds ttl)"
    using granted(2) res by simp_all
  have "resources db' = resources db2" using granted(3) by simp
  with p ttl row' g show ?thesis
    by (auto simp: assert_capacity_live_def owned_def resource_row_def lease slot_lease_def split: option.splits)
qed

lemma lease_not_accepted:
  assumes "\<not> lease_accepted now lease db"
  shows "\<not> is_ok (owned now completed current lease db)"
  using assms by (auto simp: is_ok_iff dest: owned_accepted)

lemma owned_Inl: "owned now completed current lease db = Inl e \<Longrightarrow> e = CoordinationOwnershipLost"
  by (auto simp: owned_def resource_row_def split: option.splits if_splits)

lemma lease_rejected_everywhere:
  assumes "\<not> lease_accepted now lease db"
  shows "assert_capacity_live now lease db = Inl CoordinationOwnershipLost"
    and "integer_ok ttl 86400 \<Longrightarrow> renew_capacity now lease ttl db = Inl CoordinationOwnershipLost"
    and "release_capacity now lease db = Inl CoordinationOwnershipLost"
    and "complete_capacity now lease db = Inl CoordinationOwnershipLost"
proof -
  have o: "owned now completed current lease db = Inl CoordinationOwnershipLost" for completed current
    using lease_not_accepted [OF assms, of completed current] owned_Inl [of now completed current lease db]
    by (cases "owned now completed current lease db") auto
  show "assert_capacity_live now lease db = Inl CoordinationOwnershipLost"
    "integer_ok ttl 86400 \<Longrightarrow> renew_capacity now lease ttl db = Inl CoordinationOwnershipLost"
    "release_capacity now lease db = Inl CoordinationOwnershipLost"
    "complete_capacity now lease db = Inl CoordinationOwnershipLost"
    by (simp_all add: o assert_capacity_live_def renew_capacity_def release_capacity_def complete_capacity_def)
qed

subsection \<open>Executable runs\<close>

fun coord_run :: "(string \<Rightarrow> string) \<Rightarrow> (time \<times> coord_op) list \<Rightarrow> 'a coord_db_scheme \<Rightarrow> 'a coord_db_scheme" where
  "coord_run sha [] db = db"
| "coord_run sha ((now, op) # ops) db = coord_run sha ops (coord_exec sha now op db)"

text \<open>The clock does not go back and every new id is new.\<close>

fun run_ok :: "(string \<Rightarrow> string) \<Rightarrow> time \<Rightarrow> (time \<times> coord_op) list \<Rightarrow> 'a coord_db_scheme \<Rightarrow> bool" where
  "run_ok sha t [] db \<longleftrightarrow> True"
| "run_ok sha t ((now, op) # ops) db \<longleftrightarrow> t \<le> now \<and> fresh_op op db \<and> run_ok sha now ops (coord_exec sha now op db)"

fun last_time :: "time \<Rightarrow> (time \<times> coord_op) list \<Rightarrow> time" where
  "last_time t [] = t"
| "last_time t ((now, op) # ops) = last_time now ops"

lemma coord_run_steps:
  "run_ok sha t ops db \<Longrightarrow> (coord_step sha)\<^sup>*\<^sup>* (t, db) (last_time t ops, coord_run sha ops db)"
proof (induction sha t ops db rule: run_ok.induct)
  case (2 sha t now op ops db)
  then have "coord_step sha (t, db) (now, db)" "coord_step sha (now, db) (now, coord_exec sha now op db)"
    by (auto intro: coord_step.intros)
  with 2 show ?case by (auto intro: converse_rtranclp_into_rtranclp)
qed simp

lemma coord_run_inv: "run_ok sha t ops db \<Longrightarrow> capacity_inv t db \<Longrightarrow> capacity_inv (last_time t ops) (coord_run sha ops db)"
  using coord.steps_inv [OF coord_run_steps] by (simp add: timed_capacity_inv_def)

lemma coord_run_append: "coord_run sha (xs @ ys) db = coord_run sha ys (coord_run sha xs db)"
  by (induction sha xs db rule: coord_run.induct) auto

lemma run_ok_append:
  "run_ok sha t (xs @ ys) db \<longleftrightarrow> run_ok sha t xs db \<and> run_ok sha (last_time t xs) ys (coord_run sha xs db)"
  by (induction sha t xs db rule: run_ok.induct) auto

definition acknowledges :: "string \<Rightarrow> string \<Rightarrow> int \<Rightarrow> coord_op \<Rightarrow> bool" where
  "acknowledges i owner fence op =
     (case op of Complete lease \<Rightarrow> cl_id lease = i \<and> cl_owner_id lease = owner \<and> cl_fence lease = fence | _ \<Rightarrow> False)"

lemma coord_run_protected:
  "run_ok sha t ops db \<Longrightarrow> capacity_inv t db \<Longrightarrow> holds_protected db i owner fence \<Longrightarrow>
   list_all (\<lambda>(_, op). \<not> acknowledges i owner fence op) ops \<Longrightarrow> holds_protected (coord_run sha ops db) i owner fence"
proof (induction sha t ops db rule: run_ok.induct)
  case (2 sha t now op ops db)
  have inv: "capacity_inv now db" using 2 by (auto intro: capacity_inv_time)
  have "capacity_inv now (coord_exec sha now op db)" using 2 inv by (auto intro: coord_exec_inv)
  moreover have "holds_protected (coord_exec sha now op db) i owner fence"
    using 2 inv by (intro coord_exec_protected) (auto simp: acknowledges_def)
  ultimately show ?case using 2 by simp
qed simp

lemma holds_protected_busy: "holds_protected db i owner fence \<Longrightarrow> \<exists>r \<in> set (slots db). cs_id r = i \<and> busy_slot now r"
  by (auto simp: holds_protected_def busy_slot_def dest!: get_by_SomeD)

subsection \<open>Properties\<close>

definition empty_coord :: coord_db where
  "empty_coord = \<lparr>resources = [], slots = [], buckets = [], events = [], revisions = []\<rparr>"

lemma empty_coord_inv [simp]: "capacity_inv now empty_coord"
  by (simp add: capacity_inv_def empty_coord_def unique_key_def)

text \<open>
  Two grants of one slot: the first holder lets its lease run out, so the second grant
  reuses the row.
\<close>

definition example_ops :: "(time \<times> coord_op) list" where
  "example_ops =
     [(0, Reserve ''s1'' ''ocr'' ''w1'' 1 10 None False),
      (1, Reserve ''s2'' ''ocr'' ''w2'' 1 10 None False),
      (seconds 11, Reserve ''s3'' ''ocr'' ''w3'' 1 10 None False)]"

text \<open>
  C1. Whatever interleaving of reservations, renewals, releases and acknowledgements the
  replicas run, at no time does a resource have more busy slots (owned and unexpired,
  still protected, or awaiting acknowledgement) than its capacity limit.
\<close>

theorem capacity_never_exceeded:
  assumes "run_ok sha t ops db" and "capacity_inv t db"
    and "p \<in> set (resources (coord_run sha ops db))" and "last_time t ops \<le> now"
  shows "int (length (filter (busy_slot now) (resource_slots (coord_run sha ops db) (cr_resource p))))
    \<le> max 0 (cr_capacity_limit p)"
  using capacity_inv_bound [OF capacity_inv_time [OF coord_run_inv [OF assms(1,2)] assms(4)] assms(3)] .

theorem capacity_never_exceeded_witness:
  "int (length (filter (busy_slot (seconds 11)) (resource_slots (coord_run id example_ops empty_coord) ''ocr''))) \<le> 1"
proof -
  have "run_ok id 0 example_ops empty_coord" by code_simp
  moreover have "\<lparr>cr_resource = ''ocr'', cr_capacity_limit = 1\<rparr> \<in> set (resources (coord_run id example_ops empty_coord))"
    by code_simp
  moreover have "last_time 0 example_ops \<le> seconds 11" by code_simp
  ultimately show ?thesis using capacity_never_exceeded [OF _ empty_coord_inv] by fastforce
qed

text \<open>
  C2. Fencing: once a slot has been granted again, the token of any earlier holder is
  refused by every operation, then and in every later state, whatever the replicas do.
\<close>

theorem superseded_lease_refused:
  assumes "reserve_capacity now new_id res owner limit ttl hold rr db = Inr (Some new_lease, db1)"
    and "capacity_inv now db" and "get_by cs_id new_id (slots db) = None" and "0 < ttl"
    and "cl_id old = cl_id new_lease" and "cl_fence old \<le> slot_fence (cl_id old) (slots db)"
    and "run_ok sha now ops db1" and "integer_ok ttl' 86400"
  shows "let db2 = coord_run sha ops db1 in
    assert_capacity_live later_now old db2 = Inl CoordinationOwnershipLost \<and>
    renew_capacity later_now old ttl' db2 = Inl CoordinationOwnershipLost \<and>
    release_capacity later_now old db2 = Inl CoordinationOwnershipLost \<and>
    complete_capacity later_now old db2 = Inl CoordinationOwnershipLost"
proof -
  have live: "assert_capacity_live now new_lease db1 = Inr ()"
    and more: "slot_fence (cl_id old) (slots db) < cl_fence new_lease"
    using granted_live [OF assms(1-4)] assms(5) by auto
  from live have "slot_fence (cl_id old) (slots db1) = cl_fence new_lease"
    using assms(5) by (auto simp: assert_capacity_live_def dest: owned_fence)
  with more assms(6) have low: "cl_fence old < slot_fence (cl_id old) (slots (snd (now, db1)))" by simp
  have "timed_capacity_inv (now, db1)"
    using reserve_capacity_inv [OF assms(1-3)] by (simp add: timed_capacity_inv_def)
  from coord_fence.superseded_rejected [OF low coord_run_steps [OF assms(7)] this]
  have "\<not> lease_accepted later_now old (coord_run sha ops db1)" by simp
  from lease_rejected_everywhere [OF this] assms(8) show ?thesis by (simp add: Let_def)
qed

text \<open>The state after the first two requests of the example, and the two tokens it knows.\<close>

definition example_db :: coord_db where
  "example_db = coord_run id (take 2 example_ops) empty_coord"

definition example_old :: capacity_lease where
  "example_old = \<lparr>cl_id = ''s1'', cl_resource = ''ocr'', cl_owner_id = ''w1'', cl_fence = 1, cl_expires_at = seconds 10\<rparr>"

lemma example_db_inv: "capacity_inv (seconds 11) example_db"
proof -
  have "run_ok id 0 (take 2 example_ops) empty_coord" by code_simp
  from coord_run_inv [OF this empty_coord_inv]
  show ?thesis unfolding example_db_def by (rule capacity_inv_time) code_simp
qed

theorem superseded_lease_refused_witness:
  "complete_capacity (seconds 12) example_old (coord_run id [] (coord_exec id (seconds 11) (snd (example_ops ! 2)) example_db))
    = Inl CoordinationOwnershipLost"
proof -
  let ?db1 = "coord_exec id (seconds 11) (snd (example_ops ! 2)) example_db"
  let ?new = "example_old\<lparr>cl_owner_id := ''w3'', cl_fence := 2, cl_expires_at := seconds 21\<rparr>"
  have "reserve_capacity (seconds 11) ''s3'' ''ocr'' ''w3'' 1 10 None False example_db = Inr (Some ?new, ?db1)" by code_simp
  moreover have "get_by cs_id ''s3'' (slots example_db) = None" by code_simp
  moreover have "cl_fence example_old \<le> slot_fence (cl_id example_old) (slots example_db)" by code_simp
  ultimately show ?thesis
    using superseded_lease_refused [OF _ example_db_inv, of "''s3''" "''ocr''" "''w3''" 1 10 None False ?new ?db1 example_old id "[]" 10
        "seconds 12"]
    by (simp add: Let_def integer_ok_def)
qed

text \<open>
  A slot granted with \<open>release_required\<close> (a provider call whose outcome is not known)
  stays with its owner and stays busy at every time, expiry or not, through every run
  that does not contain the acknowledgement naming its owner and fence.
\<close>

theorem unacknowledged_slot_kept:
  assumes "run_ok sha t ops db" and "capacity_inv t db" and "holds_protected db i owner fence"
    and "list_all (\<lambda>(_, op). \<not> acknowledges i owner fence op) ops"
  shows "holds_protected (coord_run sha ops db) i owner fence \<and>
    (\<exists>r \<in> set (slots (coord_run sha ops db)). cs_id r = i \<and> busy_slot now r)"
  using coord_run_protected [OF assms] holds_protected_busy by blast

text \<open>A provider call whose worker disappeared, and another worker that asks a day later.\<close>

definition protected_ops :: "(time \<times> coord_op) list" where
  "protected_ops = [(seconds 90000, Reserve ''s2'' ''llm'' ''w2'' 1 10 None True),
     (seconds 90001, Complete \<lparr>cl_id = ''s1'', cl_resource = ''llm'', cl_owner_id = ''w2'', cl_fence = 1, cl_expires_at = 0\<rparr>)]"

definition protected_db :: coord_db where
  "protected_db = coord_run id [(0, Reserve ''s1'' ''llm'' ''w1'' 1 10 None True)] empty_coord"

theorem unacknowledged_slot_kept_witness:
  "holds_protected (coord_run id protected_ops protected_db) ''s1'' ''w1'' 1"
proof -
  have "run_ok id 0 [(0, Reserve ''s1'' ''llm'' ''w1'' 1 10 None True)] empty_coord" by code_simp
  from coord_run_inv [OF this empty_coord_inv] have "capacity_inv 0 protected_db" by (simp add: protected_db_def)
  moreover have "run_ok id 0 protected_ops protected_db" by code_simp
  moreover have "get_by cs_id ''s1'' (slots protected_db) = Some
      \<lparr>cs_id = ''s1'', cs_resource = ''llm'', cs_slot = 0, cs_owner_id = Some ''w1'', cs_fence = 1,
       cs_expires_at = Some (seconds 10), cs_protected_until = Some (seconds 10), cs_release_required = True\<rparr>"
    by code_simp
  then have "holds_protected protected_db ''s1'' ''w1'' 1" by (simp add: holds_protected_def)
  moreover have "list_all (\<lambda>(_, op). \<not> acknowledges ''s1'' ''w1'' 1 op) protected_ops" by code_simp
  ultimately show ?thesis using unacknowledged_slot_kept by blast
qed

text \<open>
  With valid arguments a reservation never raises (\<open>next()\<close> over the slot numbers always
  finds one), it is refused exactly when the resource has no free slot, and a granted
  token is accepted at once.
\<close>

theorem reservation_outcome:
  assumes "capacity_inv now db" and "reserve_args_ok resource owner limit ttl hold"
    and "policy_free now resource limit db" and "get_by cs_id new_id (slots db) = None"
  shows "\<exists>result db'. reserve_capacity now new_id resource owner limit ttl hold rr db = Inr (result, db') \<and>
    (result = None \<longleftrightarrow> limit \<le> int (length (filter (busy_slot now) (resource_slots db resource)))) \<and>
    (\<forall>lease. result = Some lease \<longrightarrow> assert_capacity_live now lease db' = Inr ())"
proof -
  obtain result db' where r: "reserve_capacity now new_id resource owner limit ttl hold rr db = Inr (result, db')"
    using reserve_capacity_ok [OF assms(1-3), of new_id rr] by (auto simp: is_ok_iff)
  have ttl: "0 < ttl" using assms(2) by (simp add: reserve_args_ok_def integer_ok_def)
  have "result = None \<longleftrightarrow> limit \<le> int (length (filter (busy_slot now) (resource_slots db resource)))"
    using r assms(1) by (cases rule: reserve_capacityE) auto
  with r granted_live [OF _ assms(1,4) ttl] show ?thesis by blast
qed

theorem reservation_outcome_witness:
  "\<exists>result db'. reserve_capacity 0 ''s1'' ''ocr'' ''w1'' 1 10 None False empty_coord = Inr (result, db') \<and> result \<noteq> None"
proof -
  have "reserve_args_ok ''ocr'' ''w1'' 1 10 None" by code_simp
  moreover have "policy_free 0 ''ocr'' 1 empty_coord" by code_simp
  moreover have "get_by cs_id ''s1'' (slots empty_coord) = None" by code_simp
  moreover have "filter (busy_slot 0) (resource_slots empty_coord ''ocr'') = []" by code_simp
  ultimately show ?thesis
    using reservation_outcome [OF empty_coord_inv, of "''ocr''" "''w1''" 1 10 None 0 "''s1''" False] by auto
qed

text \<open>
  C3. The shared rate limit: for every key and every window of the configured length,
  the weights accepted in it add up to at most the limit, for any interleaving of
  requests for this and other keys that agree on the key's policy.
\<close>

theorem rate_limit_holds:
  assumes "get_by rb_key_hash kh (buckets db) = None" and "rate_events (events db) kh = []"
    and "0 < window" and "0 \<le> limit" and "same_policy sha kh limit window qs" and "sorted (map rq_now qs)"
  shows "window_sum (seconds window) (rate_run sha kh qs db) t \<le> limit"
proof (cases qs)
  case Nil
  with assms(4) show ?thesis by (simp add: window_sum_def)
next
  case (Cons q qs')
  have "rate_state kh limit window [] (rq_now q) db"
    using assms(1,2,4) by (simp add: rate_state_def event_pairs_def window_sum_def)
  from rate_run_window [OF this assms(3,5), of t] assms(6) Cons show ?thesis by simp
qed

definition example_requests :: "rate_request list" where
  "example_requests = map (\<lambda>t. \<lparr>rq_now = seconds t, rq_id = ''e'', rq_key = ''k'', rq_limit = 2, rq_window = 60, rq_weight = 1\<rparr>)
     [0, 10, 20, 70]"

theorem rate_limit_holds_witness:
  "rate_run id ''k'' example_requests empty_coord = [(seconds 0, 1), (seconds 10, 1), (seconds 70, 1)] \<and>
   window_sum (seconds 60) (rate_run id ''k'' example_requests empty_coord) (seconds 70) \<le> 2"
proof
  show "rate_run id ''k'' example_requests empty_coord = [(seconds 0, 1), (seconds 10, 1), (seconds 70, 1)]" by code_simp
  have "same_policy id ''k'' 2 60 example_requests" by code_simp
  moreover have "sorted (map rq_now example_requests)" by code_simp
  ultimately show "window_sum (seconds 60) (rate_run id ''k'' example_requests empty_coord) (seconds 70) \<le> 2"
    by (intro rate_limit_holds) (simp_all add: empty_coord_def rate_events_def)
qed

end
