(* ===== verification/Json.thy ===== *)
theory Json
  imports Prelude
begin

text \<open>
  The JSON values the services store in their tables, and \<open>json.dumps\<close> with
  \<open>sort_keys=True, separators=(",", ":")\<close>, which they use to bound and to compare payloads. A
  Python dict is an association list with distinct keys; text is over the characters
  U+0000 to U+00FF and payloads hold no floats.
\<close>

datatype json =
    JNull
  | JBool bool
  | JInt int
  | JStr string
  | JArr "json list"
  | JObj "(string \<times> json) list"

subsection \<open>Access\<close>

fun is_object :: "json \<Rightarrow> bool" where
  "is_object (JObj _) = True"
| "is_object _ = False"

text \<open>\<open>value.get(key)\<close>, None both for a missing key and for a value that is no dict.\<close>

fun json_get :: "string \<Rightarrow> json \<Rightarrow> json option" where
  "json_get k (JObj kvs) = map_of kvs k"
| "json_get k _ = None"

definition get_str :: "string \<Rightarrow> json \<Rightarrow> string option" where
  "get_str k j = (case json_get k j of Some (JStr s) \<Rightarrow> Some s | _ \<Rightarrow> None)"

definition opt_str :: "string option \<Rightarrow> json" where
  "opt_str s = (case s of None \<Rightarrow> JNull | Some t \<Rightarrow> JStr t)"

text \<open>Distinct keys at every level: the association lists that represent a dict.\<close>

fun json_wf :: "json \<Rightarrow> bool" where
  "json_wf (JArr js) = list_all json_wf js"
| "json_wf (JObj kvs) = (distinct (map fst kvs) \<and> list_all json_wf (map snd kvs))"
| "json_wf _ = True"

subsection \<open>Serialisation\<close>

fun nat_digits :: "nat \<Rightarrow> string" where
  "nat_digits n = (if n < 10 then [char_of (48 + n)] else nat_digits (n div 10) @ [char_of (48 + n mod 10)])"

declare nat_digits.simps [simp del]

definition int_text :: "int \<Rightarrow> string" where
  "int_text i = (if i < 0 then CHR ''-'' # nat_digits (nat (- i)) else nat_digits (nat i))"

definition hex_digit :: "nat \<Rightarrow> char" where
  "hex_digit n = (if n < 10 then char_of (48 + n) else char_of (87 + n))"

text \<open>\<open>ensure_ascii\<close>: everything outside the printable ASCII characters is escaped.\<close>

definition escape_char :: "char \<Rightarrow> string" where
  "escape_char c = (let n = of_char c :: nat in
     if c = CHR 0x22 then [CHR 0x5C, CHR 0x22]
     else if c = CHR 0x5C then [CHR 0x5C, CHR 0x5C]
     else if n = 10 then [CHR 0x5C, CHR ''n'']
     else if n = 13 then [CHR 0x5C, CHR ''r'']
     else if n = 9 then [CHR 0x5C, CHR ''t'']
     else if n = 12 then [CHR 0x5C, CHR ''f'']
     else if n = 8 then [CHR 0x5C, CHR ''b'']
     else if 32 \<le> n \<and> n \<le> 126 then [c]
     else [CHR 0x5C, CHR ''u'', CHR ''0'', CHR ''0'', hex_digit (n div 16), hex_digit (n mod 16)])"

definition quote :: "string \<Rightarrow> string" where
  "quote s = CHR 0x22 # concat (map escape_char s) @ [CHR 0x22]"

definition joined :: "string \<Rightarrow> string list \<Rightarrow> string" where
  "joined sep xs = (case xs of [] \<Rightarrow> [] | y # ys \<Rightarrow> y @ concat (map (\<lambda>z. sep @ z) ys))"

fun json_dumps :: "json \<Rightarrow> string" where
  "json_dumps JNull = ''null''"
| "json_dumps (JBool b) = (if b then ''true'' else ''false'')"
| "json_dumps (JInt i) = int_text i"
| "json_dumps (JStr s) = quote s"
| "json_dumps (JArr js) = ''['' @ joined '','' (map json_dumps js) @ '']''"
| "json_dumps (JObj kvs) = ''{'' @ joined '',''
     (map (\<lambda>(k, t). quote k @ '':'' @ t) (sort_key fst (map (map_prod id json_dumps) kvs))) @ ''}''"

text \<open>Two dicts are compared through their canonical text.\<close>

definition same_json :: "json \<Rightarrow> json \<Rightarrow> bool" where
  "same_json a b = (json_dumps a = json_dumps b)"

lemma same_json_refl [simp]: "same_json a a"
  by (simp add: same_json_def)

lemma same_json_sym: "same_json a b \<Longrightarrow> same_json b a"
  by (simp add: same_json_def)

end
