(* ===== verification/Maintenance.thy ===== *)
theory Maintenance
  imports Coordination Json
begin

text \<open>
  \<open>backend/app/services/work/maintenance_control.py\<close>: the write fence of the installation.
  Every transaction of a running process names the epoch the process was bound to; an
  offline operation raises the epoch, so processes that started before it can never
  write again, and it refuses all writers until every one has a receipt.
\<close>

subsection \<open>Rows\<close>

record storage_control =
  sc_installation_id :: string
  sc_active_store_id :: "string option"
  sc_maintenance_token :: "string option"
  sc_migration_id :: "string option"

record storage_migration =
  sm_id :: string
  sm_installation_id :: string
  sm_status :: string
  sm_target_store_id :: "string option"
  sm_plan_hash :: string
  sm_verified_hash :: "string option"

record maintenance_state =
  ms_installation_id :: string
  ms_epoch :: int
  ms_enabled :: bool
  ms_operation_id :: "string option"
  ms_operation_kind :: "string option"
  ms_owner_id :: "string option"
  ms_started_at :: "time option"
  ms_completed_at :: "time option"
  ms_intended_counts :: "(string \<times> int) list"
  ms_writer_receipts :: "(string \<times> string) list"

record maint_db = coord_db +
  maintenance :: "maintenance_state option"
  control :: "storage_control option"
  migrations :: "storage_migration list"
  maint_audit :: "(string \<times> string \<times> int) list"

text \<open>The operator of the running process: \<open>owned\<close> is the outcome of \<open>assert_owned\<close>, \<open>bound\<close> says
  that the session is the one the operator opened on its own connection.\<close>

record maint_operator =
  mo_operation_id :: string
  mo_owner_id :: string
  mo_bound :: bool
  mo_owned :: bool

record runtime_settings =
  rs_installation_id :: "string option"
  rs_epoch :: "int option"

subsection \<open>The write fence\<close>

definition assert_writes_allowed :: "int option \<Rightarrow> bool \<Rightarrow> 'a maint_db_scheme \<Rightarrow> int result" where
  "assert_writes_allowed expected require_installed db =
     (if expected \<noteq> None \<and> the expected < 0 then Inl MaintenanceRefused
      else case maintenance db of
        None \<Rightarrow> if require_installed \<or> expected \<notin> {None, Some 0} then Inl MaintenanceRefused else Inr 0
      | Some row \<Rightarrow>
          if ms_enabled row then Inl MaintenanceRefused
          else if expected = None \<or> Some (ms_epoch row) \<noteq> expected then Inl MaintenanceRefused
          else Inr (ms_epoch row))"

definition bind_runtime_epoch :: "runtime_settings \<Rightarrow> 'a maint_db_scheme \<Rightarrow> (int \<times> runtime_settings) result" where
  "bind_runtime_epoch settings db =
     (case maintenance db of
        None \<Rightarrow> Inl MaintenanceRefused
      | Some row \<Rightarrow>
          if ms_enabled row \<or> (case rs_installation_id settings of None \<Rightarrow> False | Some i \<Rightarrow> ms_installation_id row \<noteq> i)
          then Inl MaintenanceRefused
          else if (case rs_epoch settings of None \<Rightarrow> False | Some previous \<Rightarrow> previous \<noteq> ms_epoch row)
          then Inl MaintenanceRefused
          else Inr (ms_epoch row, settings\<lparr>rs_epoch := Some (ms_epoch row)\<rparr>))"

text \<open>\<open>None\<close> is a process without an operator.\<close>

definition owned_operator :: "maint_operator option \<Rightarrow> bool result" where
  "owned_operator op =
     (case op of None \<Rightarrow> Inr False
      | Some p \<Rightarrow> if \<not> mo_bound p then Inr False
          else if \<not> mo_owned p then Inl MaintenanceRefused else Inr True)"

definition enforce_maintenance ::
    "bool \<Rightarrow> maint_operator option \<Rightarrow> runtime_settings \<Rightarrow> 'a maint_db_scheme \<Rightarrow> unit result" where
  "enforce_maintenance migration_access op settings db =
     (if migration_access then Inr ()
      else bindr (owned_operator op) (\<lambda>owned.
        if owned then Inr ()
        else bindr (assert_writes_allowed (rs_epoch settings) (rs_installation_id settings \<noteq> None) db) (\<lambda>_. Inr ())))"

subsection \<open>Entering and leaving\<close>

definition required_writers :: "string list" where
  "required_writers = [''api'', ''worker'', ''audit_dispatcher'', ''diagnostic_children'',
     ''provider_requests'', ''maintenance_jobs'']"

definition require_operator :: "maint_operator option \<Rightarrow> string \<Rightarrow> maint_operator result" where
  "require_operator op operation_id =
     (case op of None \<Rightarrow> Inl MaintenanceRefused
      | Some p \<Rightarrow> if mo_operation_id p \<noteq> operation_id \<or> \<not> mo_bound p \<or> \<not> mo_owned p
          then Inl MaintenanceRefused else Inr p)"

definition enter_args_ok :: "string \<Rightarrow> (string \<times> int) list \<Rightarrow> bool" where
  "enter_args_ok kind counts \<longleftrightarrow>
     kind \<in> set [''backup'', ''upgrade'', ''restore'', ''migration'', ''recovery''] \<and>
     set (map fst counts) = set [''frontend'', ''api'', ''worker''] \<and>
     list_all (\<lambda>(_, n). 0 \<le> n \<and> n \<le> 64) counts"

definition migration_known :: "storage_control \<Rightarrow> 'a maint_db_scheme \<Rightarrow> bool" where
  "migration_known ctl db =
     (case sc_migration_id ctl of None \<Rightarrow> True
      | Some mid \<Rightarrow> mid = '''' \<or>
         (case get_by sm_id mid (migrations db) of None \<Rightarrow> False
          | Some h \<Rightarrow> sm_installation_id h = sc_installation_id ctl \<and> sm_status h = ''cutover'' \<and>
              sm_target_store_id h = sc_active_store_id ctl \<and> sm_verified_hash h = Some (sm_plan_hash h)))"

definition enter_maintenance ::
    "time \<Rightarrow> maint_operator option \<Rightarrow> string \<Rightarrow> string \<Rightarrow> (string \<times> int) list \<Rightarrow> 'a maint_db_scheme
     \<Rightarrow> (int \<times> 'a maint_db_scheme) result" where
  "enter_maintenance now op operation_id kind counts db =
     bindr (require_operator op operation_id) (\<lambda>p.
       if \<not> enter_args_ok kind counts then Inl MaintenanceRefused
       else case control db of None \<Rightarrow> Inl MaintenanceRefused
       | Some ctl \<Rightarrow>
         if sc_maintenance_token ctl \<notin> {None, Some operation_id} then Inl MaintenanceRefused
         else if \<not> migration_known ctl db then Inl MaintenanceRefused
         else case maintenance db of None \<Rightarrow> Inl MaintenanceRefused
         | Some row \<Rightarrow>
           if ms_installation_id row \<noteq> sc_installation_id ctl then Inl MaintenanceRefused
           else if ms_enabled row then
             (if ms_operation_id row \<noteq> Some operation_id \<or> ms_owner_id row \<noteq> Some (mo_owner_id p)
                 \<or> ms_operation_kind row \<noteq> Some kind \<or> \<not> same_dict (ms_intended_counts row) counts
                 \<or> sc_maintenance_token ctl \<noteq> Some operation_id
              then Inl MaintenanceRefused else Inr (ms_epoch row, db))
           else if ms_operation_id row = Some operation_id then Inl MaintenanceRefused
           else if 2 ^ 63 - 1 \<le> ms_epoch row then Inl MaintenanceRefused
           else if sc_maintenance_token ctl \<noteq> None then Inl MaintenanceRefused
           else let epoch = ms_epoch row + 1;
                    row' = row\<lparr>ms_epoch := epoch, ms_enabled := True, ms_operation_id := Some operation_id,
                      ms_operation_kind := Some kind, ms_owner_id := Some (mo_owner_id p),
                      ms_started_at := Some now, ms_completed_at := None,
                      ms_intended_counts := counts, ms_writer_receipts := []\<rparr>
                in Inr (epoch, db\<lparr>control := Some (ctl\<lparr>sc_maintenance_token := Some operation_id\<rparr>),
                     maintenance := Some row',
                     maint_audit := maint_audit db @ [(''replica_maintenance_enter'', operation_id, epoch)]\<rparr>))"

definition receipts_ok :: "(string \<times> string) list \<Rightarrow> bool" where
  "receipts_ok receipts \<longleftrightarrow> set (map fst receipts) = set required_writers \<and>
     list_all (\<lambda>(_, v). v = ''stopped'' \<or> v = ''drained'') receipts"

definition leave_maintenance ::
    "time \<Rightarrow> maint_operator option \<Rightarrow> string \<Rightarrow> (string \<times> string) list \<Rightarrow> 'a maint_db_scheme
     \<Rightarrow> (int \<times> 'a maint_db_scheme) result" where
  "leave_maintenance now op operation_id receipts db =
     bindr (require_operator op operation_id) (\<lambda>p.
       case maintenance db of None \<Rightarrow> Inl MaintenanceRefused
       | Some row \<Rightarrow>
         if \<not> ms_enabled row \<or> ms_operation_id row \<noteq> Some operation_id \<or> ms_owner_id row \<noteq> Some (mo_owner_id p)
         then Inl MaintenanceRefused
         else case control db of None \<Rightarrow> Inl MaintenanceRefused
         | Some ctl \<Rightarrow>
           if sc_installation_id ctl \<noteq> ms_installation_id row \<or> sc_maintenance_token ctl \<noteq> Some operation_id
           then Inl MaintenanceRefused
           else if \<not> receipts_ok receipts then Inl MaintenanceRefused
           else if \<not> list_all (\<lambda>s. \<not> (cs_resource s = ''llm'' \<and> cs_owner_id s \<noteq> None)) (slots db)
           then Inl MaintenanceRefused
           else Inr (ms_epoch row, db\<lparr>
                  maintenance := Some (row\<lparr>ms_writer_receipts := receipts, ms_enabled := False, ms_completed_at := Some now\<rparr>),
                  control := Some (ctl\<lparr>sc_maintenance_token := None\<rparr>),
                  maint_audit := maint_audit db @ [(''replica_maintenance_leave'', operation_id, ms_epoch row)]\<rparr>))"

subsection \<open>Transactions\<close>

datatype maint_op =
    Enter "maint_operator option" string string "(string \<times> int) list"
  | Leave "maint_operator option" string "(string \<times> string) list"
  | Coord coord_op

fun maint_exec :: "(string \<Rightarrow> string) \<Rightarrow> time \<Rightarrow> maint_op \<Rightarrow> 'a maint_db_scheme \<Rightarrow> 'a maint_db_scheme" where
  "maint_exec sha now (Enter op i kind counts) db =
     committed db (map_sum id snd (enter_maintenance now op i kind counts db))"
| "maint_exec sha now (Leave op i receipts) db =
     committed db (map_sum id snd (leave_maintenance now op i receipts db))"
| "maint_exec sha now (Coord op) db = coord_exec sha now op db"

fun maint_run :: "(string \<Rightarrow> string) \<Rightarrow> (time \<times> maint_op) list \<Rightarrow> 'a maint_db_scheme \<Rightarrow> 'a maint_db_scheme" where
  "maint_run sha [] db = db"
| "maint_run sha ((now, op) # ops) db = maint_run sha ops (maint_exec sha now op db)"

inductive maint_step :: "(string \<Rightarrow> string) \<Rightarrow> 'a maint_db_scheme \<Rightarrow> 'a maint_db_scheme \<Rightarrow> bool" for sha where
  "maint_step sha db (maint_exec sha now op db)"

lemma maint_run_steps: "(maint_step sha)\<^sup>*\<^sup>* db (maint_run sha ops db)"
  by (induction sha ops db rule: maint_run.induct)
    (auto intro: converse_rtranclp_into_rtranclp maint_step.intros)

text \<open>The coordination tables and the maintenance rows do not overlap.\<close>

lemma coord_exec_more [simp]: "coord_db.more (coord_exec sha now op db) = coord_db.more db"
proof (cases op)
  case (Lock res limit)
  then show ?thesis
    by (auto intro!: committed_inv [where P = "\<lambda>d. coord_db.more d = coord_db.more db"]
        simp: lock_capacity_resource_def Let_def split: option.splits if_splits)
next
  case (Reserve new_id res owner limit ttl hold rr)
  then show ?thesis
    by (auto intro!: committed_inv [where P = "\<lambda>d. coord_db.more d = coord_db.more db"]
        simp: reserve_capacity_def lock_capacity_resource_def Let_def split: option.splits if_splits)
next
  case (Renew lease ttl)
  then show ?thesis
    by (auto intro!: committed_inv [where P = "\<lambda>d. coord_db.more d = coord_db.more db"]
        simp: renew_capacity_def Let_def)
next
  case (Release lease)
  then show ?thesis
    by (auto intro!: committed_inv [where P = "\<lambda>d. coord_db.more d = coord_db.more db"] simp: release_capacity_def)
next
  case (Complete lease)
  then show ?thesis
    by (auto intro!: committed_inv [where P = "\<lambda>d. coord_db.more d = coord_db.more db"] simp: complete_capacity_def)
next
  case (Consume new_id key limit window weight)
  then show ?thesis
    by (auto intro!: committed_inv [where P = "\<lambda>d. coord_db.more d = coord_db.more db"]
        simp: consume_rate_def Let_def split: option.splits if_splits)
next
  case (Bump d)
  then show ?thesis
    by (auto intro!: committed_inv [where P = "\<lambda>d. coord_db.more d = coord_db.more db"]
        simp: bump_config_revision_def Let_def split: option.splits if_splits)
qed

lemma maintenance_more: "coord_db.more db' = coord_db.more db \<Longrightarrow> maintenance db' = maintenance db \<and> control db' = control db"
  by (cases db, cases db') simp

lemma coord_exec_maintenance [simp]:
  "maintenance (coord_exec sha now op db) = maintenance db" "control (coord_exec sha now op db) = control db"
  for db :: "'a maint_db_scheme"
  using maintenance_more [OF coord_exec_more, of sha now op db] by simp_all

subsection \<open>Epochs\<close>

definition epoch_of :: "'a maint_db_scheme \<Rightarrow> int" where
  "epoch_of db = (case maintenance db of None \<Rightarrow> 0 | Some row \<Rightarrow> ms_epoch row)"

definition epoch_token :: "int option \<Rightarrow> int" where
  "epoch_token e = (case e of None \<Rightarrow> 0 | Some n \<Rightarrow> n)"

lemma assert_writes_allowed_Inr:
  "assert_writes_allowed e r db = Inr n \<Longrightarrow> epoch_of db = n \<and> epoch_token e = n \<and>
    (case maintenance db of None \<Rightarrow> True | Some row \<Rightarrow> \<not> ms_enabled row \<and> e = Some n)"
  by (auto simp: assert_writes_allowed_def epoch_of_def epoch_token_def split: option.splits if_splits)

lemma enter_maintenance_Inr:
  assumes "enter_maintenance now op i kind counts db = Inr (epoch, db')"
  shows "\<exists>p row row'. op = Some p \<and> mo_operation_id p = i \<and> maintenance db = Some row \<and> maintenance db' = Some row' \<and>
    ms_enabled row' \<and> ms_epoch row' = epoch \<and> ms_operation_id row' = Some i \<and> ms_owner_id row' = Some (mo_owner_id p) \<and>
    (if ms_enabled row then db' = db else epoch = ms_epoch row + 1 \<and> ms_operation_id row \<noteq> Some i) \<and>
    map_option sc_maintenance_token (control db') = Some (Some i)"
  using assms
  by (auto simp: enter_maintenance_def require_operator_def Let_def split: option.splits if_splits)

lemma leave_maintenance_Inr:
  assumes "leave_maintenance now op i receipts db = Inr (epoch, db')"
  shows "\<exists>p row row'. op = Some p \<and> mo_operation_id p = i \<and> maintenance db = Some row \<and> ms_enabled row \<and>
    ms_operation_id row = Some i \<and> ms_owner_id row = Some (mo_owner_id p) \<and> maintenance db' = Some row' \<and>
    \<not> ms_enabled row' \<and> ms_epoch row' = ms_epoch row \<and> epoch = ms_epoch row \<and> receipts_ok receipts \<and>
    (\<forall>s \<in> set (slots db). cs_resource s = ''llm'' \<longrightarrow> cs_owner_id s = None) \<and> slots db' = slots db"
  using assms
  by (auto simp: leave_maintenance_def require_operator_def list_all_iff split: option.splits if_splits)

lemma maint_exec_epoch: "epoch_of db \<le> epoch_of (maint_exec sha now op db)"
proof (cases op)
  case (Enter p i kind counts)
  show ?thesis
    unfolding Enter maint_exec.simps
    by (rule committed_inv) (auto dest!: enter_maintenance_Inr simp: epoch_of_def split: if_splits)
next
  case (Leave p i receipts)
  show ?thesis
    unfolding Leave maint_exec.simps
    by (rule committed_inv) (auto dest!: leave_maintenance_Inr simp: epoch_of_def)
next
  case (Coord c)
  then show ?thesis by (simp add: epoch_of_def)
qed

interpretation maint_fence: fenced_resource "maint_step sha" "\<lambda>_. True" "\<lambda>db _. epoch_of db"
    "\<lambda>db now e. is_ok (assert_writes_allowed e False db)" "\<lambda>_. ()" epoch_token
  by unfold_locales
    (auto simp: is_ok_iff dest: assert_writes_allowed_Inr elim!: maint_step.cases intro: maint_exec_epoch)

lemma assert_writes_allowed_mono: "is_ok (assert_writes_allowed e r db) \<Longrightarrow> is_ok (assert_writes_allowed e False db)"
  by (auto simp: assert_writes_allowed_def split: option.splits if_splits)

lemma assert_writes_allowed_Inl: "\<not> is_ok (assert_writes_allowed e r db) \<Longrightarrow> assert_writes_allowed e r db = Inl MaintenanceRefused"
  by (auto simp: assert_writes_allowed_def split: option.splits if_splits)

lemma retired_epoch_refused:
  assumes "epoch_token e < epoch_of db"
  shows "assert_writes_allowed e r (maint_run sha ops db) = Inl MaintenanceRefused"
proof -
  have "\<not> is_ok (assert_writes_allowed e False (maint_run sha ops db))"
    by (rule maint_fence.superseded_rejected [OF _ maint_run_steps TrueI]) (rule assms)
  then show ?thesis by (auto intro: assert_writes_allowed_Inl dest: assert_writes_allowed_mono)
qed

subsection \<open>The operation in progress\<close>

definition in_operation :: "string \<Rightarrow> string \<Rightarrow> 'a maint_db_scheme \<Rightarrow> bool" where
  "in_operation i owner db \<longleftrightarrow>
     (\<exists>row. maintenance db = Some row \<and> ms_enabled row \<and> ms_operation_id row = Some i \<and> ms_owner_id row = Some owner)"

definition ends_operation :: "string \<Rightarrow> string \<Rightarrow> maint_op \<Rightarrow> bool" where
  "ends_operation i owner op =
     (case op of Leave (Some p) j receipts \<Rightarrow> j = i \<and> mo_owner_id p = owner \<and> mo_operation_id p = i \<and> receipts_ok receipts
      | _ \<Rightarrow> False)"

lemma maint_exec_in_operation:
  assumes inop: "in_operation i owner db" and "\<not> ends_operation i owner op"
  shows "in_operation i owner (maint_exec sha now op db)"
proof (cases op)
  case (Enter p j kind counts)
  show ?thesis
    unfolding Enter maint_exec.simps
    using inop by (rule committed_inv) (use inop in \<open>auto dest!: enter_maintenance_Inr simp: in_operation_def split: if_splits\<close>)
next
  case (Leave p j receipts)
  show ?thesis
    unfolding Leave maint_exec.simps
    using inop by (rule committed_inv)
      (use inop assms(2) in \<open>auto dest!: leave_maintenance_Inr simp: in_operation_def ends_operation_def Leave\<close>)
next
  case (Coord c)
  with inop show ?thesis by (simp add: in_operation_def)
qed

lemma maint_run_in_operation:
  "in_operation i owner db \<Longrightarrow> list_all (\<lambda>(_, op). \<not> ends_operation i owner op) ops \<Longrightarrow>
   in_operation i owner (maint_run sha ops db)"
  by (induction sha ops db rule: maint_run.induct) (auto intro: maint_exec_in_operation)

lemma in_operation_refuses: "in_operation i owner db \<Longrightarrow> assert_writes_allowed e r db = Inl MaintenanceRefused"
  by (auto simp: in_operation_def assert_writes_allowed_def)

subsection \<open>Properties\<close>

definition example_maint :: maint_db where
  "example_maint = coord_db.extend empty_coord
     \<lparr>maintenance = Some \<lparr>ms_installation_id = ''inst'', ms_epoch = 4, ms_enabled = False, ms_operation_id = None,
        ms_operation_kind = None, ms_owner_id = None, ms_started_at = None, ms_completed_at = None,
        ms_intended_counts = [], ms_writer_receipts = []\<rparr>,
      control = Some \<lparr>sc_installation_id = ''inst'', sc_active_store_id = None, sc_maintenance_token = None, sc_migration_id = None\<rparr>,
      migrations = [], maint_audit = []\<rparr>"

definition example_operator :: maint_operator where
  "example_operator = \<lparr>mo_operation_id = ''op1'', mo_owner_id = ''host'', mo_bound = True, mo_owned = True\<rparr>"

definition example_counts :: "(string \<times> int) list" where
  "example_counts = [(''frontend'', 1), (''api'', 2), (''worker'', 2)]"

definition example_receipts :: "(string \<times> string) list" where
  "example_receipts = map (\<lambda>w. (w, ''drained'')) required_writers"

text \<open>
  A process bound to an epoch that a maintenance operation has retired can never write
  again: its transactions are refused then and after any further operations.
\<close>

theorem retired_process_refused:
  assumes "enter_maintenance now op i kind counts db = Inr (epoch, db1)"
    and "epoch_token e < epoch"
  shows "assert_writes_allowed e r (maint_run sha ops db1) = Inl MaintenanceRefused"
proof -
  have "epoch_of db1 = epoch" using enter_maintenance_Inr [OF assms(1)] by (auto simp: epoch_of_def)
  with assms(2) show ?thesis by (intro retired_epoch_refused) simp
qed

theorem retired_process_refused_witness:
  "assert_writes_allowed (Some 4) True (maint_run id [(9, Leave (Some example_operator) ''op1'' example_receipts)]
     (maint_exec id 7 (Enter (Some example_operator) ''op1'' ''backup'' example_counts) example_maint)) = Inl MaintenanceRefused"
proof -
  let ?db1 = "maint_exec id 7 (Enter (Some example_operator) ''op1'' ''backup'' example_counts) example_maint"
  have "enter_maintenance 7 (Some example_operator) ''op1'' ''backup'' example_counts example_maint = Inr (5, ?db1)" by code_simp
  moreover have "epoch_token (Some 4) < 5" by code_simp
  ultimately show ?thesis using retired_process_refused by blast
qed

text \<open>
  C8. From the moment an operation starts until its own owner leaves it with a receipt for
  every writer, no process may write, whatever epoch it names, and no other operation
  can enter.
\<close>

theorem maintenance_excludes_writers:
  assumes "enter_maintenance now (Some p) i kind counts db = Inr (epoch, db1)"
    and "list_all (\<lambda>(_, op). \<not> ends_operation i (mo_owner_id p) op) ops"
  shows "assert_writes_allowed e r (maint_run sha ops db1) = Inl MaintenanceRefused \<and>
    (j \<noteq> i \<longrightarrow> enter_maintenance now' q j kind' counts' (maint_run sha ops db1) = Inl MaintenanceRefused)"
proof -
  have "in_operation i (mo_owner_id p) db1" using enter_maintenance_Inr [OF assms(1)] by (auto simp: in_operation_def)
  then have inop: "in_operation i (mo_owner_id p) (maint_run sha ops db1)" using assms(2) by (rule maint_run_in_operation)
  then show ?thesis
    by (auto simp: in_operation_refuses [OF inop])
      (auto simp: in_operation_def enter_maintenance_def require_operator_def split: option.splits)
qed

theorem maintenance_excludes_writers_witness:
  "assert_writes_allowed (Some 5) True (maint_run id [(8, Leave (Some (example_operator\<lparr>mo_owner_id := ''x''\<rparr>)) ''op1'' example_receipts)]
     (maint_exec id 7 (Enter (Some example_operator) ''op1'' ''backup'' example_counts) example_maint)) = Inl MaintenanceRefused"
proof -
  let ?db1 = "maint_exec id 7 (Enter (Some example_operator) ''op1'' ''backup'' example_counts) example_maint"
  have "enter_maintenance 7 (Some example_operator) ''op1'' ''backup'' example_counts example_maint = Inr (5, ?db1)" by code_simp
  moreover have "list_all (\<lambda>(_, op). \<not> ends_operation ''op1'' (mo_owner_id example_operator) op)
      [(8, Leave (Some (example_operator\<lparr>mo_owner_id := ''x''\<rparr>)) ''op1'' example_receipts)]" by code_simp
  ultimately show ?thesis using maintenance_excludes_writers by blast
qed

text \<open>
  C9. An operation ends only for its owner, only with a stop or drain receipt for every
  writer, and only when no provider request is still tracked; afterwards exactly the
  processes bound to the raised epoch may write.
\<close>

theorem leaving_needs_drained_writers:
  assumes "leave_maintenance now op i receipts db = Inr (epoch, db')"
  shows "receipts_ok receipts \<and> (\<forall>s \<in> set (slots db). cs_resource s = ''llm'' \<longrightarrow> cs_owner_id s = None) \<and>
    (\<exists>p. op = Some p \<and> in_operation i (mo_owner_id p) db) \<and>
    (0 \<le> epoch \<longrightarrow> (\<forall>e. is_ok (assert_writes_allowed e r db') \<longleftrightarrow> e = Some epoch))"
  using leave_maintenance_Inr [OF assms] by (auto simp: in_operation_def assert_writes_allowed_def split: if_splits)

theorem leaving_needs_drained_writers_witness:
  "\<forall>e. is_ok (assert_writes_allowed e True (maint_run id
      [(7, Enter (Some example_operator) ''op1'' ''backup'' example_counts), (9, Leave (Some example_operator) ''op1'' example_receipts)]
      example_maint)) \<longleftrightarrow> e = Some 5"
proof -
  let ?db1 = "maint_exec id 7 (Enter (Some example_operator) ''op1'' ''backup'' example_counts) example_maint"
  let ?db2 = "maint_exec id 9 (Leave (Some example_operator) ''op1'' example_receipts) ?db1"
  have "leave_maintenance 9 (Some example_operator) ''op1'' example_receipts ?db1 = Inr (5, ?db2)" by code_simp
  from leaving_needs_drained_writers [OF this, of True] show ?thesis by simp
qed

end
