(* ===== verification/Work_Store.thy ===== *)
theory Work_Store
  imports Maintenance
begin

text \<open>
  \<open>backend/app/services/work/models.py\<close>, \<open>store.py\<close>, \<open>handlers.py\<close> and \<open>scheduler.py\<close>: the durable
  work ledger. A row is claimed for a lease, its fence rises with every claim, and only
  the claim with the current fence may renew, finish, retry or defer it.
\<close>

subsection \<open>Rows\<close>

datatype work_status = Queued | Running | Succeeded | Failed | Cancelled

record work_spec =
  ws_kind :: string
  ws_version :: int
  ws_payload :: json
  ws_dedupe_key :: string
  ws_doc_id :: "string option"

record work_claim =
  wc_work_id :: string
  wc_owner_id :: string
  wc_fence :: int
  wc_lease_until :: time
  wc_spec :: work_spec
  wc_epoch :: int

record work_item =
  wi_id :: string
  wi_kind :: string
  wi_version :: int
  wi_payload :: json
  wi_dedupe_key :: string
  wi_doc_id :: "string option"
  wi_status :: work_status
  wi_owner_id :: "string option"
  wi_fence :: int
  wi_epoch :: int
  wi_lease_until :: "time option"
  wi_cancel_requested :: bool
  wi_attempts :: int
  wi_available_at :: time
  wi_created_at :: time
  wi_finished_at :: "time option"
  wi_error_code :: "string option"

record work_progress =
  wp_work_id :: string
  wp_version :: int
  wp_input_hash :: string
  wp_state :: json

record work_db = maint_db +
  work_items :: "work_item list"
  progress :: "work_progress list"

subsection \<open>Specifications\<close>

definition code_ok :: "string \<Rightarrow> bool" where
  "code_ok s = fullmatch_head lower_az (lower_az @ digits09 @ ''_'') 63 s"

definition spec_ok :: "work_spec \<Rightarrow> bool" where
  "spec_ok s \<longleftrightarrow> code_ok (ws_kind s) \<and> 1 \<le> ws_version s \<and> ws_version s \<le> 2147483647 \<and>
     1 \<le> length (ws_dedupe_key s) \<and> length (ws_dedupe_key s) \<le> 255 \<and>
     (case ws_doc_id s of None \<Rightarrow> True | Some d \<Rightarrow> 1 \<le> length d \<and> length d \<le> 64) \<and>
     is_object (ws_payload s) \<and> int (length (json_dumps (ws_payload s))) \<le> 65536"

definition make_spec :: "string \<Rightarrow> int \<Rightarrow> json \<Rightarrow> string \<Rightarrow> string option \<Rightarrow> work_spec result" where
  "make_spec kind version payload dedupe_key doc_id =
     (let s = \<lparr>ws_kind = kind, ws_version = version, ws_payload = payload, ws_dedupe_key = dedupe_key, ws_doc_id = doc_id\<rparr>
      in if spec_ok s then Inr s else Inl ValueError)"

definition spec_of_row :: "work_item \<Rightarrow> work_spec result" where
  "spec_of_row r = make_spec (wi_kind r) (wi_version r) (wi_payload r) (wi_dedupe_key r) (wi_doc_id r)"

definition claim_of_row :: "work_item \<Rightarrow> string \<Rightarrow> time \<Rightarrow> work_claim result" where
  "claim_of_row r owner lease = bindr (spec_of_row r) (\<lambda>spec.
     Inr \<lparr>wc_work_id = wi_id r, wc_owner_id = owner, wc_fence = wi_fence r, wc_lease_until = lease,
          wc_spec = spec, wc_epoch = wi_epoch r\<rparr>)"

definition duration_ok :: "int \<Rightarrow> bool" where
  "duration_ok value = (1 \<le> value \<and> value \<le> 3600)"

subsection \<open>Admission of a row\<close>

definition new_item :: "string \<Rightarrow> time \<Rightarrow> work_spec \<Rightarrow> work_item" where
  "new_item i now s = \<lparr>wi_id = i, wi_kind = ws_kind s, wi_version = ws_version s, wi_payload = ws_payload s,
     wi_dedupe_key = ws_dedupe_key s, wi_doc_id = ws_doc_id s, wi_status = Queued, wi_owner_id = None, wi_fence = 0,
     wi_epoch = 0, wi_lease_until = None, wi_cancel_requested = False, wi_attempts = 0, wi_available_at = now,
     wi_created_at = now, wi_finished_at = None, wi_error_code = None\<rparr>"

definition same_request :: "work_item \<Rightarrow> work_spec \<Rightarrow> bool" where
  "same_request r s \<longleftrightarrow> wi_kind r = ws_kind s \<and> wi_version r = ws_version s \<and> wi_doc_id r = ws_doc_id s \<and>
     same_json (wi_payload r) (ws_payload s)"

definition enqueue :: "time \<Rightarrow> string \<Rightarrow> work_spec \<Rightarrow> 'a work_db_scheme \<Rightarrow> (string \<times> 'a work_db_scheme) result" where
  "enqueue now new_id spec0 db =
     bindr (make_spec (ws_kind spec0) (ws_version spec0) (ws_payload spec0) (ws_dedupe_key spec0) (ws_doc_id spec0)) (\<lambda>spec.
       let rows = (case get_by wi_dedupe_key (ws_dedupe_key spec) (work_items db) of
             None \<Rightarrow> work_items db @ [new_item new_id now spec] | Some _ \<Rightarrow> work_items db)
       in case get_by wi_dedupe_key (ws_dedupe_key spec) rows of
            None \<Rightarrow> Inl ValueError
          | Some row \<Rightarrow> if \<not> same_request row spec then Inl ValueError
              else Inr (wi_id row, db\<lparr>work_items := rows\<rparr>))"

subsection \<open>Claiming\<close>

text \<open>
  \<open>unlocked\<close> says which rows \<open>FOR UPDATE SKIP LOCKED\<close> may take: the rows no other transaction
  holds at that moment. \<open>supported\<close> lists the kinds and versions the worker has handlers for.
\<close>

definition reached :: "time option \<Rightarrow> time \<Rightarrow> bool" where
  "reached t now = (case t of None \<Rightarrow> False | Some x \<Rightarrow> x \<le> now)"

definition compatible :: "(string \<times> int list) list \<Rightarrow> work_item \<Rightarrow> bool" where
  "compatible supported r = list_ex (\<lambda>(kind, versions). wi_kind r = kind \<and> wi_version r \<in> set versions) supported"

definition eligible :: "time \<Rightarrow> work_item \<Rightarrow> bool" where
  "eligible now r \<longleftrightarrow> \<not> wi_cancel_requested r \<and> wi_available_at r \<le> now \<and>
     (wi_status r = Queued \<or> wi_status r = Running \<and> reached (wi_lease_until r) now)"

definition abandoned :: "time \<Rightarrow> work_item \<Rightarrow> bool" where
  "abandoned now r \<longleftrightarrow> wi_status r = Running \<and> wi_cancel_requested r \<and> reached (wi_lease_until r) now"

definition close_cancelled :: "time \<Rightarrow> work_item \<Rightarrow> work_item" where
  "close_cancelled now r = r\<lparr>wi_status := Cancelled, wi_finished_at := Some now, wi_owner_id := None, wi_lease_until := None\<rparr>"

definition recover_cancelled :: "(string \<Rightarrow> bool) \<Rightarrow> time \<Rightarrow> work_item list \<Rightarrow> work_item list" where
  "recover_cancelled unlocked now rows =
     (let ids = map wi_id (take 100 (order_by (\<lambda>r. (the (wi_lease_until r), wi_id r))
                  (filter (\<lambda>r. abandoned now r \<and> unlocked (wi_id r)) rows)))
      in update_where (\<lambda>r. wi_id r \<in> set ids \<and> abandoned now r) (close_cancelled now) rows)"

definition mark_unsupported :: "(string \<Rightarrow> bool) \<Rightarrow> (string \<times> int list) list \<Rightarrow> work_item list \<Rightarrow> work_item list" where
  "mark_unsupported unlocked supported rows =
     (let ids = map wi_id (take 100 (order_by (\<lambda>r. (wi_created_at r, wi_id r))
                  (filter (\<lambda>r. wi_status r = Queued \<and> \<not> compatible supported r \<and>
                     wi_error_code r \<noteq> Some ''unsupported_payload'' \<and> unlocked (wi_id r)) rows)))
      in update_where (\<lambda>r. wi_id r \<in> set ids \<and> wi_status r = Queued)
           (\<lambda>r. r\<lparr>wi_error_code := Some ''unsupported_payload''\<rparr>) rows)"

definition take_work :: "string \<Rightarrow> int \<Rightarrow> time \<Rightarrow> int \<Rightarrow> work_item \<Rightarrow> work_item" where
  "take_work owner epoch now lease r = r\<lparr>wi_status := Running, wi_owner_id := Some owner, wi_fence := wi_fence r + 1,
     wi_attempts := wi_attempts r + 1, wi_lease_until := Some (now + seconds lease), wi_error_code := None, wi_epoch := epoch\<rparr>"

definition next_work :: "(string \<Rightarrow> bool) \<Rightarrow> (string \<times> int list) list \<Rightarrow> time \<Rightarrow> work_item list \<Rightarrow> work_item option" where
  "next_work unlocked supported now rows =
     (case order_by (\<lambda>r. (wi_available_at r, wi_created_at r, wi_id r))
        (filter (\<lambda>r. eligible now r \<and> compatible supported r \<and> unlocked (wi_id r)) rows) of
        [] \<Rightarrow> None | r # _ \<Rightarrow> Some r)"

definition claim_work ::
    "(string \<Rightarrow> bool) \<Rightarrow> maint_operator option \<Rightarrow> runtime_settings \<Rightarrow> time \<Rightarrow> string \<Rightarrow> (string \<times> int list) list \<Rightarrow> int
     \<Rightarrow> 'a work_db_scheme \<Rightarrow> (work_claim option \<times> 'a work_db_scheme) result" where
  "claim_work unlocked op settings now owner supported lease db =
     bindr (enforce_maintenance False op settings db) (\<lambda>_.
       if \<not> duration_ok lease then Inl ValueError
       else if \<not> (1 \<le> length owner \<and> length owner \<le> 128) then Inl ValueError
       else let epoch = (case rs_epoch settings of None \<Rightarrow> 0 | Some e \<Rightarrow> e);
                rows = mark_unsupported unlocked supported (recover_cancelled unlocked now (work_items db));
                db1 = db\<lparr>work_items := rows\<rparr>
       in if list_all (\<lambda>(_, versions). versions = []) supported then Inr (None, db1)
          else case next_work unlocked supported now rows of
            None \<Rightarrow> Inr (None, db1)
          | Some row \<Rightarrow>
              let row' = take_work owner epoch now lease row
              in bindr (claim_of_row row' owner (now + seconds lease)) (\<lambda>c.
                   Inr (Some c, db\<lparr>work_items := put_by wi_id row' rows\<rparr>)))"

subsection \<open>Operations of the owner\<close>

definition locked :: "time \<Rightarrow> work_claim \<Rightarrow> bool \<Rightarrow> 'a work_db_scheme \<Rightarrow> work_item result" where
  "locked now work allow_cancel db =
     (case assert_writes_allowed (Some (wc_epoch work)) False db of Inl _ \<Rightarrow> Inl LostOwnership
      | Inr _ \<Rightarrow>
         (case get_by wi_id (wc_work_id work) (work_items db) of None \<Rightarrow> Inl LostOwnership
          | Some row \<Rightarrow>
              if wi_status row \<noteq> Running \<or> wi_owner_id row \<noteq> Some (wc_owner_id work) \<or> wi_fence row \<noteq> wc_fence work
                 \<or> \<not> later (wi_lease_until row) now \<or> wi_epoch row \<noteq> wc_epoch work
                 \<or> wi_cancel_requested row \<and> \<not> allow_cancel
              then Inl LostOwnership else Inr row))"

definition put_item :: "work_item \<Rightarrow> 'a work_db_scheme \<Rightarrow> 'a work_db_scheme" where
  "put_item row db = db\<lparr>work_items := put_by wi_id row (work_items db)\<rparr>"

definition assert_owner :: "time \<Rightarrow> work_claim \<Rightarrow> 'a work_db_scheme \<Rightarrow> unit result" where
  "assert_owner now work db = bindr (locked now work False db) (\<lambda>_. Inr ())"

definition renew :: "time \<Rightarrow> work_claim \<Rightarrow> int \<Rightarrow> 'a work_db_scheme \<Rightarrow> (work_claim \<times> 'a work_db_scheme) result" where
  "renew now work lease db =
     (if \<not> duration_ok lease then Inl ValueError
      else bindr (locked now work False db) (\<lambda>row.
        let row' = row\<lparr>wi_lease_until := Some (now + seconds lease)\<rparr>
        in bindr (claim_of_row row' (wc_owner_id work) (now + seconds lease)) (\<lambda>c. Inr (c, put_item row' db))))"

definition finish ::
    "time \<Rightarrow> work_claim \<Rightarrow> work_status \<Rightarrow> string option \<Rightarrow> 'a work_db_scheme \<Rightarrow> 'a work_db_scheme result" where
  "finish now work outcome error_code db =
     (if outcome \<notin> {Succeeded, Failed, Cancelled} \<or> (case error_code of None \<Rightarrow> False | Some c \<Rightarrow> \<not> code_ok c)
      then Inl ValueError
      else bindr (locked now work (outcome = Cancelled) db) (\<lambda>row.
        Inr (put_item (row\<lparr>wi_status := outcome, wi_finished_at := Some now, wi_error_code := error_code,
                           wi_owner_id := None, wi_lease_until := None\<rparr>) db)))"

text \<open>\<open>now'\<close> is the second clock read of \<open>cancel\<close>.\<close>

definition cancel_work :: "time \<Rightarrow> time \<Rightarrow> string \<Rightarrow> 'a work_db_scheme \<Rightarrow> bool \<times> 'a work_db_scheme" where
  "cancel_work now now' work_id db =
     (case get_by wi_id work_id (work_items db) of None \<Rightarrow> (False, db)
      | Some row \<Rightarrow>
          if wi_status row \<notin> {Queued, Running} then (False, db)
          else let row1 = row\<lparr>wi_cancel_requested := True\<rparr>
          in if wi_status row = Queued \<or> \<not> later (wi_lease_until row) now
             then (True, put_item (close_cancelled now' row1) db)
             else (True, put_item row1 db))"

definition retry_ok :: "string \<Rightarrow> int \<Rightarrow> int \<Rightarrow> bool" where
  "retry_ok error_code delay max_attempts \<longleftrightarrow>
     code_ok error_code \<and> 1 \<le> delay \<and> delay \<le> 3600 \<and> 1 \<le> max_attempts \<and> max_attempts \<le> 10"

definition retry ::
    "time \<Rightarrow> work_claim \<Rightarrow> string \<Rightarrow> int \<Rightarrow> int \<Rightarrow> 'a work_db_scheme \<Rightarrow> 'a work_db_scheme result" where
  "retry now work error_code delay max_attempts db =
     (if \<not> retry_ok error_code delay max_attempts then Inl ValueError
      else bindr (locked now work False db) (\<lambda>row.
        let row1 = (if max_attempts \<le> wi_attempts row then row\<lparr>wi_status := Failed, wi_finished_at := Some now\<rparr>
                    else row\<lparr>wi_status := Queued, wi_available_at := now + seconds delay\<rparr>)
        in Inr (put_item (row1\<lparr>wi_error_code := Some error_code, wi_owner_id := None, wi_lease_until := None\<rparr>) db)))"

definition defer_work :: "time \<Rightarrow> work_claim \<Rightarrow> int \<Rightarrow> 'a work_db_scheme \<Rightarrow> 'a work_db_scheme result" where
  "defer_work now work delay db =
     (if \<not> duration_ok delay then Inl ValueError
      else bindr (locked now work False db) (\<lambda>row.
        Inr (put_item (row\<lparr>wi_status := Queued, wi_available_at := now + seconds delay, wi_owner_id := None,
                           wi_lease_until := None, wi_error_code := None, wi_attempts := wi_attempts row - 1\<rparr>) db)))"

subsection \<open>The row invariant\<close>

definition terminal :: "work_status \<Rightarrow> bool" where
  "terminal s \<longleftrightarrow> s = Succeeded \<or> s = Failed \<or> s = Cancelled"

definition item_spec :: "work_item \<Rightarrow> work_spec" where
  "item_spec r = \<lparr>ws_kind = wi_kind r, ws_version = wi_version r, ws_payload = wi_payload r,
     ws_dedupe_key = wi_dedupe_key r, ws_doc_id = wi_doc_id r\<rparr>"

definition item_wf :: "work_item \<Rightarrow> bool" where
  "item_wf r \<longleftrightarrow> spec_ok (item_spec r) \<and> 0 \<le> wi_attempts r \<and> wi_attempts r \<le> wi_fence r \<and>
     (wi_status r = Running \<longleftrightarrow> wi_owner_id r \<noteq> None) \<and> (wi_owner_id r = None \<longleftrightarrow> wi_lease_until r = None) \<and>
     (wi_status r = Running \<longrightarrow> 1 \<le> wi_attempts r) \<and>
     (terminal (wi_status r) \<longleftrightarrow> wi_finished_at r \<noteq> None) \<and>
     (wi_cancel_requested r \<longrightarrow> wi_status r = Running \<or> wi_status r = Cancelled)"

definition work_inv :: "'a work_db_scheme \<Rightarrow> bool" where
  "work_inv db \<longleftrightarrow> unique_key wi_id (work_items db) \<and> unique_key wi_dedupe_key (work_items db) \<and>
     (\<forall>r \<in> set (work_items db). item_wf r)"

text \<open>What every statement on the table keeps of a row: its identity and its request.\<close>

definition same_item :: "work_item \<Rightarrow> work_item \<Rightarrow> bool" where
  "same_item r r' \<longleftrightarrow> wi_id r' = wi_id r \<and> item_spec r' = item_spec r"

lemma same_item_dedupe: "same_item r r' \<Longrightarrow> wi_dedupe_key r' = wi_dedupe_key r \<and> wi_id r' = wi_id r"
  by (auto simp: same_item_def item_spec_def)

lemma spec_of_row_wf: "item_wf r \<Longrightarrow> spec_of_row r = Inr (item_spec r)"
  by (simp add: spec_of_row_def make_spec_def item_wf_def item_spec_def Let_def)

lemma claim_of_row_wf:
  "item_wf r \<Longrightarrow> claim_of_row r owner lease = Inr \<lparr>wc_work_id = wi_id r, wc_owner_id = owner, wc_fence = wi_fence r,
     wc_lease_until = lease, wc_spec = item_spec r, wc_epoch = wi_epoch r\<rparr>"
  by (simp add: claim_of_row_def spec_of_row_wf)

lemma work_inv_update:
  assumes "unique_key wi_id rows" "unique_key wi_dedupe_key rows" "\<forall>r \<in> set rows. item_wf r"
    and "\<And>r. r \<in> set rows \<Longrightarrow> P r \<Longrightarrow> same_item r (f r) \<and> item_wf (f r)"
  shows "unique_key wi_id (update_where P f rows)" "unique_key wi_dedupe_key (update_where P f rows)"
    and "\<forall>r \<in> set (update_where P f rows). item_wf r"
proof -
  have "map wi_id (update_where P f rows) = map wi_id rows" "map wi_dedupe_key (update_where P f rows) = map wi_dedupe_key rows"
    using assms(4) by (auto intro!: update_where_cong_key dest: same_item_dedupe)
  with assms(1,2) show "unique_key wi_id (update_where P f rows)" "unique_key wi_dedupe_key (update_where P f rows)"
    by (simp_all add: unique_key_def)
  show "\<forall>r \<in> set (update_where P f rows). item_wf r" using assms(3,4) by (auto simp: set_update_where)
qed

lemma work_inv_put:
  assumes inv: "work_inv db" and row: "get_by wi_id i (work_items db) = Some row"
    and row': "same_item row row'" "item_wf row'"
  shows "work_inv (put_item row' db)"
proof -
  have u: "unique_key wi_id (work_items db)" using inv by (simp add: work_inv_def)
  have only: "r = row" if "r \<in> set (work_items db)" "wi_id r = wi_id row'" for r
    using that row row' get_by_unique [OF u] same_item_dedupe by (metis option.inject)
  show ?thesis
    unfolding work_inv_def put_item_def put_by_def
    using inv work_inv_update [of "work_items db" "\<lambda>r. wi_id r = wi_id row'" "\<lambda>_. row'"] row' only
    by (auto simp: work_inv_def)
qed

lemma locked_SomeD:
  assumes "locked now work allow db = Inr row"
  shows "get_by wi_id (wc_work_id work) (work_items db) = Some row" and "row \<in> set (work_items db)"
    and "wi_status row = Running" and "wi_fence row = wc_fence work" and "wi_owner_id row = Some (wc_owner_id work)"
    and "later (wi_lease_until row) now" and "\<not> allow \<Longrightarrow> \<not> wi_cancel_requested row" and "wi_id row = wc_work_id work"
    and "assert_writes_allowed (Some (wc_epoch work)) False db = Inr (wc_epoch work)" and "wi_epoch row = wc_epoch work"
proof -
  show g: "get_by wi_id (wc_work_id work) (work_items db) = Some row"
    using assms by (auto simp: locked_def split: sum.splits option.splits if_splits)
  show "row \<in> set (work_items db)" "wi_id row = wc_work_id work" using get_by_SomeD [OF g] by auto
  obtain n where "assert_writes_allowed (Some (wc_epoch work)) False db = Inr n"
    using assms by (auto simp: locked_def split: sum.splits)
  with assert_writes_allowed_Inr [OF this] show "assert_writes_allowed (Some (wc_epoch work)) False db = Inr (wc_epoch work)"
    by (simp add: epoch_token_def)
qed (use assms in \<open>auto simp: locked_def split: sum.splits option.splits if_splits\<close>)

lemma locked_wf: "locked now work allow db = Inr row \<Longrightarrow> work_inv db \<Longrightarrow> item_wf row"
  using locked_SomeD(2) [of now work allow db row] by (auto simp: work_inv_def)

lemma locked_put:
  "locked now work allow db = Inr row \<Longrightarrow> work_inv db \<Longrightarrow> same_item row row' \<Longrightarrow> item_wf row' \<Longrightarrow> work_inv (put_item row' db)"
  by (rule work_inv_put [OF _ locked_SomeD(1)])

lemmas item_defs = item_wf_def same_item_def item_spec_def terminal_def

text \<open>The successor rows of the owner's operations.\<close>

definition renewed :: "time \<Rightarrow> work_item \<Rightarrow> work_item" where
  "renewed lease row = row\<lparr>wi_lease_until := Some lease\<rparr>"

definition finished :: "time \<Rightarrow> work_status \<Rightarrow> string option \<Rightarrow> work_item \<Rightarrow> work_item" where
  "finished now outcome code row = row\<lparr>wi_status := outcome, wi_finished_at := Some now, wi_error_code := code,
     wi_owner_id := None, wi_lease_until := None\<rparr>"

definition requeued :: "time \<Rightarrow> string option \<Rightarrow> int \<Rightarrow> work_item \<Rightarrow> work_item" where
  "requeued at code attempts row = row\<lparr>wi_status := Queued, wi_available_at := at, wi_owner_id := None, wi_lease_until := None,
     wi_error_code := code, wi_attempts := attempts\<rparr>"

lemma renewE:
  assumes "renew now work lease db = Inr (c, db')"
  obtains row where "locked now work False db = Inr row" "db' = put_item (renewed (now + seconds lease) row) db"
    and "duration_ok lease" "claim_of_row (renewed (now + seconds lease) row) (wc_owner_id work) (now + seconds lease) = Inr c"
  using assms by (auto simp: renew_def renewed_def Let_def split: if_splits)

lemma finishE:
  assumes "finish now work outcome code db = Inr db'"
  obtains row where "locked now work (outcome = Cancelled) db = Inr row" "terminal outcome"
    and "db' = put_item (finished now outcome code row) db"
  using assms by (auto simp: finish_def finished_def terminal_def split: if_splits)

lemma retryE:
  assumes "retry now work code delay max_attempts db = Inr db'"
  obtains row where "locked now work False db = Inr row" "retry_ok code delay max_attempts"
    and "db' = put_item (if max_attempts \<le> wi_attempts row then finished now Failed (Some code) row
      else requeued (now + seconds delay) (Some code) (wi_attempts row) row) db"
proof -
  from assms obtain row where l: "locked now work False db = Inr row" "retry_ok code delay max_attempts"
    and "db' = put_item ((if max_attempts \<le> wi_attempts row then row\<lparr>wi_status := Failed, wi_finished_at := Some now\<rparr>
        else row\<lparr>wi_status := Queued, wi_available_at := now + seconds delay\<rparr>)
      \<lparr>wi_error_code := Some code, wi_owner_id := None, wi_lease_until := None\<rparr>) db"
    by (auto simp: retry_def Let_def split: if_splits)
  then have "db' = put_item (if max_attempts \<le> wi_attempts row then finished now Failed (Some code) row
      else requeued (now + seconds delay) (Some code) (wi_attempts row) row) db"
    by (cases row) (simp add: finished_def requeued_def)
  with l show ?thesis by (rule that)
qed

lemma deferE:
  assumes "defer_work now work delay db = Inr db'"
  obtains row where "locked now work False db = Inr row" "duration_ok delay"
    and "db' = put_item (requeued (now + seconds delay) None (wi_attempts row - 1) row) db"
  using assms by (auto simp: defer_work_def requeued_def split: if_splits)

lemma renewed_wf: "item_wf row \<Longrightarrow> wi_status row = Running \<Longrightarrow> same_item row (renewed t row) \<and> item_wf (renewed t row)"
  by (auto simp: renewed_def item_defs)

lemma finished_wf:
  "item_wf row \<Longrightarrow> terminal outcome \<Longrightarrow> wi_cancel_requested row \<longrightarrow> outcome = Cancelled \<Longrightarrow>
   same_item row (finished now outcome code row) \<and> item_wf (finished now outcome code row)"
  by (auto simp: finished_def item_defs)

lemma requeued_wf:
  "item_wf row \<Longrightarrow> wi_status row = Running \<Longrightarrow> \<not> wi_cancel_requested row \<Longrightarrow> 0 \<le> n \<Longrightarrow> n \<le> wi_fence row \<Longrightarrow>
   same_item row (requeued t code n row) \<and> item_wf (requeued t code n row)"
  by (simp add: requeued_def item_defs)

lemma close_cancelled_wf:
  "item_wf row \<Longrightarrow> same_item row (close_cancelled now (row\<lparr>wi_cancel_requested := b\<rparr>)) \<and>
   item_wf (close_cancelled now (row\<lparr>wi_cancel_requested := b\<rparr>))"
  by (simp add: close_cancelled_def item_defs)

lemma take_work_wf:
  "item_wf row \<Longrightarrow> eligible now row \<Longrightarrow> same_item row (take_work owner epoch now lease row) \<and> item_wf (take_work owner epoch now lease row)"
  by (auto simp: take_work_def eligible_def item_defs)

lemma make_spec_Inr: "make_spec k v p d x = Inr s \<Longrightarrow>
    spec_ok s \<and> s = \<lparr>ws_kind = k, ws_version = v, ws_payload = p, ws_dedupe_key = d, ws_doc_id = x\<rparr>"
  by (auto simp: make_spec_def Let_def split: if_splits)

lemma new_item_simps [simp]:
  "wi_id (new_item i now s) = i" "wi_dedupe_key (new_item i now s) = ws_dedupe_key s" "same_request (new_item i now s) s"
  by (simp_all add: new_item_def same_request_def)

lemma new_item_wf: "spec_ok s \<Longrightarrow> item_wf (new_item i now s)"
  by (cases s) (simp add: new_item_def item_defs)

lemma enqueueE:
  assumes "enqueue now new_id spec db = Inr (i, db')"
  obtains (old) row where "get_by wi_dedupe_key (ws_dedupe_key spec) (work_items db) = Some row" "same_request row spec"
      "i = wi_id row" "db' = db" "spec_ok spec"
  | (new) "get_by wi_dedupe_key (ws_dedupe_key spec) (work_items db) = None" "i = new_id"
      "db' = db\<lparr>work_items := work_items db @ [new_item new_id now spec]\<rparr>" "spec_ok spec"
  using assms
  by (cases spec; cases "get_by wi_dedupe_key (ws_dedupe_key spec) (work_items db)")
    (auto simp: enqueue_def Let_def get_by_append dest!: make_spec_Inr split: if_splits)

lemma enqueue_inv:
  assumes "enqueue now new_id spec db = Inr (i, db')" and "work_inv db" and "get_by wi_id new_id (work_items db) = None"
  shows "work_inv db'"
  using assms(1)
proof (cases rule: enqueueE)
  case new
  with assms(2,3) show ?thesis by (simp add: work_inv_def unique_key_append new_item_wf)
qed (use assms(2) in simp)

lemma renew_inv:
  assumes "renew now work lease db = Inr (c, db')" and inv: "work_inv db"
  shows "work_inv db'"
  using assms(1)
proof (cases rule: renewE)
  case (1 row)
  with renewed_wf [OF locked_wf [OF 1(1) inv] locked_SomeD(3) [OF 1(1)]] inv show ?thesis by (auto intro: locked_put)
qed

lemma finish_inv:
  assumes "finish now work outcome code db = Inr db'" and inv: "work_inv db"
  shows "work_inv db'"
  using assms(1)
proof (cases rule: finishE)
  case (1 row)
  have "wi_cancel_requested row \<longrightarrow> outcome = Cancelled" using locked_SomeD(7) [OF 1(1)] by auto
  with finished_wf [OF locked_wf [OF 1(1) inv] 1(2)] 1 inv show ?thesis by (auto intro: locked_put)
qed

lemma attempts_le_fence: "item_wf r \<Longrightarrow> 0 \<le> wi_attempts r \<and> wi_attempts r \<le> wi_fence r"
  by (simp add: item_wf_def)

lemma retry_inv:
  assumes "retry now work code delay max_attempts db = Inr db'" and inv: "work_inv db"
  shows "work_inv db'"
  using assms(1)
proof (cases rule: retryE)
  case (1 row)
  have wf: "item_wf row" by (rule locked_wf [OF 1(1) inv])
  have run: "wi_status row = Running" "\<not> wi_cancel_requested row" using locked_SomeD(3,7) [OF 1(1)] by auto
  show ?thesis
    using 1(3) finished_wf [OF wf, of Failed] requeued_wf [OF wf run] attempts_le_fence [OF wf] run locked_put [OF 1(1) inv]
    by (auto simp: terminal_def)
qed

lemma defer_inv:
  assumes "defer_work now work delay db = Inr db'" and inv: "work_inv db"
  shows "work_inv db'"
  using assms(1)
proof (cases rule: deferE)
  case (1 row)
  have wf: "item_wf row" by (rule locked_wf [OF 1(1) inv])
  have run: "wi_status row = Running" "\<not> wi_cancel_requested row" using locked_SomeD(3,7) [OF 1(1)] by auto
  with wf have "1 \<le> wi_attempts row" by (simp add: item_wf_def)
  with 1(3) requeued_wf [OF wf run, of "wi_attempts row - 1"] attempts_le_fence [OF wf] locked_put [OF 1(1) inv]
  show ?thesis by auto
qed

lemma cancel_inv:
  assumes inv: "work_inv db"
  shows "work_inv (snd (cancel_work now now' i db))"
proof (cases "get_by wi_id i (work_items db)")
  case None
  with inv show ?thesis by (simp add: cancel_work_def)
next
  case (Some row)
  have wf: "item_wf row" using get_by_SomeD [OF Some] inv by (auto simp: work_inv_def)
  have "wi_status row = Running \<Longrightarrow> same_item row (row\<lparr>wi_cancel_requested := True\<rparr>) \<and> item_wf (row\<lparr>wi_cancel_requested := True\<rparr>)"
    using wf by (auto simp: item_defs)
  with Some close_cancelled_wf [OF wf, of now' True] inv show ?thesis
    by (auto simp: cancel_work_def Let_def intro!: work_inv_put [OF inv Some])
qed

subsection \<open>What a claim takes\<close>

definition rows_inv :: "work_item list \<Rightarrow> bool" where
  "rows_inv rows \<longleftrightarrow> unique_key wi_id rows \<and> unique_key wi_dedupe_key rows \<and> (\<forall>r \<in> set rows. item_wf r)"

lemma work_inv_rows: "work_inv db = rows_inv (work_items db)"
  by (simp add: work_inv_def rows_inv_def)

lemma rows_inv_update:
  "rows_inv rows \<Longrightarrow> (\<And>r. r \<in> set rows \<Longrightarrow> P r \<Longrightarrow> same_item r (f r) \<and> item_wf (f r)) \<Longrightarrow> rows_inv (update_where P f rows)"
  unfolding rows_inv_def using work_inv_update [of rows P f] by blast

lemma recover_cancelled_inv: "rows_inv rows \<Longrightarrow> rows_inv (recover_cancelled unlocked now rows)"
  unfolding recover_cancelled_def Let_def
proof (rule rows_inv_update)
  fix r assume "rows_inv rows" "r \<in> set rows"
  then have wf: "item_wf r" by (simp add: rows_inv_def)
  have "close_cancelled now (r\<lparr>wi_cancel_requested := wi_cancel_requested r\<rparr>) = close_cancelled now r" by simp
  with close_cancelled_wf [OF wf, of now "wi_cancel_requested r"]
  show "same_item r (close_cancelled now r) \<and> item_wf (close_cancelled now r)" by simp
qed

lemma error_code_wf [simp]: "item_wf (r\<lparr>wi_error_code := e\<rparr>) = item_wf r" "same_item r (r\<lparr>wi_error_code := e\<rparr>)"
  by (simp_all add: item_wf_def item_spec_def same_item_def)

lemma mark_unsupported_inv: "rows_inv rows \<Longrightarrow> rows_inv (mark_unsupported unlocked supported rows)"
  unfolding mark_unsupported_def Let_def
  by (rule rows_inv_update) (simp_all add: rows_inv_def)

definition swept :: "(string \<Rightarrow> bool) \<Rightarrow> (string \<times> int list) list \<Rightarrow> time \<Rightarrow> work_item list \<Rightarrow> work_item list" where
  "swept unlocked supported now rows = mark_unsupported unlocked supported (recover_cancelled unlocked now rows)"

lemma swept_inv: "rows_inv rows \<Longrightarrow> rows_inv (swept unlocked supported now rows)"
  by (simp add: swept_def mark_unsupported_inv recover_cancelled_inv)

lemma get_by_update_cases:
  assumes "get_by key i rows = Some r" and "\<And>r. P r \<Longrightarrow> key (f r) = key r"
  shows "\<exists>r'. get_by key i (update_where P f rows) = Some r' \<and> (r' = r \<or> P r \<and> r' = f r)"
  using assms by (auto simp: get_by_update_where)

lemma get_by_recover:
  "get_by wi_id i rows = Some r \<Longrightarrow>
   \<exists>r'. get_by wi_id i (recover_cancelled unlocked now rows) = Some r' \<and> (r' = r \<or> abandoned now r \<and> r' = close_cancelled now r)"
  unfolding recover_cancelled_def Let_def
  by (drule get_by_update_cases [where f = "close_cancelled now"]) (auto simp: close_cancelled_def)

lemma get_by_mark:
  "get_by wi_id i rows = Some r \<Longrightarrow>
   \<exists>r'. get_by wi_id i (mark_unsupported unlocked supported rows) = Some r' \<and>
     (r' = r \<or> wi_status r = Queued \<and> r' = r\<lparr>wi_error_code := Some ''unsupported_payload''\<rparr>)"
  unfolding mark_unsupported_def Let_def
  by (drule get_by_update_cases [where f = "wi_error_code_update (\<lambda>_. Some ''unsupported_payload'')"]) auto

text \<open>The sweep changes a row only when it is abandoned or unsupported, and never its fence.\<close>

lemma get_by_swept:
  assumes "get_by wi_id i rows = Some r"
  shows "\<exists>r'. get_by wi_id i (swept unlocked supported now rows) = Some r' \<and> wi_fence r' = wi_fence r \<and>
    (wi_status r \<noteq> Queued \<and> \<not> abandoned now r \<longrightarrow> r' = r) \<and> same_item r r' \<and> wi_cancel_requested r' = wi_cancel_requested r \<and>
    (eligible now r \<longrightarrow> eligible now r')"
proof -
  obtain r1 where r1: "get_by wi_id i (recover_cancelled unlocked now rows) = Some r1"
    "r1 = r \<or> abandoned now r \<and> r1 = close_cancelled now r"
    using get_by_recover [OF assms] by blast
  obtain r2 where r2: "get_by wi_id i (swept unlocked supported now rows) = Some r2"
    "r2 = r1 \<or> wi_status r1 = Queued \<and> r2 = r1\<lparr>wi_error_code := Some ''unsupported_payload''\<rparr>"
    using get_by_mark [OF r1(1)] unfolding swept_def by blast
  show ?thesis
    using r1(2) r2 by (auto simp: close_cancelled_def abandoned_def eligible_def item_spec_def same_item_def)
qed

lemma next_work_Some:
  assumes "next_work unlocked supported now rows = Some r"
  shows "r \<in> set rows" "eligible now r" "compatible supported r" "unlocked (wi_id r)"
    and "x \<in> set rows \<Longrightarrow> eligible now x \<Longrightarrow> compatible supported x \<Longrightarrow> unlocked (wi_id x) \<Longrightarrow>
      (wi_available_at r, wi_created_at r, wi_id r) \<le> (wi_available_at x, wi_created_at x, wi_id x)"
proof -
  let ?c = "filter (\<lambda>r. eligible now r \<and> compatible supported r \<and> unlocked (wi_id r)) rows"
  obtain rs where o: "order_by (\<lambda>r. (wi_available_at r, wi_created_at r, wi_id r)) ?c = r # rs"
    using assms by (auto simp: next_work_def split: list.splits)
  have "r \<in> set ?c" using set_order_by [of "\<lambda>r. (wi_available_at r, wi_created_at r, wi_id r)" ?c] unfolding o by auto
  then show "r \<in> set rows" "eligible now r" "compatible supported r" "unlocked (wi_id r)" by auto
  show "x \<in> set rows \<Longrightarrow> eligible now x \<Longrightarrow> compatible supported x \<Longrightarrow> unlocked (wi_id x) \<Longrightarrow>
      (wi_available_at r, wi_created_at r, wi_id r) \<le> (wi_available_at x, wi_created_at x, wi_id x)"
    by (rule order_by_hd_least [OF o]) simp
qed

lemma order_by_Nil: "order_by k rows = [] \<longleftrightarrow> rows = []"
  using set_order_by [of k rows] by (metis set_empty)

lemma next_work_None:
  "next_work unlocked supported now rows = None \<longleftrightarrow>
   (\<forall>r \<in> set rows. \<not> (eligible now r \<and> compatible supported r \<and> unlocked (wi_id r)))"
proof -
  let ?c = "filter (\<lambda>r. eligible now r \<and> compatible supported r \<and> unlocked (wi_id r)) rows"
  let ?o = "order_by (\<lambda>r. (wi_available_at r, wi_created_at r, wi_id r)) ?c"
  have "next_work unlocked supported now rows = None \<longleftrightarrow> ?o = []"
    unfolding next_work_def by (cases ?o) simp_all
  also have "\<dots> \<longleftrightarrow> ?c = []" by (rule order_by_Nil)
  finally show ?thesis unfolding filter_empty_conv .
qed

definition claim_token :: "work_item \<Rightarrow> string \<Rightarrow> time \<Rightarrow> work_claim" where
  "claim_token r owner lease = \<lparr>wc_work_id = wi_id r, wc_owner_id = owner, wc_fence = wi_fence r,
     wc_lease_until = lease, wc_spec = item_spec r, wc_epoch = wi_epoch r\<rparr>"

lemma claim_workE:
  assumes "claim_work unlocked op settings now owner supported lease db = Inr (res, db')" and inv: "work_inv db"
  obtains (nothing) "res = None" "db' = db\<lparr>work_items := swept unlocked supported now (work_items db)\<rparr>"
  | (taken) row row' where "next_work unlocked supported now (swept unlocked supported now (work_items db)) = Some row"
      "row' = take_work owner (case rs_epoch settings of None \<Rightarrow> 0 | Some e \<Rightarrow> e) now lease row"
      "res = Some (claim_token row' owner (now + seconds lease))"
      "db' = db\<lparr>work_items := put_by wi_id row' (swept unlocked supported now (work_items db))\<rparr>"
      "same_item row row'" "item_wf row'" "duration_ok lease"
proof (cases res)
  case None
  show ?thesis
    by (rule nothing) (use assms(1) None in \<open>auto simp: claim_work_def swept_def Let_def split: if_splits option.splits\<close>)
next
  case (Some c)
  let ?epoch = "case rs_epoch settings of None \<Rightarrow> 0 | Some e \<Rightarrow> e"
  obtain row where n: "next_work unlocked supported now (swept unlocked supported now (work_items db)) = Some row"
    and c: "claim_of_row (take_work owner ?epoch now lease row) owner (now + seconds lease) = Inr c"
    and db': "db' = db\<lparr>work_items := put_by wi_id (take_work owner ?epoch now lease row) (swept unlocked supported now (work_items db))\<rparr>"
    and d: "duration_ok lease"
    using assms(1) Some by (auto simp: claim_work_def swept_def Let_def split: if_splits option.splits)
  have "item_wf row" using next_work_Some(1) [OF n] swept_inv inv by (auto simp: work_inv_rows rows_inv_def)
  note wf = take_work_wf [OF this next_work_Some(2) [OF n], of owner ?epoch lease]
  have "c = claim_token (take_work owner ?epoch now lease row) owner (now + seconds lease)"
    using c claim_of_row_wf wf by (auto simp: claim_token_def)
  with n db' Some wf d show ?thesis by (intro taken) auto
qed

lemma claim_inv:
  assumes "claim_work unlocked op settings now owner supported lease db = Inr (res, db')" and inv: "work_inv db"
  shows "work_inv db'"
  using assms
proof (cases rule: claim_workE)
  case nothing
  with inv show ?thesis by (simp add: work_inv_rows swept_inv)
next
  case (taken row row')
  let ?rows = "swept unlocked supported now (work_items db)"
  have rows: "rows_inv ?rows" using inv by (simp add: work_inv_rows swept_inv)
  then have "get_by wi_id (wi_id row) ?rows = Some row"
    using next_work_Some(1) [OF taken(1)] by (simp add: rows_inv_def get_by_unique)
  then have "work_inv (put_item row' (db\<lparr>work_items := ?rows\<rparr>))"
    using rows taken(5,6) by (intro work_inv_put) (auto simp: work_inv_rows)
  with taken(4) show ?thesis by (simp add: put_item_def)
qed

subsection \<open>Transactions\<close>

datatype work_op =
    Enqueue string work_spec
  | Claim "string \<Rightarrow> bool" "maint_operator option" runtime_settings string "(string \<times> int list) list" int
  | Renew_Work work_claim int
  | Finish work_claim work_status "string option"
  | Cancel time string
  | Retry work_claim string int int
  | Defer work_claim int
  | Maint maint_op

fun work_exec :: "(string \<Rightarrow> string) \<Rightarrow> time \<Rightarrow> work_op \<Rightarrow> 'a work_db_scheme \<Rightarrow> 'a work_db_scheme" where
  "work_exec sha now (Enqueue new_id spec) db = committed db (map_sum id snd (enqueue now new_id spec db))"
| "work_exec sha now (Claim unlocked op settings owner supported lease) db =
     committed db (map_sum id snd (claim_work unlocked op settings now owner supported lease db))"
| "work_exec sha now (Renew_Work work lease) db = committed db (map_sum id snd (renew now work lease db))"
| "work_exec sha now (Finish work outcome code) db = committed db (finish now work outcome code db)"
| "work_exec sha now (Cancel now' i) db = snd (cancel_work now now' i db)"
| "work_exec sha now (Retry work code delay max_attempts) db = committed db (retry now work code delay max_attempts db)"
| "work_exec sha now (Defer work delay) db = committed db (defer_work now work delay db)"
| "work_exec sha now (Maint op) db = maint_exec sha now op db"

fun fresh_work :: "work_op \<Rightarrow> 'a work_db_scheme \<Rightarrow> bool" where
  "fresh_work (Enqueue new_id spec) db = (get_by wi_id new_id (work_items db) = None)"
| "fresh_work _ db = True"

inductive work_step :: "(string \<Rightarrow> string) \<Rightarrow> 'a work_db_scheme \<Rightarrow> 'a work_db_scheme \<Rightarrow> bool" for sha where
  "fresh_work op db \<Longrightarrow> work_step sha db (work_exec sha now op db)"

fun work_run :: "(string \<Rightarrow> string) \<Rightarrow> (time \<times> work_op) list \<Rightarrow> 'a work_db_scheme \<Rightarrow> 'a work_db_scheme" where
  "work_run sha [] db = db"
| "work_run sha ((now, op) # ops) db = work_run sha ops (work_exec sha now op db)"

fun work_run_ok :: "(string \<Rightarrow> string) \<Rightarrow> (time \<times> work_op) list \<Rightarrow> 'a work_db_scheme \<Rightarrow> bool" where
  "work_run_ok sha [] db \<longleftrightarrow> True"
| "work_run_ok sha ((now, op) # ops) db \<longleftrightarrow> fresh_work op db \<and> work_run_ok sha ops (work_exec sha now op db)"

lemma work_run_steps: "work_run_ok sha ops db \<Longrightarrow> (work_step sha)\<^sup>*\<^sup>* db (work_run sha ops db)"
  by (induction sha ops db rule: work_run.induct)
    (auto intro: converse_rtranclp_into_rtranclp work_step.intros)

lemma coord_more_maint: "coord_db.more db' = coord_db.more db \<Longrightarrow> maint_db.more db' = maint_db.more db"
  by (cases db, cases db') simp

lemma items_more: "maint_db.more db' = maint_db.more db \<Longrightarrow> work_items db' = work_items db \<and> progress db' = progress db"
  by (cases db, cases db') simp

lemma maint_exec_more [simp]: "maint_db.more (maint_exec sha now op db) = maint_db.more db"
proof (cases op)
  case (Enter p i kind counts)
  then show ?thesis
    by (auto intro!: committed_inv [where P = "\<lambda>d. maint_db.more d = maint_db.more db"]
        simp: enter_maintenance_def require_operator_def Let_def split: option.splits if_splits)
next
  case (Leave p i receipts)
  then show ?thesis
    by (auto intro!: committed_inv [where P = "\<lambda>d. maint_db.more d = maint_db.more db"]
        simp: leave_maintenance_def require_operator_def split: option.splits if_splits)
next
  case (Coord c)
  then show ?thesis using coord_more_maint [OF coord_exec_more] by simp
qed

lemma maint_exec_items [simp]: "work_items (maint_exec sha now op db) = work_items db" for db :: "'a work_db_scheme"
  by (rule items_more [OF maint_exec_more, THEN conjunct1])

lemma work_exec_inv: "fresh_work op db \<Longrightarrow> work_inv db \<Longrightarrow> work_inv (work_exec sha now op db)"
proof -
  assume fresh: "fresh_work op db" and inv: "work_inv db"
  note keep = committed_inv [where P = work_inv, OF inv]
  show ?thesis
  proof (cases op)
    case (Enqueue new_id spec)
    with fresh show ?thesis by (auto intro!: keep dest: enqueue_inv [OF _ inv])
  next
    case (Claim unlocked mop settings owner supported lease)
    then show ?thesis by (auto intro!: keep dest: claim_inv [OF _ inv])
  next
    case (Renew_Work work lease)
    then show ?thesis by (auto intro!: keep dest: renew_inv [OF _ inv])
  next
    case (Finish work outcome code)
    then show ?thesis by (auto intro!: keep dest: finish_inv [OF _ inv])
  next
    case (Cancel now' i)
    then show ?thesis by (simp add: cancel_inv [OF inv])
  next
    case (Retry work code delay n)
    then show ?thesis by (auto intro!: keep dest: retry_inv [OF _ inv])
  next
    case (Defer work delay)
    then show ?thesis by (auto intro!: keep dest: defer_inv [OF _ inv])
  next
    case (Maint m)
    with inv show ?thesis by (simp add: work_inv_rows)
  qed
qed

subsection \<open>Rows through an operation\<close>

text \<open>
  Every operation acts on an existing row as one of a few successors: the same row, a row
  with the same fence, or a claim, which raises it. A finished row is none of these.
\<close>

definition row_step :: "work_item \<Rightarrow> work_item \<Rightarrow> bool" where
  "row_step r r' \<longleftrightarrow> same_item r r' \<and> wi_fence r \<le> wi_fence r' \<and>
     (wi_cancel_requested r \<longrightarrow> wi_cancel_requested r') \<and> (terminal (wi_status r) \<longrightarrow> r' = r)"

lemma row_step_refl [simp]: "row_step r r"
  by (simp add: row_step_def same_item_def)

lemma row_step_trans: "row_step a b \<Longrightarrow> row_step b c \<Longrightarrow> row_step a c"
  by (auto simp: row_step_def same_item_def)

definition steps_rows :: "'a work_db_scheme \<Rightarrow> 'a work_db_scheme \<Rightarrow> bool" where
  "steps_rows db db' \<longleftrightarrow> (\<forall>i r. get_by wi_id i (work_items db) = Some r \<longrightarrow>
     (\<exists>r'. get_by wi_id i (work_items db') = Some r' \<and> row_step r r'))"

lemma steps_rows_refl [simp]: "steps_rows db db"
  by (simp add: steps_rows_def)

lemma steps_rows_put:
  assumes "get_by wi_id i (work_items db) = Some row" and "wi_id row' = i" and "row_step row row'"
  shows "steps_rows db (put_item row' db)"
  using assms by (auto simp: steps_rows_def put_item_def get_by_put_by)

lemma steps_rows_locked:
  assumes "locked now work allow db = Inr row" and "same_item row row'" and "wi_fence row' = wi_fence row"
    and "wi_cancel_requested row' = wi_cancel_requested row"
  shows "steps_rows db (put_item row' db)"
proof (rule steps_rows_put [OF locked_SomeD(1) [OF assms(1)]])
  show "wi_id row' = wc_work_id work" using assms(2) locked_SomeD(8) [OF assms(1)] by (simp add: same_item_def)
  show "row_step row row'" using assms(2-4) locked_SomeD(3) [OF assms(1)] by (simp add: row_step_def terminal_def)
qed

lemma steps_rows_enqueue: "enqueue now new_id spec db = Inr (i, db') \<Longrightarrow> steps_rows db db'"
  by (erule enqueueE) (auto simp: steps_rows_def get_by_append)

lemma swept_step:
  assumes "get_by wi_id i rows = Some r"
  obtains r1 where "get_by wi_id i (swept unlocked supported now rows) = Some r1" "row_step r r1"
proof -
  from get_by_swept [OF assms, of unlocked supported now] obtain r1 where
    r1: "get_by wi_id i (swept unlocked supported now rows) = Some r1" "wi_fence r1 = wi_fence r"
      "wi_status r \<noteq> Queued \<and> \<not> abandoned now r \<longrightarrow> r1 = r" "same_item r r1" "wi_cancel_requested r1 = wi_cancel_requested r"
    by blast
  from r1(3) have "terminal (wi_status r) \<longrightarrow> r1 = r" by (auto simp: terminal_def abandoned_def)
  with r1 have "row_step r r1" by (simp add: row_step_def)
  with r1(1) show ?thesis by (rule that)
qed

lemma steps_rows_claim:
  assumes "claim_work unlocked op settings now owner supported lease db = Inr (res, db')" and inv: "work_inv db"
  shows "steps_rows db db'"
  using assms
proof (cases rule: claim_workE)
  case nothing
  then show ?thesis unfolding steps_rows_def by (auto elim: swept_step)
next
  case (taken row row')
  let ?rows = "swept unlocked supported now (work_items db)"
  have u: "unique_key wi_id ?rows" using inv swept_inv by (simp add: work_inv_rows rows_inv_def)
  have g: "get_by wi_id (wi_id row) ?rows = Some row"
    using next_work_Some(1) [OF taken(1)] u by (simp add: get_by_unique)
  have fence: "wi_fence row' = wi_fence row + 1" and same: "wi_id row' = wi_id row"
    using taken(2,5) by (simp_all add: take_work_def same_item_def)
  have cr: "wi_cancel_requested row' = wi_cancel_requested row" using taken(2) by (simp add: take_work_def)
  have live: "\<not> terminal (wi_status row)" using next_work_Some(2) [OF taken(1)] by (auto simp: eligible_def terminal_def)
  show ?thesis
    unfolding steps_rows_def
  proof (intro allI impI)
    fix i r assume r: "get_by wi_id i (work_items db) = Some r"
    obtain r1 where r1: "get_by wi_id i ?rows = Some r1" and step1: "row_step r r1" by (rule swept_step [OF r])
    show "\<exists>r'. get_by wi_id i (work_items db') = Some r' \<and> row_step r r'"
    proof (cases "i = wi_id row")
      case True
      with r1 g have "r1 = row" by simp
      with fence live taken(5) cr have "row_step r1 row'" by (simp add: row_step_def)
      with step1 True taken(4) same g show ?thesis by (auto simp: get_by_put_by intro: row_step_trans)
    next
      case False
      with r1 step1 taken(4) same show ?thesis by (auto simp: get_by_put_by)
    qed
  qed
qed

lemma steps_rows_cancel: "steps_rows db (snd (cancel_work now now' i db))"
proof (cases "get_by wi_id i (work_items db)")
  case None
  then show ?thesis by (simp add: cancel_work_def)
next
  case (Some row)
  with get_by_SomeD [OF Some] show ?thesis
    by (auto simp: cancel_work_def Let_def close_cancelled_def row_step_def same_item_def item_spec_def terminal_def intro!: steps_rows_put [OF Some])
qed

lemma work_exec_rows:
  assumes inv: "work_inv db"
  shows "steps_rows db (work_exec sha now op db)"
proof -
  note keep = committed_inv [where P = "steps_rows db", OF steps_rows_refl]
  show ?thesis
  proof (cases op)
    case (Enqueue new_id spec)
    then show ?thesis by (auto intro!: keep dest: steps_rows_enqueue)
  next
    case (Claim unlocked mop settings owner supported lease)
    then show ?thesis by (auto intro!: keep dest: steps_rows_claim [OF _ inv])
  next
    case (Renew_Work work lease)
    then show ?thesis by (auto intro!: keep steps_rows_locked elim!: renewE simp: renewed_def same_item_def item_spec_def)
  next
    case (Finish work outcome code)
    then show ?thesis by (auto intro!: keep steps_rows_locked elim!: finishE simp: finished_def same_item_def item_spec_def)
  next
    case (Cancel now' i)
    then show ?thesis by (simp add: steps_rows_cancel)
  next
    case (Retry work code delay n)
    then show ?thesis by (auto intro!: keep steps_rows_locked elim!: retryE simp: finished_def requeued_def same_item_def item_spec_def split: if_splits)
  next
    case (Defer work delay)
    then show ?thesis by (auto intro!: keep steps_rows_locked elim!: deferE simp: requeued_def same_item_def item_spec_def)
  next
    case (Maint m)
    then show ?thesis by (simp add: steps_rows_def)
  qed
qed

subsection \<open>The contracts\<close>

definition work_fence :: "string \<Rightarrow> work_item list \<Rightarrow> int" where
  "work_fence i rows = (case get_by wi_id i rows of None \<Rightarrow> 0 | Some r \<Rightarrow> wi_fence r)"

lemma new_fence_nonneg:
  assumes "work_inv db" and "get_by wi_id i (work_items db) = Some r"
  shows "0 \<le> wi_fence r"
  using assms get_by_SomeD [OF assms(2)] by (auto simp: work_inv_def dest!: bspec attempts_le_fence)

lemma work_exec_fence:
  assumes inv: "work_inv db" and "fresh_work op db"
  shows "work_fence i (work_items db) \<le> work_fence i (work_items (work_exec sha now op db))"
proof (cases "get_by wi_id i (work_items db)")
  case None
  with new_fence_nonneg [OF work_exec_inv [OF assms(2) inv]] show ?thesis
    by (auto simp: work_fence_def split: option.splits)
next
  case (Some r)
  with work_exec_rows [OF inv, of sha now op] show ?thesis
    by (fastforce simp: work_fence_def steps_rows_def row_step_def)
qed

lemma locked_fence: "is_ok (locked now work allow db) \<Longrightarrow> work_fence (wc_work_id work) (work_items db) = wc_fence work"
proof -
  assume "is_ok (locked now work allow db)"
  then obtain r where l: "locked now work allow db = Inr r" by (auto simp: is_ok_iff)
  from locked_SomeD(1,4) [OF l] show ?thesis by (simp add: work_fence_def)
qed

interpretation work: fenced_resource "work_step sha" work_inv "\<lambda>db i. work_fence i (work_items db)"
    "\<lambda>db now w. is_ok (locked now w True db)" wc_work_id wc_fence
  by unfold_locales
    (auto simp: locked_fence elim!: work_step.cases intro: work_exec_inv work_exec_fence)

lemma put_item_maintenance [simp]: "maintenance (put_item row db) = maintenance db"
  by (simp add: put_item_def)

lemma work_exec_maintenance:
  assumes "\<And>m. op \<noteq> Maint m"
  shows "maintenance (work_exec sha now op db) = maintenance db"
proof -
  note keep = committed_inv [where P = "\<lambda>d. maintenance d = maintenance db", OF refl]
  show ?thesis
  proof (cases op)
    case (Enqueue new_id spec)
    then show ?thesis by (auto intro!: keep elim!: enqueueE)
  next
    case (Claim unlocked mop settings owner supported lease)
    then show ?thesis by (auto intro!: keep simp: claim_work_def Let_def split: if_splits option.splits)
  next
    case (Renew_Work work lease)
    then show ?thesis by (auto intro!: keep elim!: renewE)
  next
    case (Finish work outcome code)
    then show ?thesis by (auto intro!: keep elim!: finishE)
  next
    case (Cancel now' i)
    then show ?thesis by (auto simp: cancel_work_def Let_def split: option.splits)
  next
    case (Retry work code delay n)
    then show ?thesis by (auto intro!: keep elim!: retryE)
  next
    case (Defer work delay)
    then show ?thesis by (auto intro!: keep elim!: deferE)
  next
    case (Maint m)
    with assms [of m] show ?thesis by simp
  qed
qed

lemma work_exec_epoch: "epoch_of db \<le> epoch_of (work_exec sha now op db)"
proof (cases "\<exists>m. op = Maint m")
  case True
  then show ?thesis by (auto simp: maint_exec_epoch)
next
  case False
  then have "maintenance (work_exec sha now op db) = maintenance db" by (intro work_exec_maintenance) auto
  then show ?thesis by (simp add: epoch_of_def)
qed

lemma locked_epoch: "is_ok (locked now work allow db) \<Longrightarrow> epoch_of db = wc_epoch work"
  using assert_writes_allowed_Inr locked_SomeD(9) by (fastforce simp: is_ok_iff)

interpretation work_epoch: fenced_resource "work_step sha" "\<lambda>_. True" "\<lambda>db _. epoch_of db"
    "\<lambda>db now w. is_ok (locked now w True db)" "\<lambda>_. ()" wc_epoch
  by unfold_locales (auto simp: locked_epoch elim!: work_step.cases intro: work_exec_epoch)

lemma locked_allow: "is_ok (locked now work allow db) \<Longrightarrow> is_ok (locked now work True db)"
  by (auto simp: locked_def is_ok_iff split: sum.splits option.splits if_splits)

lemma locked_Inl: "locked now work allow db = Inl e \<Longrightarrow> e = LostOwnership"
  by (auto simp: locked_def split: sum.splits option.splits if_splits)

lemma not_locked_ops:
  assumes "\<not> is_ok (locked now work True db)"
  shows "locked now work allow db = Inl LostOwnership"
    and "duration_ok lease \<Longrightarrow> renew now work lease db = Inl LostOwnership"
    and "terminal outcome \<Longrightarrow> (case code of None \<Rightarrow> True | Some c \<Rightarrow> code_ok c) \<Longrightarrow> finish now work outcome code db = Inl LostOwnership"
    and "retry_ok c lease n \<Longrightarrow> retry now work c lease n db = Inl LostOwnership"
    and "duration_ok lease \<Longrightarrow> defer_work now work lease db = Inl LostOwnership"
proof -
  have l: "locked now work allow db = Inl LostOwnership" for allow
    using assms locked_allow [of now work allow db] locked_Inl [of now work allow db]
    by (cases "locked now work allow db") auto
  show "locked now work allow db = Inl LostOwnership"
    "duration_ok lease \<Longrightarrow> renew now work lease db = Inl LostOwnership"
    "terminal outcome \<Longrightarrow> (case code of None \<Rightarrow> True | Some c \<Rightarrow> code_ok c) \<Longrightarrow> finish now work outcome code db = Inl LostOwnership"
    "retry_ok c lease n \<Longrightarrow> retry now work c lease n db = Inl LostOwnership"
    "duration_ok lease \<Longrightarrow> defer_work now work lease db = Inl LostOwnership"
    by (auto simp: l renew_def finish_def retry_def defer_work_def terminal_def split: option.splits)
qed

lemma work_run_inv: "work_run_ok sha ops db \<Longrightarrow> work_inv db \<Longrightarrow> work_inv (work_run sha ops db)"
  using work.steps_inv [OF work_run_steps] .

lemma steps_rows_trans: "steps_rows a b \<Longrightarrow> steps_rows b c \<Longrightarrow> steps_rows a c"
  unfolding steps_rows_def by (meson row_step_trans)

lemma work_run_rows: "work_run_ok sha ops db \<Longrightarrow> work_inv db \<Longrightarrow> steps_rows db (work_run sha ops db)"
proof (induction sha ops db rule: work_run.induct)
  case (2 sha now op ops db)
  then have "steps_rows db (work_exec sha now op db)" "steps_rows (work_exec sha now op db) (work_run sha ops (work_exec sha now op db))"
    by (auto intro: work_exec_rows work_exec_inv)
  then show ?case by (auto intro: steps_rows_trans)
qed simp

lemma swept_ids: "map wi_id (swept unlocked supported now rows) = map wi_id rows"
proof -
  have "map wi_id (swept unlocked supported now rows) = map wi_id (recover_cancelled unlocked now rows)"
    unfolding swept_def mark_unsupported_def Let_def by (rule update_where_cong_key) simp
  also have "\<dots> = map wi_id rows"
    unfolding recover_cancelled_def Let_def by (rule update_where_cong_key) (simp add: close_cancelled_def)
  finally show ?thesis .
qed

lemma claimed_fence:
  assumes "claim_work unlocked op settings now owner supported lease db = Inr (Some c, db')" and inv: "work_inv db"
  shows "work_fence (wc_work_id c) (work_items db') = wc_fence c" "wc_fence c = work_fence (wc_work_id c) (work_items db) + 1"
    and "wc_work_id c \<in> wi_id ` set (work_items db)"
proof -
  let ?rows = "swept unlocked supported now (work_items db)"
  obtain row row' where t: "next_work unlocked supported now ?rows = Some row" "same_item row row'"
      "row' = take_work owner (case rs_epoch settings of None \<Rightarrow> 0 | Some e \<Rightarrow> e) now lease row"
      "c = claim_token row' owner (now + seconds lease)" "db' = db\<lparr>work_items := put_by wi_id row' ?rows\<rparr>"
    using assms by (cases rule: claim_workE) auto
  have "rows_inv ?rows" using inv by (simp add: work_inv_rows swept_inv)
  then have g: "get_by wi_id (wi_id row) ?rows = Some row"
    using next_work_Some(1) [OF t(1)] by (simp add: rows_inv_def get_by_unique)
  have ids: "map wi_id ?rows = map wi_id (work_items db)" by (rule swept_ids)
  then have mem: "wi_id row \<in> wi_id ` set (work_items db)"
    using next_work_Some(1) [OF t(1)] by (metis imageI set_map)
  then obtain r where r: "get_by wi_id (wi_id row) (work_items db) = Some r"
    by (cases "get_by wi_id (wi_id row) (work_items db)") (auto simp: get_by_None)
  from get_by_swept [OF r, of unlocked supported now] g have "wi_fence row = wi_fence r" by auto
  with r g t show "work_fence (wc_work_id c) (work_items db') = wc_fence c"
    "wc_fence c = work_fence (wc_work_id c) (work_items db) + 1" "wc_work_id c \<in> wi_id ` set (work_items db)"
    using mem by (simp_all add: work_fence_def get_by_put_by claim_token_def take_work_def same_item_def)
qed

subsection \<open>Properties\<close>

definition example_work :: work_db where
  "example_work = maint_db.extend example_maint \<lparr>work_items = [], progress = []\<rparr>"

definition example_settings :: runtime_settings where
  "example_settings = \<lparr>rs_installation_id = Some ''inst'', rs_epoch = Some 4\<rparr>"

definition example_spec :: work_spec where
  "example_spec = \<lparr>ws_kind = ''document'', ws_version = 1, ws_payload = JObj [(''doc_id'', JStr ''d1'')],
     ws_dedupe_key = ''document/d1'', ws_doc_id = Some ''d1''\<rparr>"

definition example_claim :: "string \<Rightarrow> work_op" where
  "example_claim owner = Claim (\<lambda>_. True) None example_settings owner [(''document'', [1])] 60"

definition example_token :: "string \<Rightarrow> int \<Rightarrow> time \<Rightarrow> work_claim" where
  "example_token owner fence lease = \<lparr>wc_work_id = ''w1'', wc_owner_id = owner, wc_fence = fence, wc_lease_until = lease,
     wc_spec = example_spec, wc_epoch = 4\<rparr>"

text \<open>A row that has been queued and claimed by worker A, and the same a minute later.\<close>

definition claimed_ops :: "(time \<times> work_op) list" where
  "claimed_ops = [(0, Enqueue ''w1'' example_spec), (seconds 1, example_claim ''A'')]"

definition claimed_db :: work_db where
  "claimed_db = work_run id claimed_ops example_work"

lemma example_work_inv [simp]: "work_inv example_work"
  by (simp add: work_inv_def example_work_def example_maint_def unique_key_def maint_db.defs coord_db.defs)

lemma claimed_db_inv [simp]: "work_inv claimed_db"
proof -
  have "work_run_ok id claimed_ops example_work" by code_simp
  then show ?thesis unfolding claimed_db_def by (rule work_run_inv) simp
qed

text \<open>
  C5. Rows of the ledger stay well-formed under every interleaving of transactions: a row
  has an owner and a lease exactly while it runs, a finish time exactly when it is done,
  a cancellation request only while it runs or once cancelled, between 0 and \<open>fence\<close>
  attempts, and its identity and dedupe key stay unique.
\<close>

theorem ledger_well_formed:
  assumes "work_run_ok sha ops db" and "work_inv db"
  shows "work_inv (work_run sha ops db)"
  using assms by (rule work_run_inv)

theorem ledger_well_formed_witness: "work_inv (work_run id claimed_ops example_work)"
proof (rule ledger_well_formed)
  show "work_run_ok id claimed_ops example_work" by code_simp
qed simp

text \<open>
  C4. A worker that lost its row can never touch it again: once the row has been claimed
  anew, the token that was valid before is refused by every operation in every later
  state, so a late acknowledgement is never accepted.
\<close>

theorem stale_claim_refused:
  assumes "is_ok (locked t0 old True db)" and "work_inv db"
    and "claim_work unlocked op settings now owner supported lease db = Inr (Some c, db1)"
    and "wc_work_id c = wc_work_id old" and "work_run_ok sha ops db1"
  shows "let db2 = work_run sha ops db1 in
    locked t old allow db2 = Inl LostOwnership \<and>
    (duration_ok d \<longrightarrow> renew t old d db2 = Inl LostOwnership \<and> defer_work t old d db2 = Inl LostOwnership) \<and>
    (terminal outcome \<and> (case code of None \<Rightarrow> True | Some e \<Rightarrow> code_ok e) \<longrightarrow> finish t old outcome code db2 = Inl LostOwnership) \<and>
    (retry_ok e d n \<longrightarrow> retry t old e d n db2 = Inl LostOwnership)"
proof -
  have "wc_fence old < work_fence (wc_work_id old) (work_items db1)"
    using claimed_fence(1,2) [OF assms(3,2)] locked_fence [OF assms(1)] assms(4) by simp
  moreover have "work_inv db1" by (rule claim_inv [OF assms(3,2)])
  ultimately have "\<not> is_ok (locked t old True (work_run sha ops db1))"
    using work.superseded_rejected [OF _ work_run_steps [OF assms(5)]] by blast
  then show ?thesis by (simp add: Let_def not_locked_ops)
qed

theorem stale_claim_refused_witness:
  "finish (seconds 90) (example_token ''A'' 1 (seconds 61)) Succeeded None
     (work_run id [] (work_exec id (seconds 80) (example_claim ''B'') claimed_db)) = Inl LostOwnership"
proof -
  let ?db1 = "work_exec id (seconds 80) (example_claim ''B'') claimed_db"
  have "is_ok (locked (seconds 2) (example_token ''A'' 1 (seconds 61)) True claimed_db)" by code_simp
  moreover have "claim_work (\<lambda>_. True) None example_settings (seconds 80) ''B'' [(''document'', [1])] 60 claimed_db =
      Inr (Some (example_token ''B'' 2 (seconds 140)), ?db1)" by code_simp
  moreover have "wc_work_id (example_token ''B'' 2 (seconds 140)) = wc_work_id (example_token ''A'' 1 (seconds 61))" by code_simp
  moreover have "work_run_ok id [] ?db1" by simp
  ultimately show ?thesis
    using stale_claim_refused [OF _ claimed_db_inv, where outcome = Succeeded and code = None and t = "seconds 90"]
    by (fastforce simp: Let_def terminal_def)
qed

text \<open>
  C6. A finished row is final: whatever transactions run afterwards, it keeps its status,
  its finish time, its error code and every other column.
\<close>

theorem finished_work_is_final:
  assumes "work_run_ok sha ops db" and "work_inv db"
    and "get_by wi_id i (work_items db) = Some row" and "terminal (wi_status row)"
  shows "get_by wi_id i (work_items (work_run sha ops db)) = Some row"
  using work_run_rows [OF assms(1,2)] assms(3,4) by (fastforce simp: steps_rows_def row_step_def)

definition finished_db :: work_db where
  "finished_db = work_exec id (seconds 5) (Finish (example_token ''A'' 1 (seconds 61)) Succeeded None) claimed_db"

theorem finished_work_is_final_witness:
  "map_option wi_status (get_by wi_id ''w1'' (work_items
     (work_run id [(seconds 90, example_claim ''B''), (seconds 91, Cancel 0 ''w1'')] finished_db))) = Some Succeeded"
proof -
  have "work_inv finished_db"
    unfolding finished_db_def by (intro work_exec_inv claimed_db_inv) simp
  moreover obtain row where row: "get_by wi_id ''w1'' (work_items finished_db) = Some row" "wi_status row = Succeeded"
  proof -
    have "map_option wi_status (get_by wi_id ''w1'' (work_items finished_db)) = Some Succeeded" by code_simp
    with that show ?thesis by auto
  qed
  moreover have "work_run_ok id [(seconds 90, example_claim ''B''), (seconds 91, Cancel 0 ''w1'')] finished_db" by code_simp
  ultimately have "get_by wi_id ''w1'' (work_items
      (work_run id [(seconds 90, example_claim ''B''), (seconds 91, Cancel 0 ''w1'')] finished_db)) = Some row"
    by (intro finished_work_is_final) (simp_all add: terminal_def)
  with row(2) show ?thesis by (simp del: work_run.simps)
qed

text \<open>
  C7. Enqueueing is idempotent for good: after any run, enqueueing the same request again
  returns the row it was given before and changes nothing, and a different request under
  the same dedupe key is refused.
\<close>

theorem enqueue_idempotent:
  assumes "work_inv db" and "enqueue now new_id spec db = Inr (i, db1)" and "get_by wi_id new_id (work_items db) = None"
    and "work_run_ok sha ops db1" and "ws_dedupe_key other = ws_dedupe_key spec"
  shows "let db2 = work_run sha ops db1 in
    enqueue now' new_id' other db2 =
      (if spec_ok other \<and> ws_kind other = ws_kind spec \<and> ws_version other = ws_version spec \<and> ws_doc_id other = ws_doc_id spec
          \<and> same_json (ws_payload other) (ws_payload spec)
       then Inr (i, db2) else Inl ValueError)"
proof -
  have inv1: "work_inv db1" by (rule enqueue_inv [OF assms(2,1,3)])
  obtain row where row: "get_by wi_dedupe_key (ws_dedupe_key spec) (work_items db1) = Some row" "wi_id row = i" "same_request row spec"
    using assms(2) by (cases rule: enqueueE) (auto simp: get_by_append)
  have mem: "row \<in> set (work_items db1)" "wi_dedupe_key row = ws_dedupe_key spec" using get_by_SomeD [OF row(1)] by auto
  then have "get_by wi_id i (work_items db1) = Some row" using inv1 row(2) by (simp add: work_inv_def get_by_unique)
  then obtain r2 where r2: "get_by wi_id i (work_items (work_run sha ops db1)) = Some r2" "row_step row r2"
    using work_run_rows [OF assms(4) inv1] by (auto simp: steps_rows_def)
  have same: "item_spec r2 = item_spec row" "wi_id r2 = i" using r2(2) row(2) by (simp_all add: row_step_def same_item_def)
  then have "wi_dedupe_key r2 = ws_dedupe_key other" using mem(2) assms(5) by (simp add: item_spec_def)
  then have g: "get_by wi_dedupe_key (ws_dedupe_key other) (work_items (work_run sha ops db1)) = Some r2"
    using get_by_SomeD [OF r2(1)] work_run_inv [OF assms(4) inv1] by (simp add: work_inv_def get_by_unique)
  have "same_request r2 other \<longleftrightarrow> ws_kind other = ws_kind spec \<and> ws_version other = ws_version spec \<and>
      ws_doc_id other = ws_doc_id spec \<and> same_json (ws_payload other) (ws_payload spec)"
    using same(1) row(3) by (auto simp: same_request_def item_spec_def same_json_def)
  with g same(2) show ?thesis by (cases other) (auto simp: enqueue_def make_spec_def Let_def)
qed

theorem enqueue_idempotent_witness:
  "enqueue (seconds 99) ''w2'' (example_spec\<lparr>ws_version := 2\<rparr>) claimed_db = Inl ValueError"
proof -
  let ?db1 = "work_exec id 0 (Enqueue ''w1'' example_spec) example_work"
  have "enqueue 0 ''w1'' example_spec example_work = Inr (''w1'', ?db1)" by code_simp
  moreover have "get_by wi_id ''w1'' (work_items example_work) = None" by code_simp
  moreover have "work_run_ok id [(seconds 1, example_claim ''A'')] ?db1" by code_simp
  moreover have "ws_dedupe_key (example_spec\<lparr>ws_version := 2\<rparr>) = ws_dedupe_key example_spec" by simp
  moreover have "work_run id [(seconds 1, example_claim ''A'')] ?db1 = claimed_db"
    by (simp add: claimed_db_def claimed_ops_def)
  ultimately show ?thesis
    using enqueue_idempotent [OF example_work_inv, of 0 "''w1''" example_spec "''w1''" ?db1 id] by (fastforce simp: Let_def example_spec_def)
qed

text \<open>
  A claim takes the least eligible row of a supported kind in the order (available,
  created, id) among the rows no other transaction holds; nothing is returned exactly
  when no such row is left after the sweep.
\<close>

theorem claim_takes_first_eligible:
  assumes "claim_work unlocked op settings now owner supported lease db = Inr (res, db')" and "work_inv db"
  shows "case res of
      None \<Rightarrow> \<forall>r \<in> set (work_items db'). \<not> (eligible now r \<and> compatible supported r \<and> unlocked (wi_id r))
    | Some c \<Rightarrow> \<exists>row \<in> set (swept unlocked supported now (work_items db)).
        eligible now row \<and> compatible supported row \<and> unlocked (wi_id row) \<and> wc_work_id c = wi_id row \<and>
        wc_fence c = wi_fence row + 1 \<and> wc_spec c = item_spec row \<and>
        (\<forall>x \<in> set (swept unlocked supported now (work_items db)). eligible now x \<and> compatible supported x \<and> unlocked (wi_id x) \<longrightarrow>
          (wi_available_at row, wi_created_at row, wi_id row) \<le> (wi_available_at x, wi_created_at x, wi_id x))"
proof (cases res)
  case None
  have db': "db' = db\<lparr>work_items := swept unlocked supported now (work_items db)\<rparr>"
    using assms by (cases rule: claim_workE) (use None in auto)
  have "next_work unlocked supported now (swept unlocked supported now (work_items db)) = None"
  proof (cases "list_all (\<lambda>(_, versions). versions = []) supported")
    case True
    then have "\<not> compatible supported r" for r
      by (fastforce simp: compatible_def list_all_iff list_ex_iff)
    then show ?thesis by (simp add: next_work_None)
  next
    case False
    with assms(1) None show ?thesis
      by (auto simp: claim_work_def swept_def Let_def split: if_splits option.splits)
  qed
  with None db' show ?thesis by (simp add: next_work_None)
next
  case (Some c)
  from assms obtain row row' where taken:
      "next_work unlocked supported now (swept unlocked supported now (work_items db)) = Some row"
      "row' = take_work owner (case rs_epoch settings of None \<Rightarrow> 0 | Some e \<Rightarrow> e) now lease row"
      "res = Some (claim_token row' owner (now + seconds lease))" "same_item row row'"
    by (cases rule: claim_workE) (use Some in auto)
  show ?thesis
    unfolding taken(3) option.case
  proof (intro bexI [of _ row] conjI ballI impI)
    show "wc_work_id (claim_token row' owner (now + seconds lease)) = wi_id row"
      "wc_fence (claim_token row' owner (now + seconds lease)) = wi_fence row + 1"
      "wc_spec (claim_token row' owner (now + seconds lease)) = item_spec row"
      using taken(2,4) by (simp_all add: claim_token_def take_work_def same_item_def)
  qed (use next_work_Some [OF taken(1)] in blast)+
qed

theorem claim_takes_first_eligible_witness:
  "\<exists>row \<in> set (swept (\<lambda>_. True) [(''document'', [1])] (seconds 80) (work_items claimed_db)).
     eligible (seconds 80) row \<and> compatible [(''document'', [1])] row \<and> wi_id row = ''w1''"
proof -
  let ?db1 = "work_exec id (seconds 80) (example_claim ''B'') claimed_db"
  have "claim_work (\<lambda>_. True) None example_settings (seconds 80) ''B'' [(''document'', [1])] 60 claimed_db =
      Inr (Some (example_token ''B'' 2 (seconds 140)), ?db1)" by code_simp
  from claim_takes_first_eligible [OF this claimed_db_inv] show ?thesis by (auto simp: example_token_def)
qed

text \<open>
  Failures are bounded: an acknowledged transient failure requeues the row only while
  its attempts are below the maximum and otherwise fails it for good, and a deferral
  gives the attempt of its own claim back.
\<close>

theorem retry_is_bounded:
  assumes "work_inv db" and "locked now work False db = Inr row" and "retry_ok code delay max_attempts"
  shows "(\<exists>db' row'. retry now work code delay max_attempts db = Inr db' \<and>
      get_by wi_id (wc_work_id work) (work_items db') = Some row' \<and> wi_attempts row' = wi_attempts row \<and>
      wi_error_code row' = Some code \<and> wi_owner_id row' = None \<and>
      (if wi_attempts row < max_attempts
       then wi_status row' = Queued \<and> wi_available_at row' = now + seconds delay
       else wi_status row' = Failed \<and> wi_finished_at row' = Some now)) \<and>
    (duration_ok d \<longrightarrow> (\<exists>db' row'. defer_work now work d db = Inr db' \<and>
      get_by wi_id (wc_work_id work) (work_items db') = Some row' \<and> wi_status row' = Queued \<and>
      wi_attempts row' = wi_attempts row - 1 \<and> 0 \<le> wi_attempts row'))"
proof -
  have g: "get_by wi_id (wc_work_id work) (work_items db) = Some row" "wi_id row = wc_work_id work"
    using locked_SomeD(1,8) [OF assms(2)] by auto
  have "1 \<le> wi_attempts row" using locked_wf [OF assms(2,1)] locked_SomeD(3) [OF assms(2)] by (simp add: item_wf_def)
  with g assms(2,3) show ?thesis
    by (simp add: retry_def defer_work_def put_item_def get_by_put_by Let_def)
qed

theorem retry_is_bounded_witness:
  "\<exists>db' row'. retry (seconds 2) (example_token ''A'' 1 (seconds 61)) ''model_unavailable'' 5 1 claimed_db = Inr db' \<and>
     get_by wi_id ''w1'' (work_items db') = Some row' \<and> wi_status row' = Failed"
proof -
  have "is_ok (locked (seconds 2) (example_token ''A'' 1 (seconds 61)) False claimed_db)" by code_simp
  then obtain row where row: "locked (seconds 2) (example_token ''A'' 1 (seconds 61)) False claimed_db = Inr row"
    by (auto simp: is_ok_iff)
  have "1 \<le> wi_attempts row" using locked_wf [OF row claimed_db_inv] locked_SomeD(3) [OF row] by (simp add: item_wf_def)
  moreover have "retry_ok ''model_unavailable'' 5 1" by code_simp
  ultimately show ?thesis using retry_is_bounded [OF claimed_db_inv row, of "''model_unavailable''" 5 1, THEN conjunct1]
    by (auto simp: example_token_def)
qed

text \<open>
  A maintenance operation ends every work attempt that was claimed before it: no token
  with an earlier epoch is accepted again, so a worker of the old installation cannot
  renew, finish, retry or defer anything.
\<close>

theorem maintenance_ends_attempts:
  assumes "enter_maintenance now op i kind counts db = Inr (epoch, db1)" and "wc_epoch work < epoch"
    and "work_run_ok sha ops db1"
  shows "locked t work allow (work_run sha ops db1) = Inl LostOwnership \<and>
    (duration_ok d \<longrightarrow> renew t work d (work_run sha ops db1) = Inl LostOwnership) \<and>
    finish t work Succeeded None (work_run sha ops db1) = Inl LostOwnership"
proof -
  have "epoch_of db1 = epoch" using enter_maintenance_Inr [OF assms(1)] by (auto simp: epoch_of_def)
  with assms(2) have "wc_epoch work < epoch_of db1" by simp
  from work_epoch.superseded_rejected [OF this work_run_steps [OF assms(3)]]
  have "\<not> is_ok (locked t work True (work_run sha ops db1))" by blast
  then show ?thesis by (simp add: not_locked_ops terminal_def)
qed

theorem maintenance_ends_attempts_witness:
  "finish (seconds 30) (example_token ''A'' 1 (seconds 61)) Succeeded None
     (work_run id [(seconds 20, Maint (Leave (Some example_operator) ''op1'' example_receipts))]
       (work_exec id (seconds 10) (Maint (Enter (Some example_operator) ''op1'' ''upgrade'' example_counts)) claimed_db))
     = Inl LostOwnership"
proof -
  let ?db1 = "work_exec id (seconds 10) (Maint (Enter (Some example_operator) ''op1'' ''upgrade'' example_counts)) claimed_db"
  have "enter_maintenance (seconds 10) (Some example_operator) ''op1'' ''upgrade'' example_counts claimed_db = Inr (5, ?db1)"
    by code_simp
  moreover have "wc_epoch (example_token ''A'' 1 (seconds 61)) < 5" by code_simp
  moreover have "work_run_ok id [(seconds 20, Maint (Leave (Some example_operator) ''op1'' example_receipts))] ?db1" by simp
  ultimately show ?thesis using maintenance_ends_attempts by blast
qed

end
