(* ===== verification/Work_Runtime.thy ===== *)
theory Work_Runtime
  imports Work_Store
begin

text \<open>
  What runs on top of the ledger: the handler registry (\<open>handlers.py\<close>), periodic intents
  (\<open>scheduler.py\<close>), the worker's acknowledgement of an attempt (\<open>worker.py\<close>), the fenced
  checkpoints (\<open>progress.py\<close>) and the transaction guard of a running handler (\<open>context.py\<close>).
\<close>

subsection \<open>Handlers\<close>

definition transient_codes :: "string list" where
  "transient_codes = [''storage_unavailable'', ''model_unavailable'', ''transport_unavailable'']"

definition work_deferred :: "int \<Rightarrow> int result" where
  "work_deferred delay = (if 1 \<le> delay \<and> delay \<le> 3600 then Inr delay else Inl ValueError)"

definition transient_error :: "string \<Rightarrow> string result" where
  "transient_error code = (if code \<in> set transient_codes then Inr code else Inl ValueError)"

type_synonym 'h registry = "((string \<times> int) \<times> 'h) list"

definition register :: "string \<Rightarrow> int \<Rightarrow> 'h \<Rightarrow> 'h registry \<Rightarrow> 'h registry result" where
  "register kind version handler handlers =
     bindr (make_spec kind version (JObj []) ''validate'' None) (\<lambda>_.
       if map_of handlers (kind, version) \<noteq> None then Inl ValueError
       else Inr (handlers @ [((kind, version), handler)]))"

fun add_version :: "string \<Rightarrow> int \<Rightarrow> (string \<times> int list) list \<Rightarrow> (string \<times> int list) list" where
  "add_version kind version [] = [(kind, [version])]"
| "add_version kind version ((k, vs) # rest) =
     (if k = kind then (k, vs @ [version]) # rest else (k, vs) # add_version kind version rest)"

definition supported_kinds :: "'h registry \<Rightarrow> (string \<times> int list) list" where
  "supported_kinds handlers = foldl (\<lambda>acc (kv, _). add_version (fst kv) (snd kv) acc) [] handlers"

definition resolve :: "'h registry \<Rightarrow> work_spec \<Rightarrow> 'h result" where
  "resolve handlers spec =
     (case map_of handlers (ws_kind spec, ws_version spec) of None \<Rightarrow> Inl KeyError | Some h \<Rightarrow> Inr h)"

subsection \<open>Periodic intents\<close>

record periodic_spec =
  ps_kind :: string
  ps_interval :: int
  ps_scope :: string

definition periodic_ok :: "periodic_spec \<Rightarrow> bool" where
  "periodic_ok s \<longleftrightarrow> code_ok (ps_kind s) \<and>
     fullmatch_class (upper_az @ lower_az @ digits09 @ ''_.:-'') 1 128 (ps_scope s) \<and>
     1 \<le> ps_interval s \<and> ps_interval s \<le> 31 * 86400"

text \<open>\<open>column.startswith(prefix)\<close> is \<open>LIKE prefix || '%'\<close>, in which an underscore matches any character.\<close>

fun like_prefix :: "string \<Rightarrow> string \<Rightarrow> bool" where
  "like_prefix [] s = True"
| "like_prefix (p # ps) [] = False"
| "like_prefix (p # ps) (c # cs) = ((p = CHR ''_'' \<or> p = c) \<and> like_prefix ps cs)"

definition schedule_prefix :: "periodic_spec \<Rightarrow> string" where
  "schedule_prefix s = ''schedule/'' @ ps_kind s @ ''/'' @ ps_scope s @ ''/''"

text \<open>\<open>int(now.timestamp())\<close> truncates towards zero, \<open>//\<close> floors.\<close>

definition schedule_slot :: "time \<Rightarrow> periodic_spec \<Rightarrow> int" where
  "schedule_slot now s = (if 0 \<le> now then now div 1000000 else - ((- now) div 1000000)) div ps_interval s"

definition pending_periodic :: "periodic_spec \<Rightarrow> work_item \<Rightarrow> bool" where
  "pending_periodic s r \<longleftrightarrow> wi_kind r = ps_kind s \<and> (wi_status r = Queued \<or> wi_status r = Running) \<and>
     like_prefix (schedule_prefix s) (wi_dedupe_key r)"

text \<open>\<open>at\<close> is the time the slot is computed from, \<open>now\<close> the clock read of \<open>enqueue\<close>.\<close>

definition enqueue_due ::
    "time \<Rightarrow> time \<Rightarrow> string \<Rightarrow> periodic_spec \<Rightarrow> 'a work_db_scheme \<Rightarrow> (string \<times> 'a work_db_scheme) result" where
  "enqueue_due at now new_id s db =
     (case order_by (\<lambda>r. (wi_created_at r, wi_id r)) (filter (pending_periodic s) (work_items db)) of
        r # _ \<Rightarrow> Inr (wi_id r, db)
      | [] \<Rightarrow> bindr (make_spec (ps_kind s) 1 (JObj []) (schedule_prefix s @ int_text (schedule_slot at s)) None)
                (\<lambda>spec. enqueue now new_id spec db))"

record scheduler_settings =
  ss_chat_purge_enabled :: bool
  ss_chat_purge_interval :: int
  ss_artifact_gc_enabled :: bool
  ss_artifact_gc_interval :: int
  ss_trash_purge_enabled :: bool
  ss_trash_purge_interval :: int

definition clamp :: "int \<Rightarrow> int \<Rightarrow> int \<Rightarrow> int" where
  "clamp lo hi x = max lo (min hi x)"

definition periodic_specs :: "scheduler_settings \<Rightarrow> periodic_spec list" where
  "periodic_specs st = map (\<lambda>(k, i). \<lparr>ps_kind = k, ps_interval = i, ps_scope = ''global''\<rparr>)
     ([(''auth_purge'', 3600), (''bulk_reconcile'', 30), (''generation_sweep'', 60), (''export_purge'', 300),
       (''index_backfill_sweep'', 3600), (''translation_reconcile'', 30), (''diagnostic_maintenance'', 60),
       (''repair_reconcile'', 60), (''chat_run_reconcile'', 30)] @
      (if ss_chat_purge_enabled st then [(''chat_purge'', clamp 60 (31 * 86400) (ss_chat_purge_interval st))] else []) @
      (if ss_artifact_gc_enabled st then [(''artifact_gc'', ss_artifact_gc_interval st)] else []) @
      (if ss_trash_purge_enabled st then [(''trash_sweep'', clamp 60 (31 * 86400) (ss_trash_purge_interval st))] else []))"

subsection \<open>One attempt of a worker\<close>

text \<open>
  The worker has claimed a row and runs its handler in a thread. \<open>Beat\<close> is a heartbeat whose
  transaction ran, \<open>Row_Busy\<close> one that met a lock timeout, \<open>Handler_Done\<close> the end of the handler,
  \<open>Stopping\<close> the shutdown request.
\<close>

datatype handler_result =
    Returned
  | Returned_Deferred int
  | Raised_Transient string
  | Raised_Other

datatype worker_event =
    Beat time
  | Row_Busy
  | Handler_Done time handler_result
  | Stopping

record worker_settings =
  wk_lease_seconds :: int
  wk_backoff :: "int list"
  wk_max_attempts :: int

definition backoff_delay :: "int list \<Rightarrow> int \<Rightarrow> int result" where
  "backoff_delay delays attempts =
     (let i = min (attempts - 1) (int (length delays) - 1)
      in if 0 \<le> i \<and> i < int (length delays) then Inr (delays ! nat i)
         else if delays = [] then Inl IndexError
         else Inr (delays ! nat (int (length delays) + i)))"

definition acknowledge ::
    "worker_settings \<Rightarrow> time \<Rightarrow> work_claim \<Rightarrow> handler_result \<Rightarrow> 'a work_db_scheme \<Rightarrow> 'a work_db_scheme result" where
  "acknowledge st now work res db =
     (case res of
        Returned_Deferred delay \<Rightarrow> defer_work now work delay db
      | Raised_Transient code \<Rightarrow>
          bindr (locked now work False db) (\<lambda>row.
            bindr (backoff_delay (wk_backoff st) (wi_attempts row)) (\<lambda>delay.
              retry now work code delay (wk_max_attempts st) db))
      | Returned \<Rightarrow> finish now work Succeeded None db
      | Raised_Other \<Rightarrow> finish now work Failed (Some ''handler_failed'') db)"

datatype attempt_end = Still_Running | Stopped | Ownership_Lost | Acknowledged | Attempt_Error exn

fun run_attempt ::
    "worker_settings \<Rightarrow> work_claim \<Rightarrow> worker_event list \<Rightarrow> 'a work_db_scheme \<Rightarrow> attempt_end \<times> 'a work_db_scheme" where
  "run_attempt st work [] db = (Still_Running, db)"
| "run_attempt st work (Stopping # evs) db = (Stopped, db)"
| "run_attempt st work (Row_Busy # evs) db = run_attempt st work evs db"
| "run_attempt st work (Beat now # evs) db =
     (case renew now work (wk_lease_seconds st) db of
        Inl LostOwnership \<Rightarrow> (Ownership_Lost, db)
      | Inl e \<Rightarrow> (Attempt_Error e, db)
      | Inr (work', db') \<Rightarrow> run_attempt st work' evs db')"
| "run_attempt st work (Handler_Done now res # evs) db =
     (case acknowledge st now work res db of
        Inl LostOwnership \<Rightarrow> (Ownership_Lost, db)
      | Inl e \<Rightarrow> (Attempt_Error e, db)
      | Inr db' \<Rightarrow> (Acknowledged, db'))"

text \<open>The delay of \<open>run\<close> before its next poll: \<open>None\<close> as outcome is an exception of \<open>run_once\<close>.\<close>

definition poll_delay :: "int \<Rightarrow> bool option \<Rightarrow> int \<Rightarrow> int \<times> int" where
  "poll_delay poll_seconds outcome failures =
     (case outcome of
        Some occupied \<Rightarrow> (if occupied then 0 else poll_seconds, 0)
      | None \<Rightarrow> let f = min (failures + 1) 5 in (min (2 ^ nat (f - 1)) 30, f))"

subsection \<open>The transaction guard\<close>

text \<open>
  What \<open>session.info\<close> holds: the claim the session is bound to, the guard's reentrancy flag and
  the acknowledgement \<open>(work id, fence, outcome, transaction)\<close>; \<open>si_txn\<close> is the identity of the
  session's current transaction. \<open>active\<close> is the context variable of the running handler.
\<close>

record session_info =
  si_bound :: "work_claim option"
  si_busy :: bool
  si_ack :: "(string \<times> int \<times> work_status \<times> nat) option"
  si_txn :: nat

definition same_attempt :: "work_claim \<Rightarrow> work_claim \<Rightarrow> bool" where
  "same_attempt a b \<longleftrightarrow> wc_work_id a = wc_work_id b \<and> wc_owner_id a = wc_owner_id b \<and> wc_fence a = wc_fence b"

definition acknowledged_here :: "session_info \<Rightarrow> work_claim \<Rightarrow> work_item option \<Rightarrow> bool" where
  "acknowledged_here info work row \<longleftrightarrow>
     (case (si_ack info, row) of
        (Some (i, fence, outcome, txn), Some r) \<Rightarrow>
          i = wc_work_id work \<and> fence = wc_fence work \<and> outcome = wi_status r \<and> txn = si_txn info \<and>
          wi_fence r = wc_fence work \<and> terminal (wi_status r)
      | _ \<Rightarrow> False)"

definition enforce_session ::
    "time \<Rightarrow> work_claim option \<Rightarrow> session_info \<Rightarrow> 'a work_db_scheme \<Rightarrow> session_info result" where
  "enforce_session now active info db =
     (if (case (active, si_bound info) of (Some a, Some b) \<Rightarrow> \<not> same_attempt a b | _ \<Rightarrow> False)
      then Inl LostOwnership
      else case (case active of None \<Rightarrow> si_bound info | Some a \<Rightarrow> Some a) of
        None \<Rightarrow> Inr info
      | Some work \<Rightarrow>
          if si_busy info then Inr info
          else let info' = info\<lparr>si_bound := Some work\<rparr>
          in case assert_writes_allowed (Some (wc_epoch work)) False db of
               Inl _ \<Rightarrow> Inl LostOwnership
             | Inr _ \<Rightarrow>
                 if acknowledged_here info' work (get_by wi_id (wc_work_id work) (work_items db)) then Inr info'
                 else bindr (locked now work False db) (\<lambda>_. Inr info'))"

definition note_completion ::
    "work_claim option \<Rightarrow> work_claim \<Rightarrow> work_status \<Rightarrow> session_info \<Rightarrow> session_info result" where
  "note_completion active work outcome info =
     (case (case active of None \<Rightarrow> si_bound info | Some a \<Rightarrow> Some a) of
        None \<Rightarrow> Inr info
      | Some a \<Rightarrow> if \<not> same_attempt a work then Inl LostOwnership
          else Inr (info\<lparr>si_ack := Some (wc_work_id work, wc_fence work, outcome, si_txn info)\<rparr>))"

definition bind_session ::
    "time \<Rightarrow> work_claim option \<Rightarrow> work_claim \<Rightarrow> session_info \<Rightarrow> 'a work_db_scheme \<Rightarrow> session_info result" where
  "bind_session now active work info db =
     (if (case si_bound info of None \<Rightarrow> False | Some b \<Rightarrow> \<not> same_attempt b work) then Inl LostOwnership
      else enforce_session now active (info\<lparr>si_bound := Some work\<rparr>) db)"

definition document_claim_ok :: "work_claim \<Rightarrow> bool" where
  "document_claim_ok work \<longleftrightarrow> ws_kind (wc_spec work) = ''document'' \<and> ws_version (wc_spec work) = 1 \<and>
     (case ws_doc_id (wc_spec work) of None \<Rightarrow> False
      | Some d \<Rightarrow> json_get ''doc_id'' (ws_payload (wc_spec work)) = Some (JStr d)) \<and>
     (case get_str ''action'' (ws_payload (wc_spec work)) of None \<Rightarrow> False
      | Some a \<Rightarrow> a = ''process'' \<or> a = ''resume'' \<or> a = ''regenerate'')"

text \<open>\<open>finish\<close> inside a handler's session, with its \<open>note_completion\<close>.\<close>

definition finish_in_session ::
    "time \<Rightarrow> work_claim option \<Rightarrow> work_claim \<Rightarrow> work_status \<Rightarrow> string option \<Rightarrow> session_info \<Rightarrow> 'a work_db_scheme
     \<Rightarrow> (session_info \<times> 'a work_db_scheme) result" where
  "finish_in_session now active work outcome code info db =
     bindr (finish now work outcome code db) (\<lambda>db'.
       bindr (note_completion active work outcome info) (\<lambda>info'. Inr (info', db')))"

subsection \<open>Checkpoints\<close>

definition progress_identity :: "(string \<Rightarrow> string) \<Rightarrow> work_claim \<Rightarrow> int \<Rightarrow> string result" where
  "progress_identity sha256 work version =
     (if \<not> (1 \<le> version \<and> version \<le> 2147483647) then Inl ValueError
      else let s = wc_spec work
           in Inr (sha256 (json_dumps (JArr [JStr (ws_kind s), JInt (ws_version s), opt_str (ws_doc_id s), ws_payload s]))))"

definition load_row ::
    "(string \<Rightarrow> string) \<Rightarrow> time \<Rightarrow> work_claim option \<Rightarrow> work_claim \<Rightarrow> int \<Rightarrow> session_info \<Rightarrow> 'a work_db_scheme
     \<Rightarrow> (work_progress option \<times> string \<times> session_info) result" where
  "load_row sha256 now active work version info db =
     bindr (progress_identity sha256 work version) (\<lambda>expected.
       bindr (bind_session now active work info db) (\<lambda>info'.
         case get_by wp_work_id (wc_work_id work) (progress db) of
           None \<Rightarrow> Inr (None, expected, info')
         | Some row \<Rightarrow> if wp_version row \<noteq> version \<or> wp_input_hash row \<noteq> expected then Inl ValueError
             else Inr (Some row, expected, info')))"

definition load_progress ::
    "(string \<Rightarrow> string) \<Rightarrow> time \<Rightarrow> work_claim option \<Rightarrow> work_claim \<Rightarrow> int \<Rightarrow> session_info \<Rightarrow> 'a work_db_scheme
     \<Rightarrow> json result" where
  "load_progress sha256 now active work version info db =
     bindr (load_row sha256 now active work version info db) (\<lambda>(row, _, _).
       Inr (case row of None \<Rightarrow> JObj [] | Some r \<Rightarrow> wp_state r))"

definition save_progress ::
    "(string \<Rightarrow> string) \<Rightarrow> time \<Rightarrow> work_claim option \<Rightarrow> work_claim \<Rightarrow> int \<Rightarrow> json \<Rightarrow> session_info \<Rightarrow> 'a work_db_scheme
     \<Rightarrow> (session_info \<times> 'a work_db_scheme) result" where
  "save_progress sha256 now active work version state info db =
     (if \<not> is_object state then Inl ValueError
      else if 65536 < int (length (json_dumps state)) then Inl ValueError
      else bindr (load_row sha256 now active work version info db) (\<lambda>(row, expected, info').
        Inr (info', db\<lparr>progress :=
          (case row of
             None \<Rightarrow> progress db @ [\<lparr>wp_work_id = wc_work_id work, wp_version = version, wp_input_hash = expected, wp_state = state\<rparr>]
           | Some r \<Rightarrow> put_by wp_work_id (r\<lparr>wp_state := state\<rparr>) (progress db))\<rparr>)))"

subsection \<open>Lemmas\<close>

lemma like_prefix_append [simp]: "like_prefix p (p @ s)"
  by (induction p) auto

lemma like_prefix_length: "like_prefix p s \<Longrightarrow> length p \<le> length s"
  by (induction p s rule: like_prefix.induct) auto

lemma add_version_supports:
  "list_ex (\<lambda>(k, vs). k = k0 \<and> v0 \<in> set vs) (add_version kind version acc) \<longleftrightarrow>
   (k0 = kind \<and> v0 = version) \<or> list_ex (\<lambda>(k, vs). k = k0 \<and> v0 \<in> set vs) acc"
  by (induction kind version acc rule: add_version.induct) auto

text \<open>The kinds a worker claims are exactly those it can resolve.\<close>

lemma supported_iff_resolvable:
  "compatible (supported_kinds handlers) r \<longleftrightarrow> map_of handlers (wi_kind r, wi_version r) \<noteq> None"
proof -
  have "list_ex (\<lambda>(k, vs). k = k0 \<and> v0 \<in> set vs) (foldl (\<lambda>acc (kv, _). add_version (fst kv) (snd kv) acc) acc hs) \<longleftrightarrow>
      (k0, v0) \<in> fst ` set hs \<or> list_ex (\<lambda>(k, vs). k = k0 \<and> v0 \<in> set vs) acc" for k0 v0 acc and hs :: "'a registry"
    by (induction hs arbitrary: acc) (auto simp: add_version_supports)
  from this [of "wi_kind r" "wi_version r" "[]" handlers] show ?thesis
    by (simp add: compatible_def supported_kinds_def map_of_eq_None_iff list_ex_iff eq_commute [of "wi_kind r"])
qed

lemma finish_not_ok:
  "\<not> is_ok (locked now work True db) \<Longrightarrow> \<not> is_ok (finish now work outcome code db)"
  by (auto simp: is_ok_iff finish_def dest: locked_allow [unfolded is_ok_iff, OF exI] split: if_splits)

lemma acknowledge_not_ok:
  assumes "\<not> is_ok (locked now work True db)"
  shows "\<not> is_ok (acknowledge st now work res db)"
proof -
  have "\<not> is_ok (locked now work False db)" using assms locked_allow by blast
  then show ?thesis
    using finish_not_ok [OF assms]
    by (cases res) (auto simp: acknowledge_def defer_work_def is_ok_iff)
qed

lemma run_attempt_stale:
  assumes "\<And>t. \<not> is_ok (locked t work True db)"
  shows "snd (run_attempt st work evs db) = db \<and> fst (run_attempt st work evs db) \<noteq> Acknowledged"
proof -
  have r: "\<not> is_ok (renew t work lease db)" for t lease
    using assms [of t] locked_allow [of t work False db] by (auto simp: renew_def is_ok_iff)
  have a: "\<not> is_ok (acknowledge st t work res db)" for t res
    using assms by (rule acknowledge_not_ok)
  show ?thesis
    using assms
  proof (induction evs)
    case (Cons e evs)
    show ?case
    proof (cases e)
      case (Beat t)
      with r [of t "wk_lease_seconds st"] show ?thesis by (auto simp: is_ok_def split: sum.splits exn.splits)
    next
      case (Handler_Done t res)
      with a [of t res] show ?thesis by (auto simp: is_ok_def split: sum.splits exn.splits)
    qed (use Cons in auto)
  qed simp
qed

lemma pending_after:
  "order_by (\<lambda>r. (wi_created_at r, wi_id r)) (filter (pending_periodic s) rows) = [] \<longleftrightarrow> (\<forall>r \<in> set rows. \<not> pending_periodic s r)"
  by (simp add: order_by_Nil filter_empty_conv)

lemma order_by_single [simp]: "order_by k [x] = [x]"
  by (simp add: order_by_def)

lemma enqueue_due_again:
  assumes first: "enqueue_due at now new_id s db = Inr (i, db1)" and slot: "schedule_slot at' s = schedule_slot at s"
  shows "enqueue_due at' now' new_id' s db1 = Inr (i, db1)"
proof (cases "order_by (\<lambda>r. (wi_created_at r, wi_id r)) (filter (pending_periodic s) (work_items db))")
  case (Cons r rs)
  with first show ?thesis by (simp add: enqueue_due_def)
next
  case Nil
  then have none: "filter (pending_periodic s) (work_items db) = []" by (simp add: order_by_Nil)
  define spec where "spec = \<lparr>ws_kind = ps_kind s, ws_version = 1, ws_payload = JObj [],
    ws_dedupe_key = schedule_prefix s @ int_text (schedule_slot at s), ws_doc_id = None\<rparr>"
  from first Nil have ok: "spec_ok spec" and e: "enqueue now new_id spec db = Inr (i, db1)"
    by (auto simp: enqueue_due_def make_spec_def Let_def spec_def split: if_splits)
  have mk: "make_spec (ps_kind s) 1 (JObj []) (schedule_prefix s @ int_text (schedule_slot at' s)) None = Inr spec"
    using ok slot by (simp add: make_spec_def spec_def Let_def)
  from e show ?thesis
  proof (cases rule: enqueueE)
    case (old row)
    then have "enqueue now' new_id' spec db = Inr (i, db)"
      using ok by (cases spec) (simp add: enqueue_def make_spec_def Let_def)
    with Nil mk old show ?thesis by (simp add: enqueue_due_def)
  next
    case new
    then have "pending_periodic s (new_item new_id now spec)"
      by (simp add: pending_periodic_def new_item_def spec_def)
    with none new show ?thesis by (simp add: enqueue_due_def)
  qed
qed

lemma save_progress_locked:
  assumes "save_progress sha now active work version state info db = Inr (info', db')"
  shows "work_items db' = work_items db \<and> maintenance db' = maintenance db"
  using assms by (auto simp: save_progress_def split: if_splits)

lemma locked_cong:
  assumes "work_items db' = work_items db" and "maintenance db' = maintenance db"
  shows "locked now work allow db' = locked now work allow db"
  unfolding locked_def assert_writes_allowed_def assms by (rule refl)

lemma enforce_session_cong:
  assumes "work_items db' = work_items db" and "maintenance db' = maintenance db"
  shows "enforce_session now active info db' = enforce_session now active info db"
  unfolding enforce_session_def assert_writes_allowed_def locked_cong [OF assms] assms by (rule refl)

text \<open>The guard's decision, apart from the session it binds.\<close>

definition guard_ok :: "time \<Rightarrow> work_claim \<Rightarrow> session_info \<Rightarrow> 'a work_db_scheme \<Rightarrow> bool" where
  "guard_ok now work info db \<longleftrightarrow> is_ok (assert_writes_allowed (Some (wc_epoch work)) False db) \<and>
     (acknowledged_here info work (get_by wi_id (wc_work_id work) (work_items db)) \<or> is_ok (locked now work False db))"

lemma acknowledged_here_bound [simp]: "acknowledged_here (info\<lparr>si_bound := b\<rparr>) work row = acknowledged_here info work row"
  by (simp add: acknowledged_here_def split: option.splits prod.splits)

lemma guard_ok_bound [simp]: "guard_ok now work (info\<lparr>si_bound := b\<rparr>) db = guard_ok now work info db"
  by (simp add: guard_ok_def)

lemma enforce_session_guard:
  "enforce_session now active info db =
     (if (case (active, si_bound info) of (Some a, Some b) \<Rightarrow> \<not> same_attempt a b | _ \<Rightarrow> False) then Inl LostOwnership
      else case (case active of None \<Rightarrow> si_bound info | Some a \<Rightarrow> Some a) of
        None \<Rightarrow> Inr info
      | Some work \<Rightarrow> if si_busy info then Inr info
          else if guard_ok now work info db then Inr (info\<lparr>si_bound := Some work\<rparr>) else Inl LostOwnership)"
proof -
  have key: "(case assert_writes_allowed (Some (wc_epoch work)) False db of
             Inl _ \<Rightarrow> Inl LostOwnership
           | Inr _ \<Rightarrow>
               if acknowledged_here (info\<lparr>si_bound := Some work\<rparr>) work (get_by wi_id (wc_work_id work) (work_items db))
               then Inr (info\<lparr>si_bound := Some work\<rparr>)
               else bindr (locked now work False db) (\<lambda>_. Inr (info\<lparr>si_bound := Some work\<rparr>))) =
        (if guard_ok now work info db then Inr (info\<lparr>si_bound := Some work\<rparr>) else Inl LostOwnership)" for work
    using locked_Inl [of now work False db]
    by (cases "assert_writes_allowed (Some (wc_epoch work)) False db"; cases "locked now work False db")
      (simp_all add: guard_ok_def)
  show ?thesis unfolding enforce_session_def Let_def key by (rule refl)
qed

lemma same_attempt_refl [simp]: "same_attempt w w"
  by (simp add: same_attempt_def)

lemma bind_session_again:
  assumes "bind_session now active work info db = Inr info'"
  shows "bind_session now active work info' db = Inr info'"
  using assms
  by (cases active) (auto simp: bind_session_def enforce_session_guard same_attempt_def split: if_splits)

lemma save_progressE:
  assumes "save_progress sha now active work version state info db = Inr (info', db')"
  obtains row expected where "progress_identity sha work version = Inr expected"
    and "bind_session now active work info db = Inr info'"
    and "get_by wp_work_id (wc_work_id work) (progress db) = row"
    and "case row of None \<Rightarrow> True | Some r \<Rightarrow> wp_version r = version \<and> wp_input_hash r = expected"
    and "db' = db\<lparr>progress :=
          (case row of
             None \<Rightarrow> progress db @ [\<lparr>wp_work_id = wc_work_id work, wp_version = version, wp_input_hash = expected, wp_state = state\<rparr>]
           | Some r \<Rightarrow> put_by wp_work_id (r\<lparr>wp_state := state\<rparr>) (progress db))\<rparr>"
proof -
  from assms obtain row expected where l: "load_row sha now active work version info db = Inr (row, expected, info')"
    and db': "db' = db\<lparr>progress :=
          (case row of
             None \<Rightarrow> progress db @ [\<lparr>wp_work_id = wc_work_id work, wp_version = version, wp_input_hash = expected, wp_state = state\<rparr>]
           | Some r \<Rightarrow> put_by wp_work_id (r\<lparr>wp_state := state\<rparr>) (progress db))\<rparr>"
    by (auto simp: save_progress_def split: if_splits)
  from l have "progress_identity sha work version = Inr expected" "bind_session now active work info db = Inr info'"
    "get_by wp_work_id (wc_work_id work) (progress db) = row"
    "case row of None \<Rightarrow> True | Some r \<Rightarrow> wp_version r = version \<and> wp_input_hash r = expected"
    by (auto simp: load_row_def split: if_splits option.splits)
  then show ?thesis using db' by (rule that)
qed

subsection \<open>Properties\<close>


definition example_worker :: worker_settings where
  "example_worker = \<lparr>wk_lease_seconds = 60, wk_backoff = [5, 30], wk_max_attempts = 3\<rparr>"


text \<open>
  Periodic work is admitted once per slot however many schedulers run: a second call in
  the same slot, by any process and with its own clock and id, returns the same row and
  changes nothing.
\<close>

theorem periodic_slot_admitted_once:
  assumes "enqueue_due at now new_id s db = Inr (i, db1)" and "schedule_slot at' s = schedule_slot at s"
  shows "enqueue_due at' now' new_id' s db1 = Inr (i, db1)"
  using assms by (rule enqueue_due_again)

theorem periodic_slot_admitted_once_witness:
  "\<exists>db1. enqueue_due (seconds 61) (seconds 61) ''p1'' \<lparr>ps_kind = ''auth_purge'', ps_interval = 3600, ps_scope = ''global''\<rparr>
      example_work = Inr (''p1'', db1) \<and>
     enqueue_due (seconds 3599) (seconds 70) ''p2'' \<lparr>ps_kind = ''auth_purge'', ps_interval = 3600, ps_scope = ''global''\<rparr>
      db1 = Inr (''p1'', db1)"
proof -
  let ?s = "\<lparr>ps_kind = ''auth_purge'', ps_interval = 3600, ps_scope = ''global''\<rparr>"
  have "map_sum id fst (enqueue_due (seconds 61) (seconds 61) ''p1'' ?s example_work) = Inr ''p1''" by code_simp
  then obtain db1 where "enqueue_due (seconds 61) (seconds 61) ''p1'' ?s example_work = Inr (''p1'', db1)" by auto
  moreover have "schedule_slot (seconds 3599) ?s = schedule_slot (seconds 61) ?s" by code_simp
  ultimately show ?thesis using periodic_slot_admitted_once by blast
qed

text \<open>
  The prefix is matched by \<open>LIKE\<close> without escaping: an underscore in a scope matches any
  character, so a pending row of another scope is taken for a pending row of this one.
\<close>

lemma periodic_scope_wildcard:
  "pending_periodic \<lparr>ps_kind = ''sweep'', ps_interval = 60, ps_scope = ''a_b''\<rparr>
     (new_item ''w'' 0 \<lparr>ws_kind = ''sweep'', ws_version = 1, ws_payload = JObj [],
        ws_dedupe_key = schedule_prefix \<lparr>ps_kind = ''sweep'', ps_interval = 60, ps_scope = ''a.b''\<rparr> @ ''7'', ws_doc_id = None\<rparr>)"
  by code_simp

text \<open>
  Inside a running handler the transaction that acknowledges the attempt may still
  write, and no other transaction of that handler may: once the row is finished, every
  later transaction bound to the claim loses ownership.
\<close>

theorem acknowledged_attempt_is_closed:
  assumes "finish_in_session now (Some work) work outcome code info db = Inr (info', db')"
    and "work_inv db" and "\<not> si_busy info" and "si_bound info = Some work"
  shows "is_ok (enforce_session t (Some work) info' db') \<and>
    (other_txn \<noteq> si_txn info \<longrightarrow>
      enforce_session t (Some work) (info'\<lparr>si_txn := other_txn\<rparr>) db' = Inl LostOwnership)"
proof -
  from assms(1) have f: "finish now work outcome code db = Inr db'"
    and n: "info' = info\<lparr>si_ack := Some (wc_work_id work, wc_fence work, outcome, si_txn info)\<rparr>"
    by (auto simp: finish_in_session_def note_completion_def)
  from f obtain row where l: "locked now work (outcome = Cancelled) db = Inr row" "terminal outcome"
    and db': "db' = put_item (finished now outcome code row) db" by (cases rule: finishE) auto
  have row: "get_by wi_id (wc_work_id work) (work_items db') = Some (finished now outcome code row)"
    using locked_SomeD(1,8) [OF l(1)] by (simp add: db' put_item_def get_by_put_by finished_def)
  have "is_ok (assert_writes_allowed (Some (wc_epoch work)) False db')"
    using locked_SomeD(9) [OF l(1)] by (simp add: db' put_item_def assert_writes_allowed_def)
  moreover have "\<not> is_ok (locked t work False db')"
    using locked_SomeD(1,3) [of t work False db'] row l(2) by (auto simp: is_ok_iff finished_def terminal_def)
  moreover have "wi_fence row = wc_fence work" by (rule locked_SomeD(4) [OF l(1)])
  ultimately show ?thesis
    using assms(3,4) row l(2) by (auto simp: n enforce_session_guard guard_ok_def acknowledged_here_def finished_def)
qed

definition example_session :: session_info where
  "example_session = \<lparr>si_bound = Some (example_token ''A'' 1 (seconds 61)), si_busy = False, si_ack = None, si_txn = 1\<rparr>"

theorem acknowledged_attempt_is_closed_witness:
  "\<exists>info' db'. finish_in_session (seconds 5) (Some (example_token ''A'' 1 (seconds 61))) (example_token ''A'' 1 (seconds 61))
      Succeeded None example_session claimed_db = Inr (info', db') \<and>
    enforce_session (seconds 6) (Some (example_token ''A'' 1 (seconds 61))) (info'\<lparr>si_txn := 2\<rparr>) db' = Inl LostOwnership"
proof -
  let ?w = "example_token ''A'' 1 (seconds 61)"
  have "is_ok (finish_in_session (seconds 5) (Some ?w) ?w Succeeded None example_session claimed_db)" by code_simp
  then obtain info' db' where f: "finish_in_session (seconds 5) (Some ?w) ?w Succeeded None example_session claimed_db = Inr (info', db')"
    by (auto simp: is_ok_iff)
  from acknowledged_attempt_is_closed [OF f claimed_db_inv, of "seconds 6" 2] f show ?thesis by (simp add: example_session_def)
qed



end
