(* ===== verification/Generations.thy ===== *)
theory Generations
  imports Work_Runtime
begin

text \<open>
  \<open>backend/app/services/generation_store.py\<close> and the attempt preparation of
  \<open>work/document_handler.py\<close>: the publication pointers of a document and the phases of its
  immutable generations.
\<close>

subsection \<open>Rows\<close>

datatype gen_phase = Preparing | Ready | Active | Retired | Abandoned

record document =
  dc_id :: string
  dc_deleted_at :: "time option"
  dc_status :: string
  dc_error :: "string option"
  dc_error_code :: "string option"

record generation_state =
  gs_doc_id :: string
  gs_active :: "string option"
  gs_candidate :: "string option"
  gs_next_chunk_index :: int

record generation =
  gn_id :: string
  gn_doc_id :: string
  gn_base :: "string option"
  gn_phase :: gen_phase
  gn_legacy_cleanup_pending :: bool
  gn_table_schema_version :: "int option"
  gn_chunk_projection_version :: "int option"
  gn_publication_hash :: "string option"
  gn_work_id :: "string option"
  gn_work_fence :: "int option"
  gn_scope :: "json option"
  gn_scope_summary :: "json option"
  gn_activated_at :: "time option"

record work_input =
  dw_work_id :: string
  dw_doc_id :: string
  dw_scope :: "json option"
  dw_scope_request_id :: "string option"

record doc_db = work_db +
  documents :: "document list"
  gen_states :: "generation_state list"
  generations :: "generation list"
  update_cancelled :: "string list"
  work_inputs :: "work_input list"

text \<open>
  What a session of a handler knows: the clock, the running claim and the session's own
  bindings, whether documents need durable work, and the documents whose intents it has
  locked. \<open>gx_verify\<close> is the outcome of the two verifications of a generation's tables and
  chunk projections, \<open>gx_summary\<close> the summary of a processing scope.
\<close>

record gen_ctx =
  gx_now :: time
  gx_active :: "work_claim option"
  gx_info :: session_info
  gx_durable :: bool
  gx_locked_intents :: "string list"
  gx_verify :: "string \<Rightarrow> string \<Rightarrow> unit result"
  gx_summary :: "json \<Rightarrow> string \<Rightarrow> json"

definition ctx_work :: "gen_ctx \<Rightarrow> work_claim option" where
  "ctx_work c = (case gx_active c of None \<Rightarrow> si_bound (gx_info c) | Some w \<Rightarrow> Some w)"

definition ctx_enforce :: "gen_ctx \<Rightarrow> 'a doc_db_scheme \<Rightarrow> unit result" where
  "ctx_enforce c db = bindr (enforce_session (gx_now c) (gx_active c) (gx_info c) db) (\<lambda>_. Inr ())"

subsection \<open>Locks and lookups\<close>

definition lock_document_write :: "string \<Rightarrow> bool \<Rightarrow> 'a doc_db_scheme \<Rightarrow> bool" where
  "lock_document_write doc_id allow_deleted db =
     (case get_by dc_id doc_id (documents db) of None \<Rightarrow> False
      | Some d \<Rightarrow> allow_deleted \<or> dc_deleted_at d = None)"

definition locked_state :: "string \<Rightarrow> bool \<Rightarrow> 'a doc_db_scheme \<Rightarrow> (generation_state \<times> 'a doc_db_scheme) result" where
  "locked_state doc_id allow_deleted db =
     (if \<not> lock_document_write doc_id allow_deleted db then Inl GenerationConflict
      else case get_by gs_doc_id doc_id (gen_states db) of
        Some s \<Rightarrow> Inr (s, db)
      | None \<Rightarrow> let s = \<lparr>gs_doc_id = doc_id, gs_active = None, gs_candidate = None, gs_next_chunk_index = 0\<rparr>
                in Inr (s, db\<lparr>gen_states := gen_states db @ [s]\<rparr>))"

definition generation_of :: "string \<Rightarrow> string \<Rightarrow> 'a doc_db_scheme \<Rightarrow> generation result" where
  "generation_of doc_id generation_id db =
     (case get_by gn_id generation_id (generations db) of
        Some g \<Rightarrow> if gn_doc_id g = doc_id then Inr g else Inl GenerationConflict
      | None \<Rightarrow> Inl GenerationConflict)"

definition current_chunk_projection_version :: int where
  "current_chunk_projection_version = 1"

definition valid_projection :: "int option \<Rightarrow> bool" where
  "valid_projection v = (case v of None \<Rightarrow> True | Some n \<Rightarrow> n = current_chunk_projection_version)"

definition require_work_owner :: "gen_ctx \<Rightarrow> generation \<Rightarrow> 'a doc_db_scheme \<Rightarrow> unit result" where
  "require_work_owner c g db =
     (case gn_work_id g of None \<Rightarrow> Inr ()
      | Some wid \<Rightarrow>
          (case ctx_work c of None \<Rightarrow> Inl LostOwnership
           | Some w \<Rightarrow>
               if ws_doc_id (wc_spec w) \<noteq> Some (gn_doc_id g) \<or> wid \<noteq> wc_work_id w \<or> gn_work_fence g \<noteq> Some (wc_fence w)
               then Inl LostOwnership
               else ctx_enforce c db))"

definition put_gen :: "generation \<Rightarrow> 'a doc_db_scheme \<Rightarrow> 'a doc_db_scheme" where
  "put_gen g db = db\<lparr>generations := put_by gn_id g (generations db)\<rparr>"

definition put_state :: "generation_state \<Rightarrow> 'a doc_db_scheme \<Rightarrow> 'a doc_db_scheme" where
  "put_state s db = db\<lparr>gen_states := put_by gs_doc_id s (gen_states db)\<rparr>"

subsection \<open>Transitions\<close>

definition new_generation :: "string \<Rightarrow> string \<Rightarrow> string option \<Rightarrow> int option \<Rightarrow> json option \<Rightarrow> json option \<Rightarrow> generation" where
  "new_generation i doc_id base projection scope summary =
     \<lparr>gn_id = i, gn_doc_id = doc_id, gn_base = base, gn_phase = Preparing, gn_legacy_cleanup_pending = False,
      gn_table_schema_version = None, gn_chunk_projection_version = projection, gn_publication_hash = None,
      gn_work_id = None, gn_work_fence = None, gn_scope = scope, gn_scope_summary = summary, gn_activated_at = None\<rparr>"

definition begin_generation ::
    "gen_ctx \<Rightarrow> string \<Rightarrow> string \<Rightarrow> int option \<Rightarrow> 'a doc_db_scheme \<Rightarrow> (generation \<times> 'a doc_db_scheme) result" where
  "begin_generation c new_id doc_id projection db =
     (if gx_durable c \<and> (case ctx_work c of None \<Rightarrow> True | Some w \<Rightarrow> ws_doc_id (wc_spec w) \<noteq> Some doc_id)
      then Inl LostOwnership
      else bindr (case ctx_work c of None \<Rightarrow> Inr ()
            | Some w \<Rightarrow> if ws_doc_id (wc_spec w) \<noteq> Some doc_id then Inl LostOwnership else ctx_enforce c db) (\<lambda>_.
        if \<not> valid_projection projection then Inl GenerationConflict
        else bindr (locked_state doc_id False db) (\<lambda>(state, db1).
          if gs_candidate state \<noteq> None then Inl GenerationConflict
          else bindr (case gs_active state of None \<Rightarrow> Inr None
                | Some a \<Rightarrow> bindr (generation_of doc_id a db1) (\<lambda>previous. Inr (gn_scope previous))) (\<lambda>scope.
            let g = new_generation new_id doc_id (gs_active state) projection scope
                      (map_option (\<lambda>s. gx_summary c s new_id) scope)
            in Inr (g, put_state (state\<lparr>gs_candidate := Some new_id\<rparr>) (db1\<lparr>generations := generations db1 @ [g]\<rparr>))))))"

definition abandon_allowed :: "gen_ctx \<Rightarrow> string \<Rightarrow> generation \<Rightarrow> 'a doc_db_scheme \<Rightarrow> unit result" where
  "abandon_allowed c doc_id g db =
     (case gn_work_id g of None \<Rightarrow> Inr ()
      | Some wid \<Rightarrow>
          let owner = get_by wi_id wid (work_items db);
              live_other = (case owner of None \<Rightarrow> True
                 | Some o' \<Rightarrow> (wi_status o' = Queued \<or> wi_status o' = Running) \<and> \<not> wi_cancel_requested o')
          in case ctx_work c of
               Some w \<Rightarrow>
                 if ws_doc_id (wc_spec w) = Some doc_id
                 then bindr (ctx_enforce c db) (\<lambda>_. if wc_work_id w \<noteq> wid \<and> live_other then Inl LostOwnership else Inr ())
                 else if doc_id \<notin> set (gx_locked_intents c) \<or> live_other then Inl LostOwnership else Inr ()
             | None \<Rightarrow> if doc_id \<notin> set (gx_locked_intents c) \<or> live_other then Inl LostOwnership else Inr ())"

definition abandon_generation ::
    "gen_ctx \<Rightarrow> string \<Rightarrow> string \<Rightarrow> bool \<Rightarrow> 'a doc_db_scheme \<Rightarrow> 'a doc_db_scheme result" where
  "abandon_generation c doc_id generation_id allow_deleted db =
     bindr (locked_state doc_id allow_deleted db) (\<lambda>(state, db1).
       bindr (generation_of doc_id generation_id db1) (\<lambda>g.
         bindr (abandon_allowed c doc_id g db1) (\<lambda>_.
           if gn_phase g = Abandoned \<and> gs_candidate state \<noteq> Some generation_id then Inr db1
           else if gs_candidate state \<noteq> Some generation_id \<or> \<not> (gn_phase g = Preparing \<or> gn_phase g = Ready)
           then Inl GenerationConflict
           else Inr (put_state (state\<lparr>gs_candidate := None\<rparr>) (put_gen (g\<lparr>gn_phase := Abandoned\<rparr>) db1)))))"

definition prepare_generation_attempt ::
    "gen_ctx \<Rightarrow> string \<Rightarrow> string \<Rightarrow> bool \<Rightarrow> int option \<Rightarrow> 'a doc_db_scheme \<Rightarrow> (generation \<times> 'a doc_db_scheme) result" where
  "prepare_generation_attempt c new_id doc_id resume projection db =
     (if \<not> valid_projection projection then Inl GenerationConflict
      else bindr (locked_state doc_id False db) (\<lambda>(state, db1).
        case gs_candidate state of
          None \<Rightarrow> begin_generation c new_id doc_id projection db1
        | Some cand \<Rightarrow>
            bindr (generation_of doc_id cand db1) (\<lambda>g.
              bindr (require_work_owner c g db1) (\<lambda>_.
                if resume then Inr (g, db1)
                else bindr (abandon_generation c doc_id (gn_id g) False db1) (\<lambda>db2.
                  begin_generation c new_id doc_id projection db2)))))"

definition mark_generation_ready ::
    "gen_ctx \<Rightarrow> string \<Rightarrow> string \<Rightarrow> string option \<Rightarrow> int option \<Rightarrow> 'a doc_db_scheme \<Rightarrow> 'a doc_db_scheme result" where
  "mark_generation_ready c doc_id generation_id publication_hash table_version db =
     bindr (locked_state doc_id False db) (\<lambda>(state, db1).
       bindr (generation_of doc_id generation_id db1) (\<lambda>g.
         bindr (require_work_owner c g db1) (\<lambda>_.
           if gs_candidate state \<noteq> Some generation_id \<or> \<not> (gn_phase g = Preparing \<or> gn_phase g = Ready)
           then Inl GenerationConflict
           else bindr (gx_verify c doc_id generation_id) (\<lambda>_.
             Inr (put_gen (g\<lparr>gn_table_schema_version := (case table_version of None \<Rightarrow> gn_table_schema_version g | Some v \<Rightarrow> Some v),
                             gn_phase := Ready, gn_publication_hash := publication_hash\<rparr>) db1)))))"

definition publish_generation ::
    "gen_ctx \<Rightarrow> string \<Rightarrow> string \<Rightarrow> 'a doc_db_scheme \<Rightarrow> (bool \<times> 'a doc_db_scheme) result" where
  "publish_generation c doc_id generation_id db =
     bindr (locked_state doc_id False db) (\<lambda>(state, db1).
       if doc_id \<in> set (update_cancelled db1) then Inl DocumentUpdateCancelled
       else bindr (generation_of doc_id generation_id db1) (\<lambda>g.
         bindr (require_work_owner c g db1) (\<lambda>_.
           if gs_active state = Some generation_id \<and> gn_phase g = Active then Inr (False, db1)
           else if gs_candidate state \<noteq> Some generation_id \<or> gn_phase g \<noteq> Ready then Inl GenerationConflict
           else if gn_base g \<noteq> gs_active state then Inl GenerationConflict
           else bindr (gx_verify c doc_id generation_id) (\<lambda>_.
             bindr (case gs_active state of
                 Some a \<Rightarrow> bindr (generation_of doc_id a db1) (\<lambda>previous.
                   if gn_phase previous \<noteq> Active then Inl GenerationConflict
                   else Inr (put_gen (previous\<lparr>gn_phase := Retired\<rparr>) db1, gn_legacy_cleanup_pending g))
               | None \<Rightarrow> Inr (db1, True)) (\<lambda>(db2, legacy).
               Inr (True, put_state (state\<lparr>gs_active := Some generation_id, gs_candidate := None\<rparr>)
                 (put_gen (g\<lparr>gn_legacy_cleanup_pending := legacy, gn_phase := Active,
                             gn_activated_at := Some (gx_now c)\<rparr>) db2)))))))"

definition lock_writable_generation ::
    "gen_ctx \<Rightarrow> string \<Rightarrow> string \<Rightarrow> 'a doc_db_scheme \<Rightarrow> (generation \<times> 'a doc_db_scheme) result" where
  "lock_writable_generation c doc_id generation_id db =
     bindr (locked_state doc_id False db) (\<lambda>(state, db1).
       bindr (generation_of doc_id generation_id db1) (\<lambda>g.
         bindr (require_work_owner c g db1) (\<lambda>_.
           if gs_candidate state \<noteq> Some generation_id \<or> gn_phase g \<noteq> Preparing then Inl GenerationConflict
           else Inr (g, db1))))"

definition lock_cleanup_generation ::
    "string \<Rightarrow> string \<Rightarrow> bool \<Rightarrow> 'a doc_db_scheme \<Rightarrow> (generation option \<times> 'a doc_db_scheme) result" where
  "lock_cleanup_generation doc_id generation_id missing_ok db =
     bindr (locked_state doc_id True db) (\<lambda>(state, db1).
       case get_by gn_id generation_id (generations db1) of
         None \<Rightarrow> if missing_ok then Inr (None, db1) else Inl GenerationConflict
       | Some g \<Rightarrow>
           if gn_doc_id g \<noteq> doc_id then Inl GenerationConflict
           else if gs_active state = Some generation_id \<or> gs_candidate state = Some generation_id
               \<or> \<not> (gn_phase g = Retired \<or> gn_phase g = Abandoned)
           then Inl GenerationConflict
           else Inr (Some g, db1))"

definition lock_legacy_cleanup :: "string \<Rightarrow> 'a doc_db_scheme \<Rightarrow> (generation list \<times> 'a doc_db_scheme) result" where
  "lock_legacy_cleanup doc_id db =
     bindr (locked_state doc_id True db) (\<lambda>(state, db1).
       case gs_active state of None \<Rightarrow> Inl GenerationConflict
       | Some a \<Rightarrow> bindr (generation_of doc_id a db1) (\<lambda>active.
           if gn_phase active \<noteq> Active then Inl GenerationConflict
           else Inr (filter (\<lambda>g. gn_doc_id g = doc_id \<and> gn_legacy_cleanup_pending g) (generations db1), db1)))"

text \<open>
  \<open>prepare_document_attempt\<close>: the handler's own generation for its claim. \<open>validate\<close> is the
  outcome of \<open>validate_document_scope\<close> on the frozen input.
\<close>

definition bind_generation :: "gen_ctx \<Rightarrow> work_claim \<Rightarrow> work_input option \<Rightarrow> generation \<Rightarrow> generation" where
  "bind_generation c work frozen g =
     (let g1 = g\<lparr>gn_work_id := Some (wc_work_id work), gn_work_fence := Some (wc_fence work)\<rparr>
      in case frozen of None \<Rightarrow> g1
         | Some f \<Rightarrow> g1\<lparr>gn_scope := dw_scope f,
             gn_scope_summary := (case dw_scope f of None \<Rightarrow> gn_scope_summary g1 | Some s \<Rightarrow> Some (gx_summary c s (gn_id g1)))\<rparr>)"

definition prepare_document_attempt ::
    "gen_ctx \<Rightarrow> string \<Rightarrow> work_claim \<Rightarrow> bool \<Rightarrow> (work_input \<Rightarrow> unit result) \<Rightarrow> 'a doc_db_scheme
     \<Rightarrow> (generation \<times> 'a doc_db_scheme) result" where
  "prepare_document_attempt c0 new_id work projection_enabled validate db =
     (if \<not> document_claim_ok work then Inl ValueError
      else bindr (bind_session (gx_now c0) (Some work) work (gx_info c0) db) (\<lambda>info.
        let c = c0\<lparr>gx_active := Some work, gx_info := info\<rparr>;
            doc_id = the (ws_doc_id (wc_spec work))
        in bindr (assert_owner (gx_now c) work db) (\<lambda>_.
          if \<not> lock_document_write doc_id False db then Inl LostOwnership
          else let state = get_by gs_doc_id doc_id (gen_states db)
          in case find (\<lambda>g. gn_work_id g = Some (wc_work_id work) \<and> gn_work_fence g = Some (wc_fence work)) (generations db) of
            Some previous \<Rightarrow>
              if gn_doc_id previous \<noteq> doc_id \<or> \<not> (gn_phase previous = Preparing \<or> gn_phase previous = Ready)
                 \<or> (case state of None \<Rightarrow> True | Some s \<Rightarrow> gs_candidate s \<noteq> Some (gn_id previous))
              then Inl LostOwnership else Inr (previous, db)
          | None \<Rightarrow>
              bindr (case state of None \<Rightarrow> Inr db
                 | Some s \<Rightarrow> (case gs_candidate s of None \<Rightarrow> Inr db
                     | Some cand \<Rightarrow>
                         if (case get_by gn_id cand (generations db) of None \<Rightarrow> False
                             | Some g \<Rightarrow> (case gn_work_id g of None \<Rightarrow> False
                                 | Some wid \<Rightarrow> wid \<noteq> wc_work_id work \<and>
                                     (case get_by wi_id wid (work_items db) of None \<Rightarrow> True
                                      | Some o' \<Rightarrow> (wi_status o' = Queued \<or> wi_status o' = Running) \<and> \<not> wi_cancel_requested o')))
                         then Inl LostOwnership
                         else abandon_generation c doc_id cand False db)) (\<lambda>db1.
                bindr (begin_generation c new_id doc_id
                    (if projection_enabled then Some current_chunk_projection_version else None) db1) (\<lambda>(g, db2).
                  let frozen = get_by dw_work_id (wc_work_id work) (work_inputs db2)
                  in bindr (case frozen of None \<Rightarrow> Inr ()
                       | Some f \<Rightarrow> if dw_doc_id f \<noteq> doc_id then Inl LostOwnership else validate f) (\<lambda>_.
                     let g' = bind_generation c work frozen g in Inr (g', put_gen g' db2)))))))"

subsection \<open>The pointer invariant\<close>

definition active_ok :: "generation list \<Rightarrow> generation_state \<Rightarrow> bool" where
  "active_ok gens s \<longleftrightarrow> (\<forall>a. gs_active s = Some a \<longrightarrow>
     (\<exists>g. get_by gn_id a gens = Some g \<and> gn_doc_id g = gs_doc_id s \<and> gn_phase g = Active))"

definition candidate_ok :: "generation list \<Rightarrow> generation_state \<Rightarrow> bool" where
  "candidate_ok gens s \<longleftrightarrow> (\<forall>a. gs_candidate s = Some a \<longrightarrow>
     (\<exists>g. get_by gn_id a gens = Some g \<and> gn_doc_id g = gs_doc_id s \<and> (gn_phase g = Preparing \<or> gn_phase g = Ready) \<and>
       gn_base g = gs_active s))"

definition claimed :: "generation_state list \<Rightarrow> generation \<Rightarrow> bool" where
  "claimed states g \<longleftrightarrow>
     (gn_phase g = Active \<longrightarrow> (\<exists>s. get_by gs_doc_id (gn_doc_id g) states = Some s \<and> gs_active s = Some (gn_id g))) \<and>
     (gn_phase g = Preparing \<or> gn_phase g = Ready \<longrightarrow>
        (\<exists>s. get_by gs_doc_id (gn_doc_id g) states = Some s \<and> gs_candidate s = Some (gn_id g)))"

definition pointers_ok :: "generation_state list \<Rightarrow> generation list \<Rightarrow> bool" where
  "pointers_ok states gens \<longleftrightarrow> unique_key gs_doc_id states \<and> unique_key gn_id gens \<and>
     (\<forall>d s. get_by gs_doc_id d states = Some s \<longrightarrow> active_ok gens s \<and> candidate_ok gens s) \<and>
     (\<forall>i g. get_by gn_id i gens = Some g \<longrightarrow> claimed states g)"

definition gen_inv :: "'a doc_db_scheme \<Rightarrow> bool" where
  "gen_inv db = pointers_ok (gen_states db) (generations db)"

lemmas pointer_defs = active_ok_def candidate_ok_def claimed_def

lemma get_by_keyD: "get_by key k rows = Some r \<Longrightarrow> key r = k"
  by (rule get_by_key)

lemma pointers_new_state:
  assumes ok: "pointers_ok states gens" and new: "get_by gs_doc_id (gs_doc_id s) states = None"
    and s: "gs_active s = None" "gs_candidate s = None"
  shows "pointers_ok (states @ [s]) gens"
proof -
  have 1: "unique_key gs_doc_id (states @ [s])" "unique_key gn_id gens"
    using ok new by (simp_all add: pointers_ok_def unique_key_append)
  have 2: "active_ok gens t \<and> candidate_ok gens t" if "get_by gs_doc_id d (states @ [s]) = Some t" for d t
    using that ok s by (auto simp: get_by_append pointers_ok_def pointer_defs split: option.splits if_splits)
  have 3: "claimed (states @ [s]) g" if "get_by gn_id i gens = Some g" for i g
  proof -
    have "claimed states g" using that ok by (simp add: pointers_ok_def)
    then show ?thesis unfolding claimed_def by (auto simp: get_by_append)
  qed
  show ?thesis unfolding pointers_ok_def using 1 2 3 by blast
qed

lemma pointers_candidate:
  assumes ok: "pointers_ok states gens" and s: "get_by gs_doc_id d states = Some s" "gs_candidate s = None"
    and new: "get_by gn_id (gn_id g) gens = None"
    and g: "gn_doc_id g = d" "gn_phase g = Preparing" "gn_base g = gs_active s"
  shows "pointers_ok (put_by gs_doc_id (s\<lparr>gs_candidate := Some (gn_id g)\<rparr>) states) (gens @ [g])"
proof -
  have d: "gs_doc_id s = d" by (rule get_by_keyD [OF s(1)])
  have sok: "active_ok gens s" using ok s(1) by (simp add: pointers_ok_def)
  let ?s' = "s\<lparr>gs_candidate := Some (gn_id g)\<rparr>"
  have get: "get_by gs_doc_id e (put_by gs_doc_id ?s' states) = (if e = d then Some ?s' else get_by gs_doc_id e states)" for e
    using s(1) d by (auto simp: get_by_put_by)
  have gg: "get_by gn_id i (gens @ [g]) = (if i = gn_id g then Some g else get_by gn_id i gens)" for i
    using new by (auto simp: get_by_append split: option.splits)
  have 1: "unique_key gs_doc_id (put_by gs_doc_id ?s' states)" "unique_key gn_id (gens @ [g])"
    using ok new by (simp_all add: pointers_ok_def unique_key_append)
  have mono: "active_ok (gens @ [g]) t \<and> candidate_ok (gens @ [g]) t" if "active_ok gens t \<and> candidate_ok gens t" for t
    using that new unfolding active_ok_def candidate_ok_def gg by fastforce
  have 2: "active_ok (gens @ [g]) t \<and> candidate_ok (gens @ [g]) t" if t: "get_by gs_doc_id e (put_by gs_doc_id ?s' states) = Some t" for e t
  proof (cases "e = d")
    case True
    then have t': "t = ?s'" using t get by simp
    have "active_ok (gens @ [g]) s" using sok new unfolding active_ok_def gg by fastforce
    then show ?thesis using g d unfolding t' active_ok_def candidate_ok_def gg by simp
  next
    case False
    then have "get_by gs_doc_id e states = Some t" using t get by simp
    then show ?thesis using ok mono by (simp add: pointers_ok_def)
  qed
  have 3: "claimed (put_by gs_doc_id ?s' states) h" if h: "get_by gn_id i (gens @ [g]) = Some h" for i h
  proof (cases "i = gn_id g")
    case True
    then have "h = g" using h gg by simp
    then show ?thesis using g unfolding claimed_def get by simp
  next
    case False
    then have "claimed states h" using h gg ok by (simp add: pointers_ok_def)
    then show ?thesis using s unfolding claimed_def get by auto
  qed
  show ?thesis unfolding pointers_ok_def using 1 2 3 by blast
qed

text \<open>A generation is replaced by one with the same identity, phase class and base.\<close>

definition same_role :: "generation \<Rightarrow> generation \<Rightarrow> bool" where
  "same_role g g' \<longleftrightarrow> gn_id g' = gn_id g \<and> gn_doc_id g' = gn_doc_id g \<and> gn_base g' = gn_base g \<and>
     (gn_phase g' = gn_phase g \<or> (gn_phase g = Preparing \<or> gn_phase g = Ready) \<and> (gn_phase g' = Preparing \<or> gn_phase g' = Ready))"

lemma pointers_same_role:
  assumes ok: "pointers_ok states gens" and g: "get_by gn_id i gens = Some g" and r: "same_role g g'"
  shows "pointers_ok states (put_by gn_id g' gens)"
proof -
  have i: "gn_id g = i" by (rule get_by_keyD [OF g])
  have get: "get_by gn_id j (put_by gn_id g' gens) = (if j = i then Some g' else get_by gn_id j gens)" for j
    using g r i by (auto simp: get_by_put_by same_role_def)
  have 1: "unique_key gs_doc_id states" "unique_key gn_id (put_by gn_id g' gens)" using ok by (simp_all add: pointers_ok_def)
  have 2: "active_ok (put_by gn_id g' gens) t \<and> candidate_ok (put_by gn_id g' gens) t" if "get_by gs_doc_id e states = Some t" for e t
  proof -
    have "active_ok gens t \<and> candidate_ok gens t" using that ok by (simp add: pointers_ok_def)
    then show ?thesis using g r unfolding active_ok_def candidate_ok_def get by (auto simp: same_role_def)
  qed
  have 3: "claimed states h" if h: "get_by gn_id j (put_by gn_id g' gens) = Some h" for j h
  proof (cases "j = i")
    case True
    have "claimed states g" using ok g by (simp add: pointers_ok_def)
    moreover have "h = g'" using h True get by simp
    ultimately show ?thesis using r by (auto simp: claimed_def same_role_def)
  next
    case False
    then show ?thesis using h get ok by (simp add: pointers_ok_def)
  qed
  show ?thesis unfolding pointers_ok_def using 1 2 3 by blast
qed

lemma pointers_candidateD:
  assumes "pointers_ok states gens" and "get_by gs_doc_id d states = Some s" and "gs_candidate s = Some i"
  obtains g where "get_by gn_id i gens = Some g" "gn_id g = i" "gn_doc_id g = d"
    "gn_phase g = Preparing \<or> gn_phase g = Ready" "gn_base g = gs_active s"
proof -
  from assms have "candidate_ok gens s" by (simp add: pointers_ok_def)
  with assms(3) obtain g where "get_by gn_id i gens = Some g" "gn_doc_id g = gs_doc_id s"
    "gn_phase g = Preparing \<or> gn_phase g = Ready" "gn_base g = gs_active s" by (auto simp: candidate_ok_def)
  with get_by_keyD [OF assms(2)] get_by_keyD [of gn_id i gens g] that show ?thesis by auto
qed

lemma pointers_activeD:
  assumes "pointers_ok states gens" and "get_by gs_doc_id d states = Some s" and "gs_active s = Some i"
  obtains g where "get_by gn_id i gens = Some g" "gn_id g = i" "gn_doc_id g = d" "gn_phase g = Active"
proof -
  from assms have "active_ok gens s" by (simp add: pointers_ok_def)
  with assms(3) obtain g where "get_by gn_id i gens = Some g" "gn_doc_id g = gs_doc_id s" "gn_phase g = Active"
    by (auto simp: active_ok_def)
  with get_by_keyD [OF assms(2)] get_by_keyD [of gn_id i gens g] that show ?thesis by auto
qed

lemma pointers_abandon:
  assumes ok: "pointers_ok states gens" and s: "get_by gs_doc_id d states = Some s" "gs_candidate s = Some i"
    and g: "get_by gn_id i gens = Some g"
  shows "pointers_ok (put_by gs_doc_id (s\<lparr>gs_candidate := None\<rparr>) states) (put_by gn_id (g\<lparr>gn_phase := Abandoned\<rparr>) gens)"
proof -
  have d: "gs_doc_id s = d" by (rule get_by_keyD [OF s(1)])
  have gi: "gn_id g = i" "gn_doc_id g = d" "gn_phase g = Preparing \<or> gn_phase g = Ready"
    by (rule pointers_candidateD [OF ok s]; use g in simp)+
  let ?s' = "s\<lparr>gs_candidate := None\<rparr>" and ?g' = "g\<lparr>gn_phase := Abandoned\<rparr>"
  have get: "get_by gs_doc_id e (put_by gs_doc_id ?s' states) = (if e = d then Some ?s' else get_by gs_doc_id e states)" for e
    using s(1) d by (auto simp: get_by_put_by)
  have gg: "get_by gn_id j (put_by gn_id ?g' gens) = (if j = i then Some ?g' else get_by gn_id j gens)" for j
    using g gi by (auto simp: get_by_put_by)
  have 1: "unique_key gs_doc_id (put_by gs_doc_id ?s' states)" "unique_key gn_id (put_by gn_id ?g' gens)"
    using ok by (simp_all add: pointers_ok_def)
  have act: "active_ok (put_by gn_id ?g' gens) t" if t: "get_by gs_doc_id e states = Some t" for e t
    unfolding active_ok_def
  proof (intro allI impI)
    fix a assume a: "gs_active t = Some a"
    obtain h where h: "get_by gn_id a gens = Some h" "gn_doc_id h = e" "gn_phase h = Active"
      by (rule pointers_activeD [OF ok t a])
    have "a \<noteq> i" using h g gi(3) by auto
    then show "\<exists>g. get_by gn_id a (put_by gn_id ?g' gens) = Some g \<and> gn_doc_id g = gs_doc_id t \<and> gn_phase g = Active"
      using h get_by_keyD [OF t] by (simp add: gg)
  qed
  have 2: "active_ok (put_by gn_id ?g' gens) t \<and> candidate_ok (put_by gn_id ?g' gens) t"
    if t: "get_by gs_doc_id e (put_by gs_doc_id ?s' states) = Some t" for e t
  proof (cases "e = d")
    case True
    then have "t = ?s'" using t get by simp
    then show ?thesis using act [OF s(1)] by (simp add: active_ok_def candidate_ok_def)
  next
    case False
    then have t': "get_by gs_doc_id e states = Some t" using t get by simp
    have "candidate_ok (put_by gn_id ?g' gens) t"
      unfolding candidate_ok_def
    proof (intro allI impI)
      fix a assume "gs_candidate t = Some a"
      from pointers_candidateD [OF ok t' this] obtain h where h: "get_by gn_id a gens = Some h" "gn_doc_id h = e"
        "gn_phase h = Preparing \<or> gn_phase h = Ready" "gn_base h = gs_active t" by blast
      then have "a \<noteq> i" using g gi(2) False by auto
      with h get_by_keyD [OF t']
      show "\<exists>g. get_by gn_id a (put_by gn_id ?g' gens) = Some g \<and> gn_doc_id g = gs_doc_id t \<and>
          (gn_phase g = Preparing \<or> gn_phase g = Ready) \<and> gn_base g = gs_active t" unfolding gg by auto
    qed
    with act [OF t'] show ?thesis by simp
  qed
  have 3: "claimed (put_by gs_doc_id ?s' states) h" if h: "get_by gn_id j (put_by gn_id ?g' gens) = Some h" for j h
  proof (cases "j = i")
    case True
    then show ?thesis using h gg by (auto simp: claimed_def)
  next
    case False
    then have h': "get_by gn_id j gens = Some h" using h gg by simp
    then have "claimed states h" using ok by (simp add: pointers_ok_def)
    then show ?thesis using s False get_by_keyD [OF h'] unfolding claimed_def get by auto
  qed
  show ?thesis unfolding pointers_ok_def using 1 2 3 by blast
qed

text \<open>Publication: the candidate becomes active and the generation that was active retires.\<close>

definition retire :: "string option \<Rightarrow> generation list \<Rightarrow> generation list" where
  "retire a gens = update_where (\<lambda>g. Some (gn_id g) = a) (\<lambda>g. g\<lparr>gn_phase := Retired\<rparr>) gens"

lemma get_by_retire: "get_by gn_id j (retire a gens) =
    (if Some j = a then map_option (\<lambda>g. g\<lparr>gn_phase := Retired\<rparr>) (get_by gn_id j gens) else get_by gn_id j gens)"
proof -
  have "get_by gn_id j (retire a gens) = map_option (\<lambda>g. if Some (gn_id g) = a then g\<lparr>gn_phase := Retired\<rparr> else g) (get_by gn_id j gens)"
    unfolding retire_def by (rule get_by_update_where) simp
  then show ?thesis by (cases "get_by gn_id j gens") (auto dest: get_by_keyD)
qed

lemma pointers_publish:
  assumes ok: "pointers_ok states gens" and s: "get_by gs_doc_id d states = Some s" "gs_candidate s = Some i"
    and g: "get_by gn_id i gens = Some g" and g': "gn_id g' = i" "gn_doc_id g' = d" "gn_phase g' = Active"
  shows "pointers_ok (put_by gs_doc_id (s\<lparr>gs_active := Some i, gs_candidate := None\<rparr>) states) (put_by gn_id g' (retire (gs_active s) gens))"
proof -
  have d: "gs_doc_id s = d" by (rule get_by_keyD [OF s(1)])
  have gi: "gn_id g = i" "gn_doc_id g = d" "gn_phase g = Preparing \<or> gn_phase g = Ready"
    by (rule pointers_candidateD [OF ok s]; use g in simp)+
  have ai: "gs_active s \<noteq> Some i"
  proof
    assume a: "gs_active s = Some i"
    show False by (rule pointers_activeD [OF ok s(1) a]) (use g gi(3) in auto)
  qed
  let ?s' = "s\<lparr>gs_active := Some i, gs_candidate := None\<rparr>"
  let ?gens = "put_by gn_id g' (retire (gs_active s) gens)"
  have get: "get_by gs_doc_id e (put_by gs_doc_id ?s' states) = (if e = d then Some ?s' else get_by gs_doc_id e states)" for e
    using s(1) d by (auto simp: get_by_put_by)
  have gg: "get_by gn_id j ?gens = (if j = i then Some g' else get_by gn_id j (retire (gs_active s) gens))" for j
    using g g' ai by (auto simp: get_by_put_by get_by_retire)
  have 1: "unique_key gs_doc_id (put_by gs_doc_id ?s' states)" "unique_key gn_id ?gens"
    using ok by (simp_all add: pointers_ok_def unique_key_def retire_def update_where_cong_key)
  have 2: "active_ok ?gens t \<and> candidate_ok ?gens t" if t: "get_by gs_doc_id e (put_by gs_doc_id ?s' states) = Some t" for e t
  proof (cases "e = d")
    case True
    then have "t = ?s'" using t get by simp
    then show ?thesis using g' d by (simp add: active_ok_def candidate_ok_def gg)
  next
    case False
    then have t': "get_by gs_doc_id e states = Some t" using t get by simp
    have te: "gs_doc_id t = e" by (rule get_by_keyD [OF t'])
    have "active_ok ?gens t"
      unfolding active_ok_def
    proof (intro allI impI)
      fix a assume "gs_active t = Some a"
      from pointers_activeD [OF ok t' this] obtain h where h: "get_by gn_id a gens = Some h" "gn_doc_id h = e" "gn_phase h = Active"
        by blast
      have "a \<noteq> i" using h g gi(2) False by auto
      moreover have "gs_active s \<noteq> Some a"
      proof
        assume a: "gs_active s = Some a"
        show False by (rule pointers_activeD [OF ok s(1) a]) (use h False in auto)
      qed
      ultimately show "\<exists>g. get_by gn_id a ?gens = Some g \<and> gn_doc_id g = gs_doc_id t \<and> gn_phase g = Active"
        using h te by (auto simp: gg get_by_retire)
    qed
    moreover have "candidate_ok ?gens t"
      unfolding candidate_ok_def
    proof (intro allI impI)
      fix a assume "gs_candidate t = Some a"
      from pointers_candidateD [OF ok t' this] obtain h where h: "get_by gn_id a gens = Some h" "gn_doc_id h = e"
        "gn_phase h = Preparing \<or> gn_phase h = Ready" "gn_base h = gs_active t" by blast
      have "a \<noteq> i" using h g gi(2) False by auto
      moreover have "gs_active s \<noteq> Some a"
      proof
        assume a: "gs_active s = Some a"
        show False by (rule pointers_activeD [OF ok s(1) a]) (use h False in auto)
      qed
      ultimately show "\<exists>g. get_by gn_id a ?gens = Some g \<and> gn_doc_id g = gs_doc_id t \<and>
          (gn_phase g = Preparing \<or> gn_phase g = Ready) \<and> gn_base g = gs_active t"
        using h te by (auto simp: gg get_by_retire)
    qed
    ultimately show ?thesis by simp
  qed
  have 3: "claimed (put_by gs_doc_id ?s' states) h" if h: "get_by gn_id j ?gens = Some h" for j h
  proof (cases "j = i")
    case True
    then show ?thesis using h gg g' get by (auto simp: claimed_def)
  next
    case False
    then have h': "get_by gn_id j (retire (gs_active s) gens) = Some h" using h gg by simp
    show ?thesis
    proof (cases "gs_active s = Some j")
      case True
      then show ?thesis using h' by (auto simp: get_by_retire claimed_def)
    next
      case no: False
      then have h2: "get_by gn_id j gens = Some h" using h' by (auto simp: get_by_retire split: if_splits)
      then have "claimed states h" using ok by (simp add: pointers_ok_def)
      then show ?thesis using s False no get_by_keyD [OF h2] unfolding claimed_def get by auto
    qed
  qed
  show ?thesis unfolding pointers_ok_def using 1 2 3 by blast
qed

subsection \<open>Each transition keeps it\<close>

lemma locked_stateE:
  assumes "locked_state d a db = Inr (s, db1)" and "gen_inv db"
  obtains "get_by gs_doc_id d (gen_states db1) = Some s" "generations db1 = generations db" "gen_inv db1"
    "work_items db1 = work_items db" "maintenance db1 = maintenance db" "update_cancelled db1 = update_cancelled db"
    "work_inputs db1 = work_inputs db"
    "\<And>t. get_by gs_doc_id d (gen_states db) = Some t \<Longrightarrow> s = t \<and> db1 = db"
proof -
  from assms(1) consider (old) "get_by gs_doc_id d (gen_states db) = Some s" "db1 = db"
    | (new) "get_by gs_doc_id d (gen_states db) = None" "gs_doc_id s = d" "gs_active s = None" "gs_candidate s = None"
        "db1 = db\<lparr>gen_states := gen_states db @ [s]\<rparr>"
    by (auto simp: locked_state_def Let_def split: option.splits if_splits)
  then show ?thesis
  proof cases
    case old
    show ?thesis by (rule that) (use old assms(2) in simp_all)
  next
    case new
    then have "pointers_ok (gen_states db @ [s]) (generations db)"
      using assms(2) by (intro pointers_new_state) (simp_all add: gen_inv_def)
    then have "gen_inv db1" by (simp add: gen_inv_def new(5))
    then show ?thesis by (rule that [rotated 2]) (use new in \<open>simp_all add: get_by_append\<close>)
  qed
qed

lemma generation_of_Inr: "generation_of d i db = Inr g \<longleftrightarrow> get_by gn_id i (generations db) = Some g \<and> gn_doc_id g = d"
  by (auto simp: generation_of_def split: option.splits if_splits)

lemma begin_generation_inv:
  assumes b: "begin_generation c new_id d proj db = Inr (g, db')" and inv: "gen_inv db"
    and new: "get_by gn_id new_id (generations db) = None"
  shows "gen_inv db' \<and> get_by gn_id new_id (generations db') = Some g \<and> gn_phase g = Preparing \<and> gn_doc_id g = d \<and> gn_id g = new_id"
proof -
  from b obtain state db1 scope where l: "locked_state d False db = Inr (state, db1)" and c: "gs_candidate state = None"
    and g: "g = new_generation new_id d (gs_active state) proj scope (map_option (\<lambda>s. gx_summary c s new_id) scope)"
    and db': "db' = put_state (state\<lparr>gs_candidate := Some new_id\<rparr>) (db1\<lparr>generations := generations db1 @ [g]\<rparr>)"
    by (auto simp: begin_generation_def Let_def split: if_splits)
  have gi: "gn_id g = new_id" "gn_doc_id g = d" "gn_phase g = Preparing" "gn_base g = gs_active state"
    by (simp_all add: g new_generation_def)
  show ?thesis
  proof (rule locked_stateE [OF l inv])
    assume s: "get_by gs_doc_id d (gen_states db1) = Some state" and gens: "generations db1 = generations db" and inv1: "gen_inv db1"
    have "pointers_ok (put_by gs_doc_id (state\<lparr>gs_candidate := Some (gn_id g)\<rparr>) (gen_states db1)) (generations db1 @ [g])"
      using inv1 s c new gens gi by (intro pointers_candidate) (simp_all add: gen_inv_def)
    then show ?thesis using gi new gens by (simp add: db' gen_inv_def put_state_def get_by_append)
  qed
qed

lemma abandon_generation_inv:
  assumes "abandon_generation c d i a db = Inr db'" and inv: "gen_inv db"
  shows "gen_inv db' \<and> gn_id ` set (generations db') = gn_id ` set (generations db)"
proof -
  from assms(1) obtain state db1 g where l: "locked_state d a db = Inr (state, db1)" and g: "generation_of d i db1 = Inr g"
    and r: "db' = db1 \<or> gs_candidate state = Some i \<and>
      db' = put_state (state\<lparr>gs_candidate := None\<rparr>) (put_gen (g\<lparr>gn_phase := Abandoned\<rparr>) db1)"
    by (auto simp: abandon_generation_def split: if_splits)
  show ?thesis
  proof (rule locked_stateE [OF l inv])
    assume s: "get_by gs_doc_id d (gen_states db1) = Some state" and gens: "generations db1 = generations db" and inv1: "gen_inv db1"
    have "gs_candidate state = Some i \<Longrightarrow> gen_inv (put_state (state\<lparr>gs_candidate := None\<rparr>) (put_gen (g\<lparr>gn_phase := Abandoned\<rparr>) db1))"
      using inv1 s g pointers_abandon [of "gen_states db1" "generations db1" d state i g]
      by (simp add: gen_inv_def put_state_def put_gen_def generation_of_Inr)
    moreover have "gn_id ` set (put_by gn_id (g\<lparr>gn_phase := Abandoned\<rparr>) (generations db)) = gn_id ` set (generations db)"
      by (metis map_key_put_by set_map)
    ultimately show ?thesis using r inv1 gens by (auto simp: put_state_def put_gen_def)
  qed
qed

lemma prepare_generation_attempt_inv:
  assumes "prepare_generation_attempt c new_id d resume proj db = Inr (g, db')" and inv: "gen_inv db"
    and new: "get_by gn_id new_id (generations db) = None"
  shows "gen_inv db'"
proof -
  from assms(1) obtain state db1 where l: "locked_state d False db = Inr (state, db1)"
    and c: "(case gs_candidate state of
          None \<Rightarrow> begin_generation c new_id d proj db1
        | Some cand \<Rightarrow>
            bindr (generation_of d cand db1) (\<lambda>g.
              bindr (require_work_owner c g db1) (\<lambda>_.
                if resume then Inr (g, db1)
                else bindr (abandon_generation c d (gn_id g) False db1) (\<lambda>db2.
                  begin_generation c new_id d proj db2)))) = Inr (g, db')"
    unfolding prepare_generation_attempt_def by (auto split: if_split_asm)
  from c have r: "begin_generation c new_id d proj db1 = Inr (g, db') \<or> db' = db1 \<or>
      (\<exists>i db2. abandon_generation c d i False db1 = Inr db2 \<and> begin_generation c new_id d proj db2 = Inr (g, db'))"
    by (cases "gs_candidate state") (auto split: if_splits)
  show ?thesis
  proof (rule locked_stateE [OF l inv])
    assume gens: "generations db1 = generations db" and inv1: "gen_inv db1"
    from r new gens inv1 show ?thesis
      by (auto dest!: begin_generation_inv abandon_generation_inv simp: get_by_None)
  qed
qed

lemma mark_generation_ready_inv:
  assumes "mark_generation_ready c d i h v db = Inr db'" and inv: "gen_inv db"
  shows "gen_inv db'"
proof -
  from assms(1) obtain state db1 g v' where l: "locked_state d False db = Inr (state, db1)" and g: "generation_of d i db1 = Inr g"
    and p: "gn_phase g = Preparing \<or> gn_phase g = Ready"
    and db': "db' = put_gen (g\<lparr>gn_table_schema_version := v', gn_phase := Ready, gn_publication_hash := h\<rparr>) db1"
    by (auto simp: mark_generation_ready_def split: if_splits)
  show ?thesis
  proof (rule locked_stateE [OF l inv])
    assume inv1: "gen_inv db1"
    then show ?thesis using g p unfolding db' gen_inv_def put_gen_def generation_of_Inr
      by (auto intro!: pointers_same_role [of _ _ i g] simp: same_role_def)
  qed
qed

lemma retire_Some: "get_by gn_id a gens = Some p \<Longrightarrow> unique_key gn_id gens \<Longrightarrow> put_by gn_id (p\<lparr>gn_phase := Retired\<rparr>) gens = retire (Some a) gens"
proof -
  assume p: "get_by gn_id a gens = Some p" and u: "unique_key gn_id gens"
  have a: "gn_id p = a" by (rule get_by_keyD [OF p])
  have same: "g = p" if "g \<in> set gens" "gn_id g = a" for g
    using get_by_unique [OF u, of a g] that p by simp
  show ?thesis unfolding put_by_def retire_def update_where_def using same a by (intro map_cong) auto
qed

lemma retire_None [simp]: "retire None gens = gens"
  by (simp add: retire_def update_where_def)

text \<open>What a publication that returns True has done.\<close>

lemma publish_generationE:
  assumes "publish_generation c d i db = Inr (r, db')" and inv: "gen_inv db"
  obtains (replay) state db1 g where "r = False" "db' = db1" "locked_state d False db = Inr (state, db1)" "gen_inv db1"
      "gs_active state = Some i" "get_by gn_id i (generations db1) = Some g" "gn_phase g = Active"
  | (published) state db1 g legacy where "r = True" "locked_state d False db = Inr (state, db1)" "gen_inv db1"
      "get_by gs_doc_id d (gen_states db1) = Some state" "generations db1 = generations db"
      "get_by gn_id i (generations db1) = Some g" "gn_doc_id g = d" "gs_candidate state = Some i" "gn_phase g = Ready"
      "require_work_owner c g db1 = Inr ()" "d \<notin> set (update_cancelled db1)"
      "gen_states db' = put_by gs_doc_id (state\<lparr>gs_active := Some i, gs_candidate := None\<rparr>) (gen_states db1)"
      "generations db' = put_by gn_id (g\<lparr>gn_legacy_cleanup_pending := legacy, gn_phase := Active, gn_activated_at := Some (gx_now c)\<rparr>)
         (retire (gs_active state) (generations db1))"
proof -
  let ?retire = "\<lambda>state g db1. case gs_active state of
                 Some a \<Rightarrow> bindr (generation_of d a db1) (\<lambda>previous.
                   if gn_phase previous \<noteq> Active then Inl GenerationConflict
                   else Inr (put_gen (previous\<lparr>gn_phase := Retired\<rparr>) db1, gn_legacy_cleanup_pending g))
               | None \<Rightarrow> Inr (db1, True)"
  let ?done = "\<lambda>state g db2 legacy. put_state (state\<lparr>gs_active := Some i, gs_candidate := None\<rparr>)
          (put_gen (g\<lparr>gn_legacy_cleanup_pending := legacy, gn_phase := Active, gn_activated_at := Some (gx_now c)\<rparr>) db2)"
  from assms(1) obtain state db1 g where l: "locked_state d False db = Inr (state, db1)" and can: "d \<notin> set (update_cancelled db1)"
    and g: "generation_of d i db1 = Inr g" and own: "require_work_owner c g db1 = Inr ()"
    and r0: "gs_active state = Some i \<and> gn_phase g = Active \<and> r = False \<and> db' = db1 \<or>
      r = True \<and> gs_candidate state = Some i \<and> gn_phase g = Ready \<and>
        (\<exists>db2 legacy. ?retire state g db1 = Inr (db2, legacy) \<and> db' = ?done state g db2 legacy)"
    unfolding publish_generation_def by (auto split: if_split_asm)
  have ret: "case gs_active state of None \<Rightarrow> db2 = db1 | Some a \<Rightarrow> (\<exists>p. generation_of d a db1 = Inr p \<and> db2 = put_gen (p\<lparr>gn_phase := Retired\<rparr>) db1)"
    if "?retire state g db1 = Inr (db2, legacy)" for db2 legacy
    using that by (cases "gs_active state") (auto split: if_splits)
  have r: "gs_active state = Some i \<and> gn_phase g = Active \<and> r = False \<and> db' = db1 \<or>
      r = True \<and> gs_candidate state = Some i \<and> gn_phase g = Ready \<and> (\<exists>db2 legacy.
        (case gs_active state of None \<Rightarrow> db2 = db1 | Some a \<Rightarrow> (\<exists>p. generation_of d a db1 = Inr p \<and> db2 = put_gen (p\<lparr>gn_phase := Retired\<rparr>) db1)) \<and>
        db' = ?done state g db2 legacy)"
    using r0 ret by blast
  show ?thesis
  proof (rule locked_stateE [OF l inv])
    assume s: "get_by gs_doc_id d (gen_states db1) = Some state" and gens: "generations db1 = generations db" and inv1: "gen_inv db1"
    have u: "unique_key gn_id (generations db1)" using inv1 by (simp add: gen_inv_def pointers_ok_def)
    from r show ?thesis
    proof (elim disjE conjE exE)
      assume "gs_active state = Some i" "gn_phase g = Active" "r = False" "db' = db1"
      with l g inv1 show ?thesis by (intro replay) (auto simp: generation_of_Inr)
    next
      fix db2 legacy
      assume a: "r = True" "gs_candidate state = Some i" "gn_phase g = Ready"
        "case gs_active state of None \<Rightarrow> db2 = db1 | Some a \<Rightarrow> (\<exists>p. generation_of d a db1 = Inr p \<and> db2 = put_gen (p\<lparr>gn_phase := Retired\<rparr>) db1)"
        "db' = put_state (state\<lparr>gs_active := Some i, gs_candidate := None\<rparr>)
          (put_gen (g\<lparr>gn_legacy_cleanup_pending := legacy, gn_phase := Active, gn_activated_at := Some (gx_now c)\<rparr>) db2)"
      have "generations db2 = retire (gs_active state) (generations db1)" "gen_states db2 = gen_states db1"
        using a(4) retire_Some [OF _ u] by (auto simp: put_gen_def generation_of_Inr split: option.splits)
      with a l g inv1 s gens own can show ?thesis
        by (intro published [of state db1 g legacy]) (auto simp: generation_of_Inr put_state_def put_gen_def)
    qed
  qed
qed

lemma publish_generation_inv:
  assumes "publish_generation c d i db = Inr (r, db')" and inv: "gen_inv db"
  shows "gen_inv db'"
  using assms
proof (cases rule: publish_generationE)
  case (published state db1 g legacy)
  have "gn_id g = i" by (rule get_by_keyD [OF published(6)])
  with published show ?thesis unfolding gen_inv_def
    by (auto intro!: pointers_publish simp: gen_inv_def)
qed simp

lemma bind_generation_role: "same_role g (bind_generation c work frozen g)"
  by (simp add: bind_generation_def same_role_def Let_def split: option.split)

lemma prepare_document_attemptE:
  assumes "prepare_document_attempt c0 new_id work en validate db = Inr (g, db')"
  obtains (kept) "db' = db"
  | (fresh) c d db1 db2 g0 frozen proj where "db1 = db \<or> (\<exists>i. abandon_generation c d i False db = Inr db1)"
      "begin_generation c new_id d proj db1 = Inr (g0, db2)" "db' = put_gen (bind_generation c work frozen g0) db2"
proof -
  from assms obtain info where "(let c = c0\<lparr>gx_active := Some work, gx_info := info\<rparr>; doc_id = the (ws_doc_id (wc_spec work)) in
      case find (\<lambda>g. gn_work_id g = Some (wc_work_id work) \<and> gn_work_fence g = Some (wc_fence work)) (generations db) of
            Some previous \<Rightarrow>
              if gn_doc_id previous \<noteq> doc_id \<or> \<not> (gn_phase previous = Preparing \<or> gn_phase previous = Ready)
                 \<or> (case get_by gs_doc_id doc_id (gen_states db) of None \<Rightarrow> True | Some s \<Rightarrow> gs_candidate s \<noteq> Some (gn_id previous))
              then Inl LostOwnership else Inr (previous, db)
          | None \<Rightarrow>
              bindr (case get_by gs_doc_id doc_id (gen_states db) of None \<Rightarrow> Inr db
                 | Some s \<Rightarrow> (case gs_candidate s of None \<Rightarrow> Inr db
                     | Some cand \<Rightarrow>
                         if (case get_by gn_id cand (generations db) of None \<Rightarrow> False
                             | Some g \<Rightarrow> (case gn_work_id g of None \<Rightarrow> False
                                 | Some wid \<Rightarrow> wid \<noteq> wc_work_id work \<and>
                                     (case get_by wi_id wid (work_items db) of None \<Rightarrow> True
                                      | Some o' \<Rightarrow> (wi_status o' = Queued \<or> wi_status o' = Running) \<and> \<not> wi_cancel_requested o')))
                         then Inl LostOwnership
                         else abandon_generation c doc_id cand False db)) (\<lambda>db1.
                bindr (begin_generation c new_id doc_id
                    (if en then Some current_chunk_projection_version else None) db1) (\<lambda>(g, db2).
                  let frozen = get_by dw_work_id (wc_work_id work) (work_inputs db2)
                  in bindr (case frozen of None \<Rightarrow> Inr ()
                       | Some f \<Rightarrow> if dw_doc_id f \<noteq> doc_id then Inl LostOwnership else validate f) (\<lambda>_.
                     let g' = bind_generation c work frozen g in Inr (g', put_gen g' db2))))) = Inr (g, db')"
    unfolding prepare_document_attempt_def Let_def by (auto split: if_split_asm)
  then show ?thesis
    unfolding Let_def
    by (auto split: option.split_asm if_split_asm intro: that)
qed

lemma prepare_document_attempt_inv:
  assumes "prepare_document_attempt c0 new_id work en validate db = Inr (g, db')" and inv: "gen_inv db"
    and new: "get_by gn_id new_id (generations db) = None"
  shows "gen_inv db'"
  using assms(1)
proof (cases rule: prepare_document_attemptE)
  case kept
  with inv show ?thesis by simp
next
  case (fresh c d db1 db2 g0 frozen proj)
  from fresh(1) inv new have "gen_inv db1 \<and> get_by gn_id new_id (generations db1) = None"
    by (auto dest!: abandon_generation_inv simp: get_by_None)
  then have "gen_inv db2 \<and> get_by gn_id new_id (generations db2) = Some g0"
    using begin_generation_inv [OF fresh(2)] by blast
  then show ?thesis
    using fresh(3) pointers_same_role [OF _ _ bind_generation_role] by (auto simp: gen_inv_def put_gen_def)
qed

subsection \<open>Runs\<close>

datatype gen_op =
    Begin_Gen gen_ctx string string "int option"
  | Prepare_Gen gen_ctx string string bool "int option"
  | Ready_Gen gen_ctx string string "string option" "int option"
  | Publish_Gen gen_ctx string string
  | Abandon_Gen gen_ctx string string bool
  | Writable_Gen gen_ctx string string
  | Cleanup_Gen string string bool
  | Legacy_Gen string
  | Attempt_Gen gen_ctx string work_claim bool "work_input \<Rightarrow> unit result"
  | Ledger work_op

fun gen_exec :: "(string \<Rightarrow> string) \<Rightarrow> time \<Rightarrow> gen_op \<Rightarrow> 'a doc_db_scheme \<Rightarrow> 'a doc_db_scheme" where
  "gen_exec sha now (Begin_Gen c i d proj) db = committed db (map_sum id snd (begin_generation c i d proj db))"
| "gen_exec sha now (Prepare_Gen c i d resume proj) db = committed db (map_sum id snd (prepare_generation_attempt c i d resume proj db))"
| "gen_exec sha now (Ready_Gen c d i h v) db = committed db (mark_generation_ready c d i h v db)"
| "gen_exec sha now (Publish_Gen c d i) db = committed db (map_sum id snd (publish_generation c d i db))"
| "gen_exec sha now (Abandon_Gen c d i a) db = committed db (abandon_generation c d i a db)"
| "gen_exec sha now (Writable_Gen c d i) db = committed db (map_sum id snd (lock_writable_generation c d i db))"
| "gen_exec sha now (Cleanup_Gen d i m) db = committed db (map_sum id snd (lock_cleanup_generation d i m db))"
| "gen_exec sha now (Legacy_Gen d) db = committed db (map_sum id snd (lock_legacy_cleanup d db))"
| "gen_exec sha now (Attempt_Gen c i work en validate) db =
     committed db (map_sum id snd (prepare_document_attempt c i work en validate db))"
| "gen_exec sha now (Ledger op) db = work_exec sha now op db"

fun gen_fresh :: "gen_op \<Rightarrow> 'a doc_db_scheme \<Rightarrow> bool" where
  "gen_fresh (Begin_Gen c i d proj) db = (get_by gn_id i (generations db) = None)"
| "gen_fresh (Prepare_Gen c i d resume proj) db = (get_by gn_id i (generations db) = None)"
| "gen_fresh (Attempt_Gen c i work en validate) db = (get_by gn_id i (generations db) = None)"
| "gen_fresh _ db = True"

inductive gen_step :: "(string \<Rightarrow> string) \<Rightarrow> 'a doc_db_scheme \<Rightarrow> 'a doc_db_scheme \<Rightarrow> bool" for sha where
  "gen_fresh op db \<Longrightarrow> gen_step sha db (gen_exec sha now op db)"

fun gen_run :: "(string \<Rightarrow> string) \<Rightarrow> (time \<times> gen_op) list \<Rightarrow> 'a doc_db_scheme \<Rightarrow> 'a doc_db_scheme" where
  "gen_run sha [] db = db"
| "gen_run sha ((now, op) # ops) db = gen_run sha ops (gen_exec sha now op db)"

fun gen_run_ok :: "(string \<Rightarrow> string) \<Rightarrow> (time \<times> gen_op) list \<Rightarrow> 'a doc_db_scheme \<Rightarrow> bool" where
  "gen_run_ok sha [] db \<longleftrightarrow> True"
| "gen_run_ok sha ((now, op) # ops) db \<longleftrightarrow> gen_fresh op db \<and> gen_run_ok sha ops (gen_exec sha now op db)"

lemma gen_run_steps: "gen_run_ok sha ops db \<Longrightarrow> (gen_step sha)\<^sup>*\<^sup>* db (gen_run sha ops db)"
  by (induction sha ops db rule: gen_run.induct)
    (auto intro: converse_rtranclp_into_rtranclp gen_step.intros)

lemma maint_more_work: "maint_db.more db' = maint_db.more db \<Longrightarrow> work_db.more db' = work_db.more db"
  by (cases db, cases db') simp

lemma work_exec_more [simp]: "work_db.more (work_exec sha now op db) = work_db.more db"
proof -
  note keep = committed_inv [where P = "\<lambda>d. work_db.more d = work_db.more db", OF refl]
  have put: "work_db.more (put_item row db) = work_db.more db" for row by (simp add: put_item_def)
  show ?thesis
  proof (cases op)
    case (Enqueue new_id spec)
    then show ?thesis by (auto intro!: keep elim!: enqueueE)
  next
    case (Claim unlocked mop settings owner supported lease)
    then show ?thesis by (auto intro!: keep simp: claim_work_def Let_def split: if_splits option.splits)
  next
    case (Renew_Work work lease)
    then show ?thesis by (auto intro!: keep elim!: renewE simp: put)
  next
    case (Finish work outcome code)
    then show ?thesis by (auto intro!: keep elim!: finishE simp: put)
  next
    case (Cancel now' i)
    then show ?thesis by (auto simp: cancel_work_def Let_def put split: option.splits)
  next
    case (Retry work code delay n)
    then show ?thesis by (auto intro!: keep elim!: retryE simp: put)
  next
    case (Defer work delay)
    then show ?thesis by (auto intro!: keep elim!: deferE simp: put)
  next
    case (Maint m)
    then show ?thesis using maint_more_work [OF maint_exec_more] by simp
  qed
qed

lemma work_more_doc: "work_db.more db' = work_db.more db \<Longrightarrow>
    documents db' = documents db \<and> gen_states db' = gen_states db \<and> generations db' = generations db \<and>
    update_cancelled db' = update_cancelled db \<and> work_inputs db' = work_inputs db"
  by (cases db, cases db') simp

lemmas work_exec_doc = work_more_doc [OF work_exec_more]

lemma gen_exec_inv:
  assumes "gen_fresh op db" and inv: "gen_inv db"
  shows "gen_inv (gen_exec sha now op db)"
proof -
  note keep = committed_inv [where P = gen_inv, OF inv]
  have lock: "gen_inv db1" if "locked_state d a db = Inr (s, db1)" for d a s db1
    by (rule locked_stateE [OF that inv])
  show ?thesis
  proof (cases op)
    case (Begin_Gen c i d proj)
    with assms show ?thesis by (auto intro!: keep dest: begin_generation_inv)
  next
    case (Prepare_Gen c i d resume proj)
    with assms show ?thesis by (auto intro!: keep dest: prepare_generation_attempt_inv)
  next
    case (Ready_Gen c d i h v)
    with inv show ?thesis by (auto intro!: keep dest: mark_generation_ready_inv)
  next
    case (Publish_Gen c d i)
    with inv show ?thesis by (auto intro!: keep dest: publish_generation_inv)
  next
    case (Abandon_Gen c d i a)
    with inv show ?thesis by (auto intro!: keep dest: abandon_generation_inv)
  next
    case (Writable_Gen c d i)
    then show ?thesis by (auto intro!: keep dest: lock simp: lock_writable_generation_def split: if_splits)
  next
    case (Cleanup_Gen d i m)
    then show ?thesis by (auto intro!: keep dest: lock simp: lock_cleanup_generation_def split: if_splits option.splits)
  next
    case (Legacy_Gen d)
    have "gen_inv db1" if "lock_legacy_cleanup d db = Inr (gs, db1)" for gs db1
    proof -
      from that obtain s where "locked_state d True db = Inr (s, db1)"
        by (auto simp: lock_legacy_cleanup_def split: if_splits option.splits)
      then show ?thesis by (rule lock)
    qed
    with Legacy_Gen show ?thesis by (auto intro!: keep)
  next
    case (Attempt_Gen c i work en validate)
    with assms show ?thesis by (auto intro!: keep dest: prepare_document_attempt_inv)
  next
    case (Ledger w)
    with inv show ?thesis by (simp add: gen_inv_def work_exec_doc)
  qed
qed

interpretation gens: invariant_system "gen_step sha" gen_inv
  by unfold_locales (auto elim!: gen_step.cases intro: gen_exec_inv)

subsection \<open>Finished generations\<close>

text \<open>No operation brings a retired or abandoned generation back.\<close>

definition dead :: "generation \<Rightarrow> bool" where
  "dead g \<longleftrightarrow> gn_phase g = Retired \<or> gn_phase g = Abandoned"

definition dead_in :: "string \<Rightarrow> generation \<Rightarrow> 'a doc_db_scheme \<Rightarrow> bool" where
  "dead_in i g db \<longleftrightarrow> get_by gn_id i (generations db) = Some g \<and> dead g"

lemma locked_state_dead: "locked_state d a db = Inr (s, db1) \<Longrightarrow> gen_inv db \<Longrightarrow> dead_in i g db1 = dead_in i g db"
  by (erule locked_stateE) (auto simp: dead_in_def)

lemma dead_put_gen:
  "dead_in i g db \<Longrightarrow> get_by gn_id j (generations db) = Some h \<Longrightarrow> \<not> dead h \<Longrightarrow> gn_id h' = j \<Longrightarrow> dead_in i g (put_gen h' db)"
  by (auto simp: dead_in_def put_gen_def get_by_put_by)

lemma dead_put_state [simp]: "dead_in i g (put_state s db) = dead_in i g db"
  by (simp add: dead_in_def put_state_def)

lemma begin_generation_dead:
  assumes "begin_generation c n d proj db = Inr (h, db')" and inv: "gen_inv db" and "dead_in i g db"
  shows "dead_in i g db'"
proof -
  from assms(1) obtain state db1 scope where l: "locked_state d False db = Inr (state, db1)"
    and db': "db' = put_state (state\<lparr>gs_candidate := Some n\<rparr>) (db1\<lparr>generations := generations db1 @ [h]\<rparr>)"
    by (auto simp: begin_generation_def Let_def split: if_splits)
  from locked_state_dead [OF l inv] assms(3) have "dead_in i g db1" by simp
  then show ?thesis by (simp add: db' dead_in_def get_by_append put_state_def)
qed

lemma abandon_generation_dead:
  assumes "abandon_generation c d j a db = Inr db'" and inv: "gen_inv db" and dg: "dead_in i g db"
  shows "dead_in i g db'"
proof -
  from assms(1) obtain state db1 h where l: "locked_state d a db = Inr (state, db1)" and h: "generation_of d j db1 = Inr h"
    and r: "db' = db1 \<or> (gn_phase h = Preparing \<or> gn_phase h = Ready) \<and>
      db' = put_state (state\<lparr>gs_candidate := None\<rparr>) (put_gen (h\<lparr>gn_phase := Abandoned\<rparr>) db1)"
    by (auto simp: abandon_generation_def split: if_splits)
  from locked_state_dead [OF l inv] dg have d1: "dead_in i g db1" by simp
  from h have "get_by gn_id j (generations db1) = Some h" "gn_id h = j" by (auto simp: generation_of_Inr dest: get_by_keyD)
  then have "\<not> dead h \<Longrightarrow> dead_in i g (put_gen (h\<lparr>gn_phase := Abandoned\<rparr>) db1)" by (intro dead_put_gen [OF d1]) simp_all
  with r d1 show ?thesis by (auto simp: dead_def)
qed

lemma prepare_generation_attempt_dead:
  assumes "prepare_generation_attempt c n d resume proj db = Inr (h, db')" and inv: "gen_inv db" and dg: "dead_in i g db"
  shows "dead_in i g db'"
proof -
  from assms(1) obtain state db1 where l: "locked_state d False db = Inr (state, db1)"
    and c: "(case gs_candidate state of
          None \<Rightarrow> begin_generation c n d proj db1
        | Some cand \<Rightarrow>
            bindr (generation_of d cand db1) (\<lambda>g.
              bindr (require_work_owner c g db1) (\<lambda>_.
                if resume then Inr (g, db1)
                else bindr (abandon_generation c d (gn_id g) False db1) (\<lambda>db2.
                  begin_generation c n d proj db2)))) = Inr (h, db')"
    unfolding prepare_generation_attempt_def by (auto split: if_split_asm)
  from locked_state_dead [OF l inv] dg have d1: "dead_in i g db1" by simp
  have inv1: "gen_inv db1" by (rule locked_stateE [OF l inv])
  show ?thesis
  proof (cases "gs_candidate state")
    case None
    with c d1 inv1 show ?thesis by (auto intro: begin_generation_dead)
  next
    case (Some cand)
    with c obtain x where "h = x \<and> db' = db1 \<or> (\<exists>db2. abandon_generation c d (gn_id x) False db1 = Inr db2 \<and>
        begin_generation c n d proj db2 = Inr (h, db'))" by (auto split: if_splits)
    then show ?thesis
    proof (elim disjE conjE exE)
      fix db2 assume "abandon_generation c d (gn_id x) False db1 = Inr db2" "begin_generation c n d proj db2 = Inr (h, db')"
      then show ?thesis
        using abandon_generation_dead [OF _ inv1 d1] abandon_generation_inv [OF _ inv1] by (auto intro: begin_generation_dead)
    qed (simp add: d1)
  qed
qed

lemma publish_generation_dead:
  assumes "publish_generation c d j db = Inr (r, db')" and inv: "gen_inv db" and dg: "dead_in i g db"
  shows "dead_in i g db'"
  using assms(1) inv
proof (cases rule: publish_generationE)
  case (replay state db1 h)
  with locked_state_dead [OF replay(3) inv] dg show ?thesis by simp
next
  case (published state db1 h legacy)
  from locked_state_dead [OF published(2) inv] dg have d1: "dead_in i g db1" by simp
  have ne: "i \<noteq> j" using d1 published(6,9) by (auto simp: dead_in_def dead_def)
  have na: "gs_active state \<noteq> Some i"
  proof
    assume a: "gs_active state = Some i"
    show False
      by (rule pointers_activeD [OF published(3) [unfolded gen_inv_def] published(4) a]) (use d1 in \<open>auto simp: dead_in_def dead_def\<close>)
  qed
  have "gn_id h = j" by (rule get_by_keyD [OF published(6)])
  with ne na d1 published(13) show ?thesis by (auto simp: dead_in_def get_by_put_by get_by_retire)
qed

lemma prepare_document_attempt_dead:
  assumes "prepare_document_attempt c0 n work en validate db = Inr (h, db')" and inv: "gen_inv db" and dg: "dead_in i g db"
    and new: "get_by gn_id n (generations db) = None"
  shows "dead_in i g db'"
  using assms(1)
proof (cases rule: prepare_document_attemptE)
  case kept
  with dg show ?thesis by simp
next
  case (fresh c d db1 db2 g0 frozen proj)
  have d1: "dead_in i g db1" using fresh(1) dg abandon_generation_dead [OF _ inv dg] by auto
  have inv1: "gen_inv db1" using fresh(1) inv abandon_generation_inv [OF _ inv] by auto
  have new1: "get_by gn_id n (generations db1) = None"
    using fresh(1) new inv by (auto dest!: abandon_generation_inv simp: get_by_None)
  have d2: "dead_in i g db2" by (rule begin_generation_dead [OF fresh(2) inv1 d1])
  from begin_generation_inv [OF fresh(2) inv1 new1]
  have "get_by gn_id n (generations db2) = Some g0" "gn_phase g0 = Preparing" "gn_id g0 = n" by auto
  then show ?thesis unfolding fresh(3) using bind_generation_role [of g0 c work frozen]
    by (intro dead_put_gen [OF d2]) (auto simp: dead_def same_role_def)
qed

lemma gen_exec_dead:
  assumes fresh: "gen_fresh op db" and inv: "gen_inv db" and dg: "dead_in i g db"
  shows "dead_in i g (gen_exec sha now op db)"
proof -
  note keep = committed_inv [where P = "dead_in i g", OF dg]
  have lock: "dead_in i g db1" if "locked_state d a db = Inr (s, db1)" for d a s db1
    using locked_state_dead [OF that inv] dg by simp
  show ?thesis
  proof (cases op)
    case (Begin_Gen c n d proj)
    then show ?thesis by (auto intro!: keep intro: begin_generation_dead [OF _ inv dg])
  next
    case (Prepare_Gen c n d resume proj)
    then show ?thesis by (auto intro!: keep intro: prepare_generation_attempt_dead [OF _ inv dg])
  next
    case (Ready_Gen c d j h v)
    have "dead_in i g db'" if "mark_generation_ready c d j h v db = Inr db'" for db'
    proof -
      from that obtain state db1 x v' where l: "locked_state d False db = Inr (state, db1)" and x: "generation_of d j db1 = Inr x"
        and p: "gn_phase x = Preparing \<or> gn_phase x = Ready"
        and db': "db' = put_gen (x\<lparr>gn_table_schema_version := v', gn_phase := Ready, gn_publication_hash := h\<rparr>) db1"
        by (auto simp: mark_generation_ready_def split: if_splits)
      from x have "get_by gn_id j (generations db1) = Some x" "gn_id x = j" by (auto simp: generation_of_Inr dest: get_by_keyD)
      then show ?thesis unfolding db' using p by (intro dead_put_gen [OF lock [OF l]]) (auto simp: dead_def)
    qed
    with Ready_Gen show ?thesis by (auto intro!: keep)
  next
    case (Publish_Gen c d j)
    then show ?thesis by (auto intro!: keep intro: publish_generation_dead [OF _ inv dg])
  next
    case (Abandon_Gen c d j a)
    then show ?thesis by (auto intro!: keep intro: abandon_generation_dead [OF _ inv dg])
  next
    case (Writable_Gen c d j)
    then show ?thesis by (auto intro!: keep intro: lock simp: lock_writable_generation_def split: if_splits)
  next
    case (Cleanup_Gen d j m)
    then show ?thesis by (auto intro!: keep intro: lock simp: lock_cleanup_generation_def split: if_splits option.splits)
  next
    case (Legacy_Gen d)
    have "dead_in i g db1" if "lock_legacy_cleanup d db = Inr (gs, db1)" for gs db1
    proof -
      from that obtain s where "locked_state d True db = Inr (s, db1)"
        by (auto simp: lock_legacy_cleanup_def split: if_splits option.splits)
      then show ?thesis by (rule lock)
    qed
    with Legacy_Gen show ?thesis by (auto intro!: keep)
  next
    case (Attempt_Gen c n work en validate)
    with fresh show ?thesis by (auto intro!: keep intro: prepare_document_attempt_dead [OF _ inv dg])
  next
    case (Ledger w)
    with dg show ?thesis by (simp add: dead_in_def work_exec_doc)
  qed
qed

lemma gen_run_inv: "gen_run_ok sha ops db \<Longrightarrow> gen_inv db \<Longrightarrow> gen_inv (gen_run sha ops db)"
  using gens.steps_inv [OF gen_run_steps] .

lemma gen_run_dead: "gen_run_ok sha ops db \<Longrightarrow> gen_inv db \<Longrightarrow> dead_in i g db \<Longrightarrow> dead_in i g (gen_run sha ops db)"
  by (induction sha ops db rule: gen_run.induct) (auto intro: gen_exec_dead gen_exec_inv)

subsection \<open>Properties\<close>

definition example_ctx :: gen_ctx where
  "example_ctx = \<lparr>gx_now = 0, gx_active = None,
     gx_info = \<lparr>si_bound = None, si_busy = False, si_ack = None, si_txn = 1\<rparr>, gx_durable = False,
     gx_locked_intents = [], gx_verify = (\<lambda>_ _. Inr ()), gx_summary = (\<lambda>s _. s)\<rparr>"

definition example_docs :: doc_db where
  "example_docs = work_db.extend example_work
     \<lparr>documents = [\<lparr>dc_id = ''d1'', dc_deleted_at = None, dc_status = ''done'', dc_error = None, dc_error_code = None\<rparr>],
      gen_states = [], generations = [], update_cancelled = [], work_inputs = []\<rparr>"

definition publish_ops :: "string \<Rightarrow> (time \<times> gen_op) list" where
  "publish_ops i = [(0, Begin_Gen example_ctx i ''d1'' None), (0, Ready_Gen example_ctx ''d1'' i None None),
     (0, Publish_Gen example_ctx ''d1'' i)]"

lemma example_docs_inv [simp]: "gen_inv example_docs"
  by (simp add: gen_inv_def pointers_ok_def example_docs_def example_work_def example_maint_def unique_key_def
      work_db.defs maint_db.defs coord_db.defs)

lemma pointers_unique:
  assumes ok: "pointers_ok states gens" and "g \<in> set gens" "h \<in> set gens" "gn_doc_id g = gn_doc_id h"
    and "gn_phase g = Active \<and> gn_phase h = Active \<or>
      (gn_phase g = Preparing \<or> gn_phase g = Ready) \<and> (gn_phase h = Preparing \<or> gn_phase h = Ready)"
  shows "g = h"
proof -
  have u: "unique_key gn_id gens" using ok by (simp add: pointers_ok_def)
  have g: "get_by gn_id (gn_id g) gens = Some g" "get_by gn_id (gn_id h) gens = Some h"
    using assms(2,3) get_by_unique [OF u] by auto
  then have "claimed states g" "claimed states h" using ok by (simp_all add: pointers_ok_def)
  with assms(4,5) have "gn_id g = gn_id h" by (auto simp: claimed_def)
  with g have "Some g = Some h" by metis
  then show ?thesis by simp
qed

text \<open>
  C12. Through every run of generation operations and ledger transactions the publication
  pointers stay consistent: a document has at most one active generation and at most one
  candidate, its pointers name exactly these, and a candidate is based on the active one.
\<close>

theorem publication_pointers_consistent:
  assumes "gen_run_ok sha ops db" and "gen_inv db"
  shows "gen_inv (gen_run sha ops db) \<and>
    (\<forall>g \<in> set (generations (gen_run sha ops db)). \<forall>h \<in> set (generations (gen_run sha ops db)).
      gn_doc_id g = gn_doc_id h \<and>
      (gn_phase g = Active \<and> gn_phase h = Active \<or>
       (gn_phase g = Preparing \<or> gn_phase g = Ready) \<and> (gn_phase h = Preparing \<or> gn_phase h = Ready)) \<longrightarrow> g = h)"
proof -
  have inv: "gen_inv (gen_run sha ops db)" by (rule gen_run_inv [OF assms])
  then have "pointers_ok (gen_states (gen_run sha ops db)) (generations (gen_run sha ops db))" by (simp add: gen_inv_def)
  note pointers_unique [OF this]
  with inv show ?thesis by blast
qed

theorem publication_pointers_consistent_witness:
  "gen_inv (gen_run id (publish_ops ''g1'' @ publish_ops ''g2'') example_docs)"
proof -
  have "gen_run_ok id (publish_ops ''g1'' @ publish_ops ''g2'') example_docs" by code_simp
  from publication_pointers_consistent [OF this example_docs_inv] show ?thesis by blast
qed

text \<open>
  Publication swaps the pointer once: it needs the current ready candidate and, for a
  generation that belongs to a work attempt, that attempt's live claim; the new generation
  is the active one, the previous one is retired, and repeating the call replays nothing.
\<close>

theorem publication_swaps_pointer_once:
  assumes "publish_generation c d i db = Inr (True, db')" and "gen_inv db"
  shows "(\<exists>s g. get_by gs_doc_id d (gen_states db') = Some s \<and> gs_active s = Some i \<and> gs_candidate s = None \<and>
      get_by gn_id i (generations db') = Some g \<and> gn_phase g = Active \<and> gn_doc_id g = d) \<and>
    (\<forall>s a g. get_by gs_doc_id d (gen_states db) = Some s \<and> gs_active s = Some a \<and> get_by gn_id a (generations db) = Some g \<longrightarrow>
      get_by gn_id a (generations db') = Some (g\<lparr>gn_phase := Retired\<rparr>)) \<and>
    (\<forall>g wid. get_by gn_id i (generations db) = Some g \<and> gn_work_id g = Some wid \<longrightarrow>
      (\<exists>w. ctx_work c = Some w \<and> wc_work_id w = wid \<and> gn_work_fence g = Some (wc_fence w))) \<and>
    (\<forall>c' r db''. publish_generation c' d i db' = Inr (r, db'') \<longrightarrow> r = False \<and> db'' = db')"
  using assms
proof (cases rule: publish_generationE)
  case (published state db1 g legacy)
  have gi: "gn_id g = i" and sd: "gs_doc_id state = d" using published(4,6) by (auto dest: get_by_keyD)
  have ai: "gs_active state \<noteq> Some i"
  proof
    assume a: "gs_active state = Some i"
    show False by (rule pointers_activeD [OF published(3) [unfolded gen_inv_def] published(4) a]) (use published in auto)
  qed
  let ?s = "state\<lparr>gs_active := Some i, gs_candidate := None\<rparr>"
  have s: "get_by gs_doc_id d (gen_states db') = Some ?s" using published(4,12) sd by (simp add: get_by_put_by)
  have g': "\<exists>g. get_by gn_id i (generations db') = Some g \<and> gn_phase g = Active \<and> gn_doc_id g = d"
    using published(6,7,13) gi ai by (simp add: get_by_put_by get_by_retire)
  have prev: "get_by gn_id a (generations db') = Some (h\<lparr>gn_phase := Retired\<rparr>)"
    if "get_by gs_doc_id d (gen_states db) = Some t" "gs_active t = Some a" "get_by gn_id a (generations db) = Some h" for t a h
  proof -
    have "state = t" by (rule locked_stateE [OF published(2) assms(2)]) (use that in auto)
    then have "a \<noteq> i" "gs_active state = Some a" using that ai by auto
    then show ?thesis using that published(5,13) gi by (simp add: get_by_put_by get_by_retire)
  qed
  have own: "\<exists>w. ctx_work c = Some w \<and> wc_work_id w = wid \<and> gn_work_fence h = Some (wc_fence w)"
    if "get_by gn_id i (generations db) = Some h" "gn_work_id h = Some wid" for h wid
    using that published(5,6,10) by (auto simp: require_work_owner_def split: option.splits if_splits)
  have again: "r = False \<and> db'' = db'" if p: "publish_generation c' d i db' = Inr (r, db'')" for c' r db''
  proof -
    have inv': "gen_inv db'" by (rule publish_generation_inv [OF assms])
    show ?thesis
      using p inv'
    proof (cases rule: publish_generationE)
      case (replay state2 db2 g2)
      have "db2 = db'" by (rule locked_stateE [OF replay(3) inv']) (use s in auto)
      with replay show ?thesis by simp
    next
      case (published state2 db2 g2 legacy2)
      have "state2 = ?s" by (rule locked_stateE [OF published(2) inv']) (use s in auto)
      with published(8) show ?thesis by simp
    qed
  qed
  show ?thesis
  proof (intro conjI allI impI)
    show "\<exists>s g. get_by gs_doc_id d (gen_states db') = Some s \<and> gs_active s = Some i \<and> gs_candidate s = None \<and>
        get_by gn_id i (generations db') = Some g \<and> gn_phase g = Active \<and> gn_doc_id g = d"
      using s g' by simp
  qed (use prev own again in blast)+
qed simp

theorem publication_swaps_pointer_once_witness:
  "\<exists>db'. publish_generation example_ctx ''d1'' ''g2''
      (gen_run id (publish_ops ''g1'' @ take 2 (publish_ops ''g2'')) example_docs) = Inr (True, db') \<and>
    publish_generation example_ctx ''d1'' ''g2'' db' \<noteq> Inr (True, db')"
proof -
  let ?ops = "publish_ops ''g1'' @ take 2 (publish_ops ''g2'')"
  have ok: "gen_run_ok id ?ops example_docs" by code_simp
  have "map_sum id fst (publish_generation example_ctx ''d1'' ''g2'' (gen_run id ?ops example_docs)) = Inr True" by code_simp
  then obtain db' where p: "publish_generation example_ctx ''d1'' ''g2'' (gen_run id ?ops example_docs) = Inr (True, db')" by auto
  from publication_swaps_pointer_once [OF p gen_run_inv [OF ok example_docs_inv]] p show ?thesis by blast
qed

text \<open>
  C13. Cleanup never reaches live artifacts: a generation it may delete is retired or
  abandoned and no pointer names it, and this stays so through every later run.
\<close>

theorem cleanup_never_live:
  assumes "lock_cleanup_generation d i missing_ok db = Inr (Some g, db1)" and "gen_inv db" and "gen_run_ok sha ops db1"
  shows "get_by gn_id i (generations (gen_run sha ops db1)) = Some g \<and> (gn_phase g = Retired \<or> gn_phase g = Abandoned) \<and>
    (\<forall>s \<in> set (gen_states (gen_run sha ops db1)). gs_active s \<noteq> Some i \<and> gs_candidate s \<noteq> Some i)"
proof -
  from assms(1) obtain state where l: "locked_state d True db = Inr (state, db1)"
    and g: "get_by gn_id i (generations db1) = Some g" "gn_phase g = Retired \<or> gn_phase g = Abandoned"
    by (auto simp: lock_cleanup_generation_def split: option.splits if_splits)
  have inv1: "gen_inv db1" by (rule locked_stateE [OF l assms(2)])
  let ?db = "gen_run sha ops db1"
  have inv2: "pointers_ok (gen_states ?db) (generations ?db)"
    using gen_run_inv [OF assms(3) inv1] by (simp add: gen_inv_def)
  have dead: "get_by gn_id i (generations ?db) = Some g"
    using gen_run_dead [OF assms(3) inv1, of i g] g by (simp add: dead_in_def dead_def)
  have "gs_active s \<noteq> Some i \<and> gs_candidate s \<noteq> Some i" if "s \<in> set (gen_states ?db)" for s
  proof -
    have s: "get_by gs_doc_id (gs_doc_id s) (gen_states ?db) = Some s"
      using that inv2 get_by_unique [of gs_doc_id "gen_states ?db"] by (simp add: pointers_ok_def)
    have "gs_active s = Some i \<Longrightarrow> False" by (erule pointers_activeD [OF inv2 s]) (use dead g in auto)
    moreover have "gs_candidate s = Some i \<Longrightarrow> False" by (erule pointers_candidateD [OF inv2 s]) (use dead g in auto)
    ultimately show ?thesis by blast
  qed
  with dead g show ?thesis by blast
qed

theorem cleanup_never_live_witness:
  "\<exists>g db1. lock_cleanup_generation ''d1'' ''g1'' False (gen_run id (publish_ops ''g1'' @ publish_ops ''g2'') example_docs) = Inr (Some g, db1) \<and>
     (\<forall>s \<in> set (gen_states (gen_run id [] db1)). gs_active s \<noteq> Some ''g1'')"
proof -
  let ?ops = "publish_ops ''g1'' @ publish_ops ''g2''"
  have ok: "gen_run_ok id ?ops example_docs" by code_simp
  have "map_sum id (\<lambda>x. fst x \<noteq> None) (lock_cleanup_generation ''d1'' ''g1'' False (gen_run id ?ops example_docs)) = Inr True" by code_simp
  then obtain g db1 where c: "lock_cleanup_generation ''d1'' ''g1'' False (gen_run id ?ops example_docs) = Inr (Some g, db1)" by auto
  have "gen_run_ok id [] db1" by simp
  from cleanup_never_live [OF c gen_run_inv [OF ok example_docs_inv] this] c show ?thesis by blast
qed

end
