(* ===== verification/Admission.thy ===== *)
theory Admission
  imports Generations
begin

text \<open>
  \<open>backend/app/services/work/admission.py\<close>: the admission of document work. All admissions
  take the global admission row first, so that the checks below and the insertion of the
  intent are one step.
\<close>

subsection \<open>Intents\<close>

definition document_mutators :: "string list" where
  "document_mutators = [''document'', ''scope_change'', ''canonical_repair'']"

definition pending_status :: "work_item \<Rightarrow> bool" where
  "pending_status r \<longleftrightarrow> wi_status r = Queued \<or> wi_status r = Running"

definition pending_intent :: "string \<Rightarrow> work_item \<Rightarrow> bool" where
  "pending_intent doc_id r \<longleftrightarrow> wi_doc_id r = Some doc_id \<and> wi_kind r \<in> set document_mutators \<and> pending_status r"

definition lock_document_intents :: "string \<Rightarrow> gen_ctx \<Rightarrow> 'a doc_db_scheme \<Rightarrow> work_item list \<times> gen_ctx" where
  "lock_document_intents doc_id c db =
     (order_by wi_id (filter (pending_intent doc_id) (work_items db)),
      c\<lparr>gx_locked_intents := doc_id # gx_locked_intents c\<rparr>)"

definition invalidate_document_intents ::
    "time \<Rightarrow> time \<Rightarrow> string \<Rightarrow> gen_ctx \<Rightarrow> 'a doc_db_scheme \<Rightarrow> bool \<times> 'a doc_db_scheme" where
  "invalidate_document_intents now now' doc_id c db =
     foldl (\<lambda>(done, d) r. case cancel_work now now' (wi_id r) d of (ok, d') \<Rightarrow> (ok \<or> done, d'))
       (False, db) (fst (lock_document_intents doc_id c db))"

definition valid_doc_id :: "string \<Rightarrow> bool" where
  "valid_doc_id s \<longleftrightarrow> fullmatch_class (upper_az @ lower_az @ digits09 @ ''_-'') 1 64 s \<and>
     (let low = map (\<lambda>c. if char_in upper_az c then char_of ((of_char c :: nat) + 32) else c) s
      in low \<notin> set ([''con'', ''prn'', ''aux'', ''nul''] @
           concat (map (\<lambda>d. [''com'' @ [d], ''lpt'' @ [d]]) ''123456789'')))"

definition document_request_key :: "(string \<Rightarrow> string) \<Rightarrow> string \<Rightarrow> string \<Rightarrow> string \<Rightarrow> string" where
  "document_request_key sha256 doc_id action request_id =
     ''document/'' @ doc_id @ ''/'' @ action @ ''/'' @ sha256 request_id"

record pipeline_settings =
  pl_max_workers :: int
  pl_max_pending :: int
  pl_admin_max_pending :: int
  pl_max_pending_documents :: int

definition caller_limit :: "pipeline_settings \<Rightarrow> bool \<Rightarrow> int" where
  "caller_limit st is_admin =
     min (pl_max_pending_documents st) (pl_max_workers st + (if is_admin then pl_admin_max_pending st else pl_max_pending st))"

definition pending_total :: "work_item list \<Rightarrow> int" where
  "pending_total rows = int (length (filter (\<lambda>r. wi_kind r \<in> set document_mutators \<and> pending_status r) rows))"

definition document_action :: "string \<Rightarrow> bool" where
  "document_action a \<longleftrightarrow> a = ''process'' \<or> a = ''resume'' \<or> a = ''regenerate''"

definition enqueue_document ::
    "(string \<Rightarrow> string) \<Rightarrow> time \<Rightarrow> string \<Rightarrow> pipeline_settings \<Rightarrow> string \<Rightarrow> string \<Rightarrow> string \<Rightarrow> string \<Rightarrow> bool \<Rightarrow> 'a doc_db_scheme
     \<Rightarrow> (string \<times> 'a doc_db_scheme) result" where
  "enqueue_document sha256 now new_id st doc_id action source_hash request_id is_admin db =
     (if \<not> valid_doc_id doc_id \<or> \<not> document_action action \<or> \<not> hex_string 64 source_hash
         \<or> \<not> (1 \<le> length request_id \<and> length request_id \<le> 128) then Inl ValueError
      else let key = document_request_key sha256 doc_id action request_id
      in bindr (make_spec ''document'' 1 (JObj [(''doc_id'', JStr doc_id), (''action'', JStr action), (''source_file_hash'', JStr source_hash)])
                  key (Some doc_id)) (\<lambda>spec.
           if get_by wi_dedupe_key key (work_items db) \<noteq> None then enqueue now new_id spec db
           else if list_ex (\<lambda>r. pending_intent doc_id r \<and> \<not> wi_cancel_requested r) (work_items db)
           then Inl (ConflictError ''already_processing'')
           else if caller_limit st is_admin \<le> pending_total (work_items db) then Inl (DomainError ''queue_overloaded'')
           else enqueue now new_id spec db))"

subsection \<open>Frozen inputs\<close>

definition same_scope :: "json option \<Rightarrow> json option \<Rightarrow> bool" where
  "same_scope a b = (case (a, b) of (None, None) \<Rightarrow> True | (Some x, Some y) \<Rightarrow> same_json x y | _ \<Rightarrow> False)"

definition freeze_document_input ::
    "string \<Rightarrow> string \<Rightarrow> json option \<Rightarrow> string option \<Rightarrow> 'a doc_db_scheme \<Rightarrow> 'a doc_db_scheme result" where
  "freeze_document_input work_id doc_id scope request_id db =
     (case get_by dw_work_id work_id (work_inputs db) of
        Some previous \<Rightarrow>
          if dw_doc_id previous \<noteq> doc_id \<or> \<not> same_scope (dw_scope previous) scope \<or> dw_scope_request_id previous \<noteq> request_id
          then Inl (ProcessingScopeConflict ''processing_scope_conflict'') else Inr db
      | None \<Rightarrow> Inr (db\<lparr>work_inputs := work_inputs db @
          [\<lparr>dw_work_id = work_id, dw_doc_id = doc_id, dw_scope = scope, dw_scope_request_id = request_id\<rparr>]\<rparr>))"

definition derived_scope_output_fields :: "string list" where
  "derived_scope_output_fields = [''signature_cache'', ''chunk_counts'', ''archived_chunk_sources'']"

definition scope_policy :: "json option \<Rightarrow> json option" where
  "scope_policy scope =
     (case scope of None \<Rightarrow> None
      | Some (JObj kvs) \<Rightarrow> Some (JObj (filter (\<lambda>(k, _). k \<notin> set (''vector_space'' # derived_scope_output_fields)) kvs))
      | Some j \<Rightarrow> Some j)"

subsection \<open>An existing original\<close>

text \<open>
  What \<open>enqueue_existing_document\<close> reads from tables of other components: the digest of the
  stored original, the staging checkpoint with its generation and whether chunks are
  missing, the review \<open>(id, state, generation)\<close>, the outcome of \<open>validate_document_scope\<close>.
\<close>

record existing_input =
  ex_original_sha :: "string option"
  ex_staging :: "(string option \<times> bool) option"
  ex_review :: "(string \<times> string \<times> string option) option"
  ex_validate :: "json option \<Rightarrow> string \<Rightarrow> string option \<Rightarrow> unit result"

definition inherited_scope :: "existing_input \<Rightarrow> string \<Rightarrow> string \<Rightarrow> 'a doc_db_scheme \<Rightarrow> json option" where
  "inherited_scope ex doc_id action db =
     (let checkpoint = (if action = ''resume'' then ex_staging ex else None);
          source = (case checkpoint of Some (g, _) \<Rightarrow> g
            | None \<Rightarrow> (case get_by gs_doc_id doc_id (gen_states db) of None \<Rightarrow> None | Some s \<Rightarrow> gs_active s))
      in case source of None \<Rightarrow> None
         | Some g \<Rightarrow> (case get_by gn_id g (generations db) of None \<Rightarrow> None | Some gen \<Rightarrow> gn_scope gen))"

definition review_blocks :: "existing_input \<Rightarrow> json option \<Rightarrow> string option \<Rightarrow> bool" where
  "review_blocks ex scope scope_request_id \<longleftrightarrow>
     (case ex_review ex of None \<Rightarrow> False
      | Some (rid, state, gen) \<Rightarrow>
          (state \<in> set [''draft'', ''awaiting_similar'', ''validating''] \<or> state = ''submitted'' \<and> gen = None) \<and>
          (scope_request_id = None \<or> (case scope of None \<Rightarrow> True | Some s \<Rightarrow> json_get ''review_id'' s \<noteq> Some (JStr rid))))"

definition action_allowed :: "existing_input \<Rightarrow> string \<Rightarrow> string \<Rightarrow> unit result" where
  "action_allowed ex action status =
     (if action = ''resume'' then
        (let partial = (case ex_staging ex of None \<Rightarrow> False | Some (_, p) \<Rightarrow> p)
         in if status = ''done'' \<and> \<not> partial then Inl (DomainError ''partial_regeneration_unavailable'')
            else if status \<notin> set [''paused'', ''failed'', ''error'', ''done''] then Inl (ConflictError ''already_processing'')
            else Inr ())
      else if action = ''regenerate'' \<and> status \<in> set [''uploaded'', ''queued'', ''processing'', ''splitting'', ''indexing'']
      then Inl (ConflictError ''already_processing'') else Inr ())"

definition set_document :: "document \<Rightarrow> 'a doc_db_scheme \<Rightarrow> 'a doc_db_scheme" where
  "set_document d db = db\<lparr>documents := put_by dc_id d (documents db)\<rparr>"

definition enqueue_existing_document ::
    "(string \<Rightarrow> string) \<Rightarrow> time \<Rightarrow> string \<Rightarrow> string \<Rightarrow> pipeline_settings \<Rightarrow> existing_input \<Rightarrow> string \<Rightarrow> string \<Rightarrow> bool
     \<Rightarrow> json option \<Rightarrow> string option \<Rightarrow> string option \<Rightarrow> ('a doc_db_scheme \<Rightarrow> 'a doc_db_scheme result) \<Rightarrow> 'a doc_db_scheme
     \<Rightarrow> (string \<times> 'a doc_db_scheme) result" where
  "enqueue_existing_document sha256 now new_id random_id st ex doc_id action is_admin scope0 scope_request_id request_id capture db =
     (if \<not> lock_document_write doc_id False db then Inl (NotFoundError ''document_not_found'')
      else case (get_by dc_id doc_id (documents db), ex_original_sha ex) of
        (Some doc, Some sha) \<Rightarrow>
          let scope = (case scope0 of None \<Rightarrow> inherited_scope ex doc_id action db | Some s \<Rightarrow> Some s)
          in if review_blocks ex scope scope_request_id then Inl (ConflictError ''processing_scope_review_required'')
          else bindr (ex_validate ex scope sha scope_request_id) (\<lambda>_.
            bindr (action_allowed ex action (dc_status doc)) (\<lambda>_.
              let request = (case scope_request_id of Some r \<Rightarrow> r | None \<Rightarrow>
                    (case request_id of Some r \<Rightarrow> r | None \<Rightarrow> if action = ''process'' then ''upload'' else random_id))
              in bindr (enqueue_document sha256 now new_id st doc_id action sha request is_admin db) (\<lambda>(work_id, db1).
                case get_by wi_id work_id (work_items db1) of None \<Rightarrow> Inl KeyError
                | Some row \<Rightarrow>
                    if \<not> pending_status row then Inr (work_id, db1)
                    else bindr (freeze_document_input work_id doc_id scope scope_request_id db1) (\<lambda>db2.
                      bindr (capture db2) (\<lambda>db3.
                        Inr (work_id, set_document (doc\<lparr>dc_status := ''queued'', dc_error := None, dc_error_code := None\<rparr>) db3))))))
      | _ \<Rightarrow> Inl (NotFoundError ''file_not_found''))"

subsection \<open>Live intents\<close>

definition live_intent :: "string \<Rightarrow> work_item \<Rightarrow> bool" where
  "live_intent d r \<longleftrightarrow> pending_intent d r \<and> \<not> wi_cancel_requested r"

definition one_live_intent :: "work_item list \<Rightarrow> bool" where
  "one_live_intent rows \<longleftrightarrow> (\<forall>d. \<forall>r \<in> set rows. \<forall>s \<in> set rows. live_intent d r \<and> live_intent d s \<longrightarrow> wi_id r = wi_id s)"

definition pending_ids :: "work_item list \<Rightarrow> string set" where
  "pending_ids rows = wi_id ` {r \<in> set rows. wi_kind r \<in> set document_mutators \<and> pending_status r}"

lemma pending_total_card: "unique_key wi_id rows \<Longrightarrow> pending_total rows = int (card (pending_ids rows))"
proof -
  let ?p = "\<lambda>r. wi_kind r \<in> set document_mutators \<and> pending_status r"
  assume "unique_key wi_id rows"
  then have "distinct (map wi_id (filter ?p rows))" by (simp add: unique_key_def distinct_map_filter)
  then have "card (set (map wi_id (filter ?p rows))) = length (filter ?p rows)"
    using distinct_card [of "map wi_id (filter ?p rows)"] by simp
  moreover have "set (map wi_id (filter ?p rows)) = pending_ids rows" by (auto simp: pending_ids_def)
  ultimately show ?thesis by (simp add: pending_total_def)
qed

lemma finite_pending_ids [simp]: "finite (pending_ids rows)"
  by (simp add: pending_ids_def)

lemma put_item_ids [simp]: "map wi_id (work_items (put_item row db)) = map wi_id (work_items db)"
  by (simp add: put_item_def)

lemma work_exec_ids:
  assumes inv: "work_inv db" and "\<And>i s. op \<noteq> Enqueue i s"
  shows "map wi_id (work_items (work_exec sha now op db)) = map wi_id (work_items db)"
proof -
  note keep = committed_inv [where P = "\<lambda>d. map wi_id (work_items d) = map wi_id (work_items db)", OF refl]
  show ?thesis
  proof (cases op)
    case (Enqueue i s)
    with assms(2) [of i s] show ?thesis by simp
  next
    case (Claim unlocked mop settings owner supported lease)
    have "map wi_id (work_items db') = map wi_id (work_items db)"
      if "claim_work unlocked mop settings now owner supported lease db = Inr (res, db')" for res db'
      using that inv by (cases rule: claim_workE) (auto simp: swept_ids simp del: map_eq_conv)
    with Claim show ?thesis by (auto intro!: keep simp del: map_eq_conv)
  next
    case (Renew_Work work lease)
    then show ?thesis by (auto intro!: keep elim!: renewE simp del: map_eq_conv)
  next
    case (Finish work outcome code)
    then show ?thesis by (auto intro!: keep elim!: finishE simp del: map_eq_conv)
  next
    case (Cancel now' i)
    then show ?thesis by (auto simp: cancel_work_def Let_def simp del: map_eq_conv split: option.splits)
  next
    case (Retry work code delay n)
    then show ?thesis by (auto intro!: keep elim!: retryE simp del: map_eq_conv)
  next
    case (Defer work delay)
    then show ?thesis by (auto intro!: keep elim!: deferE simp del: map_eq_conv)
  next
    case (Maint m)
    then show ?thesis by simp
  qed
qed

lemma pending_iff: "pending_status r \<longleftrightarrow> \<not> terminal (wi_status r)"
  by (cases "wi_status r") (auto simp: pending_status_def terminal_def)

text \<open>A row that is pending or live after an operation was so before it.\<close>

lemma work_exec_origin:
  assumes inv: "work_inv db" and ne: "\<And>i s. op \<noteq> Enqueue i s" and r': "r' \<in> set (work_items (work_exec sha now op db))"
  obtains r where "r \<in> set (work_items db)" "wi_id r = wi_id r'" "wi_kind r = wi_kind r'" "wi_doc_id r = wi_doc_id r'"
    "pending_status r' \<Longrightarrow> pending_status r" "wi_cancel_requested r \<Longrightarrow> wi_cancel_requested r'"
proof -
  have "wi_id r' \<in> set (map wi_id (work_items (work_exec sha now op db)))" using r' by simp
  then have "wi_id r' \<in> wi_id ` set (work_items db)" unfolding work_exec_ids [OF inv ne] by simp
  then obtain r where g: "get_by wi_id (wi_id r') (work_items db) = Some r"
    by (cases "get_by wi_id (wi_id r') (work_items db)") (auto simp: get_by_None)
  obtain r2 where r2: "get_by wi_id (wi_id r') (work_items (work_exec sha now op db)) = Some r2" "row_step r r2"
    using work_exec_rows [OF inv, of sha now op] g by (auto simp: steps_rows_def)
  have "work_inv (work_exec sha now op db)"
    using inv ne by (intro work_exec_inv) (cases op, auto)
  then have "get_by wi_id (wi_id r') (work_items (work_exec sha now op db)) = Some r'"
    using r' by (simp add: work_inv_def get_by_self)
  then have "r2 = r'" using r2(1) by simp
  with r2(2) have step: "row_step r r'" by simp
  show ?thesis
    by (rule that [of r]) (use step get_by_SomeD [OF g] in \<open>auto simp: row_step_def same_item_def item_spec_def pending_iff\<close>)
qed

definition ordinary_op :: "work_op \<Rightarrow> bool" where
  "ordinary_op op = (case op of Enqueue i s \<Rightarrow> ws_kind s \<notin> set document_mutators | _ \<Rightarrow> True)"

lemma ordinary_exec:
  assumes inv: "work_inv db" and o: "ordinary_op op" and one: "one_live_intent (work_items db)"
  shows "one_live_intent (work_items (work_exec sha now op db)) \<and>
    pending_ids (work_items (work_exec sha now op db)) \<subseteq> pending_ids (work_items db)"
proof (cases "\<exists>i s. op = Enqueue i s")
  case True
  then obtain i s where op: "op = Enqueue i s" and k: "ws_kind s \<notin> set document_mutators" using o by (auto simp: ordinary_op_def)
  show ?thesis
  proof (cases "enqueue now i s db")
    case (Inl e)
    with op one show ?thesis by simp
  next
    case (Inr x)
    obtain j db' where e: "enqueue now i s db = Inr (j, db')" using Inr by (cases x) auto
    from e show ?thesis
    proof (cases rule: enqueueE)
      case old
      with op e one show ?thesis by simp
    next
      case new
      have "\<not> live_intent d (new_item i now s)" "wi_kind (new_item i now s) \<notin> set document_mutators" for d
        using k by (simp_all add: live_intent_def pending_intent_def new_item_def)
      with new op e one show ?thesis by (auto simp: one_live_intent_def pending_ids_def)
    qed
  qed
next
  case False
  then have ne: "op \<noteq> Enqueue i s" for i s by blast
  have origin: "\<exists>r0 \<in> set (work_items db). wi_id r0 = wi_id r \<and> (\<forall>d. live_intent d r \<longrightarrow> live_intent d r0) \<and>
      (wi_kind r \<in> set document_mutators \<and> pending_status r \<longrightarrow> wi_kind r0 \<in> set document_mutators \<and> pending_status r0)"
    if r: "r \<in> set (work_items (work_exec sha now op db))" for r
    by (rule work_exec_origin [OF inv ne r]) (auto simp: live_intent_def pending_intent_def)
  have "one_live_intent (work_items (work_exec sha now op db))"
    unfolding one_live_intent_def
  proof (intro allI ballI impI)
    fix d r s assume r: "r \<in> set (work_items (work_exec sha now op db))" and s: "s \<in> set (work_items (work_exec sha now op db))"
      and l: "live_intent d r \<and> live_intent d s"
    from origin [OF r] l obtain r0 where "r0 \<in> set (work_items db)" "wi_id r0 = wi_id r" "live_intent d r0" by blast
    moreover from origin [OF s] l obtain s0 where "s0 \<in> set (work_items db)" "wi_id s0 = wi_id s" "live_intent d s0" by blast
    ultimately show "wi_id r = wi_id s" using one by (metis one_live_intent_def)
  qed
  moreover have "pending_ids (work_items (work_exec sha now op db)) \<subseteq> pending_ids (work_items db)"
  proof
    fix i assume "i \<in> pending_ids (work_items (work_exec sha now op db))"
    then obtain r where r: "r \<in> set (work_items (work_exec sha now op db))" "i = wi_id r"
      "wi_kind r \<in> set document_mutators \<and> pending_status r" by (auto simp: pending_ids_def)
    from origin [OF r(1)] r(3) obtain r0 where "r0 \<in> set (work_items db)" "wi_id r0 = wi_id r"
      "wi_kind r0 \<in> set document_mutators \<and> pending_status r0" by blast
    with r(2) show "i \<in> pending_ids (work_items db)" unfolding pending_ids_def by (intro image_eqI [of _ _ r0]) simp_all
  qed
  ultimately show ?thesis by simp
qed

lemma enqueue_document_cases:
  assumes "enqueue_document sha now new_id st d action h rid adm db = Inr (i, db')"
  obtains (again) "db' = db"
  | (admitted) spec where "ws_kind spec = ''document''" "ws_doc_id spec = Some d" "spec_ok spec"
      "db' = db\<lparr>work_items := work_items db @ [new_item new_id now spec]\<rparr>" "i = new_id"
      "get_by wi_dedupe_key (ws_dedupe_key spec) (work_items db) = None"
      "\<And>r. r \<in> set (work_items db) \<Longrightarrow> \<not> live_intent d r" "pending_total (work_items db) < caller_limit st adm"
proof -
  let ?key = "document_request_key sha d action rid"
  define spec where "spec = \<lparr>ws_kind = ''document'', ws_version = 1,
    ws_payload = JObj [(''doc_id'', JStr d), (''action'', JStr action), (''source_file_hash'', JStr h)], ws_dedupe_key = ?key, ws_doc_id = Some d\<rparr>"
  from assms have e: "enqueue now new_id spec db = Inr (i, db')"
    and c: "get_by wi_dedupe_key ?key (work_items db) \<noteq> None \<or>
      (\<forall>r \<in> set (work_items db). \<not> live_intent d r) \<and> pending_total (work_items db) < caller_limit st adm"
    by (auto simp: enqueue_document_def Let_def spec_def list_ex_iff live_intent_def dest!: make_spec_Inr split: if_splits)
  from e show ?thesis
  proof (cases rule: enqueueE)
    case old
    then show ?thesis by (intro again)
  next
    case new
    with c show ?thesis by (intro admitted [of spec]) (auto simp: spec_def)
  qed
qed

lemma enqueue_document_bounds:
  assumes e: "enqueue_document sha now new_id st d action h rid adm db = Inr (i, db')"
    and inv: "work_inv db" and new: "get_by wi_id new_id (work_items db) = None" and one: "one_live_intent (work_items db)"
  shows "work_inv db' \<and> one_live_intent (work_items db') \<and>
    pending_total (work_items db') \<le> max (pending_total (work_items db)) (caller_limit st adm)"
  using e
proof (cases rule: enqueue_document_cases)
  case again
  with inv one show ?thesis by simp
next
  case (admitted spec)
  let ?n = "new_item new_id now spec"
  have "work_inv db'"
    using inv new admitted(3,4,6) by (simp add: work_inv_def unique_key_append new_item_wf)
  moreover have "one_live_intent (work_items db')"
    unfolding one_live_intent_def
  proof (intro allI ballI impI)
    fix e r s assume r: "r \<in> set (work_items db')" and s: "s \<in> set (work_items db')" and l: "live_intent e r \<and> live_intent e s"
    have "e = d" if "live_intent e ?n" using that admitted(2) by (simp add: live_intent_def pending_intent_def new_item_def)
    then show "wi_id r = wi_id s"
      using r s l one admitted(4,7) by (auto simp: one_live_intent_def)
  qed
  moreover have "pending_total (work_items db') \<le> pending_total (work_items db) + 1"
    by (simp add: pending_total_def admitted(4))
  ultimately show ?thesis using admitted(8) by simp
qed

subsection \<open>Runs\<close>

datatype adm_op =
    Admit string string string string string bool
  | Ordinary work_op

fun adm_exec :: "(string \<Rightarrow> string) \<Rightarrow> pipeline_settings \<Rightarrow> time \<Rightarrow> adm_op \<Rightarrow> 'a doc_db_scheme \<Rightarrow> 'a doc_db_scheme" where
  "adm_exec sha st now (Admit new_id d action h rid adm) db =
     committed db (map_sum id snd (enqueue_document sha now new_id st d action h rid adm db))"
| "adm_exec sha st now (Ordinary op) db = work_exec sha now op db"

fun adm_ok :: "adm_op \<Rightarrow> 'a doc_db_scheme \<Rightarrow> bool" where
  "adm_ok (Admit new_id d action h rid adm) db = (get_by wi_id new_id (work_items db) = None)"
| "adm_ok (Ordinary op) db = (ordinary_op op \<and> fresh_work op db)"

inductive adm_step :: "(string \<Rightarrow> string) \<Rightarrow> pipeline_settings \<Rightarrow> 'a doc_db_scheme \<Rightarrow> 'a doc_db_scheme \<Rightarrow> bool" for sha st where
  "adm_ok op db \<Longrightarrow> adm_step sha st db (adm_exec sha st now op db)"

fun adm_run :: "(string \<Rightarrow> string) \<Rightarrow> pipeline_settings \<Rightarrow> (time \<times> adm_op) list \<Rightarrow> 'a doc_db_scheme \<Rightarrow> 'a doc_db_scheme" where
  "adm_run sha st [] db = db"
| "adm_run sha st ((now, op) # ops) db = adm_run sha st ops (adm_exec sha st now op db)"

fun adm_run_ok :: "(string \<Rightarrow> string) \<Rightarrow> pipeline_settings \<Rightarrow> (time \<times> adm_op) list \<Rightarrow> 'a doc_db_scheme \<Rightarrow> bool" where
  "adm_run_ok sha st [] db \<longleftrightarrow> True"
| "adm_run_ok sha st ((now, op) # ops) db \<longleftrightarrow> adm_ok op db \<and> adm_run_ok sha st ops (adm_exec sha st now op db)"

lemma adm_run_steps: "adm_run_ok sha st ops db \<Longrightarrow> (adm_step sha st)\<^sup>*\<^sup>* db (adm_run sha st ops db)"
  by (induction sha st ops db rule: adm_run.induct)
    (auto intro: converse_rtranclp_into_rtranclp adm_step.intros)

definition admission_bound :: "pipeline_settings \<Rightarrow> int" where
  "admission_bound st = max (caller_limit st False) (caller_limit st True)"

definition adm_inv :: "pipeline_settings \<Rightarrow> 'a doc_db_scheme \<Rightarrow> bool" where
  "adm_inv st db \<longleftrightarrow> work_inv db \<and> one_live_intent (work_items db) \<and> pending_total (work_items db) \<le> max 0 (admission_bound st)"

lemma adm_exec_inv:
  assumes ok: "adm_ok op db" and inv: "adm_inv st db"
  shows "adm_inv st (adm_exec sha st now op db)"
proof (cases op)
  case (Admit new_id d action h rid adm)
  have "adm_inv st db'" if "enqueue_document sha now new_id st d action h rid adm db = Inr (i, db')" for i db'
    using enqueue_document_bounds [OF that] ok inv Admit by (cases adm) (auto simp: adm_inv_def admission_bound_def)
  with Admit inv show ?thesis by (auto intro!: committed_inv [where P = "adm_inv st", OF inv])
next
  case (Ordinary w)
  have w: "work_inv db" and o: "one_live_intent (work_items db)" using inv by (simp_all add: adm_inv_def)
  have ord: "ordinary_op w" "fresh_work w db" using ok Ordinary by simp_all
  let ?db = "work_exec sha now w db"
  have w': "work_inv ?db" by (rule work_exec_inv [OF ord(2) w])
  note oe = ordinary_exec [OF w ord(1) o, of sha now]
  have "card (pending_ids (work_items ?db)) \<le> card (pending_ids (work_items db))"
    by (rule card_mono [OF finite_pending_ids oe [THEN conjunct2]])
  moreover have "pending_total (work_items ?db) = int (card (pending_ids (work_items ?db)))"
    "pending_total (work_items db) = int (card (pending_ids (work_items db)))"
    using w w' by (auto intro!: pending_total_card simp: work_inv_def)
  ultimately have "pending_total (work_items ?db) \<le> pending_total (work_items db)" by simp
  with inv have "adm_inv st ?db" unfolding adm_inv_def using w' oe by simp
  with Ordinary show ?thesis by simp
qed

interpretation adm: invariant_system "adm_step sha st" "adm_inv st"
  by unfold_locales (auto elim!: adm_step.cases intro: adm_exec_inv)

subsection \<open>Properties\<close>

definition example_pipeline :: pipeline_settings where
  "example_pipeline = \<lparr>pl_max_workers = 1, pl_max_pending = 1, pl_admin_max_pending = 2, pl_max_pending_documents = 10\<rparr>"

lemma example_docs_adm [simp]: "adm_inv example_pipeline example_docs"
  by (simp add: adm_inv_def example_docs_def example_work_def example_maint_def work_inv_def unique_key_def
      one_live_intent_def pending_total_def work_db.defs maint_db.defs coord_db.defs)

definition example_hash :: string where
  "example_hash = replicate 64 (CHR ''a'')"

definition admission_ops :: "(time \<times> adm_op) list" where
  "admission_ops =
     [(0, Admit ''w1'' ''d1'' ''process'' example_hash ''r1'' False),
      (1, Admit ''w2'' ''d1'' ''regenerate'' example_hash ''r2'' False),
      (2, Ordinary (Cancel 2 ''w1'')),
      (3, Admit ''w3'' ''d1'' ''regenerate'' example_hash ''r2'' False)]"



end
