(* ===== verification/Trash.thy ===== *)
theory Trash
  imports Admission
begin

text \<open>
  Deleting and restoring documents: \<open>soft_delete\<close>, \<open>restore\<close> and \<open>delete_if_deleted\<close> of \<open>registry.py\<close>, the durable
  clean-up of \<open>work/trash.py\<close> and the restoration of \<open>services/trash.py\<close>. The tables of a document that
  other components own are not in this state, the user who deletes is left out, and the text of a
  timestamp (\<open>isoformat\<close>, \<open>fromisoformat\<close>) is an argument. \<open>wall\<close> is the process's clock, with which a
  deletion is stamped, and \<open>now\<close> the clock of the database, with which it expires.
\<close>

record deleted_generation =
  dg_generation_id :: string
  dg_doc_id :: string
  dg_work_id :: string
  dg_work_fence :: "int option"

record trash_db = doc_db +
  deleted_generations :: "deleted_generation list"

subsection \<open>The registry\<close>

definition retain_generation :: "generation \<Rightarrow> deleted_generation list \<Rightarrow> deleted_generation list" where
  "retain_generation g rows =
     (case gn_work_id g of None \<Rightarrow> rows
      | Some w \<Rightarrow> if get_by dg_generation_id (gn_id g) rows = None
          then rows @ [\<lparr>dg_generation_id = gn_id g, dg_doc_id = gn_doc_id g, dg_work_id = w, dg_work_fence = gn_work_fence g\<rparr>] else rows)"

definition retain_deleted_generations :: "string \<Rightarrow> 'a trash_db_scheme \<Rightarrow> 'a trash_db_scheme" where
  "retain_deleted_generations doc_id db =
     db\<lparr>deleted_generations := fold retain_generation
         (order_by gn_id (filter (\<lambda>g. gn_doc_id g = doc_id \<and> gn_work_id g \<noteq> None) (generations db))) (deleted_generations db)\<rparr>"

definition remove_document :: "string \<Rightarrow> 'a trash_db_scheme \<Rightarrow> 'a trash_db_scheme" where
  "remove_document doc_id db =
     db\<lparr>work_inputs := delete_where (\<lambda>w. dw_doc_id w = doc_id) (work_inputs db),
        update_cancelled := filter (\<lambda>d. d \<noteq> doc_id) (update_cancelled db),
        generations := delete_where (\<lambda>g. gn_doc_id g = doc_id) (generations db),
        gen_states := delete_where (\<lambda>s. gs_doc_id s = doc_id) (gen_states db),
        documents := delete_where (\<lambda>d. dc_id d = doc_id) (documents db)\<rparr>"

definition delete_if_deleted :: "time \<Rightarrow> time \<Rightarrow> string \<Rightarrow> gen_ctx \<Rightarrow> 'a trash_db_scheme \<Rightarrow> bool \<times> 'a trash_db_scheme" where
  "delete_if_deleted now now' doc_id c db =
     (if \<not> lock_document_write doc_id True db then (False, db)
      else case get_by dc_id doc_id (documents db) of
        None \<Rightarrow> (False, db)
      | Some d \<Rightarrow> if dc_deleted_at d = None then (False, db)
          else (True, remove_document doc_id (retain_deleted_generations doc_id
                 (snd (invalidate_document_intents now now' doc_id c db)))))"

text \<open>With durable documents a change of visibility is projected by two rows of work.\<close>

definition defer_document_projections ::
    "bool \<Rightarrow> time \<Rightarrow> string \<Rightarrow> string \<Rightarrow> string \<Rightarrow> string \<Rightarrow> 'a work_db_scheme \<Rightarrow> (bool \<times> 'a work_db_scheme) result" where
  "defer_document_projections durable now identity id1 id2 doc_id db =
     (if \<not> durable then Inr (False, db)
      else bindr (make_spec ''document_visibility'' 1 (JObj [(''doc_id'', JStr doc_id)])
                (''visibility/'' @ doc_id @ ''/'' @ identity) None) (\<lambda>visibility.
        bindr (enqueue now id1 visibility db) (\<lambda>(_, db1).
        bindr (make_spec ''duplicate_refresh'' 1 (JObj [(''doc_id'', JStr doc_id), (''previous_ids'', JArr [])])
                (''duplicate-state/'' @ doc_id @ ''/'' @ identity) None) (\<lambda>refresh.
        bindr (enqueue now id2 refresh db1) (\<lambda>(_, db2). Inr (True, db2))))))"

record deletion =
  dl_wall :: time
  dl_now' :: time
  dl_durable :: bool
  dl_identity :: string
  dl_work_ids :: "string \<times> string"

definition processing_statuses :: "string list" where
  "processing_statuses = [''uploaded'', ''queued'', ''processing'', ''splitting'', ''indexing'']"

definition soft_delete :: "time \<Rightarrow> deletion \<Rightarrow> string \<Rightarrow> gen_ctx \<Rightarrow> 'a doc_db_scheme \<Rightarrow> (bool \<times> 'a doc_db_scheme) result" where
  "soft_delete now del doc_id c db =
     (case invalidate_document_intents now (dl_now' del) doc_id c db of (invalidated, db1) \<Rightarrow>
        if \<not> lock_document_write doc_id True db1 then Inr (False, db1)
        else case get_by dc_id doc_id (documents db1) of
          None \<Rightarrow> Inr (False, db1)
        | Some d \<Rightarrow>
            let d1 = (if invalidated \<and> dc_status d \<in> set processing_statuses
                      then d\<lparr>dc_status := ''paused'', dc_error := None, dc_error_code := None\<rparr> else d);
                db2 = set_document (d1\<lparr>dc_deleted_at := Some (dl_wall del)\<rparr>) db1
            in bindr (defer_document_projections (dl_durable del) now (dl_identity del) (fst (dl_work_ids del)) (snd (dl_work_ids del)) doc_id db2)
                 (\<lambda>(_, db3). Inr (True, db3)))"

text \<open>\<open>tags\<close> is the outcome of \<open>ensure_assigned_tags\<close>, \<open>same_tags\<close> whether the tags are the same after the lock.\<close>

definition restore_row ::
    "time \<Rightarrow> deletion \<Rightarrow> unit result \<Rightarrow> bool \<Rightarrow> string \<Rightarrow> 'a doc_db_scheme \<Rightarrow> (bool \<times> 'a doc_db_scheme) result" where
  "restore_row now del tags same_tags doc_id db =
     bindr tags (\<lambda>_.
       if \<not> lock_document_write doc_id True db then Inr (False, db)
       else case get_by dc_id doc_id (documents db) of
         None \<Rightarrow> Inr (False, db)
       | Some d \<Rightarrow>
           if \<not> same_tags then Inl (ReferenceError ''reference_write_busy'' 503)
           else bindr (defer_document_projections (dl_durable del) now (dl_identity del) (fst (dl_work_ids del)) (snd (dl_work_ids del)) doc_id
                  (set_document (d\<lparr>dc_deleted_at := None\<rparr>) db))
                (\<lambda>(_, db3). Inr (True, db3)))"

definition expired :: "time \<Rightarrow> document \<Rightarrow> bool" where
  "expired cutoff d = (case dc_deleted_at d of None \<Rightarrow> False | Some t \<Rightarrow> t \<le> cutoff)"

definition purge_expired :: "time \<Rightarrow> 'a doc_db_scheme \<Rightarrow> string list" where
  "purge_expired cutoff db = map dc_id (filter (expired cutoff) (documents db))"

subsection \<open>Durable clean-up\<close>

record trash_settings =
  ts_purge_enabled :: bool
  ts_retention_days :: int

definition days :: "int \<Rightarrow> time" where
  "days n = seconds (n * 86400)"

definition fresh_session :: session_info where
  "fresh_session = \<lparr>si_bound = None, si_busy = False, si_ack = None, si_txn = 1\<rparr>"

definition coordinator_session :: "time \<Rightarrow> work_claim \<Rightarrow> 'a work_db_scheme \<Rightarrow> session_info result" where
  "coordinator_session now work db = bind_session now (Some work) work fresh_session db"

fun payload_fields :: "json \<Rightarrow> string list" where
  "payload_fields (JObj kvs) = map fst kvs"
| "payload_fields _ = []"

definition has_fields :: "string list \<Rightarrow> json \<Rightarrow> bool" where
  "has_fields names payload \<longleftrightarrow> set (payload_fields payload) = set names"

definition payload_doc :: "json \<Rightarrow> string result" where
  "payload_doc payload = (case get_str ''doc_id'' payload of None \<Rightarrow> Inl ValueError
     | Some d \<Rightarrow> if valid_doc_id d then Inr d else Inl ValueError)"

text \<open>\<open>fromiso\<close> gives the timestamp and whether it has a time zone.\<close>

definition purge_document ::
    "(string \<Rightarrow> (time \<times> bool) result) \<Rightarrow> trash_settings \<Rightarrow> time \<Rightarrow> time \<Rightarrow> string \<Rightarrow> gen_ctx \<Rightarrow> work_claim \<Rightarrow> 'a trash_db_scheme
     \<Rightarrow> 'a trash_db_scheme result" where
  "purge_document fromiso st now now' new_id c work db =
     (let payload = ws_payload (wc_spec work) in
      if \<not> has_fields [''doc_id'', ''deleted_at''] payload then Inl ValueError
      else case get_str ''deleted_at'' payload of None \<Rightarrow> Inl ValueError
      | Some text \<Rightarrow>
          bindr (payload_doc payload) (\<lambda>doc_id.
          bindr (fromiso text) (\<lambda>(expected, aware).
          if \<not> aware then Inl ValueError
          else if \<not> ts_purge_enabled st then Inr db
          else bindr (coordinator_session now work db) (\<lambda>_.
            if \<not> lock_document_write doc_id True db then Inr db
            else case get_by dc_id doc_id (documents db) of None \<Rightarrow> Inr db
            | Some d \<Rightarrow>
                if dc_deleted_at d \<noteq> Some expected \<or> now - days (ts_retention_days st) < expected then Inr db
                else case delete_if_deleted now now' doc_id c db of
                  (False, db1) \<Rightarrow> Inr db1
                | (True, db1) \<Rightarrow>
                    bindr (make_spec ''trash_cleanup'' 1 (JObj [(''doc_id'', JStr doc_id)]) (''trash-cleanup/'' @ wc_work_id work) None) (\<lambda>spec.
                    bindr (enqueue now new_id spec db1) (\<lambda>(_, db2). Inr db2))))))"

text \<open>
  The clean-up of a removed document's bytes: what the handler does outside the database, and how it
  ends. \<open>vectors\<close> is the outcome of the vector store, an error code on failure.
\<close>

datatype byte_effect = Delete_Vectors string | Delete_Files string

datatype cleanup_end = Cleanup_Done | Cleanup_Transient | Cleanup_Failed string

definition cleanup_document_bytes ::
    "time \<Rightarrow> string option \<Rightarrow> work_claim \<Rightarrow> 'a doc_db_scheme \<Rightarrow> (byte_effect list \<times> cleanup_end) result" where
  "cleanup_document_bytes now vectors work db =
     (if \<not> has_fields [''doc_id''] (ws_payload (wc_spec work)) then Inl ValueError
      else bindr (payload_doc (ws_payload (wc_spec work))) (\<lambda>doc_id.
        bindr (coordinator_session now work db) (\<lambda>_.
          if get_by dc_id doc_id (documents db) \<noteq> None then Inr ([], Cleanup_Done)
          else case vectors of
            Some code \<Rightarrow> Inr ([Delete_Vectors doc_id],
              if code \<in> {''dependency_unavailable'', ''timeout'', ''rate_limited''} then Cleanup_Transient else Cleanup_Failed code)
          | None \<Rightarrow> Inr ([Delete_Vectors doc_id, Delete_Files doc_id], Cleanup_Done))))"

definition pending_purge :: "string \<Rightarrow> work_item \<Rightarrow> bool" where
  "pending_purge doc_id r \<longleftrightarrow> wi_kind r = ''trash_purge'' \<and> wi_doc_id r = Some doc_id \<and> pending_status r"

text \<open>\<open>new_id\<close> gives the id of the row for each document.\<close>

fun enqueue_purges :: "(time \<Rightarrow> string) \<Rightarrow> time \<Rightarrow> (string \<Rightarrow> string) \<Rightarrow> work_claim \<Rightarrow> document list \<Rightarrow> 'a doc_db_scheme \<Rightarrow> 'a doc_db_scheme result" where
  "enqueue_purges iso_text now new_id work [] db = Inr db"
| "enqueue_purges iso_text now new_id work (d # ds) db =
     (if list_ex (pending_purge (dc_id d)) (work_items db) then enqueue_purges iso_text now new_id work ds db
      else case dc_deleted_at d of None \<Rightarrow> Inl TypeError
      | Some t \<Rightarrow>
          bindr (make_spec ''trash_purge'' 1 (JObj [(''doc_id'', JStr (dc_id d)), (''deleted_at'', JStr (iso_text t))])
              (''trash-purge/'' @ dc_id d @ ''/'' @ wc_work_id work) (Some (dc_id d))) (\<lambda>spec.
          bindr (enqueue now (new_id (dc_id d)) spec db) (\<lambda>(_, db1). enqueue_purges iso_text now new_id work ds db1)))"

definition sweep_page :: "string \<Rightarrow> time \<Rightarrow> 'a doc_db_scheme \<Rightarrow> document list" where
  "sweep_page cursor cutoff db = take 100 (order_by dc_id (filter (\<lambda>d. cursor < dc_id d \<and> expired cutoff d) (documents db)))"

definition sweep_trash ::
    "(string \<Rightarrow> string) \<Rightarrow> (time \<Rightarrow> string) \<Rightarrow> trash_settings \<Rightarrow> time \<Rightarrow> (string \<Rightarrow> string) \<Rightarrow> work_claim \<Rightarrow> 'a doc_db_scheme
     \<Rightarrow> (int option \<times> 'a doc_db_scheme) result" where
  "sweep_trash sha256 iso_text st now new_id work db =
     (if payload_fields (ws_payload (wc_spec work)) \<noteq> [] then Inl ValueError
      else if \<not> ts_purge_enabled st then Inr (None, db)
      else bindr (coordinator_session now work db) (\<lambda>info.
        bindr (load_progress sha256 now (Some work) work 1 info db) (\<lambda>state.
        bindr (case json_get ''last_id'' state of None \<Rightarrow> Inr [] | Some (JStr s) \<Rightarrow> if 64 < length s then Inl ValueError else Inr s
               | Some _ \<Rightarrow> Inl ValueError) (\<lambda>cursor.
        let page = sweep_page cursor (now - days (ts_retention_days st)) db in
        bindr (enqueue_purges iso_text now new_id work page db) (\<lambda>db1.
        bindr (if page = [] then Inr db1
               else bindr (save_progress sha256 now (Some work) work 1 (JObj [(''last_id'', JStr (dc_id (last page)))]) info db1)
                 (\<lambda>(_, db2). Inr db2)) (\<lambda>db2.
        Inr (if length page = 100 then Some 1 else None, db2)))))))"

subsection \<open>Restoring\<close>

text \<open>
  \<open>duplicates\<close> is what the search for active duplicates finds for a document (of level 2 or 3), and \<open>restore\<close>
  the transaction that restores one. A document restored in bulk whose transaction raises ends the
  loop; what was restored before stays.
\<close>

datatype restore_outcome = Restore_Not_Found | Restore_Not_In_Trash | Restore_Conflict "string list" | Restored

definition restore_document ::
    "(string \<Rightarrow> string list) \<Rightarrow> (string \<Rightarrow> 'a doc_db_scheme \<Rightarrow> (bool \<times> 'a doc_db_scheme) result) \<Rightarrow> bool \<Rightarrow> string \<Rightarrow> 'a doc_db_scheme
     \<Rightarrow> (restore_outcome \<times> 'a doc_db_scheme) result" where
  "restore_document duplicates restore force doc_id db =
     (case get_by dc_id doc_id (documents db) of
        None \<Rightarrow> Inr (Restore_Not_Found, db)
      | Some d \<Rightarrow>
          if dc_deleted_at d = None then Inr (Restore_Not_In_Trash, db)
          else if \<not> force \<and> duplicates doc_id \<noteq> [] then Inr (Restore_Conflict (duplicates doc_id), db)
          else bindr (restore doc_id db) (\<lambda>(_, db1). Inr (Restored, db1)))"

record bulk_restored =
  br_restored :: "string list"
  br_skipped :: "string list"
  br_conflicts :: "(string \<times> string list) list"

fun bulk_restore ::
    "(string \<Rightarrow> string list) \<Rightarrow> (string \<Rightarrow> 'a doc_db_scheme \<Rightarrow> (bool \<times> 'a doc_db_scheme) result) \<Rightarrow> string list \<Rightarrow> bulk_restored \<Rightarrow> 'a doc_db_scheme
     \<Rightarrow> bulk_restored result \<times> 'a doc_db_scheme" where
  "bulk_restore duplicates restore [] acc db = (Inr acc, db)"
| "bulk_restore duplicates restore (i # ids) acc db =
     (if (case get_by dc_id i (documents db) of None \<Rightarrow> True | Some d \<Rightarrow> dc_deleted_at d = None)
      then bulk_restore duplicates restore ids (acc\<lparr>br_skipped := br_skipped acc @ [i]\<rparr>) db
      else if duplicates i \<noteq> []
      then bulk_restore duplicates restore ids (acc\<lparr>br_conflicts := br_conflicts acc @ [(i, duplicates i)]\<rparr>) db
      else case restore i db of
        Inl e \<Rightarrow> (Inl e, db)
      | Inr (_, db1) \<Rightarrow> bulk_restore duplicates restore ids (acc\<lparr>br_restored := br_restored acc @ [i]\<rparr>) db1)"

subsection \<open>Runs\<close>

datatype trash_op =
    Soft_Delete deletion string gen_ctx
  | Restore deletion "unit result" bool string
  | Purge "string \<Rightarrow> (time \<times> bool) result" trash_settings time string gen_ctx work_claim
  | Sweep "time \<Rightarrow> string" trash_settings "string \<Rightarrow> string" work_claim
  | Ledger work_op

fun trash_exec :: "(string \<Rightarrow> string) \<Rightarrow> time \<Rightarrow> trash_op \<Rightarrow> 'a trash_db_scheme \<Rightarrow> 'a trash_db_scheme" where
  "trash_exec sha now (Soft_Delete del doc_id c) db = committed db (map_sum id snd (soft_delete now del doc_id c db))"
| "trash_exec sha now (Restore del tags same_tags doc_id) db = committed db (map_sum id snd (restore_row now del tags same_tags doc_id db))"
| "trash_exec sha now (Purge fromiso st now' new_id c work) db = committed db (purge_document fromiso st now now' new_id c work db)"
| "trash_exec sha now (Sweep iso_text st new_id work) db = committed db (map_sum id snd (sweep_trash sha iso_text st now new_id work db))"
| "trash_exec sha now (Ledger op) db = work_exec sha now op db"

fun trash_run :: "(string \<Rightarrow> string) \<Rightarrow> (time \<times> trash_op) list \<Rightarrow> 'a trash_db_scheme \<Rightarrow> 'a trash_db_scheme" where
  "trash_run sha [] db = db"
| "trash_run sha ((now, op) # ops) db = trash_run sha ops (trash_exec sha now op db)"

text \<open>The log: when the last deletion that succeeded and was not restored stamped the document.\<close>

definition succeeded :: "(bool \<times> 'b) result \<Rightarrow> bool" where
  "succeeded res = (case res of Inr (b, _) \<Rightarrow> b | Inl _ \<Rightarrow> False)"

definition stamp_after :: "string \<Rightarrow> time \<Rightarrow> trash_op \<Rightarrow> 'a trash_db_scheme \<Rightarrow> time option \<Rightarrow> time option" where
  "stamp_after i now op db t =
     (case op of
        Soft_Delete del doc_id c \<Rightarrow> if doc_id = i \<and> succeeded (soft_delete now del doc_id c db) then Some (dl_wall del) else t
      | Restore del tags same_tags doc_id \<Rightarrow> if doc_id = i \<and> succeeded (restore_row now del tags same_tags doc_id db) then None else t
      | _ \<Rightarrow> t)"

fun trashed_since :: "(string \<Rightarrow> string) \<Rightarrow> string \<Rightarrow> (time \<times> trash_op) list \<Rightarrow> 'a trash_db_scheme \<Rightarrow> time option \<Rightarrow> time option" where
  "trashed_since sha i [] db t = t"
| "trashed_since sha i ((now, op) # ops) db t = trashed_since sha i ops (trash_exec sha now op db) (stamp_after i now op db t)"

subsection \<open>What an operation does to a document\<close>

abbreviation doc_of :: "string \<Rightarrow> 'a doc_db_scheme \<Rightarrow> document option" where
  "doc_of i db \<equiv> get_by dc_id i (documents db)"

lemma docs_of_more: "work_db.more db' = work_db.more db \<Longrightarrow> documents db' = documents db" for db :: "'a doc_db_scheme"
  by (cases db, cases db') simp

lemma cancel_work_docs [simp]: "documents (snd (cancel_work now now' i db)) = documents db" for db :: "'a doc_db_scheme"
  by (auto simp: cancel_work_def put_item_def Let_def split: option.split)

lemma invalidate_docs [simp]: "documents (snd (invalidate_document_intents now now' i c db)) = documents db" for db :: "'a doc_db_scheme"
proof -
  have "documents (snd (foldl (\<lambda>(done, d) r. case cancel_work now now' (wi_id r) d of (ok, d') \<Rightarrow> (ok \<or> done, d')) (b, db) rs)) = documents db"
    for rs b and db :: "'a doc_db_scheme"
    by (induction rs arbitrary: b db) (auto split: prod.split, metis cancel_work_docs snd_conv)
  then show ?thesis by (simp add: invalidate_document_intents_def)
qed

lemma enqueue_docs: "enqueue now i s db = Inr (j, db') \<Longrightarrow> documents db' = documents db" for db :: "'a doc_db_scheme"
  by (erule enqueueE) simp_all

lemma defer_docs: "defer_document_projections durable now identity id1 id2 doc_id db = Inr (b, db') \<Longrightarrow> documents db' = documents db"
  for db :: "'a doc_db_scheme"
  by (auto simp: defer_document_projections_def dest!: enqueue_docs split: if_splits)

lemma delete_where_get_by: "get_by key k (delete_where (\<lambda>r. key r = j) rows) = (if k = j then None else get_by key k rows)"
  by (induction rows) auto

lemma delete_if_deleted_docs:
  "documents (snd (delete_if_deleted now now' doc_id c db)) =
    (if fst (delete_if_deleted now now' doc_id c db) then delete_where (\<lambda>d. dc_id d = doc_id) (documents db) else documents db)"
  by (auto simp: delete_if_deleted_def remove_document_def retain_deleted_generations_def split: option.split)

lemma set_document_get_by:
  "doc_of (dc_id d) db = Some e \<Longrightarrow> doc_of i (set_document d db) = (if dc_id d = i then Some d else doc_of i db)"
  by (auto simp: set_document_def get_by_put_by)

lemma soft_delete_doc:
  assumes "soft_delete now del j c db = Inr (b, db')" "doc_of i db = Some d"
  shows "\<exists>d'. doc_of i db' = Some d' \<and> dc_deleted_at d' = (if i = j \<and> b then Some (dl_wall del) else dc_deleted_at d)"
proof -
  obtain inv1 db1 where iv: "invalidate_document_intents now (dl_now' del) j c db = (inv1, db1)"
    by (cases "invalidate_document_intents now (dl_now' del) j c db")
  have docs: "documents db1 = documents db" using iv invalidate_docs [of now "dl_now' del" j c db] by simp
  show ?thesis
  proof (cases "doc_of j db")
    case None
    then show ?thesis using assms iv docs by (auto simp: soft_delete_def lock_document_write_def)
  next
    case (Some e)
    define e' where "e' = (if inv1 \<and> dc_status e \<in> set processing_statuses
                      then e\<lparr>dc_status := ''paused'', dc_error := None, dc_error_code := None\<rparr> else e)"
    have "dc_id e = j" using get_by_key [OF Some] .
    then have id: "dc_id (e'\<lparr>dc_deleted_at := Some (dl_wall del)\<rparr>) = j" by (simp add: e'_def)
    have locked: "lock_document_write j True db1" using Some docs by (simp add: lock_document_write_def)
    then obtain b1 where "defer_document_projections (dl_durable del) now (dl_identity del) (fst (dl_work_ids del)) (snd (dl_work_ids del)) j
        (set_document (e'\<lparr>dc_deleted_at := Some (dl_wall del)\<rparr>) db1) = Inr (b1, db')" and b
      using assms(1) iv docs Some by (auto simp: soft_delete_def Let_def e'_def elim!: bindr_pairE)
    then have "documents db' = documents (set_document (e'\<lparr>dc_deleted_at := Some (dl_wall del)\<rparr>) db1)" using defer_docs by blast
    moreover have "doc_of i (set_document (e'\<lparr>dc_deleted_at := Some (dl_wall del)\<rparr>) db1) =
        (if j = i then Some (e'\<lparr>dc_deleted_at := Some (dl_wall del)\<rparr>) else doc_of i db1)"
      using set_document_get_by [of "e'\<lparr>dc_deleted_at := Some (dl_wall del)\<rparr>" db1 e i] id Some docs by simp
    ultimately show ?thesis using assms(2) docs \<open>b\<close> by auto
  qed
qed

lemma restore_row_doc:
  assumes "restore_row now del tags same_tags j db = Inr (b, db')" "doc_of i db = Some d"
  shows "\<exists>d'. doc_of i db' = Some d' \<and> dc_deleted_at d' = (if i = j \<and> b then None else dc_deleted_at d)"
proof (cases "doc_of j db")
  case None
  then show ?thesis using assms by (auto simp: restore_row_def lock_document_write_def)
next
  case (Some e)
  have "dc_id e = j" using get_by_key [OF Some] .
  moreover have "lock_document_write j True db" using Some by (simp add: lock_document_write_def)
  moreover obtain b1 where "defer_document_projections (dl_durable del) now (dl_identity del) (fst (dl_work_ids del)) (snd (dl_work_ids del)) j
      (set_document (e\<lparr>dc_deleted_at := None\<rparr>) db) = Inr (b1, db')" and b
    using assms(1) Some calculation by (auto simp: restore_row_def split: if_splits elim!: bindr_pairE)
  ultimately show ?thesis
    using defer_docs set_document_get_by [of "e\<lparr>dc_deleted_at := None\<rparr>" db e i] Some assms(2) by fastforce
qed

lemma purge_documentE:
  assumes "purge_document fromiso st now now' new_id c work db = Inr db'"
  obtains (same) "documents db' = documents db"
  | (removed) j e t where "doc_of j db = Some e" "dc_deleted_at e = Some t" "t + days (ts_retention_days st) \<le> now"
      "documents db' = delete_where (\<lambda>d. dc_id d = j) (documents db)"
proof -
  define j where "j = (case payload_doc (ws_payload (wc_spec work)) of Inr j \<Rightarrow> j | Inl _ \<Rightarrow> [])"
  consider "db' = db"
    | "fst (delete_if_deleted now now' j c db) = False" "db' = snd (delete_if_deleted now now' j c db)"
    | e t where "doc_of j db = Some e" "dc_deleted_at e = Some t" "t + days (ts_retention_days st) \<le> now"
        "fst (delete_if_deleted now now' j c db)" "documents db' = documents (snd (delete_if_deleted now now' j c db))"
    using assms
    by (auto simp: purge_document_def Let_def j_def elim!: bindrE bindr_pairE dest!: enqueue_docs
        split: option.splits if_splits prod.splits bool.splits)
  then show thesis using same removed delete_if_deleted_docs [of now now' j c db] by cases auto
qed

lemma purge_keeps:
  assumes "purge_document fromiso st now now' new_id c work db = Inr db'" "doc_of i db = Some d"
  shows "doc_of i db' = Some d \<or> doc_of i db' = None \<and> (\<exists>t. dc_deleted_at d = Some t \<and> t + days (ts_retention_days st) \<le> now)"
  using assms(1) by (cases rule: purge_documentE) (use assms(2) in \<open>auto simp: delete_where_get_by\<close>)

lemma enqueue_purges_docs: "enqueue_purges iso_text now new_id work ds db = Inr db' \<Longrightarrow> documents db' = documents db"
  for db :: "'a doc_db_scheme"
  by (induction iso_text now new_id work ds db arbitrary: db' rule: enqueue_purges.induct)
    (auto split: if_splits option.splits elim!: bindrE bindr_pairE dest!: enqueue_docs)

lemma save_progress_docs: "save_progress sha now a work v j info db = Inr (info', db') \<Longrightarrow> documents db' = documents db"
  for db :: "'a doc_db_scheme"
  by (auto simp: save_progress_def split: if_splits elim!: bindr_pairE)

lemma sweep_docs: "sweep_trash sha iso_text st now new_id work db = Inr (r, db') \<Longrightarrow> documents db' = documents db"
  for db :: "'a doc_db_scheme"
  by (auto simp: sweep_trash_def Let_def split: if_splits elim!: bindrE bindr_pairE dest!: enqueue_purges_docs save_progress_docs)

lemma doc_after:
  assumes "doc_of i db = Some d"
  shows "(\<exists>d'. doc_of i (trash_exec sha now op db) = Some d' \<and> dc_deleted_at d' = stamp_after i now op db (dc_deleted_at d)) \<or>
    doc_of i (trash_exec sha now op db) = None \<and>
      (\<exists>fromiso st now' new_id c work t. op = Purge fromiso st now' new_id c work \<and> dc_deleted_at d = Some t \<and> t + days (ts_retention_days st) \<le> now)"
proof (cases op)
  case (Soft_Delete del j c)
  then show ?thesis using assms soft_delete_doc [of now del j c db _ _ i d]
    by (cases "soft_delete now del j c db") (auto simp: stamp_after_def succeeded_def committed_def)
next
  case (Restore del tags same_tags j)
  then show ?thesis using assms restore_row_doc [of now del tags same_tags j db _ _ i d]
    by (cases "restore_row now del tags same_tags j db") (auto simp: stamp_after_def succeeded_def committed_def)
next
  case (Purge fromiso st now' new_id c work)
  then show ?thesis using assms purge_keeps [of fromiso st now now' new_id c work db _ i d]
    by (cases "purge_document fromiso st now now' new_id c work db") (auto simp: stamp_after_def committed_def)
next
  case (Sweep iso_text st new_id work)
  then show ?thesis using assms sweep_docs [of sha iso_text st now new_id work db]
    by (cases "sweep_trash sha iso_text st now new_id work db") (auto simp: stamp_after_def committed_def)
next
  case (Ledger op')
  then show ?thesis using assms docs_of_more [OF work_exec_more [of sha now op' db]] by (simp add: stamp_after_def)
qed

abbreviation document_ids :: "'a doc_db_scheme \<Rightarrow> string list" where
  "document_ids db \<equiv> map dc_id (documents db)"

lemma set_document_ids: "document_ids (set_document d db) = document_ids db"
  by (simp add: set_document_def)

lemma soft_delete_ids: "soft_delete now del j c db = Inr (b, db') \<Longrightarrow> document_ids db' = document_ids db"
proof -
  obtain inv1 db1 where iv: "invalidate_document_intents now (dl_now' del) j c db = (inv1, db1)"
    by (cases "invalidate_document_intents now (dl_now' del) j c db")
  have "documents db1 = documents db" using iv invalidate_docs [of now "dl_now' del" j c db] by simp
  then show "soft_delete now del j c db = Inr (b, db') \<Longrightarrow> document_ids db' = document_ids db"
    using iv
    by (auto simp: set_document_ids soft_delete_def Let_def split: if_splits option.splits elim!: bindr_pairE dest!: defer_docs)
qed

lemma restore_row_ids: "restore_row now del tags same_tags j db = Inr (b, db') \<Longrightarrow> document_ids db' = document_ids db"
  by (auto simp: set_document_ids restore_row_def split: if_splits option.splits elim!: bindrE bindr_pairE dest!: defer_docs)

lemma purge_ids: "purge_document fromiso st now now' new_id c work db = Inr db' \<Longrightarrow> set (document_ids db') \<subseteq> set (document_ids db)"
  by (erule purge_documentE) auto

lemma no_doc_after:
  assumes "doc_of i db = None"
  shows "doc_of i (trash_exec sha now op db) = None"
proof -
  have "set (document_ids (trash_exec sha now op db)) \<subseteq> set (document_ids db)"
  proof (cases op)
    case (Soft_Delete del j c)
    then show ?thesis using soft_delete_ids [of now del j c db]
      by (cases "soft_delete now del j c db") (auto simp: committed_def simp del: set_map)
  next
    case (Restore del tags same_tags j)
    then show ?thesis using restore_row_ids [of now del tags same_tags j db]
      by (cases "restore_row now del tags same_tags j db") (auto simp: committed_def simp del: set_map)
  next
    case (Purge fromiso st now' new_id c work)
    then show ?thesis using purge_ids [of fromiso st now now' new_id c work db]
      by (cases "purge_document fromiso st now now' new_id c work db") (auto simp: committed_def)
  next
    case (Sweep iso_text st new_id work)
    then show ?thesis using sweep_docs [of sha iso_text st now new_id work db]
      by (cases "sweep_trash sha iso_text st now new_id work db") (auto simp: committed_def)
  next
    case (Ledger op')
    then show ?thesis using docs_of_more [OF work_exec_more [of sha now op' db]] by simp
  qed
  then show ?thesis using assms by (auto simp: get_by_None)
qed

lemma no_doc_later: "doc_of i db = None \<Longrightarrow> doc_of i (trash_run sha ops db) = None"
  by (induction ops arbitrary: db) (simp_all add: no_doc_after split_paired_all)

text \<open>A purge in \<open>ops\<close> when the document had been in the trash for the retention of its settings.\<close>

definition purged_after_retention ::
    "(string \<Rightarrow> string) \<Rightarrow> string \<Rightarrow> (time \<times> trash_op) list \<Rightarrow> 'a trash_db_scheme \<Rightarrow> time option \<Rightarrow> bool" where
  "purged_after_retention sha i ops db t0 \<longleftrightarrow>
     (\<exists>before now fromiso st now' new_id c work later_ops t.
        ops = before @ (now, Purge fromiso st now' new_id c work) # later_ops \<and>
        trashed_since sha i before db t0 = Some t \<and> t + days (ts_retention_days st) \<le> now)"

lemma purged_here:
  "t + days (ts_retention_days st) \<le> now \<Longrightarrow> purged_after_retention sha i ((now, Purge fromiso st now' new_id c work) # ops) db (Some t)"
  unfolding purged_after_retention_def by (rule exI [of _ "[]"]) auto

lemma purged_later:
  assumes "purged_after_retention sha i ops (trash_exec sha now op db) (stamp_after i now op db t0)"
  shows "purged_after_retention sha i ((now, op) # ops) db t0"
proof -
  from assms obtain before n fromiso st now' new_id c work later_ops t where
    "ops = before @ (n, Purge fromiso st now' new_id c work) # later_ops"
    "trashed_since sha i before (trash_exec sha now op db) (stamp_after i now op db t0) = Some t" "t + days (ts_retention_days st) \<le> n"
    unfolding purged_after_retention_def by blast
  then have "(now, op) # ops = ((now, op) # before) @ (n, Purge fromiso st now' new_id c work) # later_ops \<and>
    trashed_since sha i ((now, op) # before) db t0 = Some t \<and> t + days (ts_retention_days st) \<le> n" by simp
  then show ?thesis unfolding purged_after_retention_def by blast
qed


text \<open>Bytes are only touched when the row of their document is gone.\<close>

lemma cleanup_spares_documents:
  assumes "cleanup_document_bytes now vectors work db = Inr (effects, result)" "effects \<noteq> []"
  shows "\<exists>i. payload_doc (ws_payload (wc_spec work)) = Inr i \<and> doc_of i db = None \<and> set effects \<subseteq> {Delete_Vectors i, Delete_Files i}"
  using assms by (auto simp: cleanup_document_bytes_def split: if_splits option.splits elim!: bindrE)

definition example_trash :: trash_db where
  "example_trash = doc_db.extend example_docs \<lparr>deleted_generations = []\<rparr>"

definition example_deletion :: "time \<Rightarrow> deletion" where
  "example_deletion t = \<lparr>dl_wall = t, dl_now' = t, dl_durable = False, dl_identity = ''x'', dl_work_ids = (''v'', ''r'')\<rparr>"

definition example_fromiso :: "string \<Rightarrow> (time \<times> bool) result" where
  "example_fromiso text = (if text = ''seven'' then Inr (7, True) else Inl ValueError)"

definition example_trash_settings :: trash_settings where
  "example_trash_settings = \<lparr>ts_purge_enabled = True, ts_retention_days = 1\<rparr>"

definition example_purge_spec :: work_spec where
  "example_purge_spec = \<lparr>ws_kind = ''trash_purge'', ws_version = 1,
     ws_payload = JObj [(''doc_id'', JStr ''d1''), (''deleted_at'', JStr ''seven'')], ws_dedupe_key = ''k'', ws_doc_id = Some ''d1''\<rparr>"

definition example_purge_claim :: work_claim where
  "example_purge_claim = \<lparr>wc_work_id = ''p1'', wc_owner_id = ''a'', wc_fence = 1, wc_lease_until = days 1 + seconds 120,
     wc_spec = example_purge_spec, wc_epoch = 4\<rparr>"

definition trash_ops :: "(time \<times> trash_op) list" where
  "trash_ops =
     [(0, Soft_Delete (example_deletion 0) ''d1'' example_ctx), (1, Restore (example_deletion 1) (Inr ()) True ''d1''),
      (7, Soft_Delete (example_deletion 7) ''d1'' example_ctx), (8, Ledger (Enqueue ''p1'' example_purge_spec)),
      (days 1, Ledger (Claim (\<lambda>_. True) None example_settings ''a'' [(''trash_purge'', [1])] 120)),
      (days 1 + 7, Purge example_fromiso example_trash_settings (days 1 + 7) ''c1'' example_ctx example_purge_claim)]"


text \<open>
  Without durable documents the purge lists the expired documents first and removes each in a transaction that asks
  only whether it is in the trash: one that was restored and deleted again in between is removed at once.
\<close>

lemma listed_document_removed_early:
  "purge_expired 0 (trash_run id (take 1 trash_ops) example_trash) = [''d1''] \<and>
   trashed_since id ''d1'' (take 3 trash_ops) example_trash None = Some 7 \<and>
   fst (delete_if_deleted 8 8 ''d1'' example_ctx (trash_run id (take 3 trash_ops) example_trash))"
  by code_simp

end
