(* ===== verification/Bulk_Jobs.thy ===== *)
theory Bulk_Jobs
  imports Trash
begin

text \<open>
  Bulk operations of administrators (\<open>job_queue.py\<close>, \<open>bulk_generation.py\<close> and \<open>work/bulk.py\<close>): a job is
  submitted, approved by a second administrator when it is large, split into one row of work per document and
  finished from their receipts. The diagnostic context and the address in \<open>params\<close> are left out, and so are audit rows.
  Ids, clocks and what the pipeline knows of an original are arguments.
\<close>

subsection \<open>Jobs\<close>

datatype job_status = Job_Queued | Job_Running | Job_Awaiting_Approval | Job_Completed | Job_Failed | Job_Cancelled

record job_result =
  jr_processed :: nat
  jr_total :: nat
  jr_results :: "string list"
  jr_errors :: "(string \<times> string) list"
  jr_skipped :: "(string \<times> string) list"
  jr_error :: "string option"
  jr_error_code :: "string option"

record job =
  jb_id :: int
  jb_type :: string
  jb_status :: job_status
  jb_created_by_id :: "string option"
  jb_created_by :: "string option"
  jb_created_at :: time
  jb_started_at :: "time option"
  jb_finished_at :: "time option"
  jb_approved_by :: "string option"
  jb_approved_at :: "time option"
  jb_doc_ids :: "string list"
  jb_result :: "job_result option"
  jb_error :: "string option"

text \<open>
  Besides the table of jobs, the queue in memory and its worker, which exist unless documents are durable: the worker
  has read a job, or has documents left of it and the progress of the others.
\<close>

datatype worker = Idle | Taken job | Working job "string list" job_result

record job_db = trash_db +
  jobs :: "job list"
  mem_queue :: "int list"
  mem_worker :: worker

record job_actor =
  ja_user_id :: "string option"
  ja_username :: "string option"

record job_settings =
  js_max_pending :: nat
  js_threshold_delete :: nat
  js_threshold_regenerate :: nat

definition job_types :: "string list" where
  "job_types = [''bulk_delete'', ''bulk_regenerate'', ''bulk_resume'']"

definition bulk_job :: "job \<Rightarrow> bool" where
  "bulk_job j \<longleftrightarrow> jb_type j \<in> set job_types"

definition pending_job :: "job \<Rightarrow> bool" where
  "pending_job j \<longleftrightarrow> jb_status j \<in> {Job_Queued, Job_Running, Job_Awaiting_Approval}"

definition pending_count :: "'a job_db_scheme \<Rightarrow> nat" where
  "pending_count db = length (filter (\<lambda>j. bulk_job j \<and> pending_job j) (jobs db))"

definition reserved_generation_doc_ids :: "'a job_db_scheme \<Rightarrow> string list" where
  "reserved_generation_doc_ids db =
     concat (map jb_doc_ids (filter (\<lambda>j. jb_type j \<in> {''bulk_resume'', ''bulk_regenerate''} \<and> pending_job j) (jobs db)))"

definition put_job :: "job \<Rightarrow> 'a job_db_scheme \<Rightarrow> 'a job_db_scheme" where
  "put_job j db = db\<lparr>jobs := put_by jb_id j (jobs db)\<rparr>"

subsection \<open>Submission, approval, cancellation\<close>

definition bulk_key :: "int \<Rightarrow> string" where
  "bulk_key job_id = ''bulk/'' @ int_text job_id"

definition enqueue_bulk_work :: "time \<Rightarrow> string \<Rightarrow> int \<Rightarrow> 'a work_db_scheme \<Rightarrow> (string \<times> 'a work_db_scheme) result" where
  "enqueue_bulk_work now new_id job_id db =
     bindr (make_spec ''bulk'' 1 (JObj [(''job_id'', JInt job_id)]) (bulk_key job_id) None) (\<lambda>spec. enqueue now new_id spec db)"

definition needs_approval :: "job_settings \<Rightarrow> string \<Rightarrow> string list \<Rightarrow> bool" where
  "needs_approval st job_type doc_ids \<longleftrightarrow> job_type \<noteq> ''bulk_resume'' \<and>
     (if job_type = ''bulk_delete'' then js_threshold_delete st else js_threshold_regenerate st) \<le> length doc_ids"

definition new_job :: "int \<Rightarrow> time \<Rightarrow> job_settings \<Rightarrow> string \<Rightarrow> string list \<Rightarrow> job_actor \<Rightarrow> job" where
  "new_job i wall st job_type doc_ids user =
     \<lparr>jb_id = i, jb_type = job_type,
      jb_status = if needs_approval st job_type doc_ids then Job_Awaiting_Approval else Job_Queued,
      jb_created_by_id = ja_user_id user, jb_created_by = ja_username user, jb_created_at = wall, jb_started_at = None,
      jb_finished_at = None, jb_approved_by = None, jb_approved_at = None, jb_doc_ids = doc_ids, jb_result = None, jb_error = None\<rparr>"

text \<open>
  \<open>earlier\<close> is the pending count that is read before the transaction. The result says whether the job goes to
  the queue in memory. \<open>clocks\<close> are the clocks of the process and of the database.
\<close>

definition submit ::
    "job_settings \<Rightarrow> bool \<Rightarrow> nat \<Rightarrow> time \<times> time \<Rightarrow> int \<Rightarrow> string \<Rightarrow> string \<Rightarrow> string list \<Rightarrow> job_actor \<Rightarrow> 'a job_db_scheme
     \<Rightarrow> (bool \<times> 'a job_db_scheme) result" where
  "submit st durable earlier clocks job_id new_id job_type doc_ids user db =
     (if job_type \<notin> set job_types then Inl (DomainError ''unknown_job_type'')
      else if doc_ids = [] then Inl (DomainError ''empty_document_list'')
      else if js_max_pending st \<le> earlier then Inl QueueOverloadedError
      else if durable \<and> js_max_pending st \<le> pending_count db then Inl QueueOverloadedError
      else if job_type = ''bulk_resume'' \<and> set doc_ids \<inter> set (reserved_generation_doc_ids db) \<noteq> {} then Inl (ConflictError ''already_processing'')
      else if get_by jb_id job_id (jobs db) \<noteq> None then Inl IntegrityError
      else let db1 = db\<lparr>jobs := jobs db @ [new_job job_id (fst clocks) st job_type doc_ids user]\<rparr>;
               approval = needs_approval st job_type doc_ids
           in bindr (if durable \<and> \<not> approval then bindr (enqueue_bulk_work (snd clocks) new_id job_id db1) (\<lambda>(_, db2). Inr db2) else Inr db1)
                (\<lambda>db2. Inr (\<not> approval \<and> \<not> durable, db2)))"

definition approve ::
    "bool \<Rightarrow> time \<times> time \<Rightarrow> string \<Rightarrow> int \<Rightarrow> job_actor \<Rightarrow> 'a job_db_scheme \<Rightarrow> (bool \<times> 'a job_db_scheme) result" where
  "approve durable clocks new_id job_id approver db =
     (case get_by jb_id job_id (jobs db) of
        None \<Rightarrow> Inl JobNotFoundError
      | Some j \<Rightarrow>
          if \<not> bulk_job j then Inl (ConflictError ''job_not_awaiting_approval'')
          else if jb_status j \<noteq> Job_Awaiting_Approval then Inl (ConflictError ''job_not_awaiting_approval'')
          else if jb_created_by_id j \<noteq> None \<and> jb_created_by_id j = ja_user_id approver then Inl SelfApprovalError
          else let who = (case ja_username approver of Some u \<Rightarrow> if u = [] then ja_user_id approver else Some u | None \<Rightarrow> ja_user_id approver);
                   db1 = put_job (j\<lparr>jb_status := Job_Queued, jb_approved_by := who, jb_approved_at := Some (fst clocks)\<rparr>) db
               in bindr (if durable then bindr (enqueue_bulk_work (snd clocks) new_id job_id db1) (\<lambda>(_, db2). Inr db2) else Inr db1)
                    (\<lambda>db2. Inr (\<not> durable, db2)))"

definition cancel_job :: "bool \<Rightarrow> time \<times> time \<times> time \<Rightarrow> int \<Rightarrow> 'a job_db_scheme \<Rightarrow> 'a job_db_scheme result" where
  "cancel_job durable clocks job_id db =
     (case get_by jb_id job_id (jobs db) of
        None \<Rightarrow> Inl JobNotFoundError
      | Some j \<Rightarrow>
          if \<not> bulk_job j then Inl (ConflictError ''job_not_cancellable'')
          else if \<not> (jb_status j = Job_Queued \<or> jb_status j = Job_Awaiting_Approval) then Inl (ConflictError ''job_not_cancellable'')
          else let db1 = put_job (j\<lparr>jb_status := Job_Cancelled, jb_finished_at := Some (fst clocks)\<rparr>) db
               in Inr (if durable then
                    (case get_by wi_dedupe_key (bulk_key job_id) (work_items db) of None \<Rightarrow> db1
                     | Some w \<Rightarrow> snd (cancel_work (fst (snd clocks)) (snd (snd clocks)) (wi_id w) db1))
                  else db1))"

subsection \<open>Durable execution\<close>

definition item_key :: "int \<Rightarrow> nat \<Rightarrow> string" where
  "item_key job_id index = ''bulk-item/'' @ int_text job_id @ ''/'' @ int_text (int index)"

definition get_int :: "string \<Rightarrow> json \<Rightarrow> int option" where
  "get_int k j = (case json_get k j of Some (JInt i) \<Rightarrow> Some i | _ \<Rightarrow> None)"

definition locked_job :: "json \<Rightarrow> string list \<Rightarrow> 'a job_db_scheme \<Rightarrow> job result" where
  "locked_job payload names db =
     (if \<not> has_fields names payload then Inl ValueError
      else case get_int ''job_id'' payload of None \<Rightarrow> Inl ValueError
      | Some i \<Rightarrow> if i \<le> 0 then Inl ValueError
          else case get_by jb_id i (jobs db) of None \<Rightarrow> Inl ValueError
          | Some j \<Rightarrow> if \<not> bulk_job j \<or> \<not> (jb_status j = Job_Queued \<or> jb_status j = Job_Running) then Inl ValueError
              else if jb_doc_ids j = [] then Inl ValueError else Inr j)"

definition item_position :: "json \<Rightarrow> job \<Rightarrow> (string \<times> nat) result" where
  "item_position payload j =
     (case (get_int ''index'' payload, get_str ''doc_id'' payload) of
        (Some index, Some doc_id) \<Rightarrow>
          if index < 0 \<or> int (length (jb_doc_ids j)) \<le> index \<or> jb_doc_ids j ! nat index \<noteq> doc_id then Inl ValueError
          else Inr (doc_id, nat index)
      | _ \<Rightarrow> Inl ValueError)"

fun enqueue_items :: "time \<Rightarrow> (nat \<Rightarrow> string) \<Rightarrow> int \<Rightarrow> nat \<Rightarrow> string list \<Rightarrow> 'a work_db_scheme \<Rightarrow> 'a work_db_scheme result" where
  "enqueue_items now new_id job_id index [] db = Inr db"
| "enqueue_items now new_id job_id index (doc_id # ids) db =
     (if \<not> valid_doc_id doc_id then Inl ValueError
      else bindr (make_spec ''bulk_item'' 1 (JObj [(''job_id'', JInt job_id), (''doc_id'', JStr doc_id), (''index'', JInt (int index))])
               (item_key job_id index) None) (\<lambda>spec.
        bindr (enqueue now (new_id index) spec db) (\<lambda>(_, db1). enqueue_items now new_id job_id (index + 1) ids db1)))"

definition empty_result :: "nat \<Rightarrow> job_result" where
  "empty_result n = \<lparr>jr_processed = 0, jr_total = n, jr_results = [], jr_errors = [], jr_skipped = [], jr_error = None, jr_error_code = None\<rparr>"

definition run_bulk :: "time \<times> time \<Rightarrow> (nat \<Rightarrow> string) \<Rightarrow> work_claim \<Rightarrow> 'a job_db_scheme \<Rightarrow> 'a job_db_scheme result" where
  "run_bulk clocks new_id work db =
     (let (wall, now) = clocks in
      bindr (coordinator_session now work db) (\<lambda>info.
      bindr (locked_job (ws_payload (wc_spec work)) [''job_id''] db) (\<lambda>j.
      bindr (enqueue_items now new_id (jb_id j) 0 (jb_doc_ids j) db) (\<lambda>db1.
      let j1 = j\<lparr>jb_status := Job_Running, jb_started_at := (case jb_started_at j of None \<Rightarrow> Some wall | Some t \<Rightarrow> Some t),
                 jb_result := Some (empty_result (length (jb_doc_ids j)))\<rparr>
      in bindr (finish_in_session now (Some work) work Succeeded None info (put_job j1 db1)) (\<lambda>(_, db2). Inr db2)))))"

text \<open>The receipt of one item: None while it is pending or missing.\<close>

datatype receipt = Receipt_Ok | Receipt_Skipped string | Receipt_Error string

definition item_rows :: "int \<Rightarrow> work_item list \<Rightarrow> work_item list" where
  "item_rows job_id rows = filter (\<lambda>r. wi_kind r = ''bulk_item'' \<and> take (length (''bulk-item/'' @ int_text job_id @ ''/'')) (wi_dedupe_key r) = ''bulk-item/'' @ int_text job_id @ ''/'') rows"

definition receipt_of :: "work_item option \<Rightarrow> receipt option" where
  "receipt_of row =
     (case row of None \<Rightarrow> None
      | Some r \<Rightarrow> if wi_status r = Queued \<or> wi_status r = Running then None
          else if wi_status r = Succeeded then Some (case wi_error_code r of None \<Rightarrow> Receipt_Ok | Some c \<Rightarrow> if c = [] then Receipt_Ok else Receipt_Skipped c)
          else Some (Receipt_Error (case wi_error_code r of None \<Rightarrow> ''internal_error'' | Some c \<Rightarrow> if c = [] then ''internal_error'' else c)))"

fun collect_receipts :: "int \<Rightarrow> work_item list \<Rightarrow> nat \<Rightarrow> string list \<Rightarrow> job_result \<Rightarrow> job_result" where
  "collect_receipts job_id rows index [] acc = acc"
| "collect_receipts job_id rows index (doc_id # ids) acc =
     collect_receipts job_id rows (index + 1) ids
       (case receipt_of (get_by wi_dedupe_key (item_key job_id index) rows) of
          None \<Rightarrow> acc
        | Some Receipt_Ok \<Rightarrow> acc\<lparr>jr_results := jr_results acc @ [doc_id]\<rparr>
        | Some (Receipt_Skipped c) \<Rightarrow> acc\<lparr>jr_skipped := jr_skipped acc @ [(doc_id, c)]\<rparr>
        | Some (Receipt_Error c) \<Rightarrow> acc\<lparr>jr_errors := jr_errors acc @ [(doc_id, c)]\<rparr>)"

definition reconcile_job :: "time \<Rightarrow> job \<Rightarrow> 'a job_db_scheme \<Rightarrow> 'a job_db_scheme" where
  "reconcile_job wall j db =
     (let ids = jb_doc_ids j;
          r = collect_receipts (jb_id j) (item_rows (jb_id j) (work_items db)) 0 ids (empty_result (length ids));
          j1 = j\<lparr>jb_result := Some (r\<lparr>jr_processed := length (jr_results r)\<rparr>)\<rparr>
      in put_job (if length (jr_results r) + length (jr_errors r) + length (jr_skipped r) = length ids
                  then j1\<lparr>jb_status := if jr_errors r \<noteq> [] \<and> jr_results r = [] then Job_Failed else Job_Completed,
                          jb_finished_at := Some wall\<rparr>
                  else j1) db)"

text \<open>\<open>generation_skip_code\<close>; \<open>requires_action\<close> is whether a review of the document waits for the user.\<close>

definition generation_skip_code :: "document option \<Rightarrow> bool \<Rightarrow> bool \<Rightarrow> string option" where
  "generation_skip_code doc requires_action resume =
     (case doc of None \<Rightarrow> Some ''document_not_found''
      | Some d \<Rightarrow>
          if dc_deleted_at d \<noteq> None then Some ''already_in_trash''
          else if dc_status d = ''awaiting_attachments'' \<or> requires_action then Some ''processing_scope_review_required''
          else if dc_status d \<in> set processing_statuses then Some ''already_processing''
          else if resume \<and> dc_status d \<notin> {''paused'', ''failed''} then Some ''not_resumable'' else None)"

fun domain_code :: "exn \<Rightarrow> string option" where
  "domain_code (DomainError c) = Some c"
| "domain_code (ConflictError c) = Some c"
| "domain_code (NotFoundError c) = Some c"
| "domain_code _ = None"

text \<open>
  What an item needs besides the tables: the clocks, the deletion's ids, whether a review requires action and what the
  admission of a document's work (\<open>enqueue_existing_document\<close>) takes; \<open>ie_capture\<close> is the outcome of its capture of
  the original, whose table is not in this state.
\<close>

record item_env =
  ie_wall :: time
  ie_now :: time
  ie_ctx :: gen_ctx
  ie_deletion :: deletion
  ie_requires_action :: "string \<Rightarrow> bool"
  ie_new_id :: string
  ie_pipeline :: pipeline_settings
  ie_existing :: existing_input
  ie_capture :: "unit result"

definition admit_item ::
    "(string \<Rightarrow> string) \<Rightarrow> item_env \<Rightarrow> string \<Rightarrow> string \<Rightarrow> string \<Rightarrow> 'a doc_db_scheme \<Rightarrow> (string \<times> 'a doc_db_scheme) result" where
  "admit_item sha env doc_id action request_id db =
     enqueue_existing_document sha (ie_now env) (ie_new_id env) [] (ie_pipeline env) (ie_existing env) doc_id action True None None
       (Some request_id) (\<lambda>db. bindr (ie_capture env) (\<lambda>_. Inr db)) db"

text \<open>The decision: what the item is acknowledged with, or None when it is deferred.\<close>

definition item_decision ::
    "(string \<Rightarrow> string) \<Rightarrow> item_env \<Rightarrow> job \<Rightarrow> string \<Rightarrow> nat \<Rightarrow> 'a job_db_scheme
     \<Rightarrow> ((string option \<times> string option) option \<times> 'a job_db_scheme) result" where
  "item_decision sha env j doc_id index db =
     (let action = (if jb_type j = ''bulk_resume'' then ''resume'' else ''regenerate'');
          request_id = ''bulk/'' @ int_text (jb_id j) @ ''/'' @ int_text (int index);
          child = get_by wi_dedupe_key (document_request_key sha doc_id action request_id) (work_items db)
      in if jb_type j = ''bulk_delete'' then
           bindr (soft_delete (ie_now env) (ie_deletion env) doc_id (ie_ctx env) db) (\<lambda>(deleted, db1).
             Inr (Some (if deleted then None else Some ''document_not_found'', None), db1))
         else case child of
           None \<Rightarrow>
             (case generation_skip_code (get_by dc_id doc_id (documents db)) (ie_requires_action env doc_id) (action = ''resume'') of
                Some code \<Rightarrow> Inr (Some (None, Some code), db)
              | None \<Rightarrow>
                  (case admit_item sha env doc_id action request_id db of
                     Inr (_, db1) \<Rightarrow> Inr (None, db1)
                   | Inl e \<Rightarrow>
                       (case domain_code e of
                          None \<Rightarrow> Inl e
                        | Some code \<Rightarrow>
                            if code = ''queue_overloaded'' then Inr (None, db)
                            else if code = ''processing_scope_review_required'' then Inr (Some (None, Some code), db)
                            else Inr (Some (Some code, None), db))))
         | Some w \<Rightarrow>
             if wi_status w = Queued \<or> wi_status w = Running then Inr (None, db)
             else Inr (Some (if wi_status w = Succeeded then None
                             else Some (case wi_error_code w of None \<Rightarrow> ''regenerate_failed'' | Some c \<Rightarrow> if c = [] then ''regenerate_failed'' else c),
                             None), db))"

definition run_bulk_item :: "(string \<Rightarrow> string) \<Rightarrow> item_env \<Rightarrow> work_claim \<Rightarrow> 'a job_db_scheme \<Rightarrow> (handler_result \<times> 'a job_db_scheme) result" where
  "run_bulk_item sha env work db =
     bindr (coordinator_session (ie_now env) work db) (\<lambda>info.
     bindr (locked_job (ws_payload (wc_spec work)) [''job_id'', ''doc_id'', ''index''] db) (\<lambda>j.
     bindr (item_position (ws_payload (wc_spec work)) j) (\<lambda>(doc_id, index).
     if \<not> valid_doc_id doc_id then Inl ValueError
     else bindr (item_decision sha env j doc_id index db) (\<lambda>(decision, db1).
       case decision of
         None \<Rightarrow> Inr (Returned_Deferred 1, db1)
       | Some (failed, skip) \<Rightarrow>
           bindr (finish_in_session (ie_now env) (Some work) work (if failed \<noteq> None then Failed else Succeeded)
               (case failed of Some c \<Rightarrow> Some c | None \<Rightarrow> skip) info db1) (\<lambda>(_, db2).
             Inr (Returned, reconcile_job (ie_wall env) j db2))))))"

text \<open>\<open>reconcile_bulk\<close> lists the jobs and repairs each in a transaction of its own.\<close>

definition reconcilable :: "'a job_db_scheme \<Rightarrow> int list" where
  "reconcilable db = take 100 (map jb_id (order_by jb_id (filter (\<lambda>j. bulk_job j \<and> (jb_status j = Job_Queued \<or> jb_status j = Job_Running)) (jobs db))))"

definition repair_job :: "time \<Rightarrow> int \<Rightarrow> 'a job_db_scheme \<Rightarrow> 'a job_db_scheme" where
  "repair_job wall job_id db =
     (case get_by jb_id job_id (jobs db) of None \<Rightarrow> db
      | Some j \<Rightarrow>
          if \<not> (jb_status j = Job_Queued \<or> jb_status j = Job_Running) then db
          else case get_by wi_dedupe_key (bulk_key job_id) (work_items db) of None \<Rightarrow> db
          | Some parent \<Rightarrow>
              if wi_status parent = Failed \<or> wi_status parent = Cancelled then
                put_job (j\<lparr>jb_status := Job_Failed, jb_finished_at := Some wall,
                  jb_result := Some ((empty_result (length (jb_doc_ids j)))\<lparr>jr_error := Some ''interrupted'',
                    jr_error_code := Some (case wi_error_code parent of None \<Rightarrow> ''job_interrupted'' | Some c \<Rightarrow> if c = [] then ''job_interrupted'' else c)\<rparr>)\<rparr>) db
              else if jb_status j = Job_Running then reconcile_job wall j db else db)"

subsection \<open>Execution in memory\<close>

definition set_status :: "int \<Rightarrow> (job \<Rightarrow> job) \<Rightarrow> 'a job_db_scheme \<Rightarrow> 'a job_db_scheme" where
  "set_status job_id f db = (case get_by jb_id job_id (jobs db) of None \<Rightarrow> db | Some j \<Rightarrow> put_job (f j) db)"

definition put_queue :: "int \<Rightarrow> 'a job_db_scheme \<Rightarrow> 'a job_db_scheme" where
  "put_queue job_id db = db\<lparr>mem_queue := mem_queue db @ [job_id]\<rparr>"

text \<open>The worker takes a job and reads it in a transaction of its own; what it read decides whether it runs.\<close>

definition take_job :: "'a job_db_scheme \<Rightarrow> 'a job_db_scheme" where
  "take_job db =
     (case (mem_worker db, mem_queue db) of
        (Idle, i # q) \<Rightarrow>
          (case get_by jb_id i (jobs db) of None \<Rightarrow> db\<lparr>mem_queue := q\<rparr>
           | Some j \<Rightarrow> db\<lparr>mem_queue := q, mem_worker := if bulk_job j \<and> jb_status j = Job_Queued then Taken j else Idle\<rparr>)
      | _ \<Rightarrow> db)"

definition start_job :: "time \<Rightarrow> 'a job_db_scheme \<Rightarrow> 'a job_db_scheme" where
  "start_job wall db =
     (case mem_worker db of
        Taken j \<Rightarrow> set_status (jb_id j) (\<lambda>r. r\<lparr>jb_status := Job_Running, jb_started_at := Some wall\<rparr>)
                    (db\<lparr>mem_worker := Working j (jb_doc_ids j) (empty_result (length (jb_doc_ids j)))\<rparr>)
      | _ \<Rightarrow> db)"

definition add_receipt :: "string \<Rightarrow> receipt \<Rightarrow> job_result \<Rightarrow> job_result" where
  "add_receipt doc_id r acc =
     (case r of
        Receipt_Ok \<Rightarrow> acc\<lparr>jr_results := jr_results acc @ [doc_id], jr_processed := jr_processed acc + 1\<rparr>
      | Receipt_Skipped c \<Rightarrow> acc\<lparr>jr_skipped := jr_skipped acc @ [(doc_id, c)]\<rparr>
      | Receipt_Error c \<Rightarrow> acc\<lparr>jr_errors := jr_errors acc @ [(doc_id, c)]\<rparr>)"

text \<open>One document: \<open>r\<close> is what its deletion or generation in the pipeline came to.\<close>

definition document_done :: "receipt \<Rightarrow> 'a job_db_scheme \<Rightarrow> 'a job_db_scheme" where
  "document_done r db =
     (case mem_worker db of
        Working j (d # ds) acc \<Rightarrow>
          set_status (jb_id j) (\<lambda>row. row\<lparr>jb_status := Job_Running, jb_result := Some (add_receipt d r acc)\<rparr>)
            (db\<lparr>mem_worker := Working j ds (add_receipt d r acc)\<rparr>)
      | _ \<Rightarrow> db)"

definition finish_row :: "time \<Rightarrow> job_result \<Rightarrow> string option \<Rightarrow> job \<Rightarrow> job" where
  "finish_row wall acc error j =
     j\<lparr>jb_status := if error \<notin> {None, Some []} \<or> jr_errors acc \<noteq> [] \<and> jr_results acc = [] then Job_Failed else Job_Completed,
       jb_finished_at := Some wall,
       jb_result := Some (acc\<lparr>jr_processed := length (jr_results acc), jr_total := length (jb_doc_ids j), jr_error := error,
          jr_error_code := (case jb_result j of None \<Rightarrow> None | Some r \<Rightarrow> jr_error_code r)\<rparr>)\<rparr>"

definition finish_job :: "time \<Rightarrow> 'a job_db_scheme \<Rightarrow> 'a job_db_scheme" where
  "finish_job wall db =
     (case mem_worker db of
        Working j [] acc \<Rightarrow> set_status (jb_id j) (finish_row wall acc None) (db\<lparr>mem_worker := Idle\<rparr>)
      | _ \<Rightarrow> db)"

text \<open>An exception outside the documents: \<open>_run\<close> finishes the job with its text and no results.\<close>

definition crash_job :: "time \<Rightarrow> string \<Rightarrow> 'a job_db_scheme \<Rightarrow> 'a job_db_scheme" where
  "crash_job wall error db =
     (case (case mem_worker db of Idle \<Rightarrow> None | Taken j \<Rightarrow> Some j | Working j ds acc \<Rightarrow> Some j) of
        None \<Rightarrow> db
      | Some j \<Rightarrow> set_status (jb_id j) (finish_row wall (empty_result 0) (Some error)) (db\<lparr>mem_worker := Idle\<rparr>))"

text \<open>A process that starts anew: what was queued is queued again, what ran has failed.\<close>

definition interrupted :: "time \<Rightarrow> job \<Rightarrow> job" where
  "interrupted wall j =
     (if bulk_job j \<and> jb_status j = Job_Running
      then j\<lparr>jb_status := Job_Failed, jb_finished_at := Some wall, jb_error := Some ''interrupted'',
             jb_result := Some ((case jb_result j of None \<Rightarrow> empty_result 0 | Some r \<Rightarrow> r)
                \<lparr>jr_error := Some ''interrupted'', jr_error_code := Some ''job_interrupted''\<rparr>)\<rparr>
      else j)"

definition recover_after_restart :: "bool \<Rightarrow> time \<Rightarrow> 'a job_db_scheme \<Rightarrow> 'a job_db_scheme" where
  "recover_after_restart durable wall db0 =
     (let db = db0\<lparr>mem_queue := [], mem_worker := Idle\<rparr> in
      if durable then db
      else db\<lparr>jobs := map (interrupted wall) (jobs db),
              mem_queue := map jb_id (filter (\<lambda>j. bulk_job j \<and> jb_status j = Job_Queued) (jobs db))\<rparr>)"

subsection \<open>Runs\<close>

datatype job_op =
    Submit bool nat "time \<times> time" int string string "string list" job_actor
  | Approve bool "time \<times> time" string int job_actor
  | Cancel_Job bool "time \<times> time \<times> time" int
  | Run_Bulk "time \<times> time" "nat \<Rightarrow> string" work_claim
  | Run_Bulk_Item item_env work_claim
  | Repair time int
  | Take_Job
  | Start_Job time
  | Document_Done receipt
  | Finish_Job time
  | Crash_Job time string
  | Restart bool time
  | Other time trash_op

definition queue_after :: "int \<Rightarrow> bool \<times> 'a job_db_scheme \<Rightarrow> 'a job_db_scheme" where
  "queue_after job_id res = (case res of (put, db) \<Rightarrow> if put then put_queue job_id db else db)"

fun job_exec :: "(string \<Rightarrow> string) \<Rightarrow> job_settings \<Rightarrow> job_op \<Rightarrow> 'a job_db_scheme \<Rightarrow> 'a job_db_scheme" where
  "job_exec sha st (Submit durable earlier clocks i new_id job_type ids user) db =
     committed db (map_sum id (queue_after i) (submit st durable earlier clocks i new_id job_type ids user db))"
| "job_exec sha st (Approve durable clocks new_id i approver) db =
     committed db (map_sum id (queue_after i) (approve durable clocks new_id i approver db))"
| "job_exec sha st (Cancel_Job durable clocks i) db = committed db (cancel_job durable clocks i db)"
| "job_exec sha st (Run_Bulk clocks new_id work) db = committed db (run_bulk clocks new_id work db)"
| "job_exec sha st (Run_Bulk_Item env work) db = committed db (map_sum id snd (run_bulk_item sha env work db))"
| "job_exec sha st (Repair wall i) db = repair_job wall i db"
| "job_exec sha st Take_Job db = take_job db"
| "job_exec sha st (Start_Job wall) db = start_job wall db"
| "job_exec sha st (Document_Done r) db = document_done r db"
| "job_exec sha st (Finish_Job wall) db = finish_job wall db"
| "job_exec sha st (Crash_Job wall error) db = crash_job wall error db"
| "job_exec sha st (Restart durable wall) db = recover_after_restart durable wall db"
| "job_exec sha st (Other now op) db = trash_exec sha now op db"

fun job_run :: "(string \<Rightarrow> string) \<Rightarrow> job_settings \<Rightarrow> job_op list \<Rightarrow> 'a job_db_scheme \<Rightarrow> 'a job_db_scheme" where
  "job_run sha st [] db = db"
| "job_run sha st (op # ops) db = job_run sha st ops (job_exec sha st op db)"

subsection \<open>The invariant of approval\<close>

definition approved_by_other :: "(int \<times> string option) set \<Rightarrow> job \<Rightarrow> bool" where
  "approved_by_other granted j \<longleftrightarrow> (\<exists>user. (jb_id j, user) \<in> granted \<and> (jb_created_by_id j = None \<or> user \<noteq> jb_created_by_id j))"

definition cleared :: "job_settings \<Rightarrow> (int \<times> string option) set \<Rightarrow> job \<Rightarrow> bool" where
  "cleared st granted j \<longleftrightarrow> \<not> needs_approval st (jb_type j) (jb_doc_ids j) \<or> approved_by_other granted j"

definition held :: "job \<Rightarrow> bool" where
  "held j \<longleftrightarrow> jb_status j = Job_Awaiting_Approval \<or> jb_status j = Job_Cancelled"

definition worker_ids :: "worker \<Rightarrow> int set" where
  "worker_ids w = (case w of Idle \<Rightarrow> {} | Taken j \<Rightarrow> {jb_id j} | Working j ds acc \<Rightarrow> {jb_id j})"

definition scheduled :: "'a job_db_scheme \<Rightarrow> int set" where
  "scheduled db = set (mem_queue db) \<union> worker_ids (mem_worker db)"

definition jobs_inv :: "job_settings \<Rightarrow> (int \<times> string option) set \<Rightarrow> 'a job_db_scheme \<Rightarrow> bool" where
  "jobs_inv st granted db \<longleftrightarrow> unique_key jb_id (jobs db) \<and> scheduled db \<subseteq> jb_id ` set (jobs db) \<and>
     (\<forall>j \<in> set (jobs db). cleared st granted j \<or> held j \<and> jb_id j \<notin> scheduled db)"

definition same_order :: "job \<Rightarrow> job \<Rightarrow> bool" where
  "same_order j k \<longleftrightarrow> jb_id j = jb_id k \<and> jb_type j = jb_type k \<and> jb_doc_ids j = jb_doc_ids k \<and> jb_created_by_id j = jb_created_by_id k"

definition job_part :: "'a job_db_scheme \<Rightarrow> job list \<times> int list \<times> worker" where
  "job_part db = (jobs db, mem_queue db, mem_worker db)"

lemma cleared_same_order: "same_order j k \<Longrightarrow> cleared st granted j = cleared st granted k"
  by (simp add: same_order_def cleared_def approved_by_other_def)

lemma jobs_inv_cong: "job_part db' = job_part db \<Longrightarrow> jobs_inv st granted db' = jobs_inv st granted db"
  by (simp add: jobs_inv_def scheduled_def job_part_def)

lemma scheduled_put_job [simp]: "scheduled (put_job j db) = scheduled db"
  by (simp add: scheduled_def put_job_def)

lemma jobs_put_job [simp]: "jobs (put_job j db) = put_by jb_id j (jobs db)"
  by (simp add: put_job_def)

lemma jobs_inv_stored:
  assumes "jobs_inv st granted db" "get_by jb_id i (jobs db) = Some j" "\<not> held j \<or> i \<in> scheduled db"
  shows "cleared st granted j"
  using assms get_by_SomeD [OF assms(2)] by (auto simp: jobs_inv_def)

lemma jobs_inv_put:
  assumes inv: "jobs_inv st granted db" and j: "get_by jb_id i (jobs db) = Some j" and k: "same_order k j"
    and ok: "cleared st granted j \<or> held k"
  shows "jobs_inv st granted (put_job k db)"
proof -
  have id: "jb_id k = i" using k get_by_key [OF j] by (simp add: same_order_def)
  have "cleared st granted r \<or> held r \<and> jb_id r \<notin> scheduled db" if "r \<in> set (put_by jb_id k (jobs db))" for r
    using put_by_member [OF that] inv ok jobs_inv_stored [OF inv j] cleared_same_order [OF k] id
    by (auto simp: jobs_inv_def)
  moreover have "jb_id ` set (put_by jb_id k (jobs db)) = jb_id ` set (jobs db)"
    by (metis list.set_map map_key_put_by)
  ultimately show ?thesis using inv by (simp add: jobs_inv_def)
qed

lemma jobs_inv_schedule:
  assumes "jobs_inv st granted db" "jobs db' = jobs db" "\<And>i. i \<in> scheduled db' - scheduled db \<Longrightarrow> \<exists>j. get_by jb_id i (jobs db) = Some j \<and> cleared st granted j"
  shows "jobs_inv st granted db'"
proof -
  have "i \<in> jb_id ` set (jobs db)" if "i \<in> scheduled db'" for i
    using that assms(1,3) by (cases "i \<in> scheduled db") (auto simp: jobs_inv_def dest!: assms(3) get_by_SomeD)
  moreover have "cleared st granted j" if "j \<in> set (jobs db)" "jb_id j \<in> scheduled db'" for j
    using that assms(1) assms(3) [of "jb_id j"] get_by_self [of jb_id "jobs db" j]
    by (cases "jb_id j \<in> scheduled db") (auto simp: jobs_inv_def)
  ultimately show ?thesis using assms(1,2) by (auto simp: jobs_inv_def)
qed

subsection \<open>What leaves the jobs alone\<close>

lemma job_part_more: "work_db.more db' = work_db.more db \<Longrightarrow> job_part db' = job_part db" for db :: "'a job_db_scheme"
  by (cases db, cases db') (simp add: job_part_def)

lemma job_part_rows [simp]: "job_part (db\<lparr>work_items := rows\<rparr>) = job_part db" for db :: "'a job_db_scheme"
  by (simp add: job_part_def)

lemma job_part_put_item [simp]: "job_part (put_item r db) = job_part db" for db :: "'a job_db_scheme"
  by (simp add: put_item_def)

lemma job_part_set_document [simp]: "job_part (set_document d db) = job_part db" for db :: "'a job_db_scheme"
  by (simp add: set_document_def job_part_def)

lemma job_part_enqueue: "enqueue now i s db = Inr (j, db') \<Longrightarrow> job_part db' = job_part db" for db :: "'a job_db_scheme"
  by (erule enqueueE) simp_all

lemma job_part_cancel [simp]: "job_part (snd (cancel_work now now' i db)) = job_part db" for db :: "'a job_db_scheme"
  by (auto simp: cancel_work_def Let_def split: option.split)

lemma job_part_finish: "finish_in_session now a work outcome code info db = Inr (info', db') \<Longrightarrow> job_part db' = job_part db"
  for db :: "'a job_db_scheme"
  by (auto simp: finish_in_session_def elim!: bindrE finishE)

lemma job_part_bulk_work: "enqueue_bulk_work now new_id i db = Inr (w, db') \<Longrightarrow> job_part db' = job_part db" for db :: "'a job_db_scheme"
  by (auto simp: enqueue_bulk_work_def dest!: job_part_enqueue)

lemma job_part_items: "enqueue_items now new_id i k ids db = Inr db' \<Longrightarrow> job_part db' = job_part db" for db :: "'a job_db_scheme"
  by (induction now new_id i k ids db arbitrary: db' rule: enqueue_items.induct) (auto dest!: job_part_enqueue)

lemma job_part_invalidate [simp]: "job_part (snd (invalidate_document_intents now now' i c db)) = job_part db" for db :: "'a job_db_scheme"
proof -
  have "job_part (snd (foldl (\<lambda>(done, d) r. case cancel_work now now' (wi_id r) d of (ok, d') \<Rightarrow> (ok \<or> done, d')) (b, db) rs)) = job_part db"
    for rs b and db :: "'a job_db_scheme"
    by (induction rs arbitrary: b db) (auto split: prod.split, metis job_part_cancel snd_conv)
  then show ?thesis by (simp add: invalidate_document_intents_def)
qed

lemma job_part_defer: "defer_document_projections durable now identity id1 id2 doc_id db = Inr (b, db') \<Longrightarrow> job_part db' = job_part db"
  for db :: "'a job_db_scheme"
  by (auto simp: defer_document_projections_def dest!: job_part_enqueue split: if_splits)

lemma job_part_soft_delete: "soft_delete now del j c db = Inr (b, db') \<Longrightarrow> job_part db' = job_part db" for db :: "'a job_db_scheme"
  by (auto simp: soft_delete_def Let_def split: if_splits option.splits prod.splits elim!: bindr_pairE dest!: job_part_defer)
    (metis job_part_invalidate snd_conv)+

lemma job_part_restore: "restore_row now del tags same_tags j db = Inr (b, db') \<Longrightarrow> job_part db' = job_part db" for db :: "'a job_db_scheme"
  by (auto simp: restore_row_def split: if_splits option.splits elim!: bindrE bindr_pairE dest!: job_part_defer)

lemma job_part_delete [simp]: "job_part (snd (delete_if_deleted now now' i c db)) = job_part db" for db :: "'a job_db_scheme"
  using job_part_invalidate [of now now' i c db]
  by (auto simp: delete_if_deleted_def remove_document_def retain_deleted_generations_def job_part_def split: option.split)

lemma job_part_deleted: "delete_if_deleted now now' i c db = (b, db') \<Longrightarrow> job_part db' = job_part db" for db :: "'a job_db_scheme"
  using job_part_delete [of now now' i c db] by simp

lemma job_part_purge: "purge_document fromiso st now now' new_id c work db = Inr db' \<Longrightarrow> job_part db' = job_part db" for db :: "'a job_db_scheme"
  unfolding purge_document_def Let_def
  by (auto simp del: bindr_eq_Inr dest!: job_part_enqueue job_part_deleted elim!: bindrE bindr_pairE
      split: option.splits if_splits prod.splits bool.splits)

lemma job_part_purges: "enqueue_purges iso_text now new_id work ds db = Inr db' \<Longrightarrow> job_part db' = job_part db" for db :: "'a job_db_scheme"
  by (induction iso_text now new_id work ds db arbitrary: db' rule: enqueue_purges.induct)
    (auto split: if_splits option.splits elim!: bindrE bindr_pairE dest!: job_part_enqueue)

lemma job_part_progress: "save_progress sha now a work v j info db = Inr (info', db') \<Longrightarrow> job_part db' = job_part db" for db :: "'a job_db_scheme"
  by (auto simp: save_progress_def job_part_def split: if_splits elim!: bindr_pairE)

lemma job_part_sweep: "sweep_trash sha iso_text st now new_id work db = Inr (r, db') \<Longrightarrow> job_part db' = job_part db" for db :: "'a job_db_scheme"
  by (auto simp: sweep_trash_def Let_def split: if_splits elim!: bindrE bindr_pairE dest!: job_part_purges job_part_progress)

lemma job_part_document: "enqueue_document sha now new_id st doc_id action h rid adm db = Inr (w, db') \<Longrightarrow> job_part db' = job_part db"
  for db :: "'a job_db_scheme"
  by (auto simp: enqueue_document_def Let_def split: if_splits dest!: job_part_enqueue)

lemma job_part_freeze: "freeze_document_input w doc_id scope rid db = Inr db' \<Longrightarrow> job_part db' = job_part db" for db :: "'a job_db_scheme"
  by (auto simp: freeze_document_input_def job_part_def split: option.splits if_splits)

lemma job_part_admit: "admit_item sha env doc_id action rid db = Inr (w, db') \<Longrightarrow> job_part db' = job_part db" for db :: "'a job_db_scheme"
  unfolding admit_item_def enqueue_existing_document_def Let_def
  by (auto split: option.splits if_splits elim!: bindrE bindr_pairE dest!: job_part_document job_part_freeze simp del: bindr_eq_Inr)

lemma job_part_decision: "item_decision sha env j doc_id k db = Inr (d, db') \<Longrightarrow> job_part db' = job_part db" for db :: "'a job_db_scheme"
  by (auto simp: item_decision_def Let_def split: option.splits if_splits sum.splits elim!: bindr_pairE dest!: job_part_soft_delete job_part_admit)

lemma job_part_trash [simp]: "job_part (trash_exec sha now op db) = job_part db" for db :: "'a job_db_scheme"
proof (cases op)
  case (Soft_Delete del i c)
  then show ?thesis by (cases "soft_delete now del i c db") (auto simp: committed_def job_part_soft_delete)
next
  case (Restore del tags same_tags i)
  then show ?thesis by (cases "restore_row now del tags same_tags i db") (auto simp: committed_def job_part_restore)
next
  case (Purge fromiso st now' new_id c work)
  then show ?thesis by (cases "purge_document fromiso st now now' new_id c work db") (auto simp: committed_def job_part_purge)
next
  case (Sweep iso_text st new_id work)
  then show ?thesis by (cases "sweep_trash sha iso_text st now new_id work db") (auto simp: committed_def job_part_sweep)
next
  case (Ledger op')
  then show ?thesis using job_part_more [OF work_exec_more [of sha now op' db]] by simp
qed

subsection \<open>What each operation does to the jobs\<close>

lemma job_part_eqD: "job_part db' = job_part db \<Longrightarrow> jobs db' = jobs db \<and> scheduled db' = scheduled db"
  by (simp add: job_part_def scheduled_def)

lemma submitE:
  assumes "submit st durable earlier clocks i new_id job_type ids user db = Inr (queued, db')"
  obtains "get_by jb_id i (jobs db) = None"
    "job_part db' = job_part (db\<lparr>jobs := jobs db @ [new_job i (fst clocks) st job_type ids user]\<rparr>)"
    "queued = (\<not> needs_approval st job_type ids \<and> \<not> durable)"
  using assms
  by (auto simp: submit_def Let_def split: if_splits elim!: bindrE bindr_pairE dest!: job_part_bulk_work)

lemma approveE:
  assumes "approve durable clocks new_id i approver db = Inr (queued, db')"
  obtains j k where "get_by jb_id i (jobs db) = Some j" "jb_status j = Job_Awaiting_Approval" "same_order k j" "jb_status k = Job_Queued"
    "jb_created_by_id j = None \<or> ja_user_id approver \<noteq> jb_created_by_id j" "job_part db' = job_part (put_job k db)"
proof -
  define who where "who = (case ja_username approver of Some u \<Rightarrow> if u = [] then ja_user_id approver else Some u | None \<Rightarrow> ja_user_id approver)"
  from assms obtain j where "get_by jb_id i (jobs db) = Some j" "jb_status j = Job_Awaiting_Approval"
    "jb_created_by_id j = None \<or> ja_user_id approver \<noteq> jb_created_by_id j"
    "job_part db' = job_part (put_job (j\<lparr>jb_status := Job_Queued, jb_approved_by := who, jb_approved_at := Some (fst clocks)\<rparr>) db)"
    by (auto simp: approve_def Let_def who_def [symmetric] split: if_splits option.splits elim!: bindrE bindr_pairE dest!: job_part_bulk_work)
  then show thesis by (intro that) (auto simp: same_order_def)
qed

lemma cancel_jobE:
  assumes "cancel_job durable clocks i db = Inr db'"
  obtains j k where "get_by jb_id i (jobs db) = Some j" "jb_status j = Job_Queued \<or> jb_status j = Job_Awaiting_Approval" "same_order k j" "jb_status k = Job_Cancelled"
    "job_part db' = job_part (put_job k db)"
proof -
  from assms obtain j where "get_by jb_id i (jobs db) = Some j" "jb_status j = Job_Queued \<or> jb_status j = Job_Awaiting_Approval"
    "job_part db' = job_part (put_job (j\<lparr>jb_status := Job_Cancelled, jb_finished_at := Some (fst clocks)\<rparr>) db)"
    by (auto simp: cancel_job_def Let_def split: if_splits option.splits)
  then show thesis by (intro that) (auto simp: same_order_def)
qed

text \<open>A job that durable work updates was queued or running and is not held afterwards.\<close>

definition job_progress :: "'a job_db_scheme \<Rightarrow> 'a job_db_scheme \<Rightarrow> bool" where
  "job_progress db db' \<longleftrightarrow> job_part db' = job_part db \<or>
     (\<exists>i j k. get_by jb_id i (jobs db) = Some j \<and> (jb_status j = Job_Queued \<or> jb_status j = Job_Running) \<and>
        same_order k j \<and> \<not> held k \<and> job_part db' = job_part (put_job k db))"

lemma locked_jobD:
  assumes "locked_job payload names db = Inr j"
  shows "get_by jb_id (jb_id j) (jobs db) = Some j \<and> (jb_status j = Job_Queued \<or> jb_status j = Job_Running)"
proof -
  from assms obtain i where i: "get_by jb_id i (jobs db) = Some j" "jb_status j = Job_Queued \<or> jb_status j = Job_Running"
    by (auto simp: locked_job_def split: if_splits option.splits)
  then show ?thesis using get_by_key [OF i(1)] by simp
qed

lemma job_part_put_cong: "job_part db = job_part db0 \<Longrightarrow> job_part (put_job k db) = job_part (put_job k db0)"
  by (simp add: job_part_def put_job_def)

lemma job_progressI:
  assumes "get_by jb_id i (jobs db) = Some j" "jb_status j = Job_Queued \<or> jb_status j = Job_Running" "same_order k j" "\<not> held k"
    and "job_part db' = job_part (put_job k db0)" "job_part db0 = job_part db"
  shows "job_progress db db'"
  using assms job_part_put_cong [OF assms(6)] by (auto simp: job_progress_def)

lemma run_bulk_progress:
  assumes "run_bulk clocks new_id work db = Inr db'"
  shows "job_progress db db'"
proof -
  obtain wall now where c: "clocks = (wall, now)" by (cases clocks)
  from assms obtain info j db1 info' where j: "locked_job (ws_payload (wc_spec work)) [''job_id''] db = Inr j"
    and items: "enqueue_items now new_id (jb_id j) 0 (jb_doc_ids j) db = Inr db1"
    and fin: "finish_in_session now (Some work) work Succeeded None info
      (put_job (j\<lparr>jb_status := Job_Running, jb_started_at := (case jb_started_at j of None \<Rightarrow> Some wall | Some t \<Rightarrow> Some t),
         jb_result := Some (empty_result (length (jb_doc_ids j)))\<rparr>) db1) = Inr (info', db')"
    unfolding run_bulk_def c Let_def by (auto simp del: bindr_eq_Inr elim!: bindrE bindr_pairE)
  from locked_jobD [OF j] show ?thesis
    by (auto intro!: job_progressI [OF _ _ _ _ job_part_finish [OF fin] job_part_items [OF items]] simp: same_order_def held_def)
qed

lemma reconcile_job_part:
  assumes "\<not> held j"
  obtains k where "same_order k j" "\<not> held k" "reconcile_job wall j db = put_job k db"
  by (rule that) (use assms in \<open>auto simp: reconcile_job_def Let_def same_order_def held_def\<close>)

lemma run_bulk_item_progress:
  assumes "run_bulk_item sha env work db = Inr (res, db')"
  shows "job_progress db db'"
proof -
  from assms obtain info j doc_id index decision db1 where
    j: "locked_job (ws_payload (wc_spec work)) [''job_id'', ''doc_id'', ''index''] db = Inr j"
    and d: "item_decision sha env j doc_id index db = Inr (decision, db1)"
    and r: "db' = db1 \<or> (\<exists>info info' outcome code db2. finish_in_session (ie_now env) (Some work) work outcome code info db1 = Inr (info', db2) \<and>
        db' = reconcile_job (ie_wall env) j db2)"
    unfolding run_bulk_item_def
    by (auto simp del: bindr_eq_Inr elim!: bindrE bindr_pairE split: if_splits option.splits prod.splits; blast)
  note lj = locked_jobD [OF j] and part = job_part_decision [OF d]
  from lj have "\<not> held j" by (auto simp: held_def)
  from r show ?thesis
  proof (elim disjE exE conjE)
    assume "db' = db1"
    then show ?thesis using part by (simp add: job_progress_def)
  next
    fix info info' outcome code db2
    assume f: "finish_in_session (ie_now env) (Some work) work outcome code info db1 = Inr (info', db2)" and db': "db' = reconcile_job (ie_wall env) j db2"
    obtain k where k: "same_order k j" "\<not> held k" "db' = put_job k db2"
      using reconcile_job_part [OF \<open>\<not> held j\<close>] db' by metis
    have "job_part db2 = job_part db" using job_part_finish [OF f] part by simp
    with job_progressI [OF conjunct1 [OF lj] conjunct2 [OF lj] k(1,2), of db' db2] k(3) show ?thesis by simp
  qed
qed

lemma put_progress:
  "get_by jb_id i (jobs db) = Some j \<Longrightarrow> jb_status j = Job_Queued \<or> jb_status j = Job_Running \<Longrightarrow> same_order k j \<Longrightarrow> \<not> held k \<Longrightarrow>
    job_progress db (put_job k db)"
  by (rule job_progressI) auto

lemma repair_progress: "job_progress db (repair_job wall i db)"
proof (cases "get_by jb_id i (jobs db)")
  case (Some j)
  show ?thesis
  proof (cases "jb_status j = Job_Queued \<or> jb_status j = Job_Running")
    case True
    then have "\<not> held j" by (auto simp: held_def)
    then obtain k where "same_order k j" "\<not> held k" "reconcile_job wall j db = put_job k db" by (rule reconcile_job_part)
    then have "job_progress db (reconcile_job wall j db)" using put_progress [OF Some True] by simp
    moreover have "job_progress db db" by (simp add: job_progress_def)
    moreover have "job_progress db (put_job (j\<lparr>jb_status := Job_Failed, jb_finished_at := Some wall, jb_result := r\<rparr>) db)" for r
      by (rule put_progress [OF Some True]) (simp_all add: same_order_def held_def)
    ultimately show ?thesis using Some by (simp add: repair_job_def split: option.split)
  qed (use Some in \<open>auto simp: repair_job_def job_progress_def\<close>)
qed (auto simp: repair_job_def job_progress_def)

lemma jobs_inv_progress:
  assumes "job_progress db db'" and inv: "jobs_inv st granted db"
  shows "jobs_inv st granted db'"
  using assms(1) unfolding job_progress_def
proof (elim disjE exE conjE)
  assume "job_part db' = job_part db"
  then show ?thesis using inv jobs_inv_cong by blast
next
  fix i j k
  assume j: "get_by jb_id i (jobs db) = Some j" and k: "same_order k j" and part: "job_part db' = job_part (put_job k db)"
    and s: "jb_status j = Job_Queued"
  then have "cleared st granted j" using jobs_inv_stored [OF inv j] by (simp add: held_def)
  then show ?thesis using jobs_inv_put [OF inv j k] by (simp add: jobs_inv_cong [OF part])
next
  fix i j k
  assume j: "get_by jb_id i (jobs db) = Some j" and k: "same_order k j" and part: "job_part db' = job_part (put_job k db)"
    and s: "jb_status j = Job_Running"
  then have "cleared st granted j" using jobs_inv_stored [OF inv j] by (simp add: held_def)
  then show ?thesis using jobs_inv_put [OF inv j k] by (simp add: jobs_inv_cong [OF part])
qed

lemma jobs_inv_set_status:
  assumes inv: "jobs_inv st granted db" and i: "i \<in> scheduled db" and f: "\<And>j. same_order (f j) j"
  shows "jobs_inv st granted (set_status i f db)"
proof (cases "get_by jb_id i (jobs db)")
  case (Some j)
  then have "cleared st granted j" using jobs_inv_stored [OF inv Some] i by simp
  then show ?thesis using jobs_inv_put [OF inv Some f] Some by (simp add: set_status_def)
qed (use inv in \<open>simp add: set_status_def\<close>)

text \<open>The worker goes on with what it has taken, or with the head of the queue.\<close>

lemma jobs_inv_less:
  assumes inv: "jobs_inv st granted db" and "jobs db' = jobs db" "scheduled db' \<subseteq> scheduled db"
  shows "jobs_inv st granted db'"
  by (rule jobs_inv_schedule [OF inv assms(2)]) (use assms(3) in auto)

lemma worker_update_inv:
  assumes inv: "jobs_inv st granted db" and w: "mem_worker db \<noteq> Idle" "worker_ids (mem_worker db) = {i}" and w': "worker_ids w \<subseteq> {i}"
    and f: "\<And>j. same_order (f j) j"
  shows "jobs_inv st granted (set_status i f (db\<lparr>mem_worker := w\<rparr>))"
proof -
  have i: "i \<in> scheduled db" using w by (simp add: scheduled_def)
  have "set_status i f (db\<lparr>mem_worker := w\<rparr>) = (set_status i f db)\<lparr>mem_worker := w\<rparr>"
    by (simp add: set_status_def put_job_def split: option.split)
  moreover have "jobs_inv st granted (set_status i f db)" by (rule jobs_inv_set_status [OF inv i f])
  moreover have "scheduled (set_status i f db) = scheduled db" by (simp add: set_status_def split: option.split)
  ultimately show ?thesis using w' i by (auto simp: scheduled_def intro!: jobs_inv_less [of st granted "set_status i f db"])
qed

lemma take_job_inv:
  assumes "jobs_inv st granted db"
  shows "jobs_inv st granted (take_job db)"
  by (rule jobs_inv_less [OF assms])
    (auto simp: take_job_def scheduled_def worker_ids_def dest: get_by_key split: worker.splits list.splits option.splits if_splits)

lemma start_job_inv: "jobs_inv st granted db \<Longrightarrow> jobs_inv st granted (start_job wall db)"
  by (cases "mem_worker db") (auto simp: start_job_def worker_ids_def same_order_def intro!: worker_update_inv)

lemma document_done_inv: "jobs_inv st granted db \<Longrightarrow> jobs_inv st granted (document_done r db)"
  by (cases "mem_worker db") (auto simp: document_done_def worker_ids_def same_order_def split: list.split intro!: worker_update_inv)

lemma finish_job_inv: "jobs_inv st granted db \<Longrightarrow> jobs_inv st granted (finish_job wall db)"
  by (cases "mem_worker db") (auto simp: finish_job_def finish_row_def worker_ids_def same_order_def split: list.split intro!: worker_update_inv)

lemma crash_job_inv: "jobs_inv st granted db \<Longrightarrow> jobs_inv st granted (crash_job wall error db)"
  by (cases "mem_worker db") (auto simp: crash_job_def finish_row_def worker_ids_def same_order_def intro!: worker_update_inv)

lemma restart_inv:
  assumes inv: "jobs_inv st granted db"
  shows "jobs_inv st granted (recover_after_restart durable wall db)"
proof (cases durable)
  case True
  then show ?thesis by (auto simp: recover_after_restart_def Let_def scheduled_def worker_ids_def intro!: jobs_inv_less [OF inv])
next
  case False
  let ?db = "recover_after_restart durable wall db"
  have same: "same_order (interrupted wall j) j" for j by (simp add: interrupted_def same_order_def)
  have "map jb_id (jobs ?db) = map jb_id (jobs db)"
    using False same by (simp add: recover_after_restart_def Let_def same_order_def)
  moreover have "cleared st granted r \<or> held r \<and> jb_id r \<notin> scheduled ?db" if r: "r \<in> set (jobs ?db)" for r
  proof -
    obtain j where j: "j \<in> set (jobs db)" "r = interrupted wall j"
      using r False by (auto simp: recover_after_restart_def Let_def)
    have "jb_id j \<notin> scheduled ?db" if "held j"
      using that inv j(1) False get_by_self [of jb_id "jobs db"]
      by (auto simp: recover_after_restart_def Let_def scheduled_def worker_ids_def jobs_inv_def held_def)
        (metis job_status.distinct option.inject)+
    moreover have "r = j" if "held j" using that j(2) by (auto simp: interrupted_def held_def)
    ultimately show ?thesis using inv j cleared_same_order [OF same] by (auto simp: jobs_inv_def)
  qed
  moreover have "scheduled ?db \<subseteq> jb_id ` set (jobs db)"
    using False by (auto simp: recover_after_restart_def Let_def scheduled_def worker_ids_def)
  ultimately show ?thesis using inv unfolding jobs_inv_def unique_key_def by (metis list.set_map)
qed

lemma submit_inv:
  assumes inv: "jobs_inv st granted db"
    and s: "submit st durable earlier clocks i new_id job_type ids user db = Inr (queued, db')"
  shows "jobs_inv st granted (queue_after i (queued, db'))"
  using s
proof (rule submitE)
  let ?j = "new_job i (fst clocks) st job_type ids user"
  assume fresh: "get_by jb_id i (jobs db) = None" and part: "job_part db' = job_part (db\<lparr>jobs := jobs db @ [?j]\<rparr>)"
    and q: "queued = (\<not> needs_approval st job_type ids \<and> \<not> durable)"
  have j: "jb_id ?j = i" "cleared st granted ?j \<or> held ?j" "\<not> needs_approval st job_type ids \<Longrightarrow> cleared st granted ?j"
    by (auto simp: new_job_def cleared_def held_def)
  have "i \<notin> scheduled db" using inv fresh by (auto simp: jobs_inv_def get_by_None)
  moreover have sch: "scheduled db' = scheduled db" "jobs db' = jobs db @ [?j]" using part by (auto simp: job_part_def scheduled_def)
  ultimately have inv': "jobs_inv st granted db'"
    using inv fresh j by (auto simp: jobs_inv_def unique_key_append)
  show ?thesis
  proof (cases queued)
    case True
    then have "get_by jb_id i (jobs db') = Some ?j" "cleared st granted ?j" using fresh sch j q by (auto simp: get_by_append)
    then show ?thesis using True inv'
      by (auto simp: queue_after_def put_queue_def scheduled_def intro!: jobs_inv_schedule [OF inv'])
  qed (use inv' in \<open>simp add: queue_after_def\<close>)
qed

lemma approve_inv:
  assumes inv: "jobs_inv st granted db" and s: "approve durable clocks new_id i approver db = Inr (queued, db')"
    and op: "(i, ja_user_id approver) \<in> granted"
  shows "jobs_inv st granted (queue_after i (queued, db'))"
  using s
proof (rule approveE)
  fix j k
  assume j: "get_by jb_id i (jobs db) = Some j" and k: "same_order k j" and part: "job_part db' = job_part (put_job k db)"
    and other: "jb_created_by_id j = None \<or> ja_user_id approver \<noteq> jb_created_by_id j"
  have "cleared st granted j"
    using other op get_by_key [OF j] unfolding cleared_def approved_by_other_def by blast
  then have c: "cleared st granted k" using cleared_same_order [OF k] by simp
  have inv': "jobs_inv st granted db'"
    using jobs_inv_put [OF inv j k] \<open>cleared st granted j\<close> by (simp add: jobs_inv_cong [OF part])
  have "get_by jb_id i (jobs db') = Some k"
    using part j k get_by_key [OF j] by (simp add: job_part_def get_by_put_by same_order_def)
  with inv' c show ?thesis
    by (auto simp: queue_after_def put_queue_def scheduled_def intro!: jobs_inv_schedule [OF inv'])
qed

lemma cancel_job_inv:
  assumes inv: "jobs_inv st granted db" and s: "cancel_job durable clocks i db = Inr db'"
  shows "jobs_inv st granted db'"
  using s
proof (rule cancel_jobE)
  fix j k
  assume j: "get_by jb_id i (jobs db) = Some j" and k: "same_order k j" and part: "job_part db' = job_part (put_job k db)"
    and s: "jb_status k = Job_Cancelled"
  show ?thesis using jobs_inv_put [OF inv j k] s by (simp add: jobs_inv_cong [OF part] held_def)
qed

text \<open>The approvals an operation grants.\<close>

definition approvals_of :: "job_op \<Rightarrow> 'a job_db_scheme \<Rightarrow> (int \<times> string option) set" where
  "approvals_of op db =
     (case op of Approve durable clocks new_id i approver \<Rightarrow>
        if is_ok (approve durable clocks new_id i approver db) then {(i, ja_user_id approver)} else {}
      | _ \<Rightarrow> {})"

fun approvals :: "(string \<Rightarrow> string) \<Rightarrow> job_settings \<Rightarrow> job_op list \<Rightarrow> 'a job_db_scheme \<Rightarrow> (int \<times> string option) set" where
  "approvals sha st [] db = {}"
| "approvals sha st (op # ops) db = approvals_of op db \<union> approvals sha st ops (job_exec sha st op db)"

lemma job_exec_inv:
  assumes "jobs_inv st granted db" and "approvals_of op db \<subseteq> granted"
  shows "jobs_inv st granted (job_exec sha st op db)"
proof (cases op)
  case (Submit durable earlier clocks i new_id job_type ids user)
  then show ?thesis using assms submit_inv [OF assms(1), of durable earlier clocks i new_id job_type ids user]
    by (cases "submit st durable earlier clocks i new_id job_type ids user db") (auto simp: committed_def)
next
  case (Approve durable clocks new_id i approver)
  then show ?thesis using assms approve_inv [OF assms(1), of durable clocks new_id i approver]
    by (cases "approve durable clocks new_id i approver db") (auto simp: committed_def approvals_of_def)
next
  case (Cancel_Job durable clocks i)
  then show ?thesis using assms cancel_job_inv [OF assms(1), of durable clocks i]
    by (cases "cancel_job durable clocks i db") (auto simp: committed_def)
next
  case (Run_Bulk clocks new_id work)
  then show ?thesis using assms(1)
    by (cases "run_bulk clocks new_id work db") (auto simp: committed_def intro: jobs_inv_progress [OF _ assms(1)] run_bulk_progress)
next
  case (Run_Bulk_Item env work)
  then show ?thesis using assms(1)
    by (cases "run_bulk_item sha env work db") (auto simp: committed_def intro: jobs_inv_progress [OF _ assms(1)] dest!: run_bulk_item_progress)
next
  case (Repair wall i)
  then show ?thesis by (simp add: jobs_inv_progress [OF repair_progress assms(1)])
next
  case (Other now op')
  then show ?thesis using assms(1) by (simp add: jobs_inv_cong [OF job_part_trash])
qed (simp_all add: assms(1) take_job_inv start_job_inv document_done_inv finish_job_inv crash_job_inv restart_inv)

lemma job_run_inv:
  "jobs_inv st granted db \<Longrightarrow> approvals sha st ops db \<subseteq> granted \<Longrightarrow> jobs_inv st granted (job_run sha st ops db)"
  by (induction ops arbitrary: db) (simp_all add: job_exec_inv)

text \<open>
  C31. Four eyes: however submissions, approvals, cancellations, durable work, the worker in memory and restarts
  interleave, a job that is large enough to need approval is queued, running or finished only
  when an approval was granted to somebody other than the administrator who submitted it.
\<close>

theorem four_eyes:
  assumes "jobs db = []" "mem_queue db = []" "mem_worker db = Idle"
    and "j \<in> set (jobs (job_run sha st ops db))" and "needs_approval st (jb_type j) (jb_doc_ids j)"
    and "jb_status j \<notin> {Job_Awaiting_Approval, Job_Cancelled}"
  shows "\<exists>user. (jb_id j, user) \<in> approvals sha st ops db \<and> (jb_created_by_id j = None \<or> user \<noteq> jb_created_by_id j)"
proof -
  have "jobs_inv st (approvals sha st ops db) db"
    using assms(1-3) by (simp add: jobs_inv_def unique_key_def scheduled_def worker_ids_def)
  from job_run_inv [OF this subset_refl] show ?thesis
    using assms(4-6) by (auto simp: jobs_inv_def cleared_def approved_by_other_def held_def)
qed

subsection \<open>Finished jobs\<close>

definition settled :: "job \<Rightarrow> bool" where
  "settled j \<longleftrightarrow> jb_status j \<in> {Job_Completed, Job_Failed, Job_Cancelled}"

definition memory_step :: "job_op \<Rightarrow> bool" where
  "memory_step op = (case op of Start_Job _ \<Rightarrow> True | Document_Done _ \<Rightarrow> True | Finish_Job _ \<Rightarrow> True | Crash_Job _ _ \<Rightarrow> True | _ \<Rightarrow> False)"

lemma unsettled: "jb_status j \<in> {Job_Queued, Job_Running, Job_Awaiting_Approval} \<Longrightarrow> \<not> settled j"
  by (auto simp: settled_def)

lemma put_other_job:
  assumes "get_by jb_id i (jobs db) = Some j" "settled j" "get_by jb_id i' (jobs db) = Some r" "\<not> settled r" "same_order k r"
    and "job_part db' = job_part (put_job k db)"
  shows "get_by jb_id i (jobs db') = Some j"
proof -
  have "i \<noteq> i'" using assms(1-4) by auto
  moreover have "jb_id k = i'" using assms(5) get_by_key [OF assms(3)] by (simp add: same_order_def)
  moreover have "jobs db' = jobs (put_job k db)" using assms(6) by (simp add: job_part_def)
  ultimately show ?thesis using assms(1) by (simp add: get_by_put_by)
qed

lemma progress_settled:
  "job_progress db db' \<Longrightarrow> get_by jb_id i (jobs db) = Some j \<Longrightarrow> settled j \<Longrightarrow> get_by jb_id i (jobs db') = Some j"
  unfolding job_progress_def
  by (elim disjE exE conjE) (simp add: job_part_def, (rule put_other_job; simp add: unsettled)+)

lemma approve_settled:
  assumes "approve durable clocks new_id i' approver db = Inr (queued, db')" "get_by jb_id i (jobs db) = Some j" "settled j"
  shows "get_by jb_id i (jobs db') = Some j"
  using assms(1) by (rule approveE) (rule put_other_job [OF assms(2,3)], simp_all add: unsettled)

lemma cancel_settled:
  assumes "cancel_job durable clocks i' db = Inr db'" "get_by jb_id i (jobs db) = Some j" "settled j"
  shows "get_by jb_id i (jobs db') = Some j"
  using assms(1) by (rule cancel_jobE) (rule put_other_job [OF assms(2,3)], auto simp: unsettled)

lemma get_by_interrupted:
  "get_by jb_id i rows = Some j \<Longrightarrow> settled j \<Longrightarrow> get_by jb_id i (map (interrupted wall) rows) = Some j"
  by (induction rows) (auto simp: interrupted_def settled_def split: if_splits)

lemma settled_stays:
  assumes "get_by jb_id i (jobs db) = Some j" "settled j" "\<not> memory_step op"
  shows "get_by jb_id i (jobs (job_exec sha st op db)) = Some j"
proof (cases op)
  case (Submit durable earlier clocks i' new_id job_type ids user)
  then show ?thesis using assms
    by (cases "submit st durable earlier clocks i' new_id job_type ids user db")
      (auto simp: committed_def queue_after_def put_queue_def get_by_append dest!: job_part_eqD elim!: submitE)
next
  case (Approve durable clocks new_id i' approver)
  then show ?thesis using assms
    by (cases "approve durable clocks new_id i' approver db")
      (auto simp: committed_def queue_after_def put_queue_def approve_settled)
next
  case (Cancel_Job durable clocks i')
  then show ?thesis using assms
    by (cases "cancel_job durable clocks i' db") (auto simp: committed_def cancel_settled)
next
  case (Run_Bulk clocks new_id work)
  then show ?thesis using assms run_bulk_progress [of clocks new_id work db]
    by (cases "run_bulk clocks new_id work db") (auto simp: committed_def intro: progress_settled)
next
  case (Run_Bulk_Item env work)
  then show ?thesis using assms run_bulk_item_progress [of sha env work db]
    by (cases "run_bulk_item sha env work db") (auto simp: committed_def intro: progress_settled)
next
  case (Repair wall i')
  then show ?thesis by (simp add: progress_settled [OF repair_progress assms(1,2)])
next
  case (Other now op')
  then show ?thesis using assms job_part_eqD [OF job_part_trash [of sha now op' db]] by simp
next
  case (Restart durable wall)
  then show ?thesis using assms
    by (auto simp: recover_after_restart_def Let_def get_by_interrupted)
qed (use assms in \<open>simp_all add: memory_step_def take_job_def split: worker.split list.split option.split\<close>)

text \<open>
  C32. A bulk job that was completed, failed or cancelled keeps its status, result and times for good,
  whatever is submitted, approved, cancelled, repaired or finished late afterwards, unless the worker in memory writes.
\<close>

theorem finished_jobs_are_final:
  assumes "get_by jb_id i (jobs db) = Some j" "jb_status j \<in> {Job_Completed, Job_Failed, Job_Cancelled}"
    and "\<not> list_ex memory_step ops"
  shows "get_by jb_id i (jobs (job_run sha st ops db)) = Some j"
  using assms(1,3)
proof (induction ops arbitrary: db)
  case (Cons op ops)
  have "settled j" using assms(2) by (simp add: settled_def)
  with Cons show ?case by (simp add: settled_stays)
qed simp

subsection \<open>Progress is what the receipts say\<close>

definition item_receipt :: "job \<Rightarrow> 'a job_db_scheme \<Rightarrow> nat \<Rightarrow> receipt option" where
  "item_receipt j db n = receipt_of (get_by wi_dedupe_key (item_key (jb_id j) n) (item_rows (jb_id j) (work_items db)))"

fun receipt_ok :: "receipt option \<Rightarrow> bool" where
  "receipt_ok (Some Receipt_Ok) = True"
| "receipt_ok _ = False"

fun receipt_error :: "receipt option \<Rightarrow> string option" where
  "receipt_error (Some (Receipt_Error c)) = Some c"
| "receipt_error _ = None"

fun receipt_skip :: "receipt option \<Rightarrow> string option" where
  "receipt_skip (Some (Receipt_Skipped c)) = Some c"
| "receipt_skip _ = None"

definition ok_items :: "(nat \<Rightarrow> receipt option) \<Rightarrow> nat \<Rightarrow> string list \<Rightarrow> string list" where
  "ok_items r k ids = [d. (n, d) \<leftarrow> enumerate k ids, receipt_ok (r n)]"

definition coded_items :: "(nat \<Rightarrow> string option) \<Rightarrow> nat \<Rightarrow> string list \<Rightarrow> (string \<times> string) list" where
  "coded_items code k ids = [(d, the (code n)). (n, d) \<leftarrow> enumerate k ids, code n \<noteq> None]"

lemma empty_result_simps [simp]:
  "jr_results (empty_result n) = []" "jr_errors (empty_result n) = []" "jr_skipped (empty_result n) = []" "jr_total (empty_result n) = n"
  by (simp_all add: empty_result_def)

lemma collect_receipts_eq:
  fixes r :: "nat \<Rightarrow> receipt option"
  assumes "r = (\<lambda>n. receipt_of (get_by wi_dedupe_key (item_key i n) rows))"
  shows "collect_receipts i rows k ids acc =
    acc\<lparr>jr_results := jr_results acc @ ok_items r k ids, jr_errors := jr_errors acc @ coded_items (receipt_error \<circ> r) k ids,
        jr_skipped := jr_skipped acc @ coded_items (receipt_skip \<circ> r) k ids\<rparr>"
  unfolding assms
  by (induction i rows k ids acc rule: collect_receipts.induct)
    (simp_all add: ok_items_def coded_items_def split: option.split receipt.split)

lemma receipt_counts:
  "length (ok_items r k ids) + length (coded_items (receipt_error \<circ> r) k ids) + length (coded_items (receipt_skip \<circ> r) k ids)
    = length (filter (\<lambda>n. r n \<noteq> None) [k..<k + length ids])"
proof (induction ids arbitrary: k)
  case (Cons d ids)
  have "[k..<k + length (d # ids)] = k # [Suc k..<Suc k + length ids]" by (simp add: upt_rec)
  then show ?case using Cons [of "Suc k"]
    by (cases "r k" rule: receipt_ok.cases) (simp_all add: ok_items_def coded_items_def)
qed (simp add: ok_items_def coded_items_def)

lemma all_received: "length (filter P [0..<n]) = n \<longleftrightarrow> (\<forall>k<n. P k)"
  by (metis atLeast0LessThan atLeast_upt diff_zero filter_True filter_id_conv length_filter_less lessThan_iff length_upt less_irrefl)

lemma items_upt: "[k..<Suc (k + n)] = k # [Suc k..<Suc (k + n)]"
  by (simp add: upt_rec)

lemma ok_items_empty: "ok_items r k ids = [] \<longleftrightarrow> \<not> list_ex (\<lambda>m. receipt_ok (r m)) [k..<k + length ids]"
  by (induction ids arbitrary: k) (simp_all add: ok_items_def items_upt del: upt.simps)

lemma coded_items_empty: "coded_items code k ids = [] \<longleftrightarrow> \<not> list_ex (\<lambda>m. code m \<noteq> None) [k..<k + length ids]"
  by (induction ids arbitrary: k) (simp_all add: coded_items_def items_upt del: upt.simps)


subsection \<open>Examples\<close>

definition example_jobs :: job_db where
  "example_jobs = trash_db.extend example_trash \<lparr>jobs = [], mem_queue = [], mem_worker = Idle\<rparr>"

definition example_job_settings :: job_settings where
  "example_job_settings = \<lparr>js_max_pending = 3, js_threshold_delete = 2, js_threshold_regenerate = 2\<rparr>"

definition example_admin :: "string \<Rightarrow> job_actor" where
  "example_admin u = \<lparr>ja_user_id = Some u, ja_username = None\<rparr>"

definition job_ops :: "job_op list" where
  "job_ops = [Submit False 0 (0, 0) 1 ''w'' ''bulk_delete'' [''d1'', ''d2''] (example_admin ''a''), Approve False (1, 1) ''w'' 1 (example_admin ''a''),
     Approve False (2, 2) ''w'' 1 (example_admin ''b''), Take_Job, Cancel_Job False (3, 3, 3) 1, Start_Job 4,
     Document_Done Receipt_Ok, Document_Done (Receipt_Error ''document_not_found''), Finish_Job 5]"

definition finished_example :: job where
  "finished_example = hd (jobs (job_run id example_job_settings job_ops example_jobs))"

theorem four_eyes_witness:
  "\<exists>user. (1, user) \<in> approvals id example_job_settings job_ops example_jobs \<and> user \<noteq> Some ''a''"
proof -
  have "jobs (job_run id example_job_settings job_ops example_jobs) = [finished_example] \<and> jb_id finished_example = 1 \<and>
    jb_created_by_id finished_example = Some ''a'' \<and> needs_approval example_job_settings (jb_type finished_example) (jb_doc_ids finished_example) \<and>
    jb_status finished_example = Job_Completed \<and> jobs example_jobs = [] \<and> mem_queue example_jobs = []" by code_simp
  moreover have "mem_worker example_jobs = Idle" by (simp add: example_jobs_def trash_db.defs)
  ultimately show ?thesis using four_eyes [of example_jobs finished_example id example_job_settings job_ops] by simp
qed

text \<open>The worker in memory: a job cancelled after it was taken is run, and loses its cancellation.\<close>

lemma cancelled_job_runs:
  "jb_status (hd (jobs (job_run id example_job_settings (take 5 job_ops) example_jobs))) = Job_Cancelled \<and>
   jb_status (hd (jobs (job_run id example_job_settings (take 6 job_ops) example_jobs))) = Job_Running \<and>
   jb_status finished_example = Job_Completed"
  by code_simp

text \<open>An exception without a text ends the job as completed, with no document processed.\<close>

lemma textless_crash_completes:
  "jb_status (hd (jobs (job_run id example_job_settings (take 4 job_ops @ [Start_Job 4, Crash_Job 5 []]) example_jobs))) = Job_Completed"
  by code_simp

theorem finished_jobs_are_final_witness:
  "jobs (job_run id example_job_settings [Cancel_Job True (6, 6, 6) 1, Approve True (6, 6) ''w'' 1 (example_admin ''b''), Repair 7 1]
     (job_run id example_job_settings job_ops example_jobs)) \<noteq> []"
proof -
  let ?db = "job_run id example_job_settings job_ops example_jobs"
  let ?ops = "[Cancel_Job True (6, 6, 6) 1, Approve True (6, 6) ''w'' 1 (example_admin ''b''), Repair 7 1]"
  have "get_by jb_id 1 (jobs ?db) = Some finished_example" "jb_status finished_example = Job_Completed" by code_simp+
  moreover have "\<not> list_ex memory_step ?ops" by (simp add: memory_step_def)
  ultimately have "get_by jb_id 1 (jobs (job_run id example_job_settings ?ops ?db)) = Some finished_example"
    using finished_jobs_are_final [of 1 ?db finished_example ?ops id example_job_settings] by simp
  then show ?thesis by auto
qed

definition running_example :: job where
  "running_example = (new_job 1 0 example_job_settings ''bulk_delete'' [''d1'', ''d2''] (example_admin ''a''))\<lparr>jb_status := Job_Running\<rparr>"

definition item_example :: "nat \<Rightarrow> string \<Rightarrow> work_item" where
  "item_example n doc_id = new_item ''x'' 0 \<lparr>ws_kind = ''bulk_item'', ws_version = 1,
     ws_payload = JObj [(''job_id'', JInt 1), (''doc_id'', JStr doc_id), (''index'', JInt (int n))], ws_dedupe_key = item_key 1 n, ws_doc_id = None\<rparr>"

definition running_jobs :: job_db where
  "running_jobs = example_jobs\<lparr>jobs := [running_example],
     work_items := [(item_example 0 ''d1'')\<lparr>wi_status := Succeeded\<rparr>,
       (item_example 1 ''d2'')\<lparr>wi_id := ''y'', wi_status := Failed, wi_error_code := Some ''document_not_found''\<rparr>]\<rparr>"


end
