(* ===== verification/Chat_Runs.thy ===== *)
theory Chat_Runs
  imports Coordination Interfaces Json
begin

text \<open>
  Durable chat requests: \<open>services/work/chat.py\<close> and the part of \<open>services/chat_history.py\<close> it
  writes through. A request owns a run row, a slot of the shared \<open>chat\<close> capacity and the
  answer attempt of one assistant message.

  \<open>retrieval_metadata\<close> is split into its \<open>answer_attempt\<close> entry and the other keys. \<open>clock\<close> gives
  the clock reads of an operation, those of a loop over rows last; new ids, the request digest and the scenario
  snapshot are arguments.
\<close>

subsection \<open>Rows and tokens\<close>

record chat_session =
  ct_id :: string
  ct_user_id :: string
  ct_username :: "string option"
  ct_title :: string
  ct_created_at :: time
  ct_updated_at :: time
  ct_deleted_at :: "time option"
  ct_deleted_by :: "string option"

record answer_attempt =
  aa_id :: "string option"
  aa_query :: "string option"
  aa_mode :: "string option"
  aa_scenario_id :: "string option"
  aa_status :: "string option"

record chat_message =
  cm_id :: int
  cm_session_id :: string
  cm_role :: string
  cm_content :: string
  cm_sources :: "json list option"
  cm_attempt :: "answer_attempt option"
  cm_metadata :: "(string \<times> json) list"
  cm_created_at :: time

record chat_run =
  rn_id :: string
  rn_actor_id :: string
  rn_attempt_id :: string
  rn_request_hash :: string
  rn_session_id :: string
  rn_message_id :: int
  rn_owner_id :: string
  rn_fence :: int
  rn_lease_until :: time
  rn_cancel_requested :: bool
  rn_status :: string
  rn_capacity_id :: string
  rn_capacity_fence :: int
  rn_created_at :: time
  rn_finished_at :: "time option"

record chat_db = coord_db +
  sessions :: "chat_session list"
  messages :: "chat_message list"
  chat_runs :: "chat_run list"

record attempt_ref =
  ar_session_id :: string
  ar_message_id :: int
  ar_attempt_id :: string
  ar_status :: string
  ar_existing :: bool
  ar_run_id :: "string option"
  ar_run_owner :: "string option"
  ar_run_fence :: "int option"

record chat_claim =
  cc_run_id :: string
  cc_owner_id :: string
  cc_fence :: int
  cc_lease_until :: time
  cc_ref :: attempt_ref

record chat_user =
  cu_user_id :: string
  cu_username :: "string option"

record chat_request =
  rq_session_id :: "string option"
  rq_query :: string
  rq_attempt_id :: "string option"
  rq_response_mode :: "string option"
  rq_scenario_id :: "string option"
  rq_dump :: "(string \<times> json) list"

type_synonym clock = "nat \<Rightarrow> time"

definition claim_of_run :: "chat_run \<Rightarrow> chat_claim" where
  "claim_of_run row =
     \<lparr>cc_run_id = rn_id row, cc_owner_id = rn_owner_id row, cc_fence = rn_fence row,
      cc_lease_until = rn_lease_until row,
      cc_ref = \<lparr>ar_session_id = rn_session_id row, ar_message_id = rn_message_id row,
        ar_attempt_id = rn_attempt_id row, ar_status = ''incomplete'', ar_existing = False,
        ar_run_id = Some (rn_id row), ar_run_owner = Some (rn_owner_id row), ar_run_fence = Some (rn_fence row)\<rparr>\<rparr>"

subsection \<open>The capacity slot of a run\<close>

definition chat_resource :: string where
  "chat_resource = ''chat''"

definition resource_lock :: "chat_db \<Rightarrow> chat_db result" where
  "resource_lock db = (case get_by cr_resource chat_resource (resources db) of
       None \<Rightarrow> Inl ChatRunOwnershipLost
     | Some policy \<Rightarrow> bindr (lock_capacity_resource chat_resource (cr_capacity_limit policy) db) (\<lambda>(_, db'). Inr db'))"

definition slot_token :: "chat_run \<Rightarrow> chat_db \<Rightarrow> capacity_lease result" where
  "slot_token row db = (case get_by cs_id (rn_capacity_id row) (slots db) of
       None \<Rightarrow> Inl ChatRunOwnershipLost
     | Some slot \<Rightarrow>
        (case cs_expires_at slot of
           None \<Rightarrow> Inl ChatRunOwnershipLost
         | Some expires \<Rightarrow>
            if cs_resource slot \<noteq> chat_resource \<or> cs_owner_id slot \<noteq> Some (rn_id row)
               \<or> cs_fence slot \<noteq> rn_capacity_fence row
            then Inl ChatRunOwnershipLost
            else Inr (slot_lease slot (rn_id row) expires)))"

text \<open>An expired or reallocated slot is left alone.\<close>

definition lost :: "exn \<Rightarrow> bool" where
  "lost e = (e = ChatRunOwnershipLost \<or> e = CoordinationOwnershipLost)"

definition release_run :: "time \<Rightarrow> time \<Rightarrow> chat_run \<Rightarrow> chat_db \<Rightarrow> chat_db result" where
  "release_run now now' row db =
     (case slot_token row db of
        Inl e \<Rightarrow> if lost e then Inr db else Inl e
      | Inr token \<Rightarrow>
          if now < cl_expires_at token
          then (case release_capacity now' token db of
                  Inl e \<Rightarrow> if lost e then Inr db else Inl e
                | Inr db' \<Rightarrow> Inr db')
          else Inr db)"

subsection \<open>History rows\<close>

definition attempt_id_of :: "chat_message \<Rightarrow> string option" where
  "attempt_id_of m = (case cm_attempt m of None \<Rightarrow> None | Some a \<Rightarrow> aa_id a)"

definition attempt_status_of :: "chat_message \<Rightarrow> string option" where
  "attempt_status_of m = (case cm_attempt m of None \<Rightarrow> None | Some a \<Rightarrow> aa_status a)"

definition with_status :: "string \<Rightarrow> chat_message \<Rightarrow> chat_message" where
  "with_status status m = m\<lparr>cm_attempt := map_option (\<lambda>a. a\<lparr>aa_status := Some status\<rparr>) (cm_attempt m)\<rparr>"

definition attempt_message :: "attempt_ref \<Rightarrow> chat_user \<Rightarrow> chat_db \<Rightarrow> chat_message result" where
  "attempt_message ref user db =
     (case get_by ct_id (ar_session_id ref) (sessions db) of
        None \<Rightarrow> Inl ChatOwnershipError
      | Some sess \<Rightarrow>
          if ct_user_id sess \<noteq> cu_user_id user then Inl ChatOwnershipError
          else if ct_deleted_at sess \<noteq> None then Inl ChatSessionDeletedError
          else (case get_by cm_id (ar_message_id ref) (messages db) of
             None \<Rightarrow> Inl ChatOwnershipError
           | Some message \<Rightarrow>
               if cm_session_id message \<noteq> ct_id sess \<or> attempt_id_of message \<noteq> Some (ar_attempt_id ref)
               then Inl ChatOwnershipError
               else Inr message))"

definition run_message :: "chat_run \<Rightarrow> chat_user \<Rightarrow> chat_db \<Rightarrow> chat_message result" where
  "run_message row user db =
     (if rn_actor_id row \<noteq> cu_user_id user then Inl ChatOwnershipError
      else attempt_message (cc_ref (claim_of_run row)) user db)"

definition finish_message :: "chat_message \<Rightarrow> string \<Rightarrow> string \<Rightarrow> chat_message result" where
  "finish_message message status answer =
     (if attempt_status_of message \<noteq> Some ''incomplete'' then Inl ChatRunOwnershipLost
      else Inr (with_status status (message\<lparr>cm_content := (if status = ''completed'' then answer else [])\<rparr>)))"

definition put_message :: "chat_message \<Rightarrow> chat_db \<Rightarrow> chat_db" where
  "put_message m db = db\<lparr>messages := put_by cm_id m (messages db)\<rparr>"

definition put_run :: "chat_run \<Rightarrow> chat_db \<Rightarrow> chat_db" where
  "put_run r db = db\<lparr>chat_runs := put_by rn_id r (chat_runs db)\<rparr>"

text \<open>The loop of \<open>begin_attempt\<close> over the messages of a session, in id order.\<close>

fun scan_attempts :: "string \<Rightarrow> string \<Rightarrow> string option \<Rightarrow> string option \<Rightarrow> chat_message list \<Rightarrow>
    (chat_message list \<times> chat_message option) result" where
  "scan_attempts attempt_id query mode scenario_id [] = Inr ([], None)"
| "scan_attempts attempt_id query mode scenario_id (m # ms) =
     (if attempt_id_of m = Some attempt_id
      then (case cm_attempt m of
              None \<Rightarrow> Inl ValueError
            | Some a \<Rightarrow>
                if aa_query a \<noteq> Some query \<or> aa_mode a \<noteq> mode \<or> aa_scenario_id a \<noteq> scenario_id
                then Inl ValueError
                else Inr (m # ms, Some m))
      else
        let m' = (if cm_role m = ''assistant'' \<and> attempt_status_of m = Some ''incomplete''
                  then with_status ''stopped'' m else m)
        in bindr (scan_attempts attempt_id query mode scenario_id ms) (\<lambda>(ms', found). Inr (m' # ms', found)))"

definition truthy :: "string option \<Rightarrow> string option" where
  "truthy s = (case s of Some [] \<Rightarrow> None | _ \<Rightarrow> s)"

definition new_ref :: "string \<Rightarrow> int \<Rightarrow> string \<Rightarrow> string \<Rightarrow> bool \<Rightarrow> attempt_ref" where
  "new_ref session_id message_id attempt_id status existing =
     \<lparr>ar_session_id = session_id, ar_message_id = message_id, ar_attempt_id = attempt_id,
      ar_status = status, ar_existing = existing, ar_run_id = None, ar_run_owner = None, ar_run_fence = None\<rparr>"

definition question :: "time \<Rightarrow> int \<Rightarrow> string \<Rightarrow> string \<Rightarrow> chat_message" where
  "question now i session_id query =
     \<lparr>cm_id = i, cm_session_id = session_id, cm_role = ''user'', cm_content = query, cm_sources = None,
      cm_attempt = None, cm_metadata = [], cm_created_at = now\<rparr>"

definition placeholder :: "time \<Rightarrow> int \<Rightarrow> string \<Rightarrow> string \<Rightarrow> string \<Rightarrow> string option \<Rightarrow> string option \<Rightarrow>
    (string \<times> json) list \<Rightarrow> chat_message" where
  "placeholder now i session_id attempt_id query mode scenario_id metadata =
     \<lparr>cm_id = i, cm_session_id = session_id, cm_role = ''assistant'', cm_content = [], cm_sources = Some [],
      cm_attempt = Some \<lparr>aa_id = Some attempt_id, aa_query = Some query, aa_mode = mode,
        aa_scenario_id = scenario_id, aa_status = Some ''incomplete''\<rparr>,
      cm_metadata = metadata, cm_created_at = now\<rparr>"

definition scenario_metadata :: "(string \<Rightarrow> json result) \<Rightarrow> string option \<Rightarrow> (string \<times> json) list result" where
  "scenario_metadata snapshot scenario_id = (case truthy scenario_id of
       None \<Rightarrow> Inr []
     | Some s \<Rightarrow> bindr (snapshot s) (\<lambda>j.
         Inr [(''scenario'', j), (''scenario_execution'', JObj [(''status'', JStr ''accepted'')])]))"

definition begin_attempt ::
    "(string \<Rightarrow> json result) \<Rightarrow> time \<Rightarrow> string \<Rightarrow> int \<Rightarrow> int \<Rightarrow> string option \<Rightarrow> chat_user \<Rightarrow> string \<Rightarrow> string \<Rightarrow>
     string option \<Rightarrow> string option \<Rightarrow> chat_db \<Rightarrow> (attempt_ref \<times> chat_db) result" where
  "begin_attempt snapshot now new_session m1 m2 session_id0 user query attempt_id mode scenario_id db =
     (let session_id = (case truthy session_id0 of Some s \<Rightarrow> s | None \<Rightarrow> new_session);
          create = (\<lambda>db1. bindr (scenario_metadata snapshot scenario_id) (\<lambda>metadata.
            Inr (new_ref session_id m2 attempt_id ''incomplete'' False,
                 db1\<lparr>sessions := update_where (\<lambda>s. ct_id s = session_id) (\<lambda>s. s\<lparr>ct_updated_at := now\<rparr>) (sessions db1),
                     messages := messages db1 @ [question now m1 session_id query,
                       placeholder now m2 session_id attempt_id query mode (truthy scenario_id) metadata]\<rparr>)))
      in case get_by ct_id session_id (sessions db) of
           None \<Rightarrow> create (db\<lparr>sessions := sessions db @
             [\<lparr>ct_id = session_id, ct_user_id = cu_user_id user, ct_username = cu_username user,
               ct_title = take 1024 query, ct_created_at = now, ct_updated_at = now,
               ct_deleted_at = None, ct_deleted_by = None\<rparr>]\<rparr>)
         | Some sess \<Rightarrow>
             if ct_user_id sess \<noteq> cu_user_id user then Inl ChatOwnershipError
             else if ct_deleted_at sess \<noteq> None then Inl ChatSessionDeletedError
             else bindr (scan_attempts attempt_id query mode scenario_id
                 (order_by cm_id (filter (\<lambda>m. cm_session_id m = session_id) (messages db)))) (\<lambda>(ms, found).
               let db1 = db\<lparr>messages := fold (put_by cm_id) ms (messages db)\<rparr> in
               case found of
                 Some m \<Rightarrow> Inr (new_ref session_id (cm_id m) attempt_id
                   (case attempt_status_of m of Some s \<Rightarrow> s | None \<Rightarrow> ''incomplete'') True, db1)
               | None \<Rightarrow> create db1))"

subsection \<open>Ownership\<close>

definition locked_run :: "clock \<Rightarrow> chat_claim \<Rightarrow> chat_db \<Rightarrow> (chat_run \<times> time \<times> chat_db) result" where
  "locked_run clock claim db =
     bindr (resource_lock db) (\<lambda>db1.
       case get_by rn_id (cc_run_id claim) (chat_runs db1) of
         None \<Rightarrow> Inl ChatRunOwnershipLost
       | Some row \<Rightarrow>
           if rn_owner_id row \<noteq> cc_owner_id claim \<or> rn_fence row \<noteq> cc_fence claim
              \<or> rn_status row \<noteq> ''running'' \<or> rn_cancel_requested row \<or> rn_lease_until row \<le> clock 0
           then Inl ChatRunOwnershipLost
           else bindr (slot_token row db1) (\<lambda>token.
             if cl_expires_at token \<le> clock 0 then Inl ChatRunOwnershipLost
             else case get_by ct_id (rn_session_id row) (sessions db1) of
               None \<Rightarrow> Inl ChatRunOwnershipLost
             | Some thread \<Rightarrow>
                 if ct_user_id thread \<noteq> rn_actor_id row \<or> ct_deleted_at thread \<noteq> None
                 then Inl ChatRunOwnershipLost
                 else if rn_lease_until row \<le> clock 1 \<or> cl_expires_at token \<le> clock 1
                 then Inl ChatRunOwnershipLost
                 else Inr (row, clock 1, db1)))"

definition running_runs :: "string \<Rightarrow> string \<Rightarrow> chat_db \<Rightarrow> chat_run list" where
  "running_runs session_id actor_id db =
     order_by rn_id (filter (\<lambda>r. rn_session_id r = session_id \<and> rn_actor_id r = actor_id \<and> rn_status r = ''running'')
       (chat_runs db))"

definition stopped_run :: "time \<Rightarrow> chat_run \<Rightarrow> chat_run" where
  "stopped_run now row = row\<lparr>rn_cancel_requested := True, rn_status := ''stopped'', rn_finished_at := Some now\<rparr>"

text \<open>Ending one running row as \<open>stopped\<close>: message, row, slot.\<close>

definition stop_run :: "clock \<Rightarrow> chat_run \<Rightarrow> chat_message \<Rightarrow> chat_db \<Rightarrow> chat_db result" where
  "stop_run clock row message db =
     bindr (finish_message message ''stopped'' []) (\<lambda>message'.
       release_run (clock 1) (clock 2) row (put_run (stopped_run (clock 0) row) (put_message message' db)))"

fun stop_runs :: "clock \<Rightarrow> (chat_run \<Rightarrow> chat_db \<Rightarrow> chat_message result) \<Rightarrow> chat_run list \<Rightarrow> chat_db \<Rightarrow> chat_db result" where
  "stop_runs clock find_message [] db = Inr db"
| "stop_runs clock find_message (row # rows) db =
     bindr (find_message row db) (\<lambda>message.
     bindr (stop_run clock row message db) (\<lambda>db'.
       stop_runs (\<lambda>i. clock (i + 3)) find_message rows db'))"

subsection \<open>Admission\<close>

function remove_sub :: "string \<Rightarrow> string \<Rightarrow> string" where
  "remove_sub pat [] = []"
| "remove_sub pat (c # s) =
     (if pat \<noteq> [] \<and> take (length pat) (c # s) = pat then remove_sub pat (drop (length pat) (c # s))
      else c # remove_sub pat s)"
  by pat_completeness auto

termination remove_sub
  by (relation "measure (\<lambda>(pat, s). length s)") (auto simp: Suc_le_eq)

definition lower_char :: "char \<Rightarrow> char" where
  "lower_char c = (if char_in upper_az c then char_of (of_char c + 32 :: nat) else c)"

text \<open>\<open>str(UUID(text))\<close> for 32 hexadecimal digits with the prefixes, braces and hyphens it ignores.\<close>

definition uuid_text :: "string \<Rightarrow> string option" where
  "uuid_text s =
     (let braces = char_in ''{}'';
          h = remove_sub ''uuid:'' (remove_sub ''urn:'' s);
          h = rev (dropWhile braces (rev (dropWhile braces h)));
          h = map lower_char (filter (\<lambda>c. c \<noteq> CHR ''-'') h)
      in if hex_string 32 h
         then Some (take 8 h @ ''-'' @ take 4 (drop 8 h) @ ''-'' @ take 4 (drop 12 h) @ ''-'' @
                    take 4 (drop 16 h) @ ''-'' @ drop 20 h)
         else None)"

definition request_attempt :: "string \<Rightarrow> chat_request \<Rightarrow> string result" where
  "request_attempt fresh request = (case truthy (rq_attempt_id request) of
       None \<Rightarrow> Inr fresh
     | Some s \<Rightarrow> (case uuid_text s of None \<Rightarrow> Inl ValueError | Some u \<Rightarrow> Inr u))"

fun set_key :: "string \<Rightarrow> 'v \<Rightarrow> (string \<times> 'v) list \<Rightarrow> (string \<times> 'v) list" where
  "set_key k v [] = [(k, v)]"
| "set_key k v ((k', w) # d) = (if k = k' then (k, v) # d else (k', w) # set_key k v d)"

definition request_digest :: "(json \<Rightarrow> string) \<Rightarrow> chat_request \<Rightarrow> string \<Rightarrow> string" where
  "request_digest digest request attempt_id =
     digest (JObj (set_key ''attempt_id'' (JStr attempt_id) (rq_dump request)))"

text \<open>The ids an admission draws: run, slot, attempt, session and the two messages.\<close>

record chat_ids =
  id_run :: string
  id_slot :: string
  id_attempt :: string
  id_session :: string
  id_question :: int
  id_answer :: int

definition session_writable :: "string option \<Rightarrow> chat_user \<Rightarrow> chat_db \<Rightarrow> unit result" where
  "session_writable session_id user db = (case truthy session_id of
       None \<Rightarrow> Inr ()
     | Some s \<Rightarrow> (case get_by ct_id s (sessions db) of
          None \<Rightarrow> Inr ()
        | Some thread \<Rightarrow>
            if ct_user_id thread \<noteq> cu_user_id user then Inl ChatOwnershipError
            else if ct_deleted_at thread \<noteq> None then Inl ChatSessionDeletedError
            else Inr ()))"

definition previous_runs :: "string option \<Rightarrow> chat_user \<Rightarrow> chat_db \<Rightarrow> chat_run list" where
  "previous_runs session_id user db = (case truthy session_id of
       None \<Rightarrow> []
     | Some s \<Rightarrow> running_runs s (cu_user_id user) db)"

definition admitted_run :: "chat_ids \<Rightarrow> chat_user \<Rightarrow> string \<Rightarrow> string \<Rightarrow> string \<Rightarrow> attempt_ref \<Rightarrow> capacity_lease \<Rightarrow>
    time \<Rightarrow> chat_run" where
  "admitted_run ids user attempt_id digest owner_id ref capacity now =
     \<lparr>rn_id = id_run ids, rn_actor_id = cu_user_id user, rn_attempt_id = attempt_id,
      rn_request_hash = digest, rn_session_id = ar_session_id ref, rn_message_id = ar_message_id ref,
      rn_owner_id = owner_id, rn_fence = 1, rn_lease_until = cl_expires_at capacity,
      rn_cancel_requested = False, rn_status = ''running'', rn_capacity_id = cl_id capacity,
      rn_capacity_fence = cl_fence capacity, rn_created_at = now, rn_finished_at = None\<rparr>"

definition prior_run :: "string \<Rightarrow> string \<Rightarrow> chat_db \<Rightarrow> chat_run option" where
  "prior_run actor_id attempt_id db =
     find (\<lambda>r. rn_actor_id r = actor_id \<and> rn_attempt_id r = attempt_id) (chat_runs db)"

definition admit_chat_run ::
    "(json \<Rightarrow> string) \<Rightarrow> (string \<Rightarrow> json result) \<Rightarrow> clock \<Rightarrow> chat_ids \<Rightarrow> int \<Rightarrow> chat_request \<Rightarrow> chat_user \<Rightarrow> string \<Rightarrow>
     chat_db \<Rightarrow> (chat_claim \<times> chat_db) result" where
  "admit_chat_run digest snapshot clock ids max_inflight request user owner_id db =
     (if \<not> (1 \<le> length owner_id \<and> length owner_id \<le> 128) then Inl ValueError
      else bindr (request_attempt (id_attempt ids) request) (\<lambda>attempt_id.
        let hash = request_digest digest request attempt_id in
        bindr (lock_capacity_resource chat_resource max_inflight db) (\<lambda>(_, db1).
        case prior_run (cu_user_id user) attempt_id db1 of
          Some prior \<Rightarrow> if rn_request_hash prior \<noteq> hash then Inl ValueError else Inl ChatRunConflict
        | None \<Rightarrow>
           bindr (session_writable (rq_session_id request) user db1) (\<lambda>_.
           bindr (stop_runs (\<lambda>i. clock (i + 3)) (\<lambda>row. run_message row user)
                   (previous_runs (rq_session_id request) user db1) db1) (\<lambda>db2.
           bindr (reserve_capacity (clock 0) (id_slot ids) chat_resource (id_run ids) max_inflight 30 None False db2)
             (\<lambda>(capacity, db3).
           case capacity of
             None \<Rightarrow> Inl ChatCapacityExceeded
           | Some capacity \<Rightarrow>
              bindr (begin_attempt snapshot (clock 1) (id_session ids) (id_question ids) (id_answer ids)
                       (rq_session_id request) user (rq_query request) attempt_id (rq_response_mode request)
                       (rq_scenario_id request) db3) (\<lambda>(ref, db4).
                if ar_existing ref then Inl ChatRunConflict
                else let row = admitted_run ids user attempt_id hash owner_id ref capacity (clock 2)
                     in Inr (claim_of_run row, db4\<lparr>chat_runs := chat_runs db4 @ [row]\<rparr>))))))))"

subsection \<open>Operations of the owner and of the user\<close>

definition renew_chat_run :: "clock \<Rightarrow> chat_claim \<Rightarrow> chat_db \<Rightarrow> (chat_claim \<times> chat_db) result" where
  "renew_chat_run clock claim db =
     bindr (locked_run clock claim db) (\<lambda>(row, now, db1).
       bindr (slot_token row db1) (\<lambda>token.
         case renew_capacity (clock 2) token 30 db1 of
           Inl e \<Rightarrow> Inl (if e = CoordinationOwnershipLost then ChatRunOwnershipLost else e)
         | Inr (capacity, db2) \<Rightarrow>
             let row' = row\<lparr>rn_lease_until := cl_expires_at capacity\<rparr>
             in Inr (claim_of_run row', put_run row' db2)))"

definition finish_chat_run :: "clock \<Rightarrow> chat_claim \<Rightarrow> chat_user \<Rightarrow> string \<Rightarrow> string \<Rightarrow> chat_db \<Rightarrow> chat_db result" where
  "finish_chat_run clock claim user status answer db =
     (if status \<notin> set [''completed'', ''stopped'', ''failed''] then Inl ValueError
      else bindr (locked_run clock claim db) (\<lambda>(row, now, db1).
           bindr (run_message row user db1) (\<lambda>message.
           bindr (locked_run (\<lambda>i. clock (i + 2)) claim db1) (\<lambda>(row, now, db2).
           bindr (finish_message message status answer) (\<lambda>message'.
             release_run (clock 4) (clock 5) row
               (put_run (row\<lparr>rn_status := status, rn_finished_at := Some now\<rparr>) (put_message message' db2)))))))"

definition find_run :: "string \<Rightarrow> string \<Rightarrow> string \<Rightarrow> chat_db \<Rightarrow> chat_run option" where
  "find_run actor_id session_id attempt_id db =
     find (\<lambda>r. rn_actor_id r = actor_id \<and> rn_session_id r = session_id \<and> rn_attempt_id r = attempt_id) (chat_runs db)"

definition cancel_chat_run :: "clock \<Rightarrow> string \<Rightarrow> string \<Rightarrow> chat_user \<Rightarrow> chat_db \<Rightarrow> (bool \<times> chat_db) result" where
  "cancel_chat_run clock session_id attempt_text user db =
     (case uuid_text attempt_text of
        None \<Rightarrow> Inl ValueError
      | Some attempt_id \<Rightarrow>
         if find_run (cu_user_id user) session_id attempt_id db = None then Inr (False, db)
         else bindr (resource_lock db) (\<lambda>db1.
           case find_run (cu_user_id user) session_id attempt_id db1 of
             None \<Rightarrow> Inr (False, db1)
           | Some row \<Rightarrow>
               bindr (run_message row user db1) (\<lambda>message.
                 if rn_status row = ''running''
                 then bindr (stop_run clock row message db1) (\<lambda>db2. Inr (True, db2))
                 else Inr (True, db1))))"

definition run_for_ref :: "attempt_ref \<Rightarrow> chat_user \<Rightarrow> chat_db \<Rightarrow> chat_run option result" where
  "run_for_ref ref user db = (case get_by rn_message_id (ar_message_id ref) (chat_runs db) of
       None \<Rightarrow> if ar_run_id ref \<noteq> None then Inl ChatRunOwnershipLost else Inr None
     | Some row \<Rightarrow>
         if ar_run_id ref \<noteq> Some (rn_id row) \<or> ar_run_owner ref \<noteq> Some (rn_owner_id row)
            \<or> ar_run_fence ref \<noteq> Some (rn_fence row) \<or> ar_session_id ref \<noteq> rn_session_id row
            \<or> ar_attempt_id ref \<noteq> rn_attempt_id row \<or> rn_actor_id row \<noteq> cu_user_id user
         then Inl ChatRunOwnershipLost
         else Inr (Some row))"

definition guard_history_write :: "clock \<Rightarrow> attempt_ref \<Rightarrow> chat_user \<Rightarrow> bool \<Rightarrow> chat_db \<Rightarrow> unit result" where
  "guard_history_write clock ref user terminal_draft db =
     bindr (run_for_ref ref user db) (\<lambda>found.
       case found of
         None \<Rightarrow> Inr ()
       | Some row \<Rightarrow>
           if \<not> terminal_draft then bindr (locked_run clock (claim_of_run row) db) (\<lambda>_. Inr ())
           else bindr (resource_lock db) (\<lambda>db1.
             case (case ar_run_id ref of None \<Rightarrow> None | Some i \<Rightarrow> get_by rn_id i (chat_runs db1)) of
               None \<Rightarrow> Inl ChatRunOwnershipLost
             | Some row \<Rightarrow>
                 if Some (rn_owner_id row) \<noteq> ar_run_owner ref \<or> Some (rn_fence row) \<noteq> ar_run_fence ref
                    \<or> rn_status row \<notin> set [''stopped'', ''failed'']
                 then Inl ChatRunOwnershipLost else Inr ()))"

definition finish_managed_attempt ::
    "clock \<Rightarrow> attempt_ref \<Rightarrow> chat_user \<Rightarrow> string \<Rightarrow> string \<Rightarrow> chat_db \<Rightarrow> (bool option \<times> chat_db) result" where
  "finish_managed_attempt clock ref user status answer db =
     bindr (run_for_ref ref user db) (\<lambda>found.
       case found of
         None \<Rightarrow> Inr (None, db)
       | Some row \<Rightarrow>
           (case finish_chat_run clock (claim_of_run row) user status answer db of
              Inr db' \<Rightarrow> Inr (Some True, db')
            | Inl e \<Rightarrow> if e = ChatRunOwnershipLost then Inr (Some False, db) else Inl e))"

definition lock_chat_history_purge :: "chat_db \<Rightarrow> chat_db result" where
  "lock_chat_history_purge db =
     (if get_by cr_resource chat_resource (resources db) \<noteq> None then resource_lock db else Inr db)"

text \<open>The rows of a session, its messages checked against the run, as both bulk endings do.\<close>

definition managed_message :: "string \<Rightarrow> chat_run \<Rightarrow> chat_db \<Rightarrow> chat_message result" where
  "managed_message session_id row db = (case get_by cm_id (rn_message_id row) (messages db) of
       None \<Rightarrow> Inl ChatRunOwnershipLost
     | Some message \<Rightarrow>
         if cm_session_id message \<noteq> session_id \<or> attempt_id_of message \<noteq> Some (rn_attempt_id row)
         then Inl ChatRunOwnershipLost else Inr message)"

definition cancel_chat_session :: "clock \<Rightarrow> string \<Rightarrow> string option \<Rightarrow> chat_db \<Rightarrow> chat_db result" where
  "cancel_chat_session clock session_id user_id db =
     (case get_by ct_id session_id (sessions db) of
        None \<Rightarrow> Inr db
      | Some thread \<Rightarrow>
          let actor_id = (case truthy user_id of Some u \<Rightarrow> u | None \<Rightarrow> ''anonymous'') in
          if ct_user_id thread \<noteq> actor_id then Inl ChatOwnershipError
          else bindr (lock_chat_history_purge db) (\<lambda>db1.
            stop_runs clock (managed_message session_id) (running_runs session_id actor_id db1) db1))"

definition expired_runs :: "time \<Rightarrow> chat_db \<Rightarrow> chat_run list" where
  "expired_runs now db = take 25 (order_by (\<lambda>r. (rn_lease_until r, rn_id r))
     (filter (\<lambda>r. rn_status r = ''running'' \<and> rn_lease_until r \<le> now) (chat_runs db)))"

definition reconciled_run :: "time \<Rightarrow> chat_run \<Rightarrow> chat_run" where
  "reconciled_run now row = row\<lparr>rn_cancel_requested := True, rn_status := ''interrupted'', rn_finished_at := Some now\<rparr>"

definition reconcile_run :: "time \<Rightarrow> time \<Rightarrow> time \<Rightarrow> chat_run \<Rightarrow> chat_db \<Rightarrow> chat_db result" where
  "reconcile_run now now1 now2 row db =
     (case get_by ct_id (rn_session_id row) (sessions db) of
        None \<Rightarrow> Inl ChatRunOwnershipLost
      | Some thread \<Rightarrow>
          if ct_user_id thread \<noteq> rn_actor_id row then Inl ChatRunOwnershipLost
          else bindr (managed_message (rn_session_id row) row db) (\<lambda>message.
            bindr (if attempt_status_of message = Some ''incomplete''
                   then bindr (finish_message message ''stopped'' []) (\<lambda>m. Inr (put_message m db))
                   else Inr db) (\<lambda>db1.
              release_run now1 now2 row (put_run (reconciled_run now row) db1))))"

fun reconcile_rows :: "time \<Rightarrow> clock \<Rightarrow> chat_run list \<Rightarrow> chat_db \<Rightarrow> chat_db result" where
  "reconcile_rows now clock [] db = Inr db"
| "reconcile_rows now clock (row # rows) db =
     bindr (reconcile_run now (clock 0) (clock 1) row db) (\<lambda>db'.
       reconcile_rows now (\<lambda>i. clock (i + 2)) rows db')"

text \<open>The result says whether a full page was handled and the work defers itself.\<close>

definition reconcile_chat_runs :: "clock \<Rightarrow> string option \<Rightarrow> (string \<times> json) list \<Rightarrow> chat_db \<Rightarrow> (bool \<times> chat_db) result" where
  "reconcile_chat_runs clock doc_id payload db =
     (if doc_id \<noteq> None \<or> payload \<noteq> [] then Inl ValueError
      else if get_by cr_resource chat_resource (resources db) = None then Inr (False, db)
      else bindr (resource_lock db) (\<lambda>db1.
        let rows = expired_runs (clock 0) db1 in
        bindr (reconcile_rows (clock 0) (\<lambda>i. clock (i + 1)) rows db1) (\<lambda>db2.
          Inr (length rows = 25, db2))))"

subsection \<open>What every operation keeps\<close>

definition settled :: "chat_message \<Rightarrow> bool" where
  "settled m \<longleftrightarrow> attempt_status_of m \<noteq> Some ''incomplete''"

definition terminal :: "chat_run \<Rightarrow> bool" where
  "terminal r \<longleftrightarrow> rn_status r \<noteq> ''running''"

definition rn_key :: "chat_run \<Rightarrow> string \<times> string \<times> string \<times> string \<times> int" where
  "rn_key r = (rn_id r, rn_actor_id r, rn_attempt_id r, rn_session_id r, rn_message_id r)"

definition rn_attempt :: "chat_run \<Rightarrow> string \<times> string" where
  "rn_attempt r = (rn_actor_id r, rn_attempt_id r)"

definition chat_inv :: "chat_db \<Rightarrow> bool" where
  "chat_inv db \<longleftrightarrow> unique_key cm_id (messages db) \<and> unique_key rn_id (chat_runs db) \<and>
     unique_key rn_attempt (chat_runs db) \<and>
     (\<forall>r\<in>set (chat_runs db). \<forall>s\<in>set (chat_runs db). \<not> terminal r \<and> \<not> terminal s \<and>
        rn_session_id r = rn_session_id s \<and> rn_actor_id r = rn_actor_id s \<longrightarrow> r = s)"

text \<open>No row is added, identities stay, and what has ended is not touched.\<close>

definition keeps :: "chat_db \<Rightarrow> chat_db \<Rightarrow> bool" where
  "keeps db db' \<longleftrightarrow> map cm_id (messages db') = map cm_id (messages db) \<and>
     map rn_key (chat_runs db') = map rn_key (chat_runs db) \<and>
     (\<forall>m\<in>set (messages db). settled m \<longrightarrow> m \<in> set (messages db')) \<and>
     (\<forall>r\<in>set (chat_runs db). terminal r \<longrightarrow> r \<in> set (chat_runs db'))"

lemma keeps_refl [simp]: "keeps db db"
  by (simp add: keeps_def)

lemma keeps_trans: "keeps db db1 \<Longrightarrow> keeps db1 db2 \<Longrightarrow> keeps db db2"
  by (simp add: keeps_def)

lemma keeps_same: "messages db' = messages db \<Longrightarrow> chat_runs db' = chat_runs db \<Longrightarrow> keeps db db'"
  by (simp add: keeps_def)

lemma map_comp_same: "map g xs = map g ys \<Longrightarrow> map (f \<circ> g) xs = map (f \<circ> g) ys"
  by (metis list.map_comp)

lemma keys_same:
  assumes "map rn_key (chat_runs db') = map rn_key (chat_runs db)"
  shows "map rn_id (chat_runs db') = map rn_id (chat_runs db)"
    and "map rn_attempt (chat_runs db') = map rn_attempt (chat_runs db)"
    and "\<And>r'. r' \<in> set (chat_runs db') \<Longrightarrow> \<exists>r\<in>set (chat_runs db). rn_key r = rn_key r'"
proof -
  have "fst \<circ> rn_key = rn_id" "(\<lambda>(i, a, t, s, m). (a, t)) \<circ> rn_key = rn_attempt"
    by (auto simp: rn_key_def rn_attempt_def)
  with map_comp_same [OF assms, of fst] map_comp_same [OF assms, of "\<lambda>(i, a, t, s, m). (a, t)"]
  show "map rn_id (chat_runs db') = map rn_id (chat_runs db)"
    "map rn_attempt (chat_runs db') = map rn_attempt (chat_runs db)" by simp_all
  show "\<exists>r\<in>set (chat_runs db). rn_key r = rn_key r'" if "r' \<in> set (chat_runs db')" for r'
    using assms that by (metis (no_types, opaque_lifting) image_iff image_set)
qed

lemma keeps_running:
  assumes "keeps db db'" and "chat_inv db" and "r' \<in> set (chat_runs db')" and "\<not> terminal r'"
  obtains r where "r \<in> set (chat_runs db)" "rn_key r = rn_key r'" "\<not> terminal r"
proof -
  from assms(1) have keys: "map rn_key (chat_runs db') = map rn_key (chat_runs db)"
    and stays: "\<And>r. r \<in> set (chat_runs db) \<Longrightarrow> terminal r \<Longrightarrow> r \<in> set (chat_runs db')"
    by (auto simp: keeps_def)
  obtain r where r: "r \<in> set (chat_runs db)" "rn_key r = rn_key r'" using keys_same(3) [OF keys assms(3)] by blast
  have "unique_key rn_id (chat_runs db')"
    using assms(2) by (simp add: chat_inv_def unique_key_def keys_same(1) [OF keys])
  then have "terminal r \<Longrightarrow> r = r'"
    using get_by_self [of rn_id "chat_runs db'"] stays [OF r(1)] assms(3) r(2)
    by (metis option.inject prod.inject rn_key_def)
  with r assms(4) that show thesis by blast
qed

lemma keeps_inv:
  assumes k: "keeps db db'" and inv: "chat_inv db"
  shows "chat_inv db'"
proof -
  from k have keys: "map rn_key (chat_runs db') = map rn_key (chat_runs db)"
    and ids: "map cm_id (messages db') = map cm_id (messages db)" by (auto simp: keeps_def)
  have u: "unique_key cm_id (messages db')" "unique_key rn_id (chat_runs db')" "unique_key rn_attempt (chat_runs db')"
    using inv by (simp_all add: chat_inv_def unique_key_def ids keys_same(1,2) [OF keys])
  have "r' = s'" if "r' \<in> set (chat_runs db')" "s' \<in> set (chat_runs db')" "\<not> terminal r'" "\<not> terminal s'"
      "rn_session_id r' = rn_session_id s'" "rn_actor_id r' = rn_actor_id s'" for r' s'
  proof -
    note h = that
    obtain r where r: "r \<in> set (chat_runs db)" "rn_key r = rn_key r'" "\<not> terminal r"
      by (rule keeps_running [OF k inv h(1,3)])
    obtain s where s: "s \<in> set (chat_runs db)" "rn_key s = rn_key s'" "\<not> terminal s"
      by (rule keeps_running [OF k inv h(2,4)])
    from r s h(5,6) inv have "r = s" by (auto simp: chat_inv_def rn_key_def)
    then have "rn_id r' = rn_id s'" using r s by (simp add: rn_key_def)
    then show ?thesis using get_by_self [OF u(2)] h(1,2) by (metis option.inject)
  qed
  with u show ?thesis by (auto simp: chat_inv_def)
qed

lemma put_keeps_other:
  "unique_key key rows \<Longrightarrow> old \<in> set rows \<Longrightarrow> key old = key row \<Longrightarrow> r \<in> set rows \<Longrightarrow> r \<noteq> old \<Longrightarrow>
   r \<in> set (put_by key row rows)"
  by (rule put_by_keeps) (metis get_by_self option.inject)+

lemma keeps_put_message:
  assumes "chat_inv db" and "m \<in> set (messages db)" and "\<not> settled m" and "cm_id m' = cm_id m"
  shows "keeps db (put_message m' db)"
  using assms put_keeps_other [of cm_id "messages db" m m']
  by (auto simp: keeps_def put_message_def chat_inv_def)

lemma map_put_by:
  "unique_key key rows \<Longrightarrow> old \<in> set rows \<Longrightarrow> key old = key row \<Longrightarrow> f old = f row \<Longrightarrow> map f (put_by key row rows) = map f rows"
  unfolding put_by_def update_where_def by (auto simp: unique_key_def distinct_map inj_on_def)

lemma keeps_put_run:
  assumes "chat_inv db" and "r \<in> set (chat_runs db)" and "\<not> terminal r" and "rn_key r' = rn_key r"
  shows "keeps db (put_run r' db)"
  using assms put_keeps_other [of rn_id "chat_runs db" r r'] map_put_by [of rn_id "chat_runs db" r r' rn_key]
  by (auto simp: keeps_def put_run_def chat_inv_def) (auto simp: rn_key_def)

lemma release_capacity_rows:
  "release_capacity now token db = Inr db' \<Longrightarrow> messages db' = messages db \<and> chat_runs db' = chat_runs db \<and> sessions db' = sessions db"
  by (auto simp: release_capacity_def)

lemma release_run_rows:
  "release_run now now' row db = Inr db' \<Longrightarrow> messages db' = messages db \<and> chat_runs db' = chat_runs db \<and> sessions db' = sessions db"
  by (auto simp: release_run_def dest: release_capacity_rows split: sum.splits if_split_asm)

lemma lock_rows:
  "lock_capacity_resource res limit db = Inr (p, db') \<Longrightarrow>
   messages db' = messages db \<and> chat_runs db' = chat_runs db \<and> sessions db' = sessions db"
  by (auto simp: lock_capacity_resource_def Let_def split: option.splits if_splits)

lemma resource_lock_rows:
  "resource_lock db = Inr db' \<Longrightarrow> messages db' = messages db \<and> chat_runs db' = chat_runs db \<and> sessions db' = sessions db"
  by (auto simp: resource_lock_def dest: lock_rows split: option.splits)

lemma reserve_rows:
  "reserve_capacity now i res owner limit ttl hold rr db = Inr (c, db') \<Longrightarrow>
   messages db' = messages db \<and> chat_runs db' = chat_runs db \<and> sessions db' = sessions db"
  by (auto simp: reserve_capacity_def Let_def dest!: lock_rows split: if_split_asm)

lemma locked_run_Inr:
  assumes "locked_run clock claim db = Inr (row, now, db')"
  shows "row \<in> set (chat_runs db')" "rn_id row = cc_run_id claim" "\<not> terminal row"
    "messages db' = messages db" "chat_runs db' = chat_runs db" "sessions db' = sessions db"
  using assms by (auto simp: locked_run_def terminal_def dest: resource_lock_rows get_by_SomeD
      split: option.splits if_split_asm)

lemma locked_run_lock: "locked_run clock claim db = Inr (row, now, db') \<Longrightarrow> resource_lock db = Inr db'"
  by (auto simp: locked_run_def split: option.split_asm if_split_asm)

lemma finish_message_Inr:
  assumes "finish_message m status answer = Inr m'"
  shows "\<not> settled m" "cm_id m' = cm_id m" "cm_session_id m' = cm_session_id m"
    "attempt_status_of m' = Some status" "cm_content m' = (if status = ''completed'' then answer else [])"
  using assms
  by (auto simp: finish_message_def settled_def with_status_def attempt_status_of_def split: if_split_asm option.splits)

lemma attempt_message_in: "attempt_message ref user db = Inr m \<Longrightarrow> m \<in> set (messages db) \<and> cm_id m = ar_message_id ref"
  by (auto simp: attempt_message_def dest: get_by_SomeD split: option.splits if_split_asm)

lemma run_message_in: "run_message row user db = Inr m \<Longrightarrow> m \<in> set (messages db) \<and> cm_id m = rn_message_id row"
  using attempt_message_in [of "cc_ref (claim_of_run row)" user db m]
  by (auto simp: run_message_def claim_of_run_def split: if_split_asm)

lemma managed_message_in: "managed_message s row db = Inr m \<Longrightarrow> m \<in> set (messages db) \<and> cm_id m = rn_message_id row"
  by (auto simp: managed_message_def dest: get_by_SomeD split: option.splits if_split_asm)

text \<open>Ending a running row whose message is still incomplete.\<close>

lemma keeps_end:
  assumes inv: "chat_inv db" and m: "m \<in> set (messages db)" "\<not> settled m" "cm_id m' = cm_id m"
    and r: "row \<in> set (chat_runs db)" "\<not> terminal row" "rn_key row' = rn_key row"
  shows "keeps db (put_run row' (put_message m' db))"
proof -
  have k: "keeps db (put_message m' db)" using keeps_put_message [OF inv m] .
  have "keeps (put_message m' db) (put_run row' (put_message m' db))"
    by (rule keeps_put_run [OF keeps_inv [OF k inv] _ r(2,3)]) (use r(1) in \<open>simp add: put_message_def\<close>)
  with k show ?thesis by (rule keeps_trans)
qed

lemma stop_run_Inr:
  assumes s: "stop_run clock row m db = Inr db'" and inv: "chat_inv db"
    and "m \<in> set (messages db)" and "row \<in> set (chat_runs db)" and "\<not> terminal row"
  shows "keeps db db'" and "chat_runs db' = put_by rn_id (stopped_run (clock 0) row) (chat_runs db)"
    and "sessions db' = sessions db"
    and "\<exists>m'\<in>set (messages db'). cm_id m' = cm_id m \<and> settled m' \<and> cm_content m' = []"
proof -
  from s obtain m' where f: "finish_message m ''stopped'' [] = Inr m'"
    and r: "release_run (clock 1) (clock 2) row (put_run (stopped_run (clock 0) row) (put_message m' db)) = Inr db'"
    by (auto simp: stop_run_def)
  note rows = release_run_rows [OF r]
  have k: "keeps db (put_run (stopped_run (clock 0) row) (put_message m' db))"
    by (rule keeps_end [OF inv assms(3) finish_message_Inr(1,2) [OF f] assms(4,5)]) (simp add: rn_key_def stopped_run_def)
  with rows show "keeps db db'" by (simp add: keeps_def)
  show "chat_runs db' = put_by rn_id (stopped_run (clock 0) row) (chat_runs db)" "sessions db' = sessions db"
    using rows by (simp_all add: put_run_def put_message_def)
  have "m' \<in> set (messages db')"
    using rows row_in_put_by [of cm_id m' "messages db"] finish_message_Inr(2) [OF f] assms(3)
    by (auto simp: put_run_def put_message_def)
  then show "\<exists>m'\<in>set (messages db'). cm_id m' = cm_id m \<and> settled m' \<and> cm_content m' = []"
    using finish_message_Inr [OF f] by (auto simp: settled_def intro!: bexI [of _ m'])
qed

lemma stopped_run_simps [simp]:
  "rn_id (stopped_run t r) = rn_id r" "terminal (stopped_run t r)" "rn_key (stopped_run t r) = rn_key r"
  by (simp_all add: stopped_run_def terminal_def rn_key_def)

lemma stop_runs_rest:
  assumes "set (row # rows) \<subseteq> set (chat_runs db)" and "distinct (map rn_id (row # rows))"
  shows "set rows \<subseteq> set (put_by rn_id (stopped_run t row) (chat_runs db))"
proof
  fix r assume "r \<in> set rows"
  then have "r \<in> set (chat_runs db)" "rn_id r \<in> rn_id ` set rows" using assms(1) by auto
  moreover from this(2) have "rn_id r \<noteq> rn_id row" using assms(2) by auto
  ultimately show "r \<in> set (put_by rn_id (stopped_run t row) (chat_runs db))" by (simp add: put_by_keeps)
qed

lemma stop_runs_Inr:
  assumes "stop_runs clock find_message rows db = Inr db'" and "chat_inv db"
    and "\<And>row db m. find_message row db = Inr m \<Longrightarrow> m \<in> set (messages db)"
    and "set rows \<subseteq> set (chat_runs db)" and "\<forall>r\<in>set rows. \<not> terminal r" and "distinct (map rn_id rows)"
  shows "keeps db db' \<and> sessions db' = sessions db \<and> (\<forall>r\<in>set (chat_runs db'). rn_id r \<in> rn_id ` set rows \<longrightarrow> terminal r)"
  using assms
proof (induction rows arbitrary: clock db)
  case (Cons row rows)
  from Cons.prems(1) obtain m db1 where m: "find_message row db = Inr m" and s: "stop_run clock row m db = Inr db1"
    and rest: "stop_runs (\<lambda>i. clock (i + 3)) find_message rows db1 = Inr db'" by auto
  have row: "row \<in> set (chat_runs db)" "\<not> terminal row" using Cons.prems(4,5) by auto
  note one = stop_run_Inr [OF s Cons.prems(2) Cons.prems(3) [OF m] row]
  have inv1: "chat_inv db1" using keeps_inv [OF one(1) Cons.prems(2)] .
  have in1: "set rows \<subseteq> set (chat_runs db1)"
    using stop_runs_rest [OF Cons.prems(4,6), of "clock 0"] unfolding one(2) .
  have IH: "keeps db1 db' \<and> sessions db' = sessions db1 \<and> (\<forall>r\<in>set (chat_runs db'). rn_id r \<in> rn_id ` set rows \<longrightarrow> terminal r)"
    by (rule Cons.IH [OF rest inv1 Cons.prems(3) in1]) (use Cons.prems in auto)
  have "stopped_run (clock 0) row \<in> set (chat_runs db1)"
    unfolding one(2) by (rule row_in_put_by) (use row in auto)
  then have "stopped_run (clock 0) row \<in> set (chat_runs db')" using IH by (simp add: keeps_def)
  moreover have "unique_key rn_id (chat_runs db')" using keeps_inv [OF _ inv1] IH by (auto simp: chat_inv_def)
  ultimately have "terminal r" if "r \<in> set (chat_runs db')" "rn_id r = rn_id row" for r
    using that get_by_self [of rn_id "chat_runs db'"] by (metis option.inject stopped_run_simps(1,2))
  then show ?case using IH one(1,3) keeps_trans by auto
qed simp

lemma running_runs_props:
  "chat_inv db \<Longrightarrow> set (running_runs s a db) = {r \<in> set (chat_runs db). rn_session_id r = s \<and> rn_actor_id r = a \<and> \<not> terminal r}"
  "chat_inv db \<Longrightarrow> distinct (map rn_id (running_runs s a db))"
proof -
  show "set (running_runs s a db) = {r \<in> set (chat_runs db). rn_session_id r = s \<and> rn_actor_id r = a \<and> \<not> terminal r}"
    by (auto simp: running_runs_def terminal_def)
  assume "chat_inv db"
  then have "distinct (map rn_id (filter (\<lambda>r. rn_session_id r = s \<and> rn_actor_id r = a \<and> rn_status r = ''running'') (chat_runs db)))"
    by (auto simp: chat_inv_def unique_key_def intro: distinct_map_filter)
  then show "distinct (map rn_id (running_runs s a db))" by (simp add: running_runs_def order_by_def distinct_map)
qed

subsection \<open>Each operation\<close>

lemma scan_attempts_rel:
  "scan_attempts a q mo sc ms = Inr (ms', found) \<Longrightarrow>
   list_all2 (\<lambda>m m'. m' = m \<or> \<not> settled m \<and> cm_id m' = cm_id m) ms ms'"
proof (induction ms arbitrary: ms')
  case (Cons m ms)
  then show ?case
    by (auto simp: Let_def settled_def with_status_def list_all2_refl list.rel_refl
        split: if_split_asm option.splits)
qed simp

lemma list_all2_source: "list_all2 P xs ys \<Longrightarrow> y \<in> set ys \<Longrightarrow> \<exists>x\<in>set xs. P x y"
  by (induction rule: list_all2_induct) auto

lemma fold_put_keeps:
  assumes "x \<in> set rows" and "\<forall>m'\<in>set ms'. key m' = key x \<longrightarrow> m' = x"
  shows "x \<in> set (fold (put_by key) ms' rows)"
  using assms
proof (induction ms' arbitrary: rows)
  case (Cons m' ms')
  have "x \<in> set (put_by key m' rows)"
  proof (cases "key m' = key x")
    case True
    then have "m' = x" using Cons.prems(2) by simp
    then show ?thesis using Cons.prems(1) row_in_put_by [of key x rows] by simp
  next
    case False
    then show ?thesis using Cons.prems(1) by (intro put_by_keeps) auto
  qed
  with Cons show ?case by simp
qed simp

lemma map_key_fold_put [simp]: "map key (fold (put_by key) ms rows) = map key rows"
  by (induction ms arbitrary: rows) simp_all

text \<open>\<open>begin_attempt\<close> keeps what is settled, and a new attempt appends its two messages.\<close>

lemma begin_attempt_Inr:
  assumes b: "begin_attempt snapshot now ns m1 m2 sid user q a mode sc db = Inr (ref, db')"
    and new: "\<not> ar_existing ref" and u: "unique_key cm_id (messages db)"
  obtains ms x where "messages db' = ms @ [question now m1 (ar_session_id ref) q, x]"
    "cm_id x = m2" "\<not> settled x" "cm_session_id x = ar_session_id ref"
    "map cm_id ms = map cm_id (messages db)" "\<forall>m\<in>set (messages db). settled m \<longrightarrow> m \<in> set ms"
    "chat_runs db' = chat_runs db" "slots db' = slots db" "resources db' = resources db"
    "ar_message_id ref = m2" "ar_attempt_id ref = a"
    "ar_session_id ref = (case truthy sid of Some s \<Rightarrow> s | None \<Rightarrow> ns)"
proof -
  let ?s = "case truthy sid of Some s \<Rightarrow> s | None \<Rightarrow> ns"
  have keep: "\<forall>m\<in>set (messages db). settled m \<longrightarrow> m \<in> set (fold (put_by cm_id) ms' (messages db))"
    if "scan_attempts a q mode sc (order_by cm_id (filter (\<lambda>m. cm_session_id m = ?s) (messages db))) = Inr (ms', found)"
    for ms' found
  proof (intro ballI impI, rule fold_put_keeps)
    fix m assume m: "m \<in> set (messages db)" "settled m"
    show "m \<in> set (messages db)" by fact
    show "\<forall>m'\<in>set ms'. cm_id m' = cm_id m \<longrightarrow> m' = m"
    proof (intro ballI impI)
      fix m' assume m': "m' \<in> set ms'" "cm_id m' = cm_id m"
      from list_all2_source [OF scan_attempts_rel [OF that] m'(1)] obtain m0 where m0: "m0 \<in> set (messages db)"
        "m' = m0 \<or> \<not> settled m0 \<and> cm_id m' = cm_id m0"
        by auto
      then have "cm_id m0 = cm_id m" using m'(2) by auto
      then have "m0 = m" using u m0(1) m(1) by (metis get_by_self option.inject)
      with m0(2) m(2) show "m' = m" by simp
    qed
  qed
  show thesis
  proof (cases "get_by ct_id ?s (sessions db)")
    case None
    with b obtain md where "scenario_metadata snapshot sc = Inr md" and
      "ref = new_ref ?s m2 a ''incomplete'' False"
      "messages db' = messages db @ [question now m1 ?s q, placeholder now m2 ?s a q mode (truthy sc) md]"
      "chat_runs db' = chat_runs db" "slots db' = slots db" "resources db' = resources db"
      by (auto simp: begin_attempt_def Let_def)
    then show thesis
      by (intro that [of "messages db" "placeholder now m2 ?s a q mode (truthy sc) md"])
         (auto simp: new_ref_def placeholder_def settled_def attempt_status_of_def)
  next
    case (Some sess)
    with b obtain ms' found where scan: "scan_attempts a q mode sc (order_by cm_id (filter (\<lambda>m. cm_session_id m = ?s) (messages db))) = Inr (ms', found)"
      and res: "(case found of
                 Some m \<Rightarrow> Inr (new_ref ?s (cm_id m) a (case attempt_status_of m of Some s \<Rightarrow> s | None \<Rightarrow> ''incomplete'') True,
                    db\<lparr>messages := fold (put_by cm_id) ms' (messages db)\<rparr>)
               | None \<Rightarrow> bindr (scenario_metadata snapshot sc) (\<lambda>metadata.
            Inr (new_ref ?s m2 a ''incomplete'' False,
                 db\<lparr>sessions := update_where (\<lambda>s. ct_id s = ?s) (\<lambda>s. s\<lparr>ct_updated_at := now\<rparr>) (sessions db),
                     messages := fold (put_by cm_id) ms' (messages db) @ [question now m1 ?s q,
                       placeholder now m2 ?s a q mode (truthy sc) metadata]\<rparr>))) = Inr (ref, db')"
      by (auto simp: begin_attempt_def Let_def split: if_split_asm)
    with new obtain md where "scenario_metadata snapshot sc = Inr md" and
      "ref = new_ref ?s m2 a ''incomplete'' False"
      "messages db' = fold (put_by cm_id) ms' (messages db) @ [question now m1 ?s q, placeholder now m2 ?s a q mode (truthy sc) md]"
      "chat_runs db' = chat_runs db" "slots db' = slots db" "resources db' = resources db"
      by (auto simp: new_ref_def split: option.splits)
    then show thesis
      by (intro that [of "fold (put_by cm_id) ms' (messages db)" "placeholder now m2 ?s a q mode (truthy sc) md"])
         (use keep [OF scan] in \<open>auto simp: new_ref_def placeholder_def settled_def attempt_status_of_def\<close>)
  qed
qed

text \<open>What an admission does to the rows; its ids are new.\<close>

definition fresh_ids :: "chat_ids \<Rightarrow> chat_db \<Rightarrow> bool" where
  "fresh_ids ids db \<longleftrightarrow> id_run ids \<notin> rn_id ` set (chat_runs db) \<and> id_session ids \<notin> rn_session_id ` set (chat_runs db) \<and>
     get_by cs_id (id_slot ids) (slots db) = None \<and>
     id_question ids \<notin> cm_id ` set (messages db) \<and> id_answer ids \<notin> cm_id ` set (messages db) \<and>
     id_question ids \<noteq> id_answer ids"

lemma admit_Inr:
  assumes a: "admit_chat_run digest snapshot clock ids limit request user owner db = Inr (claim, db')"
    and inv: "chat_inv db"
  obtains db1 db2 db3 db4 policy capacity ref attempt ms x row where
    "lock_capacity_resource chat_resource limit db = Inr (policy, db1)"
    "stop_runs (\<lambda>i. clock (i + 3)) (\<lambda>row. run_message row user) (previous_runs (rq_session_id request) user db1) db1 = Inr db2"
    "keeps db db2" "\<forall>s. truthy (rq_session_id request) = Some s \<longrightarrow>
       (\<forall>r\<in>set (chat_runs db2). rn_session_id r = s \<and> rn_actor_id r = cu_user_id user \<longrightarrow> terminal r)"
    "reserve_capacity (clock 0) (id_slot ids) chat_resource (id_run ids) limit 30 None False db2 = Inr (Some capacity, db3)"
    "slots db4 = slots db3" "resources db4 = resources db3" "chat_runs db4 = chat_runs db2"
    "messages db4 = ms @ [question (clock 1) (id_question ids) (rn_session_id row) (rq_query request), x]"
    "cm_id x = id_answer ids" "\<not> settled x"
    "map cm_id ms = map cm_id (messages db)" "\<forall>m\<in>set (messages db). settled m \<longrightarrow> m \<in> set ms"
    "row = admitted_run ids user attempt (request_digest digest request attempt) owner ref capacity (clock 2)"
    "rn_session_id row = (case truthy (rq_session_id request) of Some s \<Rightarrow> s | None \<Rightarrow> id_session ids)"
    "rn_message_id row = id_answer ids"
    "request_attempt (id_attempt ids) request = Inr attempt" "prior_run (cu_user_id user) attempt db = None"
    "claim = claim_of_run row" "db' = db4\<lparr>chat_runs := chat_runs db4 @ [row]\<rparr>"
proof -
  from a obtain attempt policy db1 where at: "request_attempt (id_attempt ids) request = Inr attempt"
    and lock: "lock_capacity_resource chat_resource limit db = Inr (policy, db1)"
    and prior: "prior_run (cu_user_id user) attempt db1 = None"
    and rest: "bindr (stop_runs (\<lambda>i. clock (i + 3)) (\<lambda>row. run_message row user)
                   (previous_runs (rq_session_id request) user db1) db1) (\<lambda>db2.
           bindr (reserve_capacity (clock 0) (id_slot ids) chat_resource (id_run ids) limit 30 None False db2)
             (\<lambda>(capacity, db3).
           case capacity of
             None \<Rightarrow> Inl ChatCapacityExceeded
           | Some capacity \<Rightarrow>
              bindr (begin_attempt snapshot (clock 1) (id_session ids) (id_question ids) (id_answer ids)
                       (rq_session_id request) user (rq_query request) attempt (rq_response_mode request)
                       (rq_scenario_id request) db3) (\<lambda>(ref, db4).
                if ar_existing ref then Inl ChatRunConflict
                else let row = admitted_run ids user attempt (request_digest digest request attempt) owner ref capacity (clock 2)
                     in Inr (claim_of_run row, db4\<lparr>chat_runs := chat_runs db4 @ [row]\<rparr>)))) = Inr (claim, db')"
    by (auto simp: admit_chat_run_def Let_def split: if_split_asm option.splits)
  from rest obtain db2 db3 db4 capacity ref where
    stop: "stop_runs (\<lambda>i. clock (i + 3)) (\<lambda>row. run_message row user) (previous_runs (rq_session_id request) user db1) db1 = Inr db2"
    and res: "reserve_capacity (clock 0) (id_slot ids) chat_resource (id_run ids) limit 30 None False db2 = Inr (Some capacity, db3)"
    and beg: "begin_attempt snapshot (clock 1) (id_session ids) (id_question ids) (id_answer ids)
                       (rq_session_id request) user (rq_query request) attempt (rq_response_mode request)
                       (rq_scenario_id request) db3 = Inr (ref, db4)"
    and new: "\<not> ar_existing ref"
    and fin: "claim = claim_of_run (admitted_run ids user attempt (request_digest digest request attempt) owner ref capacity (clock 2))"
      "db' = db4\<lparr>chat_runs := chat_runs db4 @ [admitted_run ids user attempt (request_digest digest request attempt) owner ref capacity (clock 2)]\<rparr>"
    by (auto simp: Let_def split: option.splits if_split_asm)
  note l = lock_rows [OF lock]
  have inv1: "chat_inv db1" using inv l by (simp add: chat_inv_def)
  have prev: "set (previous_runs (rq_session_id request) user db1) \<subseteq> set (chat_runs db1)"
    "\<forall>r\<in>set (previous_runs (rq_session_id request) user db1). \<not> terminal r"
    "distinct (map rn_id (previous_runs (rq_session_id request) user db1))"
    using running_runs_props [OF inv1] by (auto simp: previous_runs_def split: option.splits)
  have st: "keeps db1 db2" "\<forall>r\<in>set (chat_runs db2). rn_id r \<in> rn_id ` set (previous_runs (rq_session_id request) user db1) \<longrightarrow> terminal r"
    using stop_runs_Inr [OF stop inv1 _ prev] run_message_in by blast+
  have k: "keeps db db2" using st(1) l by (simp add: keeps_def)
  have ended: "\<forall>s. truthy (rq_session_id request) = Some s \<longrightarrow>
       (\<forall>r\<in>set (chat_runs db2). rn_session_id r = s \<and> rn_actor_id r = cu_user_id user \<longrightarrow> terminal r)"
  proof (intro allI impI ballI)
    fix s r assume s: "truthy (rq_session_id request) = Some s" and r: "r \<in> set (chat_runs db2)"
      "rn_session_id r = s \<and> rn_actor_id r = cu_user_id user"
    show "terminal r"
    proof (rule ccontr)
      assume "\<not> terminal r"
      then obtain r0 where "r0 \<in> set (chat_runs db1)" "rn_key r0 = rn_key r" "\<not> terminal r0"
        by (rule keeps_running [OF st(1) inv1 r(1)])
      then have "r0 \<in> set (previous_runs (rq_session_id request) user db1)" "rn_id r0 = rn_id r"
        using s r(2) running_runs_props(1) [OF inv1] by (auto simp: previous_runs_def rn_key_def)
      then show False using st(2) r(1) \<open>\<not> terminal r\<close> by (metis imageI)
    qed
  qed
  note rr = reserve_rows [OF res]
  have u3: "unique_key cm_id (messages db3)" using keeps_inv [OF k inv] rr by (simp add: chat_inv_def)
  obtain ms x where ms: "messages db4 = ms @ [question (clock 1) (id_question ids) (ar_session_id ref) (rq_query request), x]"
    "cm_id x = id_answer ids" "\<not> settled x"
    "map cm_id ms = map cm_id (messages db3)" "\<forall>m\<in>set (messages db3). settled m \<longrightarrow> m \<in> set ms"
    "chat_runs db4 = chat_runs db3" "slots db4 = slots db3" "resources db4 = resources db3"
    "ar_message_id ref = id_answer ids"
    "ar_session_id ref = (case truthy (rq_session_id request) of Some s \<Rightarrow> s | None \<Rightarrow> id_session ids)"
    by (rule begin_attempt_Inr [OF beg new u3])
  have ids3: "map cm_id (messages db3) = map cm_id (messages db)" "\<forall>m\<in>set (messages db). settled m \<longrightarrow> m \<in> set (messages db3)"
    using k rr by (simp_all add: keeps_def)
  show thesis
    by (rule that [where ms = ms, OF lock stop k ended res ms(7,8) _ _ ms(2,3) _ _ refl _ _ at _ fin])
       (use ms ids3 rr prior l in \<open>auto simp: admitted_run_def prior_run_def\<close>)
qed

lemma keeps_finish:
  assumes f: "finish_chat_run clock claim user status answer db = Inr db'" and inv: "chat_inv db"
  shows "keeps db db'"
proof -
  from f have st: "status \<in> {''completed'', ''stopped'', ''failed''}"
    by (auto simp: finish_chat_run_def split: if_split_asm)
  from f obtain row0 t0 db1 m row t db2 m' where l1: "locked_run clock claim db = Inr (row0, t0, db1)"
    and m: "run_message row0 user db1 = Inr m" and l2: "locked_run (\<lambda>i. clock (i + 2)) claim db1 = Inr (row, t, db2)"
    and fm: "finish_message m status answer = Inr m'"
    and r: "release_run (clock 4) (clock 5) row (put_run (row\<lparr>rn_status := status, rn_finished_at := Some t\<rparr>) (put_message m' db2)) = Inr db'"
    by (auto simp: finish_chat_run_def split: if_split_asm)
  note a = locked_run_Inr [OF l1] and b = locked_run_Inr [OF l2]
  have inv2: "chat_inv db2" using inv a b by (simp add: chat_inv_def)
  have "keeps db2 (put_run (row\<lparr>rn_status := status, rn_finished_at := Some t\<rparr>) (put_message m' db2))"
    by (rule keeps_end [OF inv2 _ finish_message_Inr(1,2) [OF fm] b(1,3)])
       (use run_message_in [OF m] b in \<open>auto simp: rn_key_def\<close>)
  then show ?thesis using release_run_rows [OF r] a b by (simp add: keeps_def)
qed

lemma keeps_renew:
  assumes r: "renew_chat_run clock claim db = Inr (claim', db')" and inv: "chat_inv db"
  shows "keeps db db'"
proof -
  from r obtain row t db1 token where l: "locked_run clock claim db = Inr (row, t, db1)"
    and rest: "(case renew_capacity (clock 2) token 30 db1 of
           Inl e \<Rightarrow> Inl (if e = CoordinationOwnershipLost then ChatRunOwnershipLost else e)
         | Inr (capacity, db2) \<Rightarrow>
             let row' = row\<lparr>rn_lease_until := cl_expires_at capacity\<rparr>
             in Inr (claim_of_run row', put_run row' db2)) = Inr (claim', db')"
    unfolding renew_chat_run_def bindr_eq_Inr by (auto simp: bindr_eq_Inr simp del: bindr_simps)
  from rest obtain c db2 where c: "renew_capacity (clock 2) token 30 db1 = Inr (c, db2)"
    and db': "db' = put_run (row\<lparr>rn_lease_until := cl_expires_at c\<rparr>) db2"
    by (cases "renew_capacity (clock 2) token 30 db1") (auto simp: Let_def)
  note a = locked_run_Inr [OF l]
  have rows: "messages db2 = messages db1" "chat_runs db2 = chat_runs db1"
    using c by (auto simp: renew_capacity_def Let_def split: if_split_asm)
  have "chat_inv db2" using inv a rows by (simp add: chat_inv_def)
  then have "keeps db2 db'" unfolding db'
    by (rule keeps_put_run [OF _ _ a(3)]) (use a rows in \<open>auto simp: rn_key_def\<close>)
  then show ?thesis using a rows by (simp add: keeps_def)
qed

lemma find_run_in:
  "find_run a s t db = Some row \<Longrightarrow> row \<in> set (chat_runs db) \<and> rn_actor_id row = a \<and> rn_session_id row = s \<and> rn_attempt_id row = t"
  unfolding find_run_def by (drule find_SomeD) simp

lemma cancel_chat_runE:
  assumes c: "cancel_chat_run clock sid text user db = Inr (hit, db')"
  obtains (miss) "db' = db" "\<not> hit"
  | (found) attempt db1 row m where "uuid_text text = Some attempt" "resource_lock db = Inr db1"
      "find_run (cu_user_id user) sid attempt db = Some row" "run_message row user db1 = Inr m" hit
      "if rn_status row = ''running'' then stop_run clock row m db1 = Inr db' else db' = db1"
proof (cases "find_run (cu_user_id user) sid (the (uuid_text text)) db")
  case None
  then show thesis using c miss by (auto simp: cancel_chat_run_def split: option.split_asm)
next
  case (Some row)
  from c obtain attempt where a: "uuid_text text = Some attempt"
    by (auto simp: cancel_chat_run_def split: option.splits)
  have f: "find_run (cu_user_id user) sid attempt db = Some row" using Some a by simp
  from c have "bindr (resource_lock db) (\<lambda>db1. case find_run (cu_user_id user) sid attempt db1 of
             None \<Rightarrow> Inr (False, db1)
           | Some row \<Rightarrow>
               bindr (run_message row user db1) (\<lambda>message.
                 if rn_status row = ''running''
                 then bindr (stop_run clock row message db1) (\<lambda>db2. Inr (True, db2))
                 else Inr (True, db1))) = Inr (hit, db')"
    by (simp add: cancel_chat_run_def a f del: bindr_eq_Inr)
  then obtain db1 where l: "resource_lock db = Inr db1"
    and rest: "(case find_run (cu_user_id user) sid attempt db1 of
             None \<Rightarrow> Inr (False, db1)
           | Some row \<Rightarrow>
               bindr (run_message row user db1) (\<lambda>message.
                 if rn_status row = ''running''
                 then bindr (stop_run clock row message db1) (\<lambda>db2. Inr (True, db2))
                 else Inr (True, db1))) = Inr (hit, db')"
    unfolding bindr_eq_Inr by blast
  have "find_run (cu_user_id user) sid attempt db1 = Some row"
    using f by (simp add: find_run_def resource_lock_rows [OF l])
  with rest obtain m where m: "run_message row user db1 = Inr m"
    and fin: "(if rn_status row = ''running''
                 then bindr (stop_run clock row m db1) (\<lambda>db2. Inr (True, db2))
                 else Inr (True, db1)) = Inr (hit, db')" by auto
  from fin have "hit \<and> (if rn_status row = ''running'' then stop_run clock row m db1 = Inr db' else db' = db1)"
    by (auto split: if_split_asm)
  with found [OF a l f m] show thesis by blast
qed

text \<open>A cancellation finds the run of the attempt, and ends it when it is running.\<close>

lemma cancel_Inr:
  assumes c: "cancel_chat_run clock sid text user db = Inr (hit, db')" and inv: "chat_inv db"
  shows "keeps db db'"
    and "hit \<Longrightarrow> \<exists>row\<in>set (chat_runs db). uuid_text text = Some (rn_attempt_id row) \<and> rn_session_id row = sid \<and>
      rn_actor_id row = cu_user_id user \<and> (\<exists>row'\<in>set (chat_runs db'). rn_id row' = rn_id row \<and> terminal row') \<and>
      (\<not> terminal row \<longrightarrow> (\<exists>m\<in>set (messages db'). cm_id m = rn_message_id row \<and> settled m \<and> cm_content m = []))"
  using c
proof (atomize (full), cases rule: cancel_chat_runE)
  case (found attempt db1 row m)
  note l = found(2)
  note rows = resource_lock_rows [OF l]
  note row = find_run_in [OF found(3)]
  note m = found(4)
  have inv1: "chat_inv db1" using inv rows by (simp add: chat_inv_def)
  have k1: "keeps db db1" using rows by (simp add: keeps_def)
  show "keeps db db' \<and> (hit \<longrightarrow> (\<exists>row\<in>set (chat_runs db). uuid_text text = Some (rn_attempt_id row) \<and> rn_session_id row = sid \<and>
      rn_actor_id row = cu_user_id user \<and> (\<exists>row'\<in>set (chat_runs db'). rn_id row' = rn_id row \<and> terminal row') \<and>
      (\<not> terminal row \<longrightarrow> (\<exists>m\<in>set (messages db'). cm_id m = rn_message_id row \<and> settled m \<and> cm_content m = []))))"
  proof (cases "rn_status row = ''running''")
    case True
    with found(6) have s: "stop_run clock row m db1 = Inr db'" by simp
    have nt: "\<not> terminal row" using True by (simp add: terminal_def)
    have row1: "row \<in> set (chat_runs db1)" using row rows by simp
    note one = stop_run_Inr [OF s inv1 conjunct1 [OF run_message_in [OF m]] row1 nt]
    have "stopped_run (clock 0) row \<in> set (chat_runs db')"
      unfolding one(2) by (rule row_in_put_by) (use row1 in auto)
    then have "\<exists>row'\<in>set (chat_runs db'). rn_id row' = rn_id row \<and> terminal row'" by (metis stopped_run_simps(1,2))
    moreover have "\<exists>m\<in>set (messages db'). cm_id m = rn_message_id row \<and> settled m \<and> cm_content m = []"
      using one(4) run_message_in [OF m] by simp
    ultimately show ?thesis
      using keeps_trans [OF k1 one(1)] row found(1) by (intro conjI impI, simp) (rule bexI [of _ row], simp_all)
  next
    case False
    with found(6) have "db' = db1" by simp
    then show ?thesis using k1 row rows found(1) False by (auto simp: terminal_def intro!: bexI [of _ row])
  qed
qed simp

lemma keeps_cancel_session:
  assumes c: "cancel_chat_session clock sid u db = Inr db'" and inv: "chat_inv db"
  shows "keeps db db'"
proof (cases "get_by ct_id sid (sessions db)")
  case None
  then show ?thesis using c by (simp add: cancel_chat_session_def)
next
  case (Some thread)
  with c obtain actor db1 where l: "lock_chat_history_purge db = Inr db1"
    and s: "stop_runs clock (managed_message sid) (running_runs sid actor db1) db1 = Inr db'"
    by (auto simp: cancel_chat_session_def Let_def split: if_split_asm)
  have rows: "messages db1 = messages db" "chat_runs db1 = chat_runs db"
    using l by (auto simp: lock_chat_history_purge_def dest: resource_lock_rows split: if_split_asm)
  have inv1: "chat_inv db1" using inv rows by (simp add: chat_inv_def)
  have "keeps db1 db'"
    using stop_runs_Inr [OF s inv1] managed_message_in running_runs_props [OF inv1] by blast
  then show ?thesis using rows by (simp add: keeps_def)
qed

lemma reconcile_runE:
  assumes "reconcile_run now n1 n2 row db = Inr db'"
  obtains m db1 where "managed_message (rn_session_id row) row db = Inr m"
    "(if attempt_status_of m = Some ''incomplete''
      then bindr (finish_message m ''stopped'' []) (\<lambda>m. Inr (put_message m db)) else Inr db) = Inr db1"
    "slots db1 = slots db" "resources db1 = resources db" "chat_runs db1 = chat_runs db"
    "release_run n1 n2 row (put_run (reconciled_run now row) db1) = Inr db'"
proof -
  from assms have "bindr (managed_message (rn_session_id row) row db) (\<lambda>message.
            bindr (if attempt_status_of message = Some ''incomplete''
                   then bindr (finish_message message ''stopped'' []) (\<lambda>m. Inr (put_message m db))
                   else Inr db) (\<lambda>db1.
              release_run n1 n2 row (put_run (reconciled_run now row) db1))) = Inr db'"
    by (auto simp: reconcile_run_def simp del: bindr_eq_Inr split: option.split_asm if_split_asm)
  then obtain m db1 where m: "managed_message (rn_session_id row) row db = Inr m"
    and f: "(if attempt_status_of m = Some ''incomplete''
                   then bindr (finish_message m ''stopped'' []) (\<lambda>m. Inr (put_message m db))
                   else Inr db) = Inr db1"
    and rel: "release_run n1 n2 row (put_run (reconciled_run now row) db1) = Inr db'"
    unfolding bindr_eq_Inr by blast
  have "slots db1 = slots db" "resources db1 = resources db" "chat_runs db1 = chat_runs db"
    using f by (auto simp: put_message_def split: if_split_asm)
  with m f rel that show thesis by blast
qed

lemma keeps_reconcile_run:
  assumes r: "reconcile_run now n1 n2 row db = Inr db'" and inv: "chat_inv db"
    and row: "row \<in> set (chat_runs db)" "\<not> terminal row"
  shows "keeps db db' \<and> chat_runs db' = put_by rn_id (reconciled_run now row) (chat_runs db)"
proof -
  obtain m db1 where m: "managed_message (rn_session_id row) row db = Inr m"
    and f: "(if attempt_status_of m = Some ''incomplete''
                   then bindr (finish_message m ''stopped'' []) (\<lambda>m. Inr (put_message m db))
                   else Inr db) = Inr db1" and runs1: "chat_runs db1 = chat_runs db"
    and rel: "release_run n1 n2 row (put_run (reconciled_run now row) db1) = Inr db'"
    by (rule reconcile_runE [OF r])
  have key: "rn_key (reconciled_run now row) = rn_key row" by (simp add: rn_key_def reconciled_run_def)
  note rr = release_run_rows [OF rel]
  have "keeps db (put_run (reconciled_run now row) db1)"
  proof (cases "attempt_status_of m = Some ''incomplete''")
    case True
    with f obtain m' where fm: "finish_message m ''stopped'' [] = Inr m'" and "db1 = put_message m' db" by auto
    with keeps_end [OF inv conjunct1 [OF managed_message_in [OF m]] finish_message_Inr(1,2) [OF fm] row key]
    show ?thesis by simp
  next
    case False
    with f keeps_put_run [OF inv row key] show ?thesis by simp
  qed
  then show ?thesis using rr runs1 by (simp add: keeps_def put_run_def)
qed

lemma keeps_reconcile_rows:
  "reconcile_rows now clock rows db = Inr db' \<Longrightarrow> chat_inv db \<Longrightarrow> set rows \<subseteq> set (chat_runs db) \<Longrightarrow>
   \<forall>r\<in>set rows. \<not> terminal r \<Longrightarrow> distinct (map rn_id rows) \<Longrightarrow> keeps db db'"
proof (induction rows arbitrary: clock db)
  case (Cons row rows)
  from Cons.prems(1) obtain db1 where r: "reconcile_run now (clock 0) (clock 1) row db = Inr db1"
    and rest: "reconcile_rows now (\<lambda>i. clock (i + 2)) rows db1 = Inr db'" by auto
  have one: "keeps db db1" "chat_runs db1 = put_by rn_id (reconciled_run now row) (chat_runs db)"
    using keeps_reconcile_run [OF r Cons.prems(2)] Cons.prems(3,4) by auto
  have "set rows \<subseteq> set (chat_runs db1)"
  proof
    fix r assume r: "r \<in> set rows"
    then have "rn_id r \<in> rn_id ` set rows" by simp
    then have "rn_id r \<noteq> rn_id row" using Cons.prems(5) by auto
    then show "r \<in> set (chat_runs db1)"
      using r Cons.prems(3) unfolding one(2) by (auto simp: reconciled_run_def intro: put_by_keeps)
  qed
  then have "keeps db1 db'"
    using Cons.IH [OF rest keeps_inv [OF one(1) Cons.prems(2)]] Cons.prems by auto
  with one(1) show ?case by (rule keeps_trans)
qed simp

lemma expired_runs_props:
  assumes "chat_inv db"
  shows "set (expired_runs now db) \<subseteq> set (chat_runs db)" and "\<forall>r\<in>set (expired_runs now db). \<not> terminal r"
    and "distinct (map rn_id (expired_runs now db))"
proof -
  show "set (expired_runs now db) \<subseteq> set (chat_runs db)" "\<forall>r\<in>set (expired_runs now db). \<not> terminal r"
    by (auto simp: expired_runs_def terminal_def dest!: in_set_takeD)
  let ?live = "filter (\<lambda>r. rn_status r = ''running'' \<and> rn_lease_until r \<le> now) (chat_runs db)"
  have "distinct (map rn_id ?live)"
    using assms by (auto simp: chat_inv_def unique_key_def intro: distinct_map_filter)
  then have "distinct (map rn_id (order_by (\<lambda>r. (rn_lease_until r, rn_id r)) ?live))"
    by (simp add: order_by_def distinct_map)
  then show "distinct (map rn_id (expired_runs now db))"
    unfolding expired_runs_def by (simp add: take_map [symmetric] distinct_take)
qed

lemma keeps_reconcile:
  assumes r: "reconcile_chat_runs clock doc payload db = Inr (full, db')" and inv: "chat_inv db"
  shows "keeps db db'"
proof (cases "get_by cr_resource chat_resource (resources db) = None")
  case True
  then show ?thesis using r by (auto simp: reconcile_chat_runs_def split: if_split_asm)
next
  case False
  with r obtain db1 where l: "resource_lock db = Inr db1"
    and rows: "reconcile_rows (clock 0) (\<lambda>i. clock (i + 1)) (expired_runs (clock 0) db1) db1 = Inr db'"
    by (auto simp: reconcile_chat_runs_def Let_def split: if_split_asm)
  note lr = resource_lock_rows [OF l]
  have inv1: "chat_inv db1" using inv lr by (simp add: chat_inv_def)
  have "keeps db1 db'" by (rule keeps_reconcile_rows [OF rows inv1 expired_runs_props [OF inv1]])
  then show ?thesis using lr by (simp add: keeps_def)
qed

subsection \<open>Runs of the operations\<close>

datatype chat_op =
    Admit_Chat chat_ids int chat_request chat_user string
  | Renew_Chat chat_claim
  | Finish_Chat chat_claim chat_user string string
  | Finish_Managed attempt_ref chat_user string string
  | Cancel_Chat string string chat_user
  | Cancel_Session string "string option"
  | Reconcile_Chats "string option" "(string \<times> json) list"

fun chat_exec :: "(json \<Rightarrow> string) \<Rightarrow> (string \<Rightarrow> json result) \<Rightarrow> clock \<Rightarrow> chat_op \<Rightarrow> chat_db \<Rightarrow> chat_db" where
  "chat_exec digest snap c (Admit_Chat ids limit request user owner) db =
     committed db (map_sum id snd (admit_chat_run digest snap c ids limit request user owner db))"
| "chat_exec digest snap c (Renew_Chat claim) db = committed db (map_sum id snd (renew_chat_run c claim db))"
| "chat_exec digest snap c (Finish_Chat claim user status answer) db = committed db (finish_chat_run c claim user status answer db)"
| "chat_exec digest snap c (Finish_Managed ref user status answer) db =
     committed db (map_sum id snd (finish_managed_attempt c ref user status answer db))"
| "chat_exec digest snap c (Cancel_Chat sid attempt user) db = committed db (map_sum id snd (cancel_chat_run c sid attempt user db))"
| "chat_exec digest snap c (Cancel_Session sid u) db = committed db (cancel_chat_session c sid u db)"
| "chat_exec digest snap c (Reconcile_Chats doc payload) db = committed db (map_sum id snd (reconcile_chat_runs c doc payload db))"

fun op_fresh :: "chat_op \<Rightarrow> chat_db \<Rightarrow> bool" where
  "op_fresh (Admit_Chat ids limit request user owner) db = fresh_ids ids db"
| "op_fresh _ db = True"

text \<open>What an ended answer and an identity are kept by, admissions included.\<close>

definition history_kept :: "chat_db \<Rightarrow> chat_db \<Rightarrow> bool" where
  "history_kept db db' \<longleftrightarrow>
     (\<forall>m\<in>set (messages db). settled m \<longrightarrow> m \<in> set (messages db')) \<and>
     (\<forall>r\<in>set (chat_runs db). terminal r \<longrightarrow> r \<in> set (chat_runs db')) \<and>
     rn_key ` set (chat_runs db) \<subseteq> rn_key ` set (chat_runs db')"

lemma history_kept_refl [simp]: "history_kept db db"
  by (simp add: history_kept_def)

lemma history_kept_trans:
  assumes "history_kept db db1" and "history_kept db1 db2"
  shows "history_kept db db2"
proof -
  have "rn_key ` set (chat_runs db) \<subseteq> rn_key ` set (chat_runs db2)"
    by (rule order_trans [of _ "rn_key ` set (chat_runs db1)"]) (use assms in \<open>simp_all add: history_kept_def\<close>)
  with assms show ?thesis by (simp add: history_kept_def)
qed

lemma keeps_history:
  assumes "keeps db db'"
  shows "history_kept db db'"
proof -
  have "set (map rn_key (chat_runs db')) = set (map rn_key (chat_runs db))"
    using assms by (simp only: keeps_def)
  then have "rn_key ` set (chat_runs db) \<subseteq> rn_key ` set (chat_runs db')" by simp
  with assms show ?thesis by (simp add: keeps_def history_kept_def)
qed

lemma keeps_managed:
  assumes f: "finish_managed_attempt c ref user status answer db = Inr (res, db')" and inv: "chat_inv db"
  shows "keeps db db'"
proof -
  from f obtain found where found: "run_for_ref ref user db = Inr found"
    and rest: "(case found of
         None \<Rightarrow> Inr (None, db)
       | Some row \<Rightarrow>
           (case finish_chat_run c (claim_of_run row) user status answer db of
              Inr db' \<Rightarrow> Inr (Some True, db')
            | Inl e \<Rightarrow> if e = ChatRunOwnershipLost then Inr (Some False, db) else Inl e)) = Inr (res, db')"
    unfolding finish_managed_attempt_def bindr_eq_Inr by blast
  show ?thesis
  proof (cases found)
    case (Some row)
    with rest show ?thesis
      by (cases "finish_chat_run c (claim_of_run row) user status answer db")
         (auto intro: keeps_finish [OF _ inv] split: if_split_asm)
  qed (use rest in simp)
qed

lemma prior_run_None: "prior_run a t db = None \<Longrightarrow> (a, t) \<notin> rn_attempt ` set (chat_runs db)"
  by (auto simp: prior_run_def find_None_iff rn_attempt_def)

lemma admit_keeps:
  assumes a: "admit_chat_run digest snapshot clock ids limit request user owner db = Inr (claim, db')"
    and inv: "chat_inv db" and fresh: "fresh_ids ids db"
  shows "chat_inv db' \<and> history_kept db db'"
  using a inv
proof (rule admit_Inr)
  fix db1 db2 db3 db4 policy capacity ref attempt ms x row
  assume k: "keeps db db2" and ended: "\<forall>s. truthy (rq_session_id request) = Some s \<longrightarrow>
       (\<forall>r\<in>set (chat_runs db2). rn_session_id r = s \<and> rn_actor_id r = cu_user_id user \<longrightarrow> terminal r)"
    and runs4: "chat_runs db4 = chat_runs db2"
    and msgs: "messages db4 = ms @ [question (clock 1) (id_question ids) (rn_session_id row) (rq_query request), x]"
      "cm_id x = id_answer ids" "map cm_id ms = map cm_id (messages db)" "\<forall>m\<in>set (messages db). settled m \<longrightarrow> m \<in> set ms"
    and row: "row = admitted_run ids user attempt (request_digest digest request attempt) owner ref capacity (clock 2)"
      "rn_session_id row = (case truthy (rq_session_id request) of Some s \<Rightarrow> s | None \<Rightarrow> id_session ids)"
    and prior: "prior_run (cu_user_id user) attempt db = None"
    and db': "db' = db4\<lparr>chat_runs := chat_runs db4 @ [row]\<rparr>"
  have inv2: "chat_inv db2" by (rule keeps_inv [OF k inv])
  have keys: "map rn_key (chat_runs db2) = map rn_key (chat_runs db)" using k by (simp add: keeps_def)
  have ids2: "rn_id ` set (chat_runs db2) = rn_id ` set (chat_runs db)" "rn_attempt ` set (chat_runs db2) = rn_attempt ` set (chat_runs db)"
    using keys_same(1,2) [OF keys] by (metis image_set)+
  have "(\<lambda>(i, a, t, s, m). s) \<circ> rn_key = rn_session_id" by (auto simp: rn_key_def)
  with map_comp_same [OF keys, of "\<lambda>(i, a, t, s, m). s"]
  have "map rn_session_id (chat_runs db2) = map rn_session_id (chat_runs db)" by simp
  then have sess2: "rn_session_id ` set (chat_runs db2) = rn_session_id ` set (chat_runs db)" by (metis image_set)
  have row_id: "rn_id row = id_run ids" "rn_attempt row = (cu_user_id user, attempt)" "rn_actor_id row = cu_user_id user"
    using row by (simp_all add: admitted_run_def rn_attempt_def)
  have alone: "terminal r" if "r \<in> set (chat_runs db2)" "rn_session_id r = rn_session_id row" "rn_actor_id r = rn_actor_id row" for r
  proof (cases "truthy (rq_session_id request)")
    case None
    then have "rn_session_id r = id_session ids" using that(2) row(2) by simp
    then have "id_session ids \<in> rn_session_id ` set (chat_runs db2)" using that(1) by (metis imageI)
    then show ?thesis using fresh sess2 by (simp add: fresh_ids_def)
  next
    case (Some s)
    then show ?thesis using ended that row(2) row_id by auto
  qed
  have "map cm_id (messages db') = map cm_id (messages db) @ [id_question ids, id_answer ids]"
    using msgs by (simp add: db' question_def)
  then have "unique_key cm_id (messages db')"
    using inv fresh by (simp add: chat_inv_def unique_key_def fresh_ids_def)
  moreover have "unique_key rn_id (chat_runs db')"
    using inv2 fresh by (simp add: db' runs4 unique_key_append get_by_None chat_inv_def fresh_ids_def ids2 row_id)
  moreover have "unique_key rn_attempt (chat_runs db')"
    using inv2 prior_run_None [OF prior] by (simp add: db' runs4 unique_key_append get_by_None chat_inv_def ids2 row_id)
  moreover have "\<forall>r\<in>set (chat_runs db'). \<forall>s\<in>set (chat_runs db'). \<not> terminal r \<and> \<not> terminal s \<and>
        rn_session_id r = rn_session_id s \<and> rn_actor_id r = rn_actor_id s \<longrightarrow> r = s"
    using inv2 alone by (auto simp: db' runs4 chat_inv_def)
  ultimately have "chat_inv db'" by (simp add: chat_inv_def)
  moreover have "history_kept db db'"
  proof -
    have "\<forall>m\<in>set (messages db). settled m \<longrightarrow> m \<in> set (messages db')" using msgs by (simp add: db')
    moreover have "\<forall>r\<in>set (chat_runs db). terminal r \<longrightarrow> r \<in> set (chat_runs db')"
      using k by (simp add: db' runs4 keeps_def)
    moreover have "rn_key ` set (chat_runs db) \<subseteq> rn_key ` set (chat_runs db')"
    proof -
      have "rn_key ` set (chat_runs db2) = rn_key ` set (chat_runs db)" using keys by (metis image_set)
      then show ?thesis by (auto simp: db' runs4)
    qed
    ultimately show ?thesis by (simp add: history_kept_def)
  qed
  ultimately show "chat_inv db' \<and> history_kept db db'" ..
qed

lemma chat_exec_keeps:
  assumes inv: "chat_inv db" and fresh: "op_fresh op db"
  shows "chat_inv (chat_exec digest snap c op db) \<and> history_kept db (chat_exec digest snap c op db)"
proof -
  let ?P = "\<lambda>d. chat_inv d \<and> history_kept db d"
  note keep = committed_inv [where P = ?P, OF conjI [OF inv history_kept_refl]]
  have k: "?P (committed db r)" if "\<And>d. r = Inr d \<Longrightarrow> keeps db d" for r
    by (rule keep) (use that keeps_inv [OF that inv] keeps_history [OF that] in simp)
  show ?thesis
  proof (cases op)
    case (Admit_Chat ids limit request user owner)
    then show ?thesis using fresh by (auto intro!: keep dest!: admit_keeps [OF _ inv] simp: map_sum_eq_Inr)
  next
    case (Renew_Chat claim)
    then show ?thesis by (auto intro!: k simp: map_sum_eq_Inr dest: keeps_renew [OF _ inv])
  next
    case (Finish_Chat claim user status answer)
    then show ?thesis by (auto intro!: k simp: map_sum_eq_Inr dest: keeps_finish [OF _ inv])
  next
    case (Finish_Managed ref user status answer)
    then show ?thesis by (auto intro!: k simp: map_sum_eq_Inr dest: keeps_managed [OF _ inv])
  next
    case (Cancel_Chat sid attempt user)
    then show ?thesis by (auto intro!: k simp: map_sum_eq_Inr dest: cancel_Inr(1) [OF _ inv])
  next
    case (Cancel_Session sid u)
    then show ?thesis by (auto intro!: k simp: map_sum_eq_Inr dest: keeps_cancel_session [OF _ inv])
  next
    case (Reconcile_Chats doc payload)
    then show ?thesis by (auto intro!: k simp: map_sum_eq_Inr dest: keeps_reconcile [OF _ inv])
  qed
qed

inductive chat_step :: "(json \<Rightarrow> string) \<Rightarrow> (string \<Rightarrow> json result) \<Rightarrow> chat_db \<Rightarrow> chat_db \<Rightarrow> bool" for digest snap where
  chat_stepI: "op_fresh op db \<Longrightarrow> chat_step digest snap db (chat_exec digest snap c op db)"

inductive_cases chat_stepE: "chat_step digest snap db db'"

interpretation chat_system: invariant_system "chat_step digest snap" chat_inv for digest snap
  by unfold_locales (auto elim!: chat_stepE dest: chat_exec_keeps)

lemma chat_steps_history:
  assumes "(chat_step digest snap)\<^sup>*\<^sup>* db db'" and "chat_inv db"
  shows "history_kept db db'"
  using assms
proof (induction rule: rtranclp_induct)
  case (step db1 db2)
  from step.hyps(1) step.prems have inv1: "chat_inv db1" by (rule chat_system.steps_inv)
  from step.hyps(2) have "history_kept db1 db2" by (auto elim!: chat_stepE dest: chat_exec_keeps [OF inv1])
  with step.IH [OF step.prems] show ?case by (rule history_kept_trans)
qed simp

fun chat_run_ops :: "(json \<Rightarrow> string) \<Rightarrow> (string \<Rightarrow> json result) \<Rightarrow> (clock \<times> chat_op) list \<Rightarrow> chat_db \<Rightarrow> chat_db" where
  "chat_run_ops digest snap [] db = db"
| "chat_run_ops digest snap ((c, op) # ops) db = chat_run_ops digest snap ops (chat_exec digest snap c op db)"

fun ops_fresh :: "(json \<Rightarrow> string) \<Rightarrow> (string \<Rightarrow> json result) \<Rightarrow> (clock \<times> chat_op) list \<Rightarrow> chat_db \<Rightarrow> bool" where
  "ops_fresh digest snap [] db = True"
| "ops_fresh digest snap ((c, op) # ops) db =
     (op_fresh op db \<and> ops_fresh digest snap ops (chat_exec digest snap c op db))"

lemma chat_run_steps:
  "ops_fresh digest snap ops db \<Longrightarrow> (chat_step digest snap)\<^sup>*\<^sup>* db (chat_run_ops digest snap ops db)"
proof (induction ops arbitrary: db)
  case (Cons op ops)
  obtain c o' where op: "op = (c, o')" by (cases op)
  with Cons show ?case by (auto intro: converse_rtranclp_into_rtranclp chat_stepI)
qed simp

text \<open>A claim on an ended run is refused.\<close>

lemma ended_run_refused:
  assumes "chat_inv db" and "r \<in> set (chat_runs db)" and "terminal r" and "cc_run_id claim = rn_id r"
  shows "\<not> is_ok (locked_run clock claim db)"
proof (cases "locked_run clock claim db")
  case (Inr res)
  obtain row now db' where res: "res = (row, now, db')" by (cases res)
  note l = locked_run_Inr [OF Inr [unfolded res]]
  have "row = r" using l assms by (metis chat_inv_def get_by_self option.inject)
  with l assms(3) show ?thesis by simp
qed simp

lemma not_ok_bindr: "\<not> is_ok m \<Longrightarrow> \<not> is_ok (bindr m f)"
  by (cases m) auto

lemma not_locked_refuses:
  assumes "\<not> is_ok (locked_run clock claim db)"
  shows "\<not> is_ok (renew_chat_run clock claim db)" and "\<not> is_ok (finish_chat_run clock claim user status answer db)"
  using assms by (auto simp: renew_chat_run_def finish_chat_run_def not_ok_bindr)

subsection \<open>The slots of live runs\<close>

definition holds_slot :: "chat_db \<Rightarrow> chat_run \<Rightarrow> bool" where
  "holds_slot db r \<longleftrightarrow> (\<exists>s\<in>set (slots db). cs_resource s = chat_resource \<and> cs_owner_id s = Some (rn_id r) \<and>
     (\<exists>e. cs_expires_at s = Some e \<and> rn_lease_until r \<le> e))"

definition live_run :: "time \<Rightarrow> chat_run \<Rightarrow> bool" where
  "live_run now r \<longleftrightarrow> \<not> terminal r \<and> now < rn_lease_until r"

definition slots_held :: "time \<Rightarrow> chat_db \<Rightarrow> bool" where
  "slots_held now db \<longleftrightarrow> capacity_inv now db \<and> (\<forall>r\<in>set (chat_runs db). live_run now r \<longrightarrow> holds_slot db r)"

lemma slots_held_later: "slots_held now db \<Longrightarrow> now \<le> now' \<Longrightarrow> slots_held now' db"
  unfolding slots_held_def by (auto simp: live_run_def intro: capacity_inv_time)

lemma slots_held_same:
  "slots_held now db \<Longrightarrow> slots db' = slots db \<Longrightarrow> resources db' = resources db \<Longrightarrow>
   (\<And>r. r \<in> set (chat_runs db') \<Longrightarrow> live_run now r \<Longrightarrow> r \<in> set (chat_runs db)) \<Longrightarrow> slots_held now db'"
  unfolding slots_held_def holds_slot_def by (auto simp: capacity_inv_slots [of db' db])

lemma resource_lock_same: "resource_lock db = Inr db' \<Longrightarrow> slots db' = slots db \<and> resources db' = resources db"
  by (auto simp: resource_lock_def lock_capacity_resource_def resource_row_def Let_def split: option.splits if_splits)

lemma resource_lock_held: "resource_lock db = Inr db' \<Longrightarrow> slots_held now db \<Longrightarrow> slots_held now db'"
  using resource_lock_same [of db db'] resource_lock_rows [of db db'] by (auto intro: slots_held_same)

lemma held_put_terminal:
  "slots_held now db \<Longrightarrow> terminal row' \<Longrightarrow> slots_held now (put_run row' (put_message m db))"
  by (rule slots_held_same) (auto simp: put_run_def put_message_def live_run_def dest: put_by_member)

lemma release_held:
  assumes r: "release_run n n' row db = Inr db'" and h: "slots_held now db"
    and ended: "\<forall>r\<in>set (chat_runs db). rn_id r = rn_id row \<longrightarrow> terminal r"
  shows "slots_held now db'"
proof (cases "db' = db")
  case False
  with r obtain token slot where t: "slot_token row db = Inr token" and rel: "release_capacity n' token db = Inr db'"
    by (auto simp: release_run_def split: sum.splits if_split_asm)
  from rel obtain s where o: "owned n' False False token db = Inr s" and db': "db' = db\<lparr>slots := put_by cs_id (vacate s) (slots db)\<rparr>"
    by (auto simp: release_capacity_def split: if_split_asm)
  have s: "s \<in> set (slots db)" "cs_owner_id s = Some (rn_id row)"
    using owned_SomeD [OF o] t by (auto simp: slot_token_def slot_lease_def split: option.splits if_split_asm)
  have u: "unique_key cs_id (slots db)" using h by (simp add: slots_held_def capacity_inv_def)
  have "capacity_inv now db'" using release_capacity_inv [OF rel] h by (simp add: db' slots_held_def vacate_inv s)
  moreover have "holds_slot db' r" if "r \<in> set (chat_runs db')" "live_run now r" for r
  proof -
    have r: "r \<in> set (chat_runs db)" "rn_id r \<noteq> rn_id row" using that ended by (auto simp: db' live_run_def)
    with h that(2) obtain x where x: "x \<in> set (slots db)" "cs_resource x = chat_resource" "cs_owner_id x = Some (rn_id r)"
      "\<exists>e. cs_expires_at x = Some e \<and> rn_lease_until r \<le> e" by (auto simp: slots_held_def holds_slot_def)
    have "x \<noteq> s" using x(3) s(2) r(2) by auto
    then have "x \<in> set (slots db')"
      using put_keeps_other [OF u s(1), of "vacate s" x] x(1) by (simp add: db')
    with x show ?thesis by (auto simp: holds_slot_def)
  qed
  ultimately show ?thesis by (simp add: slots_held_def)
qed (use h in simp)

text \<open>Ending a row and releasing its slot.\<close>

lemma end_held:
  assumes h: "slots_held now db" and inv: "chat_inv db" and "row \<in> set (chat_runs db)" and "terminal row'" and "rn_id row' = rn_id row"
    and r: "release_run n n' row (put_run row' (put_message m db)) = Inr db'"
  shows "slots_held now db'"
proof (rule release_held [OF r held_put_terminal [OF h assms(4)]])
  show "\<forall>r\<in>set (chat_runs (put_run row' (put_message m db))). rn_id r = rn_id row \<longrightarrow> terminal r"
    using assms(4,5) by (auto simp: put_run_def put_message_def dest!: put_by_member)
qed

lemma stop_run_held:
  assumes s: "stop_run clock row m db = Inr db'" and h: "slots_held now db" and inv: "chat_inv db" and "row \<in> set (chat_runs db)"
  shows "slots_held now db'"
proof -
  from s obtain m' where "release_run (clock 1) (clock 2) row (put_run (stopped_run (clock 0) row) (put_message m' db)) = Inr db'"
    by (auto simp: stop_run_def)
  then show ?thesis by (rule end_held [OF h inv assms(4), rotated 2]) simp_all
qed

lemma stop_runs_held:
  "stop_runs clock find_message rows db = Inr db' \<Longrightarrow> slots_held now db \<Longrightarrow> chat_inv db \<Longrightarrow>
   (\<And>row db m. find_message row db = Inr m \<Longrightarrow> m \<in> set (messages db)) \<Longrightarrow>
   set rows \<subseteq> set (chat_runs db) \<Longrightarrow> \<forall>r\<in>set rows. \<not> terminal r \<Longrightarrow> distinct (map rn_id rows) \<Longrightarrow> slots_held now db'"
proof (induction rows arbitrary: clock db)
  case (Cons row rows)
  from Cons.prems(1) obtain m db1 where m: "find_message row db = Inr m" and s: "stop_run clock row m db = Inr db1"
    and rest: "stop_runs (\<lambda>i. clock (i + 3)) find_message rows db1 = Inr db'" by auto
  have row: "row \<in> set (chat_runs db)" "\<not> terminal row" using Cons.prems(5,6) by auto
  note one = stop_run_Inr [OF s Cons.prems(3) Cons.prems(4) [OF m] row]
  have "set rows \<subseteq> set (chat_runs db1)"
    using stop_runs_rest [OF Cons.prems(5,7), of "clock 0"] unfolding one(2) .
  then show ?case
    using Cons.IH [OF rest stop_run_held [OF s Cons.prems(2,3) row(1)] keeps_inv [OF one(1) Cons.prems(3)] Cons.prems(4)] Cons.prems(6,7)
    by auto
qed simp

lemma reserve_held:
  assumes r: "reserve_capacity t i chat_resource owner limit ttl None False db = Inr (Some lease, db')"
    and h: "slots_held t db" and new: "get_by cs_id i (slots db) = None"
  shows "slots_held t db'"
    and "\<exists>s\<in>set (slots db'). cs_resource s = chat_resource \<and> cs_owner_id s = Some owner \<and> cs_expires_at s = Some (cl_expires_at lease)"
  using r h [unfolded slots_held_def, THEN conjunct1]
proof (atomize (full), cases rule: reserve_capacityE)
  case (granted db2 row fresh row')
  have u: "unique_key cs_id (slots db)" using h by (simp add: slots_held_def capacity_inv_def)
  have row'_in: "row' \<in> set (slots db')"
    and kept: "\<And>s. s \<in> set (slots db) \<Longrightarrow> cs_resource s = chat_resource \<Longrightarrow> busy_slot t s \<Longrightarrow> s \<in> set (slots db')"
  proof -
    note p = pick_slot_cases [OF granted(6)]
    show "row' \<in> set (slots db')"
    proof (cases fresh)
      case False
      with p have "cs_id row \<in> cs_id ` set (slots db)" by auto
      then have "row' \<in> set (put_by cs_id row' (slots db))" using granted(2) by (intro row_in_put_by) simp
      then show ?thesis using False granted(3,5) by simp
    qed (use granted(3) in simp)
    fix s assume s: "s \<in> set (slots db)" "cs_resource s = chat_resource" "busy_slot t s"
    show "s \<in> set (slots db')"
    proof (cases fresh)
      case False
      with p obtain r0 where r0: "r0 \<in> set (slots db)" "\<not> busy_slot t r0" "cs_id r0 = cs_id row" by auto
      then have "cs_id s \<noteq> cs_id row'" using s(1,3) u granted(2) by (metis get_by_self occupy_simps(1) option.inject)
      then show ?thesis using False s(1) granted(3,5) by (simp add: put_by_keeps)
    qed (use s(1) granted(3,5) in simp)
  qed
  have runs: "chat_runs db' = chat_runs db" using reserve_rows [OF r] by simp
  have "holds_slot db' r" if live: "r \<in> set (chat_runs db')" "live_run t r" for r
  proof -
    from h live obtain s e where s: "s \<in> set (slots db)" "cs_resource s = chat_resource" "cs_owner_id s = Some (rn_id r)"
      "cs_expires_at s = Some e" "rn_lease_until r \<le> e" by (auto simp: slots_held_def holds_slot_def runs)
    then have "busy_slot t s" using live(2) by (simp add: busy_slot_def live_run_def)
    then show ?thesis using kept s by (auto simp: holds_slot_def)
  qed
  moreover have "capacity_inv t db'"
    by (rule reserve_capacity_inv [OF r _ new]) (use h in \<open>simp add: slots_held_def\<close>)
  moreover have "cs_resource row' = chat_resource" "cs_owner_id row' = Some owner" "cs_expires_at row' = Some (cl_expires_at lease)"
    using granted(1,2) pick_slot_resource [OF granted(6)] by (simp_all add: slot_lease_def)
  ultimately show "slots_held t db' \<and> (\<exists>s\<in>set (slots db'). cs_resource s = chat_resource \<and> cs_owner_id s = Some owner \<and>
      cs_expires_at s = Some (cl_expires_at lease))"
    using row'_in by (auto simp: slots_held_def)
qed simp

lemma renew_held:
  assumes r: "renew_chat_run clock claim db = Inr (claim', db')" and inv: "chat_inv db"
    and h: "slots_held lo db" and clock: "\<And>i. lo \<le> clock i \<and> clock i \<le> hi"
  shows "slots_held hi db'"
proof -
  from r obtain row t db1 token where l: "locked_run clock claim db = Inr (row, t, db1)"
    and tk: "slot_token row db1 = Inr token"
    and rest: "(case renew_capacity (clock 2) token 30 db1 of
           Inl e \<Rightarrow> Inl (if e = CoordinationOwnershipLost then ChatRunOwnershipLost else e)
         | Inr (capacity, db2) \<Rightarrow>
             let row' = row\<lparr>rn_lease_until := cl_expires_at capacity\<rparr>
             in Inr (claim_of_run row', put_run row' db2)) = Inr (claim', db')"
    unfolding renew_chat_run_def bindr_eq_Inr by (auto simp: bindr_eq_Inr simp del: bindr_simps)
  from rest obtain c db2 where c: "renew_capacity (clock 2) token 30 db1 = Inr (c, db2)"
    and db': "db' = put_run (row\<lparr>rn_lease_until := cl_expires_at c\<rparr>) db2"
    by (cases "renew_capacity (clock 2) token 30 db1") (auto simp: Let_def)
  note a = locked_run_Inr [OF l]
  note l0 = locked_run_lock [OF l]
  have h1: "slots_held (clock 2) db1"
    using slots_held_later [OF resource_lock_held [OF l0 h]] clock by blast
  from c obtain s where o: "owned (clock 2) False False token db1 = Inr s"
    and db2: "db2 = db1\<lparr>slots := put_by cs_id (s\<lparr>cs_expires_at := Some (clock 2 + seconds 30),
        cs_protected_until := Some (max_time (cs_protected_until s) (clock 2 + seconds 30))\<rparr>) (slots db1)\<rparr>"
    and ce: "cl_expires_at c = clock 2 + seconds 30"
    by (auto simp: renew_capacity_def Let_def slot_lease_def split: if_split_asm)
  let ?s = "s\<lparr>cs_expires_at := Some (clock 2 + seconds 30),
        cs_protected_until := Some (max_time (cs_protected_until s) (clock 2 + seconds 30))\<rparr>"
  have s: "s \<in> set (slots db1)" "cs_owner_id s = Some (rn_id row)" "cs_resource s = chat_resource"
    using owned_SomeD [OF o] tk by (auto simp: slot_token_def slot_lease_def split: option.splits if_split_asm)
  have u: "unique_key cs_id (slots db1)" using h1 by (simp add: slots_held_def capacity_inv_def)
  have s_in: "?s \<in> set (slots db2)" using s(1) row_in_put_by [of cs_id ?s "slots db1"] by (auto simp: db2)
  have "capacity_inv (clock 2) db2" by (rule renew_capacity_inv [OF c]) (use h1 in \<open>simp add: slots_held_def\<close>)
  then have "capacity_inv (clock 2) db'" by (simp add: db' put_run_def capacity_inv_slots [of "put_run x db2" db2 for x, unfolded put_run_def])
  moreover have "holds_slot db' r" if live: "r \<in> set (chat_runs db')" "live_run (clock 2) r" for r
  proof (cases "r = row\<lparr>rn_lease_until := cl_expires_at c\<rparr>")
    case True
    then show ?thesis using s_in s ce by (auto simp: holds_slot_def db' put_run_def intro!: bexI [of _ ?s])
  next
    case False
    with live have r: "r \<in> set (chat_runs db1)" "rn_id r \<noteq> rn_id row"
      by (auto simp: db' db2 put_run_def dest: put_by_member)
    with h1 live(2) obtain x where x: "x \<in> set (slots db1)" "cs_resource x = chat_resource" "cs_owner_id x = Some (rn_id r)"
      "\<exists>e. cs_expires_at x = Some e \<and> rn_lease_until r \<le> e" by (auto simp: slots_held_def holds_slot_def)
    have "x \<noteq> s" using x(3) s(2) r(2) by auto
    then have "x \<in> set (slots db')"
      using put_keeps_other [OF u s(1), of ?s x] x(1) by (simp add: db' db2 put_run_def)
    with x show ?thesis by (auto simp: holds_slot_def)
  qed
  ultimately have "slots_held (clock 2) db'" by (simp add: slots_held_def)
  then show ?thesis using clock by (blast intro: slots_held_later)
qed

lemma release_run_slot_ids:
  assumes "release_run n n' row db = Inr db'"
  shows "map cs_id (slots db') = map cs_id (slots db)"
proof -
  have "map cs_id (slots d) = map cs_id (slots db)" if "release_capacity n' token db = Inr d" for token d
    using that by (auto simp: release_capacity_def split: if_split_asm)
  then show ?thesis using assms by (auto simp: release_run_def split: sum.splits if_split_asm)
qed

lemma stop_runs_slot_ids:
  "stop_runs clock find_message rows db = Inr db' \<Longrightarrow> map cs_id (slots db') = map cs_id (slots db)"
proof (induction rows arbitrary: clock db)
  case (Cons row rows)
  then show ?case
    by (auto simp: stop_run_def put_run_def put_message_def dest!: release_run_slot_ids Cons.IH)
qed simp

lemma admit_held:
  assumes a: "admit_chat_run digest snapshot clock ids limit request user owner db = Inr (claim, db')"
    and inv: "chat_inv db" and fresh: "fresh_ids ids db"
    and h: "slots_held lo db" and clock: "\<And>i. lo \<le> clock i \<and> clock i \<le> hi"
  shows "slots_held hi db'"
  using a inv
proof (rule admit_Inr)
  fix db1 db2 db3 db4 policy capacity ref attempt ms x row
  assume lock: "lock_capacity_resource chat_resource limit db = Inr (policy, db1)"
    and stop: "stop_runs (\<lambda>i. clock (i + 3)) (\<lambda>row. run_message row user) (previous_runs (rq_session_id request) user db1) db1 = Inr db2"
    and res: "reserve_capacity (clock 0) (id_slot ids) chat_resource (id_run ids) limit 30 None False db2 = Inr (Some capacity, db3)"
    and same: "slots db4 = slots db3" "resources db4 = resources db3" "chat_runs db4 = chat_runs db2"
    and row: "row = admitted_run ids user attempt (request_digest digest request attempt) owner ref capacity (clock 2)"
    and db': "db' = db4\<lparr>chat_runs := chat_runs db4 @ [row]\<rparr>"
  note l = lock_rows [OF lock]
  have inv1: "chat_inv db1" using inv l by (simp add: chat_inv_def)
  have "capacity_inv lo db" using h by (simp add: slots_held_def)
  from lock_capacity_resource_inv [OF lock this] have "capacity_inv lo db1" and s1: "slots db1 = slots db" by auto
  then have h1: "slots_held lo db1" using h l by (simp add: slots_held_def holds_slot_def)
  have prev: "set (previous_runs (rq_session_id request) user db1) \<subseteq> set (chat_runs db1)"
    "\<forall>r\<in>set (previous_runs (rq_session_id request) user db1). \<not> terminal r"
    "distinct (map rn_id (previous_runs (rq_session_id request) user db1))"
    using running_runs_props [OF inv1] by (auto simp: previous_runs_def split: option.splits)
  have "slots_held lo db2" using stop_runs_held [OF stop h1 inv1 _ prev] run_message_in by blast
  then have h2: "slots_held (clock 0) db2" using clock by (blast intro: slots_held_later)
  have "set (map cs_id (slots db2)) = set (map cs_id (slots db))"
    using stop_runs_slot_ids [OF stop] s1 by simp
  then have new: "get_by cs_id (id_slot ids) (slots db2) = None"
    using fresh by (simp add: fresh_ids_def get_by_None)
  note r = reserve_held [OF res h2 new]
  have "rn_id row = id_run ids" "rn_lease_until row = cl_expires_at capacity" by (simp_all add: row admitted_run_def)
  then have "holds_slot db3 row" using r(2) by (auto simp: holds_slot_def)
  moreover have "chat_runs db3 = chat_runs db2" using reserve_rows [OF res] by simp
  moreover have "capacity_inv (clock 0) db'"
    using r(1) capacity_inv_slots [of db' db3 "clock 0"] by (simp add: slots_held_def db' same)
  moreover have "holds_slot db' = holds_slot db3" by (rule ext) (simp add: holds_slot_def db' same)
  ultimately have "slots_held (clock 0) db'"
    using r(1) by (auto simp: slots_held_def db' same)
  then show "slots_held hi db'" using clock by (blast intro: slots_held_later)
qed

lemma finish_held:
  assumes f: "finish_chat_run clock claim user status answer db = Inr db'" and inv: "chat_inv db" and h: "slots_held lo db"
  shows "slots_held lo db'"
proof -
  from f have st: "status \<in> {''completed'', ''stopped'', ''failed''}"
    by (auto simp: finish_chat_run_def split: if_split_asm)
  from f obtain row0 t0 db1 m row t db2 m' where l1: "locked_run clock claim db = Inr (row0, t0, db1)"
    and l2: "locked_run (\<lambda>i. clock (i + 2)) claim db1 = Inr (row, t, db2)"
    and r: "release_run (clock 4) (clock 5) row (put_run (row\<lparr>rn_status := status, rn_finished_at := Some t\<rparr>) (put_message m' db2)) = Inr db'"
    by (auto simp: finish_chat_run_def split: if_split_asm)
  note a = locked_run_Inr [OF l1] and b = locked_run_Inr [OF l2]
  have inv2: "chat_inv db2" using inv a b by (simp add: chat_inv_def)
  have "resource_lock db = Inr db1" "resource_lock db1 = Inr db2"
    by (rule locked_run_lock [OF l1], rule locked_run_lock [OF l2])
  then have "slots_held lo db2" using h by (blast intro: resource_lock_held)
  then show ?thesis
    by (rule end_held [OF _ inv2 b(1) _ _ r]) (use st in \<open>auto simp: terminal_def\<close>)
qed

lemma cancel_held:
  assumes c: "cancel_chat_run clock sid text user db = Inr (hit, db')" and inv: "chat_inv db" and h: "slots_held lo db"
  shows "slots_held lo db'"
  using c
proof (cases rule: cancel_chat_runE)
  case (found attempt db1 row m)
  note l = resource_lock_rows [OF found(2)] and h1 = resource_lock_held [OF found(2) h]
  have inv1: "chat_inv db1" using inv l by (simp add: chat_inv_def)
  show ?thesis
  proof (cases "rn_status row = ''running''")
    case True
    with found(6) have "stop_run clock row m db1 = Inr db'" by simp
    then show ?thesis by (rule stop_run_held [OF _ h1 inv1]) (use find_run_in [OF found(3)] l in simp)
  qed (use found(6) h1 in simp)
qed (use h in simp)

lemma cancel_session_held:
  assumes c: "cancel_chat_session clock sid u db = Inr db'" and inv: "chat_inv db" and h: "slots_held lo db"
  shows "slots_held lo db'"
proof (cases "get_by ct_id sid (sessions db)")
  case None
  then show ?thesis using c h by (simp add: cancel_chat_session_def)
next
  case (Some thread)
  with c obtain actor db1 where l: "lock_chat_history_purge db = Inr db1"
    and s: "stop_runs clock (managed_message sid) (running_runs sid actor db1) db1 = Inr db'"
    by (auto simp: cancel_chat_session_def Let_def split: if_split_asm)
  have rows: "messages db1 = messages db" "chat_runs db1 = chat_runs db"
    using l by (auto simp: lock_chat_history_purge_def dest: resource_lock_rows split: if_split_asm)
  have inv1: "chat_inv db1" using inv rows by (simp add: chat_inv_def)
  have "slots_held lo db1"
    using l h by (auto simp: lock_chat_history_purge_def intro: resource_lock_held split: if_split_asm)
  then show ?thesis
    using stop_runs_held [OF s _ inv1] managed_message_in running_runs_props [OF inv1] by blast
qed

lemma reconcile_rows_held:
  "reconcile_rows now clock rows db = Inr db' \<Longrightarrow> chat_inv db \<Longrightarrow> slots_held lo db \<Longrightarrow> set rows \<subseteq> set (chat_runs db) \<Longrightarrow>
   \<forall>r\<in>set rows. \<not> terminal r \<Longrightarrow> distinct (map rn_id rows) \<Longrightarrow> slots_held lo db'"
proof (induction rows arbitrary: clock db)
  case (Cons row rows)
  from Cons.prems(1) obtain db1 where r: "reconcile_run now (clock 0) (clock 1) row db = Inr db1"
    and rest: "reconcile_rows now (\<lambda>i. clock (i + 2)) rows db1 = Inr db'" by auto
  have row: "row \<in> set (chat_runs db)" "\<not> terminal row" using Cons.prems(4,5) by auto
  have one: "keeps db db1" "chat_runs db1 = put_by rn_id (reconciled_run now row) (chat_runs db)"
    using keeps_reconcile_run [OF r Cons.prems(2) row] by auto
  have "slots_held lo db1"
  proof -
    obtain db0 where db0: "slots db0 = slots db" "resources db0 = resources db" "chat_runs db0 = chat_runs db"
      and rel: "release_run (clock 0) (clock 1) row (put_run (reconciled_run now row) db0) = Inr db1"
      by (rule reconcile_runE [OF r])
    have ended: "slots_held lo (put_run (reconciled_run now row) db0)"
      by (rule slots_held_same [OF Cons.prems(3)])
         (auto simp: put_run_def db0 live_run_def reconciled_run_def terminal_def dest!: put_by_member)
    show ?thesis
      by (rule release_held [OF rel ended])
         (auto simp: put_run_def reconciled_run_def terminal_def dest!: put_by_member)
  qed
  moreover have "set rows \<subseteq> set (chat_runs db1)"
  proof
    fix r assume r: "r \<in> set rows"
    then have "rn_id r \<in> rn_id ` set rows" by simp
    then have "rn_id r \<noteq> rn_id row" using Cons.prems(6) by auto
    then show "r \<in> set (chat_runs db1)"
      using r Cons.prems(4) unfolding one(2) by (auto simp: reconciled_run_def intro: put_by_keeps)
  qed
  ultimately show ?case
    using Cons.IH [OF rest keeps_inv [OF one(1) Cons.prems(2)]] Cons.prems(5,6) by auto
qed simp

lemma reconcile_held:
  assumes r: "reconcile_chat_runs clock doc payload db = Inr (full, db')" and inv: "chat_inv db" and h: "slots_held lo db"
  shows "slots_held lo db'"
proof (cases "get_by cr_resource chat_resource (resources db) = None")
  case True
  then show ?thesis using r h by (auto simp: reconcile_chat_runs_def split: if_split_asm)
next
  case False
  with r obtain db1 where l: "resource_lock db = Inr db1"
    and rows: "reconcile_rows (clock 0) (\<lambda>i. clock (i + 1)) (expired_runs (clock 0) db1) db1 = Inr db'"
    by (auto simp: reconcile_chat_runs_def Let_def split: if_split_asm)
  have inv1: "chat_inv db1" using inv resource_lock_rows [OF l] by (simp add: chat_inv_def)
  show ?thesis
    by (rule reconcile_rows_held [OF rows inv1 resource_lock_held [OF l h] expired_runs_props [OF inv1]])
qed

lemma managed_held:
  assumes f: "finish_managed_attempt c ref user status answer db = Inr (res, db')" and inv: "chat_inv db" and h: "slots_held lo db"
  shows "slots_held lo db'"
proof -
  from f obtain found where rest: "(case found of
         None \<Rightarrow> Inr (None, db)
       | Some row \<Rightarrow>
           (case finish_chat_run c (claim_of_run row) user status answer db of
              Inr db' \<Rightarrow> Inr (Some True, db')
            | Inl e \<Rightarrow> if e = ChatRunOwnershipLost then Inr (Some False, db) else Inl e)) = Inr (res, db')"
    unfolding finish_managed_attempt_def bindr_eq_Inr by blast
  show ?thesis
  proof (cases found)
    case (Some row)
    with rest h show ?thesis
      by (cases "finish_chat_run c (claim_of_run row) user status answer db")
         (auto intro: finish_held [OF _ inv h] split: if_split_asm)
  qed (use rest h in simp)
qed

lemma chat_exec_held:
  assumes inv: "chat_inv db" and fresh: "op_fresh op db" and h: "slots_held lo db"
    and clock: "\<And>i. lo \<le> c i \<and> c i \<le> hi"
  shows "slots_held hi (chat_exec digest snap c op db)"
proof -
  have le: "lo \<le> hi" using clock [of 0] by simp
  note keep = committed_inv [where P = "slots_held hi", OF slots_held_later [OF h le]]
  have k: "slots_held hi (committed db r)" if "\<And>d. r = Inr d \<Longrightarrow> slots_held lo d" for r
    by (rule keep) (use that slots_held_later le in blast)
  show ?thesis
  proof (cases op)
    case (Admit_Chat ids limit request user owner)
    then show ?thesis using fresh by (auto intro!: keep simp: map_sum_eq_Inr intro: admit_held [OF _ inv _ h clock])
  next
    case (Renew_Chat claim)
    then show ?thesis by (auto intro!: keep simp: map_sum_eq_Inr intro: renew_held [OF _ inv h clock])
  next
    case (Finish_Chat claim user status answer)
    then show ?thesis by (auto intro!: k dest: finish_held [OF _ inv h])
  next
    case (Finish_Managed ref user status answer)
    then show ?thesis by (auto intro!: k simp: map_sum_eq_Inr dest: managed_held [OF _ inv h])
  next
    case (Cancel_Chat sid attempt user)
    then show ?thesis by (auto intro!: k simp: map_sum_eq_Inr dest: cancel_held [OF _ inv h])
  next
    case (Cancel_Session sid u)
    then show ?thesis by (auto intro!: k dest: cancel_session_held [OF _ inv h])
  next
    case (Reconcile_Chats doc payload)
    then show ?thesis by (auto intro!: k simp: map_sum_eq_Inr dest: reconcile_held [OF _ inv h])
  qed
qed

text \<open>The clock reads of consecutive operations: none earlier than the last of the previous one.\<close>

fun clock_bounds :: "time \<Rightarrow> (clock \<times> chat_op) list \<Rightarrow> time \<Rightarrow> bool" where
  "clock_bounds lo [] hi = (lo \<le> hi)"
| "clock_bounds lo ((c, op) # ops) hi = (\<exists>t. (\<forall>i. lo \<le> c i \<and> c i \<le> t) \<and> clock_bounds t ops hi)"

lemma chat_run_held:
  "chat_inv db \<Longrightarrow> slots_held lo db \<Longrightarrow> ops_fresh digest snap ops db \<Longrightarrow> clock_bounds lo ops hi \<Longrightarrow>
   slots_held hi (chat_run_ops digest snap ops db)"
proof (induction ops arbitrary: lo db)
  case Nil
  then show ?case by (auto intro: slots_held_later)
next
  case (Cons op ops)
  obtain c o' where op: "op = (c, o')" by (cases op)
  with Cons.prems obtain t where t: "\<And>i. lo \<le> c i \<and> c i \<le> t" "clock_bounds t ops hi" and f: "op_fresh o' db"
    "ops_fresh digest snap ops (chat_exec digest snap c o' db)" by auto
  show ?case
    using Cons.IH [OF conjunct1 [OF chat_exec_keeps [OF Cons.prems(1) f(1)]]
        chat_exec_held [OF Cons.prems(1) f(1) Cons.prems(2) t(1)] f(2) t(2)] op by simp
qed

lemma live_runs_bounded:
  assumes inv: "chat_inv db" and h: "slots_held now db" and p: "p \<in> set (resources db)" "cr_resource p = chat_resource"
  shows "int (length (filter (live_run now) (chat_runs db))) \<le> max 0 (cr_capacity_limit p)"
proof -
  let ?live = "filter (live_run now) (chat_runs db)" and ?busy = "filter (busy_slot now) (resource_slots db chat_resource)"
  have "(Some \<circ> rn_id) ` set ?live \<subseteq> cs_owner_id ` set ?busy"
  proof
    fix x assume "x \<in> (Some \<circ> rn_id) ` set ?live"
    then obtain r where r: "r \<in> set (chat_runs db)" "live_run now r" "x = Some (rn_id r)" by auto
    with h obtain s e where s: "s \<in> set (slots db)" "cs_resource s = chat_resource" "cs_owner_id s = Some (rn_id r)"
      "cs_expires_at s = Some e" "rn_lease_until r \<le> e" by (auto simp: slots_held_def holds_slot_def)
    then have "busy_slot now s" using r(2) by (simp add: busy_slot_def live_run_def)
    with s r(3) show "x \<in> cs_owner_id ` set ?busy" by (force simp: image_iff)
  qed
  then have "card ((Some \<circ> rn_id) ` set ?live) \<le> card (cs_owner_id ` set ?busy)" by (intro card_mono) auto
  also have "\<dots> \<le> length ?busy" using card_length [of "map cs_owner_id ?busy"] by simp
  finally have "card ((Some \<circ> rn_id) ` set ?live) \<le> length ?busy" .
  moreover have "card ((Some \<circ> rn_id) ` set ?live) = length ?live"
  proof -
    have "distinct (map (Some \<circ> rn_id) ?live)"
      using inv by (simp add: chat_inv_def unique_key_def distinct_map inj_on_def)
    then show ?thesis by (metis distinct_card image_set length_map)
  qed
  moreover have "int (length ?busy) \<le> max 0 (cr_capacity_limit p)"
    using capacity_inv_bound [OF _ p(1)] h p(2) by (simp add: slots_held_def)
  ultimately show ?thesis by linarith
qed

definition example_user :: chat_user where
  "example_user = \<lparr>cu_user_id = ''u'', cu_username = None\<rparr>"

definition example_request :: "string \<Rightarrow> string option \<Rightarrow> chat_request" where
  "example_request attempt sid = \<lparr>rq_session_id = sid, rq_query = ''why'', rq_attempt_id = Some attempt,
     rq_response_mode = Some ''fast'', rq_scenario_id = None, rq_dump = [(''query'', JStr ''why'')]\<rparr>"

definition uuid_a :: string where "uuid_a = ''00000000-0000-0000-0000-00000000000a''"
definition uuid_b :: string where "uuid_b = ''00000000-0000-0000-0000-00000000000b''"

definition empty_chat :: chat_db where
  "empty_chat = \<lparr>resources = [], slots = [], buckets = [], events = [], revisions = [],
     sessions = [], messages = [], chat_runs = []\<rparr>"

definition example_ids :: "string \<Rightarrow> int \<Rightarrow> chat_ids" where
  "example_ids i n = \<lparr>id_run = ''r'' @ i, id_slot = ''s'' @ i, id_attempt = ''a'' @ i, id_session = ''c'' @ i,
     id_question = n, id_answer = n + 1\<rparr>"

definition example_chat_ops :: "(clock \<times> chat_op) list" where
  "example_chat_ops =
     [(\<lambda>i. seconds 1, Admit_Chat (example_ids ''1'' 1) 2 (example_request uuid_a None) example_user ''w''),
      (\<lambda>i. seconds 2, Admit_Chat (example_ids ''2'' 3) 2 (example_request uuid_b (Some ''c1'')) example_user ''w''),
      (\<lambda>i. seconds 3, Admit_Chat (example_ids ''3'' 5) 2 (example_request uuid_a (Some ''c1'')) example_user ''w'')]"

text \<open>
  C19. Through every run of admissions, renewals, endings and cancellations, with new ids at each admission, an
  actor has at most one run per attempt and at most one running answer per session.
\<close>
theorem one_answer_at_a_time:
  assumes "chat_inv db" and "ops_fresh digest snap ops db"
  shows "distinct (map rn_attempt (chat_runs (chat_run_ops digest snap ops db))) \<and>
    (\<forall>r\<in>set (chat_runs (chat_run_ops digest snap ops db)). \<forall>s\<in>set (chat_runs (chat_run_ops digest snap ops db)).
       \<not> terminal r \<and> \<not> terminal s \<and> rn_session_id r = rn_session_id s \<and> rn_actor_id r = rn_actor_id s \<longrightarrow> r = s)"
proof -
  have "chat_inv (chat_run_ops digest snap ops db)"
    by (rule chat_system.steps_inv [OF chat_run_steps [OF assms(2)] assms(1)])
  then show ?thesis unfolding chat_inv_def unique_key_def by blast
qed

theorem one_answer_at_a_time_witness:
  "map rn_status (chat_runs (chat_run_ops json_dumps (\<lambda>_. Inl KeyError) example_chat_ops empty_chat)) = [''stopped'', ''running''] \<and>
   distinct (map rn_attempt (chat_runs (chat_run_ops json_dumps (\<lambda>_. Inl KeyError) example_chat_ops empty_chat)))"
proof
  show "map rn_status (chat_runs (chat_run_ops json_dumps (\<lambda>_. Inl KeyError) example_chat_ops empty_chat)) = [''stopped'', ''running'']"
    by code_simp
  have "chat_inv empty_chat" by (simp add: chat_inv_def empty_chat_def unique_key_def)
  moreover have "ops_fresh json_dumps (\<lambda>_. Inl KeyError) example_chat_ops empty_chat" by code_simp
  ultimately show "distinct (map rn_attempt (chat_runs (chat_run_ops json_dumps (\<lambda>_. Inl KeyError) example_chat_ops empty_chat)))"
    using one_answer_at_a_time by blast
qed


definition admitted_chat :: chat_db where
  "admitted_chat = chat_exec json_dumps (\<lambda>_. Inl KeyError) (\<lambda>i. seconds 1)
     (Admit_Chat (example_ids ''1'' 1) 2 (example_request uuid_a None) example_user ''w'') empty_chat"

definition admitted_row :: chat_run where
  "admitted_row = hd (chat_runs admitted_chat)"

definition stopped_chat :: chat_db where
  "stopped_chat = chat_exec json_dumps (\<lambda>_. Inl KeyError) (\<lambda>i. seconds 2) (Cancel_Chat ''c1'' uuid_a example_user) admitted_chat"


text \<open>
  Through every run of chat operations, whatever their clock reads, at most the configured number of chat
  requests is live at once: each live run holds a slot of the shared capacity of its own.
\<close>
theorem live_chats_bounded:
  assumes "chat_inv db" and "slots_held lo db" and "ops_fresh digest snap ops db" and "clock_bounds lo ops hi"
    and "get_by cr_resource chat_resource (resources (chat_run_ops digest snap ops db)) = Some p"
  shows "int (length (filter (live_run hi) (chat_runs (chat_run_ops digest snap ops db)))) \<le> max 0 (cr_capacity_limit p)"
proof (rule live_runs_bounded)
  show "chat_inv (chat_run_ops digest snap ops db)"
    by (rule chat_system.steps_inv [OF chat_run_steps [OF assms(3)] assms(1)])
  show "slots_held hi (chat_run_ops digest snap ops db)" by (rule chat_run_held [OF assms(1-4)])
qed (use get_by_SomeD [OF assms(5)] in auto)

theorem live_chats_bounded_witness:
  "int (length (filter (live_run (seconds 4)) (chat_runs (chat_run_ops json_dumps (\<lambda>_. Inl KeyError) example_chat_ops empty_chat))))
     \<le> max 0 (2 :: int)"
proof -
  have h: "slots_held (seconds 0) empty_chat"
    by (simp add: slots_held_def empty_chat_def capacity_inv_def unique_key_def)
  have c: "clock_bounds (seconds 0) example_chat_ops (seconds 4)"
    unfolding example_chat_ops_def clock_bounds.simps
    by (rule exI [of _ "seconds 1"], simp add: seconds_def, rule exI [of _ "seconds 2"], simp add: seconds_def,
        rule exI [of _ "seconds 3"], simp add: seconds_def)
  have i: "chat_inv empty_chat" by (simp add: chat_inv_def empty_chat_def unique_key_def)
  have f: "ops_fresh json_dumps (\<lambda>_. Inl KeyError) example_chat_ops empty_chat" by code_simp
  have "get_by cr_resource chat_resource (resources (chat_run_ops json_dumps (\<lambda>_. Inl KeyError) example_chat_ops empty_chat))
      = Some \<lparr>cr_resource = chat_resource, cr_capacity_limit = 2\<rparr>" by code_simp
  from live_chats_bounded [OF i h f c this] show ?thesis by simp
qed

end
