(* ===== verification/Artifacts.thy ===== *)
theory Artifacts
  imports Generations Interfaces
begin

text \<open>
  Immutable artifact bytes and the rows that reference them: \<open>artifacts/contract.py\<close>,
  \<open>repository.py\<close>, \<open>checkpoints.py\<close>, \<open>lifecycle.py\<close> and the transactions of the collector in
  \<open>gc.py\<close>. An object is bound by owners and protected by read leases; deletion is a claim in
  one transaction, the provider's deletion, and an acknowledgement in another.

  The columns through which other tables name an object (source cache heads, legacy
  documents, migrated generations) are lists of object ids. New tokens are arguments;
  lease and grace durations are whole seconds.
\<close>

subsection \<open>References and rows\<close>

record blob_ref =
  br_object_id :: string
  br_key :: string
  br_sha256 :: string
  br_size :: int
  br_media_type :: string
  br_store_id :: string

definition printable :: "char \<Rightarrow> bool" where
  "printable c = (let n = of_char c :: nat in 32 \<le> n \<and> n \<le> 126)"

definition blob_ref_ok :: "blob_ref \<Rightarrow> bool" where
  "blob_ref_ok ref \<longleftrightarrow>
     hex_string 32 (br_object_id ref) \<and> br_key ref = ''objects/'' @ br_object_id ref \<and>
     hex_string 64 (br_sha256 ref) \<and> 0 \<le> br_size ref \<and>
     fullmatch_class (upper_az @ lower_az @ digits09 @ ''_-'') 1 128 (br_store_id ref) \<and>
     1 \<le> length (br_media_type ref) \<and> length (br_media_type ref) \<le> 255 \<and> list_all printable (br_media_type ref)"

definition make_blob_ref :: "blob_ref \<Rightarrow> blob_ref result" where
  "make_blob_ref ref = (if blob_ref_ok ref then Inr ref else Inl ValueError)"

datatype blob_state = Blob_Ready | Blob_Deleting | Blob_Deleted

record artifact_object =
  ao_ref :: blob_ref
  ao_state :: blob_state
  ao_delete_token :: "string option"
  ao_delete_expires_at :: "time option"
  ao_created_at :: time

definition ao_id :: "artifact_object \<Rightarrow> string" where
  "ao_id row = br_object_id (ao_ref row)"

type_synonym owner_identity = "string \<times> string \<times> string \<times> string"

record artifact_binding =
  ab_identity :: owner_identity
  ab_object_id :: string
  ab_doc_id :: "string option"

type_synonym checkpoint_identity = "string \<times> string \<times> int \<times> string"

record checkpoint_binding =
  cb_identity :: checkpoint_identity
  cb_object_id :: string

record read_lease =
  lz_object_id :: string
  lz_token :: string
  lz_expires_at :: time

record upload_receipt =
  ur_actor_id :: string
  ur_idempotency_key :: string
  ur_request_fingerprint :: string
  ur_document_id :: string

record artifact_orphan =
  or_object_id :: string
  or_store_id :: string
  or_size :: int
  or_fingerprint :: string
  or_first_seen_at :: time

record gc_state =
  gc_store_id :: string
  gc_scope_token :: string
  gc_location_hash :: string
  gc_inventory_cursor :: "string option"
  gc_orphan_cursor :: string
  gc_sweep_cursor :: string
  gc_owner_token :: "string option"
  gc_lease_expires_at :: "time option"

record art_db = doc_db +
  objects :: "artifact_object list"
  bindings :: "artifact_binding list"
  checkpoints :: "checkpoint_binding list"
  cache_heads :: "string list"
  legacy_artifacts :: "string list"
  migration_artifacts :: "string list"
  read_leases :: "read_lease list"
  receipts :: "upload_receipt list"
  orphans :: "artifact_orphan list"
  gc_states :: "gc_state list"

definition lock_object :: "string \<Rightarrow> art_db \<Rightarrow> artifact_object option" where
  "lock_object object_id db = get_by ao_id object_id (objects db)"

definition put_object :: "artifact_object \<Rightarrow> art_db \<Rightarrow> art_db" where
  "put_object row db = db\<lparr>objects := put_by ao_id row (objects db)\<rparr>"

subsection \<open>Bindings\<close>

definition owner_types :: "string list" where
  "owner_types = [''original'', ''source'', ''generation'', ''checkpoint'', ''export'', ''diagnostic_bundle'', ''migration'']"

definition document_owners :: "string list" where
  "document_owners = [''original'', ''source'', ''generation'', ''checkpoint'']"

definition name_bounded :: "nat \<Rightarrow> string \<Rightarrow> bool" where
  "name_bounded limit v \<longleftrightarrow> 1 \<le> length v \<and> length v \<le> limit \<and> list_all (\<lambda>c. 32 \<le> (of_char c :: nat)) v"

definition owner_identity :: "string \<Rightarrow> string \<Rightarrow> string option \<Rightarrow> string \<Rightarrow> owner_identity result" where
  "owner_identity owner_type owner_id generation_id logical_name =
     (if owner_type \<notin> set owner_types then Inl ValueError
      else if \<not> name_bounded 64 owner_id \<or> \<not> name_bounded 512 logical_name then Inl ValueError
      else if (case generation_id of None \<Rightarrow> False | Some g \<Rightarrow> \<not> hex_string 32 g) then Inl ValueError
      else Inr (owner_type, owner_id, (case generation_id of None \<Rightarrow> [] | Some g \<Rightarrow> g), logical_name))"

definition new_object :: "blob_ref \<Rightarrow> time \<Rightarrow> artifact_object" where
  "new_object ref created = \<lparr>ao_ref = ref, ao_state = Blob_Ready, ao_delete_token = None,
     ao_delete_expires_at = None, ao_created_at = created\<rparr>"

definition register_blob :: "time \<Rightarrow> blob_ref \<Rightarrow> art_db \<Rightarrow> (artifact_object \<times> art_db) result" where
  "register_blob now ref db =
     (case lock_object (br_object_id ref) db of
        None \<Rightarrow> let row = new_object ref now in Inr (row, db\<lparr>objects := objects db @ [row]\<rparr>)
      | Some row \<Rightarrow>
          if ao_ref row \<noteq> ref then Inl BlobConflict
          else if ao_state row \<noteq> Blob_Ready then Inl BlobConflict
          else Inr (row, db))"

definition attach_blob ::
    "gen_ctx \<Rightarrow> blob_ref \<Rightarrow> string \<Rightarrow> string \<Rightarrow> string option \<Rightarrow> string \<Rightarrow> art_db \<Rightarrow> art_db result" where
  "attach_blob c ref owner_type owner_id generation_id logical_name db =
     bindr (owner_identity owner_type owner_id generation_id logical_name) (\<lambda>identity.
       let doc_id = (if owner_type \<in> set document_owners then Some owner_id else None) in
       if (case doc_id of None \<Rightarrow> False | Some d \<Rightarrow> \<not> lock_document_write d False db) then Inl BlobConflict
       else bindr (case (doc_id, generation_id) of
              (Some d, Some g) \<Rightarrow> bindr (lock_writable_generation c d g db) (\<lambda>(_, db1). Inr db1)
            | _ \<Rightarrow> Inr db) (\<lambda>db1.
         bindr (register_blob (gx_now c) ref db1) (\<lambda>(_, db2).
           case get_by ab_identity identity (bindings db2) of
             Some b \<Rightarrow> if ab_object_id b \<noteq> br_object_id ref then Inl BlobConflict else Inr db2
           | None \<Rightarrow> Inr (db2\<lparr>bindings := bindings db2 @
               [\<lparr>ab_identity = identity, ab_object_id = br_object_id ref, ab_doc_id = doc_id\<rparr>]\<rparr>))))"

definition resolve_blob :: "string \<Rightarrow> string \<Rightarrow> string option \<Rightarrow> string \<Rightarrow> art_db \<Rightarrow> blob_ref option result" where
  "resolve_blob owner_type owner_id generation_id logical_name db =
     bindr (owner_identity owner_type owner_id generation_id logical_name) (\<lambda>identity.
       case get_by ab_identity identity (bindings db) of
         None \<Rightarrow> Inr None
       | Some b \<Rightarrow>
           (case get_by ao_id (ab_object_id b) (objects db) of
              None \<Rightarrow> Inl BlobConflict
            | Some row \<Rightarrow> if ao_state row \<noteq> Blob_Ready then Inl BlobConflict else Inr (Some (ao_ref row))))"

definition record_upload :: "gen_ctx \<Rightarrow> string \<Rightarrow> blob_ref \<Rightarrow> (string \<times> string \<times> string) option \<Rightarrow> art_db \<Rightarrow> art_db result" where
  "record_upload c document_id ref receipt db =
     bindr (attach_blob c ref ''original'' document_id None ''original'' db) (\<lambda>db1.
       Inr (case receipt of None \<Rightarrow> db1
         | Some (actor, key, fingerprint) \<Rightarrow> db1\<lparr>receipts := receipts db1 @
             [\<lparr>ur_actor_id = actor, ur_idempotency_key = key, ur_request_fingerprint = fingerprint, ur_document_id = document_id\<rparr>]\<rparr>))"

subsection \<open>Checkpoints\<close>

definition checkpoint_key :: "string \<Rightarrow> string \<Rightarrow> int \<Rightarrow> string \<Rightarrow> checkpoint_identity result" where
  "checkpoint_key doc_id generation_id chunk_index source_signature =
     (if \<not> hex_string 16 doc_id \<or> \<not> hex_string 32 generation_id \<or> chunk_index < 0 \<or> \<not> hex_string 64 source_signature
      then Inl ValueError
      else Inr (doc_id, generation_id, chunk_index, source_signature))"

text \<open>Compare and swap: the binding is new, the same, or the one the caller expects.\<close>

definition attach_checkpoint ::
    "gen_ctx \<Rightarrow> blob_ref \<Rightarrow> string \<Rightarrow> string \<Rightarrow> int \<Rightarrow> string \<Rightarrow> string option \<Rightarrow> art_db \<Rightarrow> art_db result" where
  "attach_checkpoint c ref doc_id generation_id chunk_index source_signature expected db =
     bindr (checkpoint_key doc_id generation_id chunk_index source_signature) (\<lambda>identity.
     bindr (lock_writable_generation c doc_id generation_id db) (\<lambda>(_, db1).
       let existing = get_by cb_identity identity (checkpoints db1) in
       if (case existing of None \<Rightarrow> expected \<noteq> None
           | Some b \<Rightarrow> cb_object_id b \<noteq> br_object_id ref \<and> Some (cb_object_id b) \<noteq> expected)
       then Inl BlobConflict
       else bindr (register_blob (gx_now c) ref db1) (\<lambda>(_, db2).
         let row = \<lparr>cb_identity = identity, cb_object_id = br_object_id ref\<rparr> in
         Inr (db2\<lparr>checkpoints := (if existing = None then checkpoints db2 @ [row]
                                  else put_by cb_identity row (checkpoints db2))\<rparr>))))"

subsection \<open>Read leases and deletion\<close>

definition duration :: "int \<Rightarrow> int \<Rightarrow> int \<Rightarrow> bool" where
  "duration lo hi v \<longleftrightarrow> lo \<le> v \<and> v \<le> hi"

definition acquire_read_lease :: "time \<Rightarrow> string \<Rightarrow> blob_ref \<Rightarrow> int \<Rightarrow> art_db \<Rightarrow> (string \<times> art_db) result" where
  "acquire_read_lease now token ref ttl db =
     (if \<not> duration 1 300 ttl then Inl ValueError
      else case lock_object (br_object_id ref) db of
        None \<Rightarrow> Inl BlobLeaseLost
      | Some row \<Rightarrow>
          if ao_state row \<noteq> Blob_Ready \<or> ao_ref row \<noteq> ref then Inl BlobLeaseLost
          else Inr (token, db\<lparr>read_leases := read_leases db @
            [\<lparr>lz_object_id = br_object_id ref, lz_token = token, lz_expires_at = now + seconds ttl\<rparr>]\<rparr>))"

definition lease_key :: "read_lease \<Rightarrow> string \<times> string" where
  "lease_key l = (lz_object_id l, lz_token l)"

definition renew_read_lease :: "time \<Rightarrow> string \<Rightarrow> string \<Rightarrow> int \<Rightarrow> art_db \<Rightarrow> art_db result" where
  "renew_read_lease now object_id token ttl db =
     (if \<not> duration 1 300 ttl then Inl ValueError
      else case (lock_object object_id db, get_by lease_key (object_id, token) (read_leases db)) of
        (Some row, Some lease) \<Rightarrow>
          if ao_state row \<noteq> Blob_Ready \<or> lz_expires_at lease \<le> now then Inl BlobLeaseLost
          else Inr (db\<lparr>read_leases := put_by lease_key (lease\<lparr>lz_expires_at := now + seconds ttl\<rparr>) (read_leases db)\<rparr>)
      | _ \<Rightarrow> Inl BlobLeaseLost)"

definition release_read_lease :: "string \<Rightarrow> string \<Rightarrow> art_db \<Rightarrow> art_db" where
  "release_read_lease object_id token db =
     db\<lparr>read_leases := delete_where (\<lambda>l. lz_object_id l = object_id \<and> lz_token l = token) (read_leases db)\<rparr>"

record delete_claim =
  dl_ref :: blob_ref
  dl_token :: string

definition referenced :: "string \<Rightarrow> art_db \<Rightarrow> bool" where
  "referenced object_id db \<longleftrightarrow>
     object_id \<in> set (map ab_object_id (bindings db)) \<or> object_id \<in> set (map cb_object_id (checkpoints db)) \<or>
     object_id \<in> set (cache_heads db) \<or> object_id \<in> set (legacy_artifacts db) \<or> object_id \<in> set (migration_artifacts db)"

definition leased :: "time \<Rightarrow> string \<Rightarrow> art_db \<Rightarrow> bool" where
  "leased now object_id db \<longleftrightarrow> list_ex (\<lambda>l. lz_object_id l = object_id \<and> now < lz_expires_at l) (read_leases db)"

definition claim_delete ::
    "time \<Rightarrow> string \<Rightarrow> string \<Rightarrow> int \<Rightarrow> int \<Rightarrow> string option \<Rightarrow> bool \<Rightarrow> art_db \<Rightarrow> (delete_claim option \<times> art_db) result" where
  "claim_delete now token object_id grace ttl store_id reappeared db =
     (if \<not> duration 0 (365 * 86400) grace \<or> \<not> duration 1 300 ttl then Inl ValueError
      else case lock_object object_id db of
        None \<Rightarrow> Inr (None, db)
      | Some row \<Rightarrow>
          if ao_state row = Blob_Deleted \<and> \<not> reappeared then Inr (None, db)
          else if (case store_id of None \<Rightarrow> False | Some s \<Rightarrow> br_store_id (ao_ref row) \<noteq> s) then Inl ValueError
          else if ao_state row = Blob_Deleting \<and> later (ao_delete_expires_at row) now then Inr (None, db)
          else if referenced object_id db then Inr (None, db)
          else if leased now object_id db then Inr (None, db)
          else if now < ao_created_at row + seconds grace then Inr (None, db)
          else
            let row' = row\<lparr>ao_state := Blob_Deleting, ao_delete_token := Some token,
                           ao_delete_expires_at := Some (now + seconds ttl)\<rparr>
            in Inr (Some \<lparr>dl_ref = ao_ref row, dl_token = token\<rparr>,
                    put_object row' (db\<lparr>read_leases :=
                      delete_where (\<lambda>l. lz_object_id l = object_id \<and> lz_expires_at l \<le> now) (read_leases db)\<rparr>)))"

definition finish_delete :: "delete_claim \<Rightarrow> art_db \<Rightarrow> bool \<times> art_db" where
  "finish_delete claim db =
     (case lock_object (br_object_id (dl_ref claim)) db of
        None \<Rightarrow> (False, db)
      | Some row \<Rightarrow>
          if ao_state row \<noteq> Blob_Deleting \<or> ao_delete_token row \<noteq> Some (dl_token claim) then (False, db)
          else (True, put_object (row\<lparr>ao_state := Blob_Deleted, ao_delete_token := None, ao_delete_expires_at := None\<rparr>) db))"

text \<open>
  \<open>collect_blob\<close>: the claim commits before the provider is asked, and the acknowledgement is a
  later transaction. \<open>delete\<close> is the provider's deletion and \<open>between\<close> what other
  transactions do to the tables meanwhile.
\<close>

definition collect_blob ::
    "time \<Rightarrow> string \<Rightarrow> string \<Rightarrow> int \<Rightarrow> string \<Rightarrow> bool \<Rightarrow> (blob_ref \<Rightarrow> unit result) \<Rightarrow> (art_db \<Rightarrow> art_db) \<Rightarrow> art_db \<Rightarrow>
     (bool result \<times> art_db)" where
  "collect_blob now token object_id grace store_id reappeared delete between db =
     (case claim_delete now token object_id grace 60 (Some store_id) reappeared db of
        Inl e \<Rightarrow> (Inl e, db)
      | Inr (None, db1) \<Rightarrow> (Inr False, db1)
      | Inr (Some claim, db1) \<Rightarrow>
          (case delete (dl_ref claim) of
             Inl e \<Rightarrow> (Inl e, between db1)
           | Inr _ \<Rightarrow> let (ended, db2) = finish_delete claim (between db1) in (Inr ended, db2)))"

subsection \<open>The collector\<close>

text \<open>\<open>TTL\<close> of the collector's ownership of a store, in seconds.\<close>

definition gc_ttl :: int where
  "gc_ttl = 120"

definition gc_row :: "string \<Rightarrow> art_db \<Rightarrow> gc_state option" where
  "gc_row store_id db = get_by gc_store_id store_id (gc_states db)"

definition put_gc :: "gc_state \<Rightarrow> art_db \<Rightarrow> art_db" where
  "put_gc row db = db\<lparr>gc_states := put_by gc_store_id row (gc_states db)\<rparr>"

definition initialize_gc :: "string \<Rightarrow> string \<Rightarrow> string \<Rightarrow> art_db \<Rightarrow> (string \<times> bool \<times> art_db) result" where
  "initialize_gc new_token store_id location db =
     (let created = (gc_row store_id db = None);
          db1 = (if created then db\<lparr>gc_states := gc_states db @ [\<lparr>gc_store_id = store_id, gc_scope_token = new_token,
                    gc_location_hash = location, gc_inventory_cursor = None, gc_orphan_cursor = [], gc_sweep_cursor = [],
                    gc_owner_token = None, gc_lease_expires_at = None\<rparr>]\<rparr> else db)
      in case gc_row store_id db1 of
           None \<Rightarrow> Inl KeyError
         | Some state \<Rightarrow> if gc_location_hash state \<noteq> location then Inl BlobConflict
                         else Inr (gc_scope_token state, created, db1))"

text \<open>Beginning a cycle takes the store unless another owner's lease is live; None is busy.\<close>

definition gc_held :: "time \<Rightarrow> gc_state \<Rightarrow> bool" where
  "gc_held now state \<longleftrightarrow> gc_owner_token state \<noteq> None \<and> gc_owner_token state \<noteq> Some [] \<and> later (gc_lease_expires_at state) now"

definition acquire_gc :: "time \<Rightarrow> string \<Rightarrow> string \<Rightarrow> art_db \<Rightarrow> (gc_state option \<times> art_db) result" where
  "acquire_gc now token store_id db =
     (case gc_row store_id db of
        None \<Rightarrow> Inl KeyError
      | Some state \<Rightarrow>
          if gc_held now state then Inr (None, db)
          else let state' = state\<lparr>gc_owner_token := Some token, gc_lease_expires_at := Some (now + seconds gc_ttl)\<rparr>
               in Inr (Some state', put_gc state' db))"

definition release_gc :: "string \<Rightarrow> string \<Rightarrow> art_db \<Rightarrow> art_db" where
  "release_gc token store_id db =
     db\<lparr>gc_states := update_where (\<lambda>s. gc_store_id s = store_id \<and> gc_owner_token s = Some token)
        (\<lambda>s. s\<lparr>gc_owner_token := None, gc_lease_expires_at := None\<rparr>) (gc_states db)\<rparr>"

text \<open>The guard of a running cycle, with the process's monotonic clock.\<close>

record gc_guard =
  gg_store_id :: string
  gg_token :: string
  gg_renewed :: time
  gg_deadline :: time

definition guard_deadline :: "time \<Rightarrow> time" where
  "guard_deadline tick = tick + seconds (gc_ttl * 8) div 10"

definition new_guard :: "time \<Rightarrow> string \<Rightarrow> string \<Rightarrow> gc_guard" where
  "new_guard tick store_id token = \<lparr>gg_store_id = store_id, gg_token = token, gg_renewed = tick, gg_deadline = guard_deadline tick\<rparr>"

definition guard_row :: "time \<Rightarrow> gc_guard \<Rightarrow> art_db \<Rightarrow> gc_state result" where
  "guard_row now g db = (case gc_row (gg_store_id g) db of
       None \<Rightarrow> Inl BlobLeaseLost
     | Some state \<Rightarrow> if gc_owner_token state \<noteq> Some (gg_token g) \<or> \<not> later (gc_lease_expires_at state) now
                    then Inl BlobLeaseLost else Inr state)"

definition guard_call :: "time \<Rightarrow> time \<Rightarrow> bool \<Rightarrow> gc_guard \<Rightarrow> art_db \<Rightarrow> (gc_guard \<times> art_db) result" where
  "guard_call tick now stopped g db =
     (if stopped \<or> gg_deadline g \<le> tick then Inl BlobLeaseLost
      else if seconds 10 \<le> tick - gg_renewed g
      then bindr (guard_row now g db) (\<lambda>state.
             Inr (g\<lparr>gg_renewed := tick, gg_deadline := guard_deadline tick\<rparr>,
                  put_gc (state\<lparr>gc_lease_expires_at := Some (now + seconds gc_ttl)\<rparr>) db))
      else Inr (g, db))"

datatype gc_cursor = Inventory_Cursor "string option" | Orphan_Cursor string | Sweep_Cursor string

fun set_cursor :: "gc_cursor \<Rightarrow> gc_state \<Rightarrow> gc_state" where
  "set_cursor (Inventory_Cursor v) s = s\<lparr>gc_inventory_cursor := v\<rparr>"
| "set_cursor (Orphan_Cursor v) s = s\<lparr>gc_orphan_cursor := v\<rparr>"
| "set_cursor (Sweep_Cursor v) s = s\<lparr>gc_sweep_cursor := v\<rparr>"

definition gc_checkpoint :: "time \<Rightarrow> time \<Rightarrow> bool \<Rightarrow> gc_guard \<Rightarrow> gc_cursor \<Rightarrow> art_db \<Rightarrow> (gc_guard \<times> art_db) result" where
  "gc_checkpoint tick now stopped g cursor db =
     bindr (guard_call tick now stopped g db) (\<lambda>(g', db1).
       bindr (guard_row now g' db1) (\<lambda>state. Inr (g', put_gc (set_cursor cursor state) db1)))"

record candidate =
  cd_object_id :: string
  cd_store_id :: string
  cd_size :: int
  cd_fingerprint :: string

definition forget :: "string \<Rightarrow> string \<Rightarrow> art_db \<Rightarrow> art_db" where
  "forget store_id object_id db =
     db\<lparr>orphans := delete_where (\<lambda>o'. or_object_id o' = object_id \<and> or_store_id o' = store_id) (orphans db)\<rparr>"

text \<open>Known to the database: not an orphan of this store.\<close>

definition known_elsewhere :: "string \<Rightarrow> artifact_object \<Rightarrow> bool" where
  "known_elsewhere store_id row \<longleftrightarrow> br_store_id (ao_ref row) \<noteq> store_id \<or> ao_state row \<noteq> Blob_Deleted"

text \<open>One item of \<open>_observe\<close>; the result says whether an observation was new.\<close>

definition observe_item :: "time \<Rightarrow> gc_guard \<Rightarrow> candidate \<Rightarrow> art_db \<Rightarrow> (bool \<times> art_db) result" where
  "observe_item now g item db =
     bindr (guard_row now g db) (\<lambda>_.
       let store_id = gg_store_id g in
       if (case get_by ao_id (cd_object_id item) (objects db) of None \<Rightarrow> False | Some row \<Rightarrow> known_elsewhere store_id row)
       then Inr (False, forget store_id (cd_object_id item) db)
       else let fresh = \<lparr>or_object_id = cd_object_id item, or_store_id = store_id, or_size = cd_size item,
                         or_fingerprint = cd_fingerprint item, or_first_seen_at = now\<rparr>
       in case get_by or_object_id (cd_object_id item) (orphans db) of
            None \<Rightarrow> Inr (True, db\<lparr>orphans := orphans db @ [fresh]\<rparr>)
          | Some orphan \<Rightarrow>
              if or_store_id orphan = store_id \<and>
                 (or_fingerprint orphan, or_size orphan) \<noteq> (cd_fingerprint item, cd_size item)
              then Inr (False, db\<lparr>orphans := put_by or_object_id fresh (orphans db)\<rparr>)
              else Inr (False, db))"

definition promotable :: "time \<Rightarrow> string \<Rightarrow> string \<Rightarrow> int \<Rightarrow> nat \<Rightarrow> art_db \<Rightarrow> artifact_orphan list" where
  "promotable now store_id cursor grace batch db =
     take batch (order_by or_object_id (filter (\<lambda>o'. or_store_id o' = store_id \<and> cursor < or_object_id o' \<and>
       or_first_seen_at o' \<le> now - seconds grace) (orphans db)))"

text \<open>The budget of both passes: an object beyond it is skipped, never the rest of the page.\<close>

fun within_budget :: "('a \<Rightarrow> int) \<Rightarrow> int \<Rightarrow> int \<Rightarrow> 'a list \<Rightarrow> 'a list \<times> nat \<times> int" where
  "within_budget weight max_bytes remaining [] = ([], 0, remaining)"
| "within_budget weight max_bytes remaining (x # xs) =
     (if remaining < weight x \<or> max_bytes < weight x
      then (case within_budget weight max_bytes remaining xs of (taken, skipped, rest) \<Rightarrow> (taken, Suc skipped, rest))
      else (case within_budget weight max_bytes (remaining - weight x) xs of (taken, skipped, rest) \<Rightarrow> (x # taken, skipped, rest)))"

text \<open>What a candidate needs: nothing, a collected tombstone, or an inspection of its bytes.\<close>

datatype promotion = Skip_Orphan | Tombstone blob_ref | Inspect_Bytes

definition unchanged :: "artifact_orphan \<Rightarrow> art_db \<Rightarrow> bool" where
  "unchanged seen db = (case get_by or_object_id (or_object_id seen) (orphans db) of
       None \<Rightarrow> False
     | Some o' \<Rightarrow> or_fingerprint o' = or_fingerprint seen \<and> or_first_seen_at o' = or_first_seen_at seen)"

definition promote_check :: "time \<Rightarrow> gc_guard \<Rightarrow> artifact_orphan \<Rightarrow> art_db \<Rightarrow> (promotion \<times> art_db) result" where
  "promote_check now g seen db =
     bindr (guard_row now g db) (\<lambda>_.
       if \<not> unchanged seen db then Inr (Skip_Orphan, db)
       else case get_by ao_id (or_object_id seen) (objects db) of
         None \<Rightarrow> Inr (Inspect_Bytes, db)
       | Some row \<Rightarrow>
           if known_elsewhere (gg_store_id g) row
           then Inr (Skip_Orphan, forget (gg_store_id g) (or_object_id seen) db)
           else if br_size (ao_ref row) \<noteq> or_size seen then Inl ValueError
           else Inr (Tombstone (ao_ref row), db))"

text \<open>Registration of inspected bytes: an object is inserted only when it is unknown.\<close>

definition promote_register :: "time \<Rightarrow> gc_guard \<Rightarrow> artifact_orphan \<Rightarrow> blob_ref \<Rightarrow> art_db \<Rightarrow> (bool \<times> art_db) result" where
  "promote_register now g seen ref db =
     bindr (guard_row now g db) (\<lambda>_.
       if \<not> unchanged seen db then Inr (False, db)
       else let inserted = (lock_object (br_object_id ref) db = None);
                db1 = (if inserted then db\<lparr>objects := objects db @ [new_object ref (or_first_seen_at seen)]\<rparr> else db)
       in case lock_object (or_object_id seen) db1 of
            None \<Rightarrow> Inl KeyError
          | Some row \<Rightarrow>
              if br_store_id (ao_ref row) \<noteq> gg_store_id g then Inr (False, db1)
              else if ao_state row = Blob_Deleted
              then if br_sha256 (ao_ref row) \<noteq> br_sha256 ref \<or> br_size (ao_ref row) \<noteq> br_size ref
                   then Inl ValueError else Inr (inserted, db1)
              else Inr (inserted, forget (gg_store_id g) (or_object_id seen) db1))"

text \<open>The query of \<open>_sweep\<close>.\<close>

definition sweepable :: "time \<Rightarrow> string \<Rightarrow> int \<Rightarrow> art_db \<Rightarrow> artifact_object \<Rightarrow> bool" where
  "sweepable now store_id grace db row \<longleftrightarrow>
     br_store_id (ao_ref row) = store_id \<and> (ao_state row = Blob_Ready \<or> ao_state row = Blob_Deleting) \<and>
     ao_created_at row \<le> now - seconds grace \<and>
     (ao_state row = Blob_Ready \<or> ao_delete_expires_at row = None \<or> \<not> later (ao_delete_expires_at row) now) \<and>
     \<not> list_ex (\<lambda>b. ab_object_id b = ao_id row) (bindings db) \<and>
     \<not> list_ex (\<lambda>b. cb_object_id b = ao_id row) (checkpoints db) \<and>
     ao_id row \<notin> set (cache_heads db) \<and> ao_id row \<notin> set (legacy_artifacts db) \<and> ao_id row \<notin> set (migration_artifacts db) \<and>
     \<not> list_ex (\<lambda>l. lz_object_id l = ao_id row \<and> now < lz_expires_at l) (read_leases db)"

definition sweep_page :: "time \<Rightarrow> string \<Rightarrow> string \<Rightarrow> int \<Rightarrow> nat \<Rightarrow> art_db \<Rightarrow> blob_ref list" where
  "sweep_page now store_id cursor grace batch db =
     map ao_ref (take batch (order_by ao_id (filter (\<lambda>row. cursor < ao_id row \<and> sweepable now store_id grace db row) (objects db))))"

definition next_cursor :: "nat \<Rightarrow> string list \<Rightarrow> string" where
  "next_cursor batch ids = (if length ids = batch then last ids else [])"

subsection \<open>A reference keeps its object readable\<close>

definition ready :: "string \<Rightarrow> art_db \<Rightarrow> bool" where
  "ready i db \<longleftrightarrow> (case lock_object i db of None \<Rightarrow> False | Some row \<Rightarrow> ao_state row = Blob_Ready)"

definition art_inv :: "time \<Rightarrow> art_db \<Rightarrow> bool" where
  "art_inv now db \<longleftrightarrow> unique_key ao_id (objects db) \<and> (\<forall>i. referenced i db \<or> leased now i db \<longrightarrow> ready i db)"

text \<open>An object whose deletion was claimed.\<close>

definition claimed :: "string \<Rightarrow> art_db \<Rightarrow> bool" where
  "claimed i db \<longleftrightarrow> (case lock_object i db of None \<Rightarrow> False | Some row \<Rightarrow> ao_state row \<noteq> Blob_Ready)"

lemma ready_not_claimed: "ready i db \<Longrightarrow> \<not> claimed i db"
  by (simp add: ready_def claimed_def split: option.splits)

lemma leased_antimono: "leased now' i db \<Longrightarrow> now \<le> now' \<Longrightarrow> leased now i db"
  by (auto simp: leased_def list_ex_iff intro: le_less_trans)

lemma art_inv_later: "art_inv now db \<Longrightarrow> now \<le> now' \<Longrightarrow> art_inv now' db"
  by (auto simp: art_inv_def dest: leased_antimono)

definition same_artifacts :: "art_db \<Rightarrow> art_db \<Rightarrow> bool" where
  "same_artifacts db db' \<longleftrightarrow> objects db' = objects db \<and> bindings db' = bindings db \<and> checkpoints db' = checkpoints db \<and>
     cache_heads db' = cache_heads db \<and> legacy_artifacts db' = legacy_artifacts db \<and>
     migration_artifacts db' = migration_artifacts db \<and> read_leases db' = read_leases db"

lemma same_artifacts_refl [simp]: "same_artifacts db db"
  by (simp add: same_artifacts_def)

lemma same_artifacts_simps:
  assumes "same_artifacts db db'"
  shows "lock_object i db' = lock_object i db" "ready i db' = ready i db" "claimed i db' = claimed i db"
    "referenced i db' = referenced i db" "leased now i db' = leased now i db" "art_inv now db' = art_inv now db"
proof -
  show l: "lock_object i db' = lock_object i db" for i using assms by (simp add: lock_object_def same_artifacts_def)
  show r: "ready i db' = ready i db" for i by (simp add: ready_def l)
  show "claimed i db' = claimed i db" by (simp add: claimed_def l)
  show f: "referenced i db' = referenced i db" for i using assms by (simp add: referenced_def same_artifacts_def)
  show e: "leased now i db' = leased now i db" for i using assms by (simp add: leased_def same_artifacts_def)
  show "art_inv now db' = art_inv now db" using assms by (simp add: art_inv_def r f e same_artifacts_def)
qed

lemma lock_writable_same:
  fixes db :: art_db
  assumes "lock_writable_generation c d g db = Inr (x, db')"
  shows "same_artifacts db db'"
  using assms
  by (auto simp: lock_writable_generation_def locked_state_def same_artifacts_def Let_def
      split: if_split_asm option.split_asm)

text \<open>Objects only appear and never return from a claim.\<close>

definition objects_grow :: "art_db \<Rightarrow> art_db \<Rightarrow> bool" where
  "objects_grow db db' \<longleftrightarrow> (\<forall>i. (ready i db \<longrightarrow> ready i db') \<and> (claimed i db \<longrightarrow> claimed i db'))"

lemma register_blob_Inr:
  assumes "register_blob now ref db = Inr (row, db')" and "unique_key ao_id (objects db)"
  shows "unique_key ao_id (objects db')" and "objects_grow db db'" and "ready (br_object_id ref) db'"
    and "\<not> claimed (br_object_id ref) db" and "referenced i db' = referenced i db" and "leased t i db' = leased t i db"
    and "bindings db' = bindings db" and "checkpoints db' = checkpoints db"
  using assms
  by (auto simp: register_blob_def lock_object_def unique_key_append objects_grow_def ready_def claimed_def get_by_append
      new_object_def ao_id_def referenced_def leased_def Let_def split: option.splits if_split_asm)

lemma objects_grow_refl [simp]: "objects_grow db db"
  by (simp add: objects_grow_def)

lemma objects_grow_same: "same_artifacts db db' \<Longrightarrow> objects_grow db db'"
  by (simp add: objects_grow_def same_artifacts_simps)

lemma objects_grow_trans: "objects_grow db db1 \<Longrightarrow> objects_grow db1 db2 \<Longrightarrow> objects_grow db db2"
  unfolding objects_grow_def by (meson)

lemma objects_grow_rows: "objects db' = objects db \<Longrightarrow> objects_grow db db'"
  by (simp add: objects_grow_def ready_def claimed_def lock_object_def)

lemma art_inv_intro:
  assumes inv: "art_inv now db" and u: "unique_key ao_id (objects db')" and g: "objects_grow db db'"
    and refs: "\<And>i. referenced i db' \<or> leased now i db' \<Longrightarrow> referenced i db \<or> leased now i db \<or> ready i db'"
  shows "art_inv now db'"
  unfolding art_inv_def
proof (intro conjI allI impI)
  fix i assume "referenced i db' \<or> leased now i db'"
  then have "referenced i db \<or> leased now i db \<or> ready i db'" by (rule refs)
  then show "ready i db'" using inv g by (auto simp: art_inv_def objects_grow_def)
qed (rule u)

text \<open>Attaching, in either table, leaves a readable object behind its new row.\<close>

lemma attach_blob_Inr:
  assumes a: "attach_blob c ref ot oi gi n db = Inr db'" and inv: "art_inv now db"
  shows "art_inv now db' \<and> objects_grow db db' \<and> \<not> claimed (br_object_id ref) db"
proof -
  from a obtain identity where i: "owner_identity ot oi gi n = Inr identity" by (auto simp: attach_blob_def)
  let ?doc = "if ot \<in> set document_owners then Some oi else None"
  from a i obtain db1 row db2 where l: "(case (?doc, gi) of
              (Some d, Some g) \<Rightarrow> bindr (lock_writable_generation c d g db) (\<lambda>(_, db1). Inr db1)
            | _ \<Rightarrow> Inr db) = Inr db1"
    and r: "register_blob (gx_now c) ref db1 = Inr (row, db2)"
    and fin: "(case get_by ab_identity identity (bindings db2) of
             Some b \<Rightarrow> if ab_object_id b \<noteq> br_object_id ref then Inl BlobConflict else Inr db2
           | None \<Rightarrow> Inr (db2\<lparr>bindings := bindings db2 @
               [\<lparr>ab_identity = identity, ab_object_id = br_object_id ref, ab_doc_id = ?doc\<rparr>]\<rparr>)) = Inr db'"
    unfolding attach_blob_def Let_def by (auto simp del: if_Inl_eq_Inr split: if_split_asm)
  have s: "same_artifacts db db1"
    using l by (auto dest: lock_writable_same split: option.split_asm if_split_asm)
  have inv1: "art_inv now db1" using inv by (simp add: same_artifacts_simps [OF s])
  note rr = register_blob_Inr [OF r] inv1 [unfolded art_inv_def, THEN conjunct1]
  have db': "objects db' = objects db2" "\<And>j. referenced j db' \<Longrightarrow> referenced j db2 \<or> j = br_object_id ref"
    "\<And>j. leased now j db' = leased now j db2"
    using fin by (auto simp: referenced_def leased_def split: option.split_asm if_split_asm)
  have grow: "objects_grow db1 db'"
    using objects_grow_trans [OF rr(2) [OF rr(9)] objects_grow_rows [OF db'(1)]] .
  have "ready (br_object_id ref) db'"
    using rr(3) [OF rr(9)] db'(1) by (simp add: ready_def lock_object_def)
  then have "art_inv now db'"
    using rr db' grow by (intro art_inv_intro [OF inv1]) auto
  moreover have "objects_grow db db'" using objects_grow_trans [OF objects_grow_same [OF s] grow] .
  moreover have "\<not> claimed (br_object_id ref) db" using rr(4) [OF rr(9)] same_artifacts_simps(3) [OF s] by simp
  ultimately show ?thesis by simp
qed

lemma attach_checkpoint_Inr:
  assumes a: "attach_checkpoint c ref d g k sig expected db = Inr db'" and inv: "art_inv now db"
  shows "art_inv now db' \<and> objects_grow db db' \<and> \<not> claimed (br_object_id ref) db"
proof -
  obtain identity x db1 where l: "lock_writable_generation c d g db = Inr (x, db1)"
    and rest: "(let existing = get_by cb_identity identity (checkpoints db1) in
       if (case existing of None \<Rightarrow> expected \<noteq> None
           | Some b \<Rightarrow> cb_object_id b \<noteq> br_object_id ref \<and> Some (cb_object_id b) \<noteq> expected)
       then Inl BlobConflict
       else bindr (register_blob (gx_now c) ref db1) (\<lambda>(_, db2).
         let row = \<lparr>cb_identity = identity, cb_object_id = br_object_id ref\<rparr> in
         Inr (db2\<lparr>checkpoints := (if existing = None then checkpoints db2 @ [row]
                                  else put_by cb_identity row (checkpoints db2))\<rparr>))) = Inr db'"
    using a unfolding attach_checkpoint_def by (elim bindrE bindr_pairE) blast
  then obtain row db2 where r: "register_blob (gx_now c) ref db1 = Inr (row, db2)"
    and fin: "db' = db2\<lparr>checkpoints := (if get_by cb_identity identity (checkpoints db1) = None
        then checkpoints db2 @ [\<lparr>cb_identity = identity, cb_object_id = br_object_id ref\<rparr>]
        else put_by cb_identity \<lparr>cb_identity = identity, cb_object_id = br_object_id ref\<rparr> (checkpoints db2))\<rparr>"
    unfolding Let_def if_Inl_eq_Inr by (elim conjE bindr_pairE) (simp only: sum.inject)
  have s: "same_artifacts db db1" by (rule lock_writable_same [OF l])
  have inv1: "art_inv now db1" using inv by (simp add: same_artifacts_simps [OF s])
  note rr = register_blob_Inr [OF r] inv1 [unfolded art_inv_def, THEN conjunct1]
  have db': "objects db' = objects db2" "\<And>j. referenced j db' \<Longrightarrow> referenced j db2 \<or> j = br_object_id ref"
    "\<And>j. leased now j db' = leased now j db2"
    by (auto simp: fin referenced_def leased_def dest: put_by_member split: if_split_asm)
  have grow: "objects_grow db1 db'"
    using objects_grow_trans [OF rr(2) [OF rr(9)] objects_grow_rows [OF db'(1)]] .
  have "ready (br_object_id ref) db'"
    using rr(3) [OF rr(9)] db'(1) by (simp add: ready_def lock_object_def)
  then have "art_inv now db'"
    using rr db' grow by (intro art_inv_intro [OF inv1]) auto
  moreover have "objects_grow db db'" using objects_grow_trans [OF objects_grow_same [OF s] grow] .
  moreover have "\<not> claimed (br_object_id ref) db" using rr(4) [OF rr(9)] same_artifacts_simps(3) [OF s] by simp
  ultimately show ?thesis by simp
qed

lemma record_upload_Inr:
  assumes u: "record_upload c d ref receipt db = Inr db'" and inv: "art_inv now db"
  shows "art_inv now db' \<and> objects_grow db db'"
proof -
  from u obtain db1 where a: "attach_blob c ref ''original'' d None ''original'' db = Inr db1"
    and same: "same_artifacts db1 db'"
    by (auto simp: record_upload_def same_artifacts_def split: option.splits)
  note one = attach_blob_Inr [OF a inv]
  have "art_inv now db'" using one by (simp add: same_artifacts_simps [OF same])
  moreover have "objects_grow db db'" using one objects_grow_trans [OF _ objects_grow_same [OF same]] by blast
  ultimately show ?thesis by simp
qed

lemma acquire_Inr:
  assumes a: "acquire_read_lease now token ref ttl db = Inr (t, db')" and inv: "art_inv now db"
  shows "art_inv now db' \<and> objects_grow db db' \<and> \<not> claimed (br_object_id ref) db"
proof -
  from a have db': "objects db' = objects db" "\<And>j. referenced j db' = referenced j db"
    "\<And>j. leased now j db' \<Longrightarrow> leased now j db \<or> j = br_object_id ref" and r: "ready (br_object_id ref) db"
    by (auto simp: acquire_read_lease_def referenced_def leased_def ready_def split: option.splits if_split_asm)
  have g: "objects_grow db db'" by (rule objects_grow_rows [OF db'(1)])
  have "art_inv now db'"
    by (rule art_inv_intro [OF inv _ g]) (use inv db' r g in \<open>auto simp: art_inv_def objects_grow_def\<close>)
  then show ?thesis using g ready_not_claimed [OF r] by simp
qed

lemma renew_lease_Inr:
  assumes a: "renew_read_lease now i token ttl db = Inr db'" and inv: "art_inv now db"
  shows "art_inv now db' \<and> objects_grow db db' \<and> \<not> claimed i db"
proof -
  from a obtain row lease where row: "lock_object i db = Some row" "ao_state row = Blob_Ready"
    and lease: "get_by lease_key (i, token) (read_leases db) = Some lease"
    and d: "db' = db\<lparr>read_leases := put_by lease_key (lease\<lparr>lz_expires_at := now + seconds ttl\<rparr>) (read_leases db)\<rparr>"
    by (auto simp: renew_read_lease_def split: option.splits if_split_asm)
  have li: "lz_object_id lease = i" using get_by_SomeD [OF lease] by (simp add: lease_key_def)
  have r: "ready i db" using row by (simp add: ready_def)
  have db': "objects db' = objects db" "\<And>j. referenced j db' = referenced j db"
    "\<And>j. leased now j db' \<Longrightarrow> leased now j db \<or> j = i"
    by (auto simp: d referenced_def leased_def list_ex_iff li dest!: put_by_member)
  have g: "objects_grow db db'" by (rule objects_grow_rows [OF db'(1)])
  have "art_inv now db'"
    by (rule art_inv_intro [OF inv _ g]) (use inv db' r g in \<open>auto simp: art_inv_def objects_grow_def\<close>)
  then show ?thesis using g ready_not_claimed [OF r] by simp
qed

lemma art_inv_fewer:
  assumes inv: "art_inv now db" and "objects db' = objects db"
    and "\<And>i. referenced i db' \<Longrightarrow> referenced i db" and "\<And>i. leased now i db' \<Longrightarrow> leased now i db"
  shows "art_inv now db' \<and> objects_grow db db'"
proof
  show g: "objects_grow db db'" by (rule objects_grow_rows [OF assms(2)])
  have "unique_key ao_id (objects db')" using inv assms(2) by (simp add: art_inv_def)
  then show "art_inv now db'" by (rule art_inv_intro [OF inv _ g]) (use assms(3,4) in blast)
qed

lemma lock_object_put: "lock_object i (put_object row db) =
    (if ao_id row = i then map_option (\<lambda>_. row) (lock_object i db) else lock_object i db)"
  by (simp add: lock_object_def put_object_def get_by_put_by)

text \<open>A granted claim: nothing refers to the object, and no lease on it is live.\<close>

lemma claim_delete_Some:
  assumes c: "claim_delete now token i grace ttl st re db = Inr (Some claim, db')" and inv: "art_inv now db"
  shows "art_inv now db' \<and> \<not> referenced i db \<and> \<not> leased now i db \<and> claimed i db' \<and> dl_token claim = token \<and>
    (\<forall>j. claimed j db \<longrightarrow> claimed j db')"
proof -
  from c obtain row where row: "lock_object i db = Some row" and free: "\<not> referenced i db" "\<not> leased now i db"
    and claim: "claim = \<lparr>dl_ref = ao_ref row, dl_token = token\<rparr>"
    and d: "db' = put_object (row\<lparr>ao_state := Blob_Deleting, ao_delete_token := Some token,
                           ao_delete_expires_at := Some (now + seconds ttl)\<rparr>)
         (db\<lparr>read_leases := delete_where (\<lambda>l. lz_object_id l = i \<and> lz_expires_at l \<le> now) (read_leases db)\<rparr>)"
    by (auto simp: claim_delete_def Let_def split: option.split_asm if_split_asm)
  have id: "ao_id row = i" using row get_by_SomeD by (fastforce simp: lock_object_def)
  let ?row = "row\<lparr>ao_state := Blob_Deleting, ao_delete_token := Some token, ao_delete_expires_at := Some (now + seconds ttl)\<rparr>"
  have id': "ao_id ?row = i" using id by (simp add: ao_id_def)
  have lk: "lock_object j db' = (if j = i then Some ?row else lock_object j db)" for j
    using lock_object_put [of j ?row] row by (auto simp: d id' lock_object_def)
  have refs: "referenced j db' = referenced j db" for j by (simp add: d put_object_def referenced_def)
  have leases: "leased now j db' \<Longrightarrow> leased now j db" for j by (auto simp: d put_object_def leased_def list_ex_iff)
  have "unique_key ao_id (objects db')" using inv by (simp add: art_inv_def d put_object_def)
  then have "art_inv now db'"
    using inv free refs leases by (auto simp: art_inv_def ready_def lk split: if_splits)
  then show ?thesis using free claim lk by (auto simp: claimed_def split: if_splits)
qed

lemma finish_delete_Inr:
  assumes f: "finish_delete claim db = (hit, db')" and inv: "art_inv now db"
  shows "art_inv now db' \<and> (\<forall>j. claimed j db \<longrightarrow> claimed j db')"
proof (cases "db' = db")
  case False
  let ?i = "br_object_id (dl_ref claim)"
  from f False obtain row where row: "lock_object ?i db = Some row" "ao_state row = Blob_Deleting"
    and d: "db' = put_object (row\<lparr>ao_state := Blob_Deleted, ao_delete_token := None, ao_delete_expires_at := None\<rparr>) db"
    by (auto simp: finish_delete_def split: option.split_asm if_split_asm)
  have id: "ao_id row = ?i" using row get_by_SomeD by (fastforce simp: lock_object_def)
  let ?row = "row\<lparr>ao_state := Blob_Deleted, ao_delete_token := None, ao_delete_expires_at := None\<rparr>"
  have lk: "lock_object j db' = (if j = ?i then Some ?row else lock_object j db)" for j
    using lock_object_put [of j ?row db] row id by (auto simp: d ao_id_def)
  have "\<not> ready ?i db" using row by (simp add: ready_def)
  then have "\<not> referenced ?i db" "\<not> leased now ?i db" using inv by (auto simp: art_inv_def)
  moreover have "unique_key ao_id (objects db')" using inv by (simp add: art_inv_def d put_object_def)
  moreover have "referenced j db' = referenced j db" "leased now j db' = leased now j db" for j
    by (simp_all add: d put_object_def referenced_def leased_def)
  ultimately have "art_inv now db'" using inv by (auto simp: art_inv_def ready_def lk split: if_splits)
  then show ?thesis using lk by (auto simp: claimed_def split: if_splits)
qed (use inv in simp)

lemma promote_register_Inr:
  assumes p: "promote_register now' g seen ref db = Inr (hit, db')" and inv: "art_inv now db"
  shows "art_inv now db' \<and> objects_grow db db'"
proof -
  from p have "(objects db' = objects db \<or> lock_object (br_object_id ref) db = None \<and>
      objects db' = objects db @ [new_object ref (or_first_seen_at seen)]) \<and>
    (\<forall>i. referenced i db' = referenced i db) \<and> (\<forall>i. leased now i db' = leased now i db)"
    by (auto simp: promote_register_def forget_def referenced_def leased_def Let_def split: if_split_asm option.split_asm)
  then show ?thesis
  proof (elim conjE disjE)
    assume n: "lock_object (br_object_id ref) db = None" and o': "objects db' = objects db @ [new_object ref (or_first_seen_at seen)]"
      and same: "\<forall>i. referenced i db' = referenced i db" "\<forall>i. leased now i db' = leased now i db"
    have g: "objects_grow db db'"
      by (auto simp: objects_grow_def ready_def claimed_def lock_object_def o' get_by_append split: option.splits)
    have "unique_key ao_id (objects db')"
      using inv n by (simp add: o' unique_key_append art_inv_def lock_object_def new_object_def ao_id_def)
    from art_inv_intro [OF inv this g] same g show ?thesis by blast
  qed (use art_inv_fewer [OF inv] in blast)
qed

subsection \<open>Runs\<close>

text \<open>\<open>Detach\<close> is an owner dropping its bindings, whichever they are.\<close>

datatype art_op =
    Attach gen_ctx blob_ref string string "string option" string
  | Upload gen_ctx string blob_ref "(string \<times> string \<times> string) option"
  | Attach_Checkpoint gen_ctx blob_ref string string int string "string option"
  | Detach "owner_identity list" "checkpoint_identity list"
  | Acquire_Lease string blob_ref int
  | Renew_Lease string string int
  | Release_Lease string string
  | Claim_Delete string string int int "string option" bool
  | Finish_Delete delete_claim
  | Observe gc_guard candidate
  | Register_Orphan gc_guard artifact_orphan blob_ref

fun art_exec :: "time \<Rightarrow> art_op \<Rightarrow> art_db \<Rightarrow> art_db" where
  "art_exec now (Attach c ref ot oi gi n) db = committed db (attach_blob c ref ot oi gi n db)"
| "art_exec now (Upload c d ref receipt) db = committed db (record_upload c d ref receipt db)"
| "art_exec now (Attach_Checkpoint c ref d g k sig expected) db = committed db (attach_checkpoint c ref d g k sig expected db)"
| "art_exec now (Detach owners keys) db = db\<lparr>bindings := delete_where (\<lambda>b. ab_identity b \<in> set owners) (bindings db),
     checkpoints := delete_where (\<lambda>b. cb_identity b \<in> set keys) (checkpoints db)\<rparr>"
| "art_exec now (Acquire_Lease token ref ttl) db = committed db (map_sum id snd (acquire_read_lease now token ref ttl db))"
| "art_exec now (Renew_Lease i token ttl) db = committed db (renew_read_lease now i token ttl db)"
| "art_exec now (Release_Lease i token) db = release_read_lease i token db"
| "art_exec now (Claim_Delete token i grace ttl st re) db = committed db (map_sum id snd (claim_delete now token i grace ttl st re db))"
| "art_exec now (Finish_Delete claim) db = snd (finish_delete claim db)"
| "art_exec now (Observe g item) db = committed db (map_sum id snd (observe_item now g item db))"
| "art_exec now (Register_Orphan g seen ref) db = committed db (map_sum id snd (promote_register now g seen ref db))"

definition art_next :: "time \<Rightarrow> art_db \<Rightarrow> art_db \<Rightarrow> bool" where
  "art_next now db db' \<longleftrightarrow> art_inv now db' \<and> (\<forall>i. claimed i db \<longrightarrow> claimed i db')"

lemma art_next_grow: "art_inv now db' \<and> objects_grow db db' \<Longrightarrow> art_next now db db'"
  by (simp add: art_next_def objects_grow_def)

lemma art_exec_next:
  assumes inv: "art_inv now db"
  shows "art_next now db (art_exec now op db)"
proof -
  have refl: "art_next now db db" using inv by (simp add: art_next_def)
  note keep = committed_inv [where P = "art_next now db", OF refl]
  have k: "art_next now db (committed db r)" if "\<And>d. r = Inr d \<Longrightarrow> art_inv now d \<and> objects_grow db d" for r
    by (rule keep) (use that art_next_grow in blast)
  show ?thesis
  proof (cases op)
    case (Attach c ref ot oi gi n)
    then show ?thesis by (auto intro!: k dest: attach_blob_Inr [OF _ inv])
  next
    case (Upload c d ref receipt)
    then show ?thesis by (auto intro!: k dest: record_upload_Inr [OF _ inv])
  next
    case (Attach_Checkpoint c ref d g k sig expected)
    then show ?thesis by (auto intro!: k dest: attach_checkpoint_Inr [OF _ inv])
  next
    case (Detach owners keys)
    show ?thesis unfolding Detach art_exec.simps
      by (rule art_next_grow, rule art_inv_fewer [OF inv]) (auto simp: referenced_def leased_def)
  next
    case (Acquire_Lease token ref ttl)
    then show ?thesis by (auto intro!: k simp: map_sum_eq_Inr dest: acquire_Inr [OF _ inv])
  next
    case (Renew_Lease i token ttl)
    then show ?thesis by (auto intro!: k dest: renew_lease_Inr [OF _ inv])
  next
    case (Release_Lease i token)
    show ?thesis unfolding Release_Lease art_exec.simps release_read_lease_def
      by (rule art_next_grow, rule art_inv_fewer [OF inv]) (auto simp: referenced_def leased_def list_ex_iff)
  next
    case (Claim_Delete token i grace ttl st re)
    have "art_next now db d" if "claim_delete now token i grace ttl st re db = Inr (r, d)" for r d
    proof (cases r)
      case None
      with that have "d = db" by (auto simp: claim_delete_def Let_def split: option.split_asm if_split_asm)
      then show ?thesis using refl by simp
    next
      case (Some claim)
      with that claim_delete_Some [OF _ inv] show ?thesis by (auto simp: art_next_def)
    qed
    then show ?thesis using Claim_Delete by (auto intro!: keep simp: map_sum_eq_Inr)
  next
    case (Finish_Delete claim)
    obtain hit db' where f: "finish_delete claim db = (hit, db')" by fastforce
    from finish_delete_Inr [OF this inv] show ?thesis using Finish_Delete f by (simp add: art_next_def)
  next
    case (Observe g item)
    have "art_next now db d" if "observe_item now g item db = Inr (r, d)" for r d
    proof (rule art_next_grow, rule art_inv_fewer [OF inv])
      show "objects d = objects db" using that
        by (auto simp: observe_item_def forget_def Let_def split: option.split_asm if_split_asm)
      show "referenced i d \<Longrightarrow> referenced i db" "leased now i d \<Longrightarrow> leased now i db" for i using that
        by (auto simp: observe_item_def forget_def Let_def referenced_def leased_def split: option.split_asm if_split_asm)
    qed
    then show ?thesis using Observe by (auto intro!: keep simp: map_sum_eq_Inr)
  next
    case (Register_Orphan g seen ref)
    then show ?thesis
      by (auto intro!: k simp: map_sum_eq_Inr dest: promote_register_Inr [OF _ inv])
  qed
qed

fun art_run :: "(time \<times> art_op) list \<Rightarrow> art_db \<Rightarrow> art_db" where
  "art_run [] db = db"
| "art_run ((now, op) # ops) db = art_run ops (art_exec now op db)"

lemma art_run_next:
  "art_inv now db \<Longrightarrow> sorted (now # map fst ops) \<Longrightarrow> art_next (last (now # map fst ops)) db (art_run ops db)"
proof (induction ops arbitrary: now db)
  case Nil
  then show ?case by (simp add: art_next_def)
next
  case (Cons op ops)
  obtain t o' where op: "op = (t, o')" by (cases op)
  have inv: "art_inv t db" using Cons.prems op by (auto intro: art_inv_later)
  have one: "art_next t db (art_exec t o' db)" by (rule art_exec_next [OF inv])
  have "art_next (last (t # map fst ops)) (art_exec t o' db) (art_run ops (art_exec t o' db))"
    by (rule Cons.IH) (use one Cons.prems op in \<open>auto simp: art_next_def\<close>)
  with one show ?case by (auto simp: op art_next_def)
qed

lemma resolve_ready:
  assumes "art_inv now db" and "b \<in> set (bindings db)"
  shows "\<exists>row. get_by ao_id (ab_object_id b) (objects db) = Some row \<and> ao_state row = Blob_Ready"
proof -
  have "referenced (ab_object_id b) db" using assms(2) by (auto simp: referenced_def)
  with assms(1) show ?thesis by (auto simp: art_inv_def ready_def lock_object_def split: option.splits)
qed

lemma claimed_refused:
  assumes inv: "art_inv now db" and c: "claimed (br_object_id ref) db"
  shows "\<not> is_ok (attach_blob x ref ot oi gi n db)" and "\<not> is_ok (attach_checkpoint x ref d g k sig expected db)"
    and "\<not> is_ok (acquire_read_lease now token ref ttl db)" and "\<not> is_ok (renew_read_lease now (br_object_id ref) token ttl db)"
    and "resolve_blob ot oi gi n db \<noteq> Inr (Some ref)"
proof -
  show "\<not> is_ok (attach_blob x ref ot oi gi n db)" using attach_blob_Inr [OF _ inv] c by (auto simp: is_ok_iff)
  show "\<not> is_ok (attach_checkpoint x ref d g k sig expected db)"
    using attach_checkpoint_Inr [OF _ inv] c by (auto simp: is_ok_iff)
  show "\<not> is_ok (acquire_read_lease now token ref ttl db)" using acquire_Inr [OF _ inv] c by (fastforce simp: is_ok_iff)
  show "\<not> is_ok (renew_read_lease now (br_object_id ref) token ttl db)"
    using renew_lease_Inr [OF _ inv] c by (auto simp: is_ok_iff)
  show "resolve_blob ot oi gi n db \<noteq> Inr (Some ref)"
  proof
    assume "resolve_blob ot oi gi n db = Inr (Some ref)"
    then obtain j row where row: "get_by ao_id j (objects db) = Some row" "ao_state row = Blob_Ready" "ao_ref row = ref"
      unfolding resolve_blob_def by (elim bindrE) (auto split: option.split_asm if_split_asm)
    then have "j = br_object_id ref" using get_by_key [OF row(1)] by (simp add: ao_id_def)
    with row c show False by (simp add: claimed_def lock_object_def)
  qed
qed

interpretation art_system: invariant_system "\<lambda>db db'. \<exists>op. db' = art_exec now op db" "art_inv now" for now
  by unfold_locales (auto dest: art_exec_next simp: art_next_def)

lemma within_budget_bound:
  "within_budget weight max_bytes remaining xs = (taken, skipped, rest) \<Longrightarrow> \<forall>x\<in>set xs. 0 \<le> weight x \<Longrightarrow>
   sum_list (map weight taken) + rest = remaining \<and> length taken + skipped = length xs \<and>
   (0 \<le> remaining \<longrightarrow> 0 \<le> rest) \<and> (\<forall>x\<in>set taken. weight x \<le> max_bytes)"
proof (induction xs arbitrary: remaining taken skipped rest)
  case (Cons x xs)
  then show ?case by (fastforce split: if_split_asm prod.split_asm)
qed simp

subsection \<open>Properties\<close>

definition example_ref :: blob_ref where
  "example_ref = \<lparr>br_object_id = replicate 32 CHR ''a'', br_key = ''objects/'' @ replicate 32 CHR ''a'',
     br_sha256 = replicate 64 CHR ''0'', br_size = 5, br_media_type = ''text/plain'', br_store_id = ''s''\<rparr>"

definition example_arts :: art_db where
  "example_arts = doc_db.extend example_docs
     \<lparr>objects = [new_object example_ref 0], bindings = [], checkpoints = [], cache_heads = [], legacy_artifacts = [],
      migration_artifacts = [], read_leases = [], receipts = [], orphans = [], gc_states = []\<rparr>"

definition example_art_ops :: "(time \<times> art_op) list" where
  "example_art_ops =
     [(seconds 10, Acquire_Lease ''t'' example_ref 60),
      (seconds 20, Claim_Delete ''x'' (br_object_id example_ref) 0 60 (Some ''s'') False),
      (seconds 30, Attach example_ctx example_ref ''export'' ''e1'' None ''file''),
      (seconds 90, Claim_Delete ''y'' (br_object_id example_ref) 0 60 (Some ''s'') False)]"

lemma example_arts_inv: "art_inv 0 example_arts"
  by (simp add: art_inv_def example_arts_def unique_key_def referenced_def leased_def doc_db.defs work_db.defs
      maint_db.defs coord_db.defs example_docs_def)

text \<open>
  C21. Through every interleaving of uploads, attachments, leases, deletions and collector passes, every
  binding names an object that can be read, and no deletion is ever granted for an object that
  is referenced or under a live lease.
\<close>
theorem referenced_blob_readable:
  assumes "art_inv now db" and "sorted (now # map fst ops)"
  shows "(\<forall>b\<in>set (bindings (art_run ops db)). \<exists>row.
      get_by ao_id (ab_object_id b) (objects (art_run ops db)) = Some row \<and> ao_state row = Blob_Ready) \<and>
    (\<forall>i token grace ttl st re claim d. claim_delete (last (now # map fst ops)) token i grace ttl st re (art_run ops db) = Inr (Some claim, d)
      \<longrightarrow> \<not> referenced i (art_run ops db) \<and> \<not> leased (last (now # map fst ops)) i (art_run ops db))"
proof -
  have inv: "art_inv (last (now # map fst ops)) (art_run ops db)"
    using art_run_next [OF assms] by (simp add: art_next_def)
  show ?thesis using resolve_ready [OF inv] claim_delete_Some [OF _ inv] by blast
qed

theorem referenced_blob_readable_witness:
  "\<exists>row. get_by ao_id (ab_object_id (hd (bindings (art_run example_art_ops example_arts))))
      (objects (art_run example_art_ops example_arts)) = Some row \<and> ao_state row = Blob_Ready"
proof -
  have "map (fst \<circ> ab_identity) (bindings (art_run example_art_ops example_arts)) = [''export'']" by code_simp
  then have b: "hd (bindings (art_run example_art_ops example_arts)) \<in> set (bindings (art_run example_art_ops example_arts))"
    by (intro hd_in_set) auto
  have "sorted (0 # map fst example_art_ops)" by code_simp
  from referenced_blob_readable [OF example_arts_inv this] b show ?thesis by blast
qed

text \<open>
  C22. Once a deletion is granted the object is gone for good: in every later state no owner can attach it, no
  checkpoint can take it, no lease on it can be taken or renewed, and no lookup returns it.
\<close>
theorem granted_deletion_is_final:
  assumes "art_inv now db" and "claim_delete now token (br_object_id ref) grace ttl st re db = Inr (Some claim, db1)"
    and "sorted (now # map fst ops)"
  shows "\<not> is_ok (attach_blob x ref ot oi gi n (art_run ops db1)) \<and>
    \<not> is_ok (attach_checkpoint x ref d g k sig expected (art_run ops db1)) \<and>
    \<not> is_ok (acquire_read_lease (last (now # map fst ops)) t ref s (art_run ops db1)) \<and>
    \<not> is_ok (renew_read_lease (last (now # map fst ops)) (br_object_id ref) t s (art_run ops db1)) \<and>
    resolve_blob ot oi gi n (art_run ops db1) \<noteq> Inr (Some ref)"
proof -
  have one: "art_inv now db1" "claimed (br_object_id ref) db1" using claim_delete_Some [OF assms(2,1)] by auto
  from art_run_next [OF one(1) assms(3)] one(2)
  have "art_inv (last (now # map fst ops)) (art_run ops db1)" "claimed (br_object_id ref) (art_run ops db1)"
    by (auto simp: art_next_def)
  from claimed_refused [OF this] show ?thesis by blast
qed

definition claimed_arts :: art_db where
  "claimed_arts = art_exec (seconds 5) (Claim_Delete ''x'' (br_object_id example_ref) 0 60 (Some ''s'') False) example_arts"

theorem granted_deletion_is_final_witness:
  "\<not> is_ok (attach_blob example_ctx example_ref ''export'' ''e1'' None ''file'' (art_run example_art_ops claimed_arts)) \<and>
   \<not> is_ok (attach_checkpoint example_ctx example_ref ''d'' ''g'' 0 ''s'' None (art_run example_art_ops claimed_arts)) \<and>
   \<not> is_ok (acquire_read_lease (last (seconds 5 # map fst example_art_ops)) ''t'' example_ref 60 (art_run example_art_ops claimed_arts)) \<and>
   \<not> is_ok (renew_read_lease (last (seconds 5 # map fst example_art_ops)) (br_object_id example_ref) ''t'' 60 (art_run example_art_ops claimed_arts)) \<and>
   resolve_blob ''export'' ''e1'' None ''file'' (art_run example_art_ops claimed_arts) \<noteq> Inr (Some example_ref)"
proof (rule granted_deletion_is_final)
  show "art_inv (seconds 5) example_arts" by (rule art_inv_later [OF example_arts_inv]) (simp add: seconds_def)
  show "claim_delete (seconds 5) ''x'' (br_object_id example_ref) 0 60 (Some ''s'') False example_arts
      = Inr (Some \<lparr>dl_ref = example_ref, dl_token = ''x''\<rparr>, claimed_arts)" by code_simp
  show "sorted (seconds 5 # map fst example_art_ops)" by code_simp
qed

text \<open>
  The query of the collector's sweep and the claim agree: an object of the store is selected exactly
  when a claim at that time is granted.
\<close>
theorem sweep_selects_claimable:
  assumes "lock_object i db = Some row" and "br_store_id (ao_ref row) = store_id" and "0 \<le> grace" and "grace \<le> 365 * 86400"
  shows "sweepable now store_id grace db row \<longleftrightarrow>
    (\<exists>claim db'. claim_delete now token i grace 60 (Some store_id) False db = Inr (Some claim, db'))"
proof -
  have id: "ao_id row = i" using assms(1) get_by_key by (fastforce simp: lock_object_def)
  have d: "duration 0 (365 * 86400) grace" "duration 1 300 60" using assms(3,4) by (simp_all add: duration_def)
  have refs: "referenced i db \<longleftrightarrow> list_ex (\<lambda>b. ab_object_id b = i) (bindings db) \<or> list_ex (\<lambda>b. cb_object_id b = i) (checkpoints db) \<or>
      i \<in> set (cache_heads db) \<or> i \<in> set (legacy_artifacts db) \<or> i \<in> set (migration_artifacts db)"
    by (auto simp: referenced_def list_ex_iff)
  have le: "ao_created_at row \<le> now - seconds grace \<longleftrightarrow> \<not> now < ao_created_at row + seconds grace" by linarith
  show ?thesis
    using assms(1,2) d
    by (cases "ao_state row") (auto simp: sweepable_def claim_delete_def id refs leased_def le Let_def later_iff)
qed

theorem sweep_selects_claimable_witness:
  "sweepable (seconds 5) ''s'' 0 example_arts (new_object example_ref 0) \<longleftrightarrow>
    (\<exists>claim db'. claim_delete (seconds 5) ''x'' (br_object_id example_ref) 0 60 (Some ''s'') False example_arts = Inr (Some claim, db'))"
proof (rule sweep_selects_claimable)
  show "lock_object (br_object_id example_ref) example_arts = Some (new_object example_ref 0)" by code_simp
qed (simp_all add: new_object_def example_ref_def)

end
