(* ===== verification/Edit_Lease.thy ===== *)
theory Edit_Lease
  imports Prelude
begin

text \<open>
  The deadlines of an editor's lease (\<open>edit_lease_policy.py\<close>), shared by the leases of reference
  resources and of document scopes: a lease ends after \<open>LEASE_SECONDS\<close> without a renewal and
  never outlives the idle deadline, which only activity moves.
\<close>

definition lease_seconds :: int where "lease_seconds = 180"
definition idle_seconds :: int where "idle_seconds = 600"

definition compute_deadlines :: "time \<Rightarrow> time \<Rightarrow> bool \<Rightarrow> time \<times> time" where
  "compute_deadlines now idle_expires_at record_activity =
     (let idle = (if record_activity then now + seconds idle_seconds else idle_expires_at)
      in (min (now + seconds lease_seconds) idle, idle))"

lemma deadlines_bounds:
  "compute_deadlines now idle act = (expires, idle') \<Longrightarrow>
   expires \<le> idle' \<and> expires \<le> now + seconds lease_seconds \<and> (\<not> act \<longrightarrow> idle' = idle) \<and>
   (act \<longrightarrow> now < expires)"
  by (auto simp: compute_deadlines_def Let_def lease_seconds_def idle_seconds_def seconds_def)

end
