(* ===== verification/Edit_Locks.thy ===== *)
theory Edit_Locks
  imports Coordination Edit_Lease Interfaces Json
begin

text \<open>
  Editing leases of reference resources: \<open>reference_resources.py\<close> (identities and access),
  \<open>reference_concurrency.py\<close> (row locks and revisions) and
  \<open>reference_edit_lock.py\<close> (a tab's lease with its epoch). Of the entities a key names
  only their existence matters; the actor's roles and the settings are arguments, and
  \<open>clock i\<close> is the \<open>i\<close>-th clock read. Audit rows are not modelled.
\<close>

subsection \<open>Identities\<close>

record reference_key =
  rk_type :: string
  rk_id :: string
  rk_kind :: "string option"
  rk_org :: "int option"

definition numeric_types :: "string list" where
  "numeric_types = [''glossary_term'', ''glossary_rule'', ''development'', ''tag'']"

definition locale_types :: "string list" where
  "locale_types = [''stopword_set'', ''ui_dictionary'', ''locale'']"

definition resource_types :: "string list" where
  "resource_types = numeric_types @ locale_types @ [''attribute_catalog'']"

definition lease_types :: "string list" where
  "lease_types = numeric_types @ [''stopword_set'', ''ui_dictionary'']"

fun split_on :: "char \<Rightarrow> string \<Rightarrow> string list" where
  "split_on sep [] = [[]]"
| "split_on sep (c # s) = (if c = sep then [] # split_on sep s
     else (case split_on sep s of [] \<Rightarrow> [[c]] | p # ps \<Rightarrow> (c # p) # ps))"

definition numeric_id_ok :: "string \<Rightarrow> bool" where
  "numeric_id_ok s = (fullmatch_class digits09 1 18 s \<and> \<not> list_all (\<lambda>c. c = CHR ''0'') s)"

text \<open>\<open>str(int(identifier))\<close> for digits with a positive value.\<close>

definition numeric_id :: "string \<Rightarrow> string" where
  "numeric_id s = dropWhile (\<lambda>c. c = CHR ''0'') s"

definition locale_id_ok :: "string \<Rightarrow> bool" where
  "locale_id_ok s = (case split_on CHR ''-'' s of [] \<Rightarrow> False
     | p # ps \<Rightarrow> fullmatch_class lower_az 2 3 p \<and>
         list_all (fullmatch_class (upper_az @ lower_az @ digits09) 2 8) ps)"

definition make_key :: "string \<Rightarrow> string \<Rightarrow> string option \<Rightarrow> int option \<Rightarrow> reference_key result" where
  "make_key resource_type identifier kind org =
     (if resource_type \<notin> set resource_types then Inl ValueError
      else if (if resource_type \<in> set numeric_types then \<not> numeric_id_ok identifier
               else if resource_type \<in> set locale_types then \<not> locale_id_ok identifier
               else \<not> fullmatch_head lower_az (lower_az @ digits09 @ ''_'') 63 identifier) then Inl ValueError
      else if (if resource_type = ''stopword_set'' then kind \<notin> {Some ''bm25'', Some ''marker''} else kind \<noteq> None)
      then Inl ValueError
      else if (case org of None \<Rightarrow> False | Some o' \<Rightarrow> resource_type \<noteq> ''attribute_catalog'' \<or> o' < 1) then Inl ValueError
      else Inr \<lparr>rk_type = resource_type,
                rk_id = (if resource_type \<in> set numeric_types then numeric_id identifier else identifier),
                rk_kind = kind, rk_org = org\<rparr>)"

definition canonical :: "reference_key \<Rightarrow> string" where
  "canonical key = json_dumps (JArr [JStr (rk_type key), JStr (rk_id key), opt_str (rk_kind key),
     (case rk_org key of None \<Rightarrow> JNull | Some o' \<Rightarrow> JInt o')])"

subsection \<open>Tables\<close>

record ref_state =
  rs_key :: string
  rs_revision :: int
  rs_epoch :: int
  rs_owner_id :: "string option"
  rs_owner_name :: "string option"
  rs_token_hash :: "string option"
  rs_acquired_at :: "time option"
  rs_expires_at :: "time option"
  rs_idle_expires_at :: "time option"
  rs_activity :: int

record ref_db = coord_db +
  ref_states :: "ref_state list"
  glossary_ready :: "bool option"
  domain_terms :: "string list"
  infotype_rules :: "string list"
  developments :: "string list"
  tags :: "(string \<times> bool) list"
  locales :: "string list"

record ref_actor =
  ac_user_id :: string
  ac_username :: string
  ac_roles :: "string list"

record ref_settings =
  st_auth_disabled :: bool
  st_locks_enabled :: bool
  st_durable :: bool
  st_sha256 :: "string \<Rightarrow> string"

type_synonym clock = "nat \<Rightarrow> time"

subsection \<open>Access and existence\<close>

definition require_access :: "ref_settings \<Rightarrow> reference_key \<Rightarrow> ref_actor option \<Rightarrow> bool \<Rightarrow> unit result" where
  "require_access st key actor admin =
     (if st_auth_disabled st then Inr ()
      else let required = (if admin \<or> rk_type key \<in> set [''locale'', ''ui_dictionary'', ''stopword_set'', ''glossary_rule'']
               then [''admin''] else [''editor'', ''admin''])
      in case actor of None \<Rightarrow> Inl (ReferenceError ''forbidden'' 403)
         | Some a \<Rightarrow> if list_ex (\<lambda>r. r \<in> set (ac_roles a)) required then Inr ()
                    else Inl (ReferenceError ''forbidden'' 403))"

definition is_glossary :: "reference_key \<Rightarrow> bool" where
  "is_glossary key = (take 9 (rk_type key) = ''glossary_'')"

definition require_resource :: "reference_key \<Rightarrow> ref_db \<Rightarrow> unit result" where
  "require_resource key db =
     (let missing = Inl (ReferenceError ''not_found'' 404) in
      if is_glossary key \<and> glossary_ready db = Some False then Inl (ReferenceError ''glossary_migration_required'' 503)
      else if rk_type key = ''glossary_term'' then (if rk_id key \<in> set (domain_terms db) then Inr () else missing)
      else if rk_type key = ''glossary_rule'' then (if rk_id key \<in> set (infotype_rules db) then Inr () else missing)
      else if rk_type key = ''development'' then (if rk_id key \<in> set (developments db) then Inr () else missing)
      else if rk_type key = ''tag'' then (if map_of (tags db) (rk_id key) = Some False then Inr () else missing)
      else if rk_type key \<in> set locale_types
      then (if rk_id key \<in> set (locales db) then Inr () else Inl (ReferenceError ''locale_not_found'' 404))
      else Inr ())"

subsection \<open>Locked rows and revisions\<close>

definition initialize_glossary_state :: "ref_db \<Rightarrow> ref_db" where
  "initialize_glossary_state db =
     (if glossary_ready db = None then db\<lparr>glossary_ready := Some (domain_terms db = [])\<rparr> else db)"

definition insert_state :: "reference_key \<Rightarrow> ref_db \<Rightarrow> ref_db" where
  "insert_state key db =
     (if get_by rs_key (canonical key) (ref_states db) = None
      then db\<lparr>ref_states := ref_states db @ [\<lparr>rs_key = canonical key, rs_revision = 1, rs_epoch = 0, rs_owner_id = None,
                rs_owner_name = None, rs_token_hash = None, rs_acquired_at = None, rs_expires_at = None,
                rs_idle_expires_at = None, rs_activity = 0\<rparr>]\<rparr>
      else db)"

definition state_row :: "reference_key \<Rightarrow> ref_db \<Rightarrow> ref_state result" where
  "state_row key db = (case get_by rs_key (canonical key) (ref_states db) of None \<Rightarrow> Inl KeyError | Some r \<Rightarrow> Inr r)"

definition lock_reference_resources :: "reference_key list \<Rightarrow> ref_db \<Rightarrow> ref_db" where
  "lock_reference_resources keys db =
     (let keys = order_by canonical (remdups keys);
          db1 = (if list_ex is_glossary keys then initialize_glossary_state db else db)
      in fold insert_state keys db1)"

definition locked_state_row :: "reference_key \<Rightarrow> ref_db \<Rightarrow> (ref_state \<times> ref_db) result" where
  "locked_state_row key db =
     (let db1 = lock_reference_resources [key] db in bindr (state_row key db1) (\<lambda>row. Inr (row, db1)))"

definition put_ref_state :: "ref_state \<Rightarrow> ref_db \<Rightarrow> ref_db" where
  "put_ref_state row db = db\<lparr>ref_states := put_by rs_key row (ref_states db)\<rparr>"

definition require_reference_revision :: "ref_state \<Rightarrow> int \<Rightarrow> unit result" where
  "require_reference_revision state expected =
     (if expected < 1 then Inl (ReferenceError ''reference_precondition_required'' 428)
      else if rs_revision state \<noteq> expected then Inl (ReferenceError ''version_conflict'' 409)
      else Inr ())"

definition bump_cache_revision :: "ref_settings \<Rightarrow> ref_db \<Rightarrow> ref_db result" where
  "bump_cache_revision st db =
     (if st_durable st then bindr (bump_config_revision ''references'' db) (\<lambda>(_, db'). Inr db') else Inr db)"

definition bump_reference_revision :: "ref_settings \<Rightarrow> ref_state \<Rightarrow> ref_db \<Rightarrow> (int \<times> ref_db) result" where
  "bump_reference_revision st state db =
     (let row = state\<lparr>rs_revision := rs_revision state + 1\<rparr> in
      bindr (bump_cache_revision st (put_ref_state row db)) (\<lambda>db'. Inr (rs_revision row, db')))"

definition clear_lease :: "ref_state \<Rightarrow> ref_state" where
  "clear_lease row = row\<lparr>rs_owner_id := None, rs_owner_name := None, rs_token_hash := None,
     rs_acquired_at := None, rs_expires_at := None, rs_idle_expires_at := None, rs_activity := 0\<rparr>"

definition invalidate_reference_lease :: "ref_state \<Rightarrow> ref_state" where
  "invalidate_reference_lease row = clear_lease (row\<lparr>rs_epoch := rs_epoch row + 1\<rparr>)"

definition initialize_reference_resource :: "ref_settings \<Rightarrow> reference_key \<Rightarrow> ref_db \<Rightarrow> ref_db result" where
  "initialize_reference_resource st key db =
     (let existed = (get_by rs_key (canonical key) (ref_states db) \<noteq> None) in
      bindr (locked_state_row key db) (\<lambda>(row, db1).
        if existed
        then bindr (bump_reference_revision st row db1) (\<lambda>(_, db2).
               bindr (state_row key db2) (\<lambda>row'. Inr (put_ref_state (invalidate_reference_lease row') db2)))
        else bump_cache_revision st db1))"

definition current_reference_revision :: "reference_key \<Rightarrow> ref_db \<Rightarrow> int" where
  "current_reference_revision key db =
     (case get_by rs_key (canonical key) (ref_states db) of
        None \<Rightarrow> 1 | Some r \<Rightarrow> if rs_revision r = 0 then 1 else rs_revision r)"

definition read_reference_snapshot ::
    "ref_settings \<Rightarrow> reference_key \<Rightarrow> ref_actor option \<Rightarrow> (ref_db \<Rightarrow> 'd) \<Rightarrow> ref_db \<Rightarrow> (('d \<times> int) \<times> ref_db) result" where
  "read_reference_snapshot st key actor reader db =
     bindr (require_access st key actor False) (\<lambda>_.
     bindr (locked_state_row key db) (\<lambda>(row, db1).
     bindr (require_resource key db1) (\<lambda>_. Inr ((reader db1, rs_revision row), db1))))"

subsection \<open>The lease of a tab\<close>

definition lease_live :: "time \<Rightarrow> ref_state \<Rightarrow> bool" where
  "lease_live now row \<longleftrightarrow> rs_owner_id row \<noteq> None \<and> rs_owner_id row \<noteq> Some [] \<and>
     later (rs_expires_at row) now \<and> later (rs_idle_expires_at row) now"

definition token_hash :: "ref_settings \<Rightarrow> string \<Rightarrow> string result" where
  "token_hash st token = (if hex_string 64 token then Inr (st_sha256 st token)
     else Inl (ReferenceError ''reference_precondition_required'' 428))"

definition matches :: "ref_settings \<Rightarrow> ref_state \<Rightarrow> ref_actor \<Rightarrow> string \<Rightarrow> int option \<Rightarrow> bool result" where
  "matches st row actor token epoch =
     (if rs_owner_id row \<noteq> Some (ac_user_id actor) \<or> rs_token_hash row = None \<or> rs_token_hash row = Some [] then Inr False
      else bindr (token_hash st token) (\<lambda>h.
        Inr (rs_token_hash row = Some h \<and> (case epoch of None \<Rightarrow> True | Some e \<Rightarrow> rs_epoch row = e))))"

record lock_status =
  ls_editing :: bool
  ls_owner_name :: "string option"
  ls_server_now :: time
  ls_expires_at :: "time option"
  ls_idle_expires_at :: "time option"
  ls_revision :: int
  ls_epoch :: int
  ls_required :: bool

definition edit_lock_status :: "ref_settings \<Rightarrow> time \<Rightarrow> reference_key \<Rightarrow> ref_db \<Rightarrow> lock_status" where
  "edit_lock_status st now key db =
     (let row = get_by rs_key (canonical key) (ref_states db);
          active = (case row of None \<Rightarrow> False | Some r \<Rightarrow> lease_live now r);
          shown = (if active then row else None)
      in \<lparr>ls_editing = active, ls_owner_name = Option.bind shown rs_owner_name, ls_server_now = now,
          ls_expires_at = Option.bind shown rs_expires_at, ls_idle_expires_at = Option.bind shown rs_idle_expires_at,
          ls_revision = (case row of Some r \<Rightarrow> rs_revision r | None \<Rightarrow> 1),
          ls_epoch = (case row of Some r \<Rightarrow> rs_epoch r | None \<Rightarrow> 0),
          ls_required = (rk_type key \<in> set lease_types \<and> st_locks_enabled st)\<rparr>)"

definition occupied :: "time \<Rightarrow> ref_actor \<Rightarrow> string \<Rightarrow> ref_state \<Rightarrow> ref_state" where
  "occupied now actor digest row =
     (let (expires, idle) = compute_deadlines now now True in
      row\<lparr>rs_epoch := rs_epoch row + 1, rs_owner_id := Some (ac_user_id actor), rs_owner_name := Some (ac_username actor),
         rs_token_hash := Some digest, rs_acquired_at := Some now, rs_expires_at := Some expires,
         rs_idle_expires_at := Some idle, rs_activity := 0\<rparr>)"

definition acquire_edit_lock ::
    "ref_settings \<Rightarrow> clock \<Rightarrow> reference_key \<Rightarrow> ref_actor \<Rightarrow> string \<Rightarrow> ref_db \<Rightarrow> (lock_status \<times> ref_db) result" where
  "acquire_edit_lock st clock key actor token db =
     bindr (require_access st key (Some actor) False) (\<lambda>_.
     bindr (require_resource key db) (\<lambda>_.
       if rk_type key \<notin> set lease_types then Inl (ReferenceError ''reference_precondition_required'' 428)
       else bindr (token_hash st token) (\<lambda>digest.
         bindr (locked_state_row key db) (\<lambda>(row, db1).
         bindr (require_resource key db1) (\<lambda>_.
           if lease_live (clock 0) row
           then bindr (matches st row actor token None) (\<lambda>own.
                  if \<not> own then Inl (ReferenceError ''reference_edit_locked'' 409)
                  else Inr (edit_lock_status st (clock 1) key db1, db1))
           else let db2 = put_ref_state (occupied (clock 0) actor digest row) db1
                in Inr (edit_lock_status st (clock 1) key db2, db2))))))"

definition require_edit_lock ::
    "ref_settings \<Rightarrow> time \<Rightarrow> reference_key \<Rightarrow> ref_actor \<Rightarrow> string \<Rightarrow> int \<Rightarrow> bool \<Rightarrow> ref_db \<Rightarrow> (ref_state \<times> ref_db) result" where
  "require_edit_lock st now key actor token epoch record_activity db =
     bindr (require_access st key (Some actor) False) (\<lambda>_.
     bindr (locked_state_row key db) (\<lambda>(row, db1).
     bindr (require_resource key db1) (\<lambda>_.
       if \<not> lease_live now row then Inl (ReferenceError ''reference_edit_lock_lost'' 409)
       else bindr (matches st row actor token (Some epoch)) (\<lambda>own.
         if \<not> own then Inl (ReferenceError ''reference_edit_lock_lost'' 409)
         else if record_activity
         then let (expires, idle) = compute_deadlines now (the (rs_idle_expires_at row)) True;
                  row' = row\<lparr>rs_expires_at := Some expires, rs_idle_expires_at := Some idle\<rparr>
              in Inr (row', put_ref_state row' db1)
         else Inr (row, db1)))))"

definition renew_edit_lock ::
    "ref_settings \<Rightarrow> clock \<Rightarrow> reference_key \<Rightarrow> ref_actor \<Rightarrow> string \<Rightarrow> int \<Rightarrow> int \<Rightarrow> ref_db \<Rightarrow> (lock_status \<times> ref_db) result" where
  "renew_edit_lock st clock key actor token epoch activity db =
     (if \<not> (0 \<le> activity \<and> activity \<le> 2 ^ 63 - 1) then Inl (ReferenceError ''reference_precondition_required'' 428)
      else bindr (require_edit_lock st (clock 0) key actor token epoch False db) (\<lambda>(row, db1).
        let changed = rs_activity row < activity;
            (expires, idle) = compute_deadlines (clock 1) (the (rs_idle_expires_at row)) changed;
            row' = row\<lparr>rs_activity := (if changed then activity else rs_activity row),
                       rs_expires_at := Some expires, rs_idle_expires_at := Some idle\<rparr>;
            db2 = put_ref_state row' db1
        in Inr (edit_lock_status st (clock 2) key db2, db2)))"

definition release_edit_lock ::
    "ref_settings \<Rightarrow> reference_key \<Rightarrow> ref_actor \<Rightarrow> string \<Rightarrow> int \<Rightarrow> ref_db \<Rightarrow> ref_db result" where
  "release_edit_lock st key actor token epoch db =
     bindr (require_access st key (Some actor) False) (\<lambda>_.
     bindr (token_hash st token) (\<lambda>_.
     bindr (locked_state_row key db) (\<lambda>(row, db1).
     bindr (matches st row actor token (Some epoch)) (\<lambda>own.
       Inr (if own then put_ref_state (clear_lease row) db1 else db1)))))"

definition is_blank :: "char \<Rightarrow> bool" where
  "is_blank c = (let n = of_char c :: nat in n = 32 \<or> 9 \<le> n \<and> n \<le> 13 \<or> 28 \<le> n \<and> n \<le> 31 \<or> n = 133 \<or> n = 160)"

definition strip :: "string \<Rightarrow> string" where
  "strip s = rev (dropWhile is_blank (rev (dropWhile is_blank s)))"

definition revoke_edit_lock ::
    "ref_settings \<Rightarrow> time \<Rightarrow> reference_key \<Rightarrow> ref_actor \<Rightarrow> int \<Rightarrow> string \<Rightarrow> ref_db \<Rightarrow> (lock_status \<times> ref_db) result" where
  "revoke_edit_lock st now key actor expected_epoch reason db =
     bindr (require_access st key (Some actor) True) (\<lambda>_.
       if \<not> (1 \<le> length (strip reason) \<and> length (strip reason) \<le> 500)
       then Inl (ReferenceError ''reference_precondition_required'' 428)
       else bindr (locked_state_row key db) (\<lambda>(row, db1).
         bindr (require_resource key db1) (\<lambda>_.
           if rs_epoch row \<noteq> expected_epoch then Inl (ReferenceError ''reference_edit_lock_lost'' 409)
           else let db2 = put_ref_state (invalidate_reference_lease row) db1
                in Inr (edit_lock_status st now key db2, db2))))"

fun check_tabs :: "ref_settings \<Rightarrow> (reference_key \<Rightarrow> string) \<Rightarrow> ref_actor \<Rightarrow> reference_key list \<Rightarrow> ref_db \<Rightarrow> unit result" where
  "check_tabs st tokens actor [] db = Inr ()"
| "check_tabs st tokens actor (key # keys) db =
     bindr (require_access st key (Some actor) False) (\<lambda>_.
     bindr (require_resource key db) (\<lambda>_.
     bindr (token_hash st (tokens key)) (\<lambda>_. check_tabs st tokens actor keys db)))"

fun require_tabs :: "ref_settings \<Rightarrow> clock \<Rightarrow> (reference_key \<Rightarrow> string) \<Rightarrow> ref_actor \<Rightarrow> (reference_key \<times> int) list \<Rightarrow> ref_db \<Rightarrow> ref_db result" where
  "require_tabs st clock tokens actor [] db = Inr db"
| "require_tabs st clock tokens actor ((key, epoch) # es) db =
     bindr (require_edit_lock st (clock 0) key actor (tokens key) epoch False db) (\<lambda>(_, db1).
       require_tabs st (\<lambda>i. clock (i + 1)) tokens actor es db1)"

fun acquire_tabs :: "ref_settings \<Rightarrow> clock \<Rightarrow> (reference_key \<Rightarrow> string) \<Rightarrow> ref_actor \<Rightarrow> reference_key list \<Rightarrow> ref_db \<Rightarrow>
    ((reference_key \<times> lock_status) list \<times> ref_db) result" where
  "acquire_tabs st clock tokens actor [] db = Inr ([], db)"
| "acquire_tabs st clock tokens actor (key # keys) db =
     bindr (acquire_edit_lock st clock key actor (tokens key) db) (\<lambda>(status, db1).
     bindr (acquire_tabs st (\<lambda>i. clock (i + 2)) tokens actor keys db1) (\<lambda>(rest, db2).
       Inr ((key, status) # rest, db2)))"

text \<open>Two resources at most, taken in key order; the expected epochs are proved first.\<close>

definition acquire_edit_locks ::
    "ref_settings \<Rightarrow> clock \<Rightarrow> reference_key list \<Rightarrow> ref_actor \<Rightarrow> (reference_key \<Rightarrow> string) \<Rightarrow>
     (reference_key \<times> int) list \<Rightarrow> ref_db \<Rightarrow> ((reference_key \<times> lock_status) list \<times> ref_db) result" where
  "acquire_edit_locks st clock keys actor tokens expected db =
     (if \<not> (1 \<le> length keys \<and> length keys \<le> 2) \<or> \<not> distinct keys
      then Inl (ReferenceError ''reference_precondition_required'' 428)
      else bindr (check_tabs st tokens actor keys db) (\<lambda>_.
        bindr (require_tabs st clock tokens actor expected (lock_reference_resources keys db)) (\<lambda>db1.
          acquire_tabs st (\<lambda>i. clock (i + length expected)) tokens actor (order_by canonical keys) db1)))"

subsection \<open>A superseded tab is fenced off\<close>

definition epoch_of :: "ref_db \<Rightarrow> reference_key \<Rightarrow> int" where
  "epoch_of db key = (case get_by rs_key (canonical key) (ref_states db) of None \<Rightarrow> 0 | Some r \<Rightarrow> rs_epoch r)"

text \<open>No operation lowers the epoch of a key.\<close>

definition advances :: "ref_db \<Rightarrow> ref_db \<Rightarrow> bool" where
  "advances db db' \<longleftrightarrow> (\<forall>key. epoch_of db key \<le> epoch_of db' key)"

lemma advances_refl [simp]: "advances db db"
  by (simp add: advances_def)

lemma advances_trans: "advances db db1 \<Longrightarrow> advances db1 db2 \<Longrightarrow> advances db db2"
  by (auto simp: advances_def intro: order_trans)

lemma advances_same: "ref_states db' = ref_states db \<Longrightarrow> advances db db'"
  by (simp add: advances_def epoch_of_def)

lemma epoch_insert_state [simp]: "epoch_of (insert_state key db) key' = epoch_of db key'"
  by (auto simp: insert_state_def epoch_of_def get_by_append split: option.splits)

lemma epoch_fold_insert [simp]: "epoch_of (fold insert_state keys db) key' = epoch_of db key'"
  by (induction keys arbitrary: db) auto

lemma epoch_lock_resources [simp]: "epoch_of (lock_reference_resources keys db) key' = epoch_of db key'"
proof -
  have "epoch_of (initialize_glossary_state db) k = epoch_of db k" for k
    by (simp add: initialize_glossary_state_def epoch_of_def)
  then show ?thesis by (simp add: lock_reference_resources_def Let_def)
qed

lemma locked_state_row_Inr:
  assumes "locked_state_row key db = Inr (row, db1)"
  shows "get_by rs_key (canonical key) (ref_states db1) = Some row" and "rs_key row = canonical key"
    and "rs_epoch row = epoch_of db key" and "advances db db1" and "epoch_of db1 k = epoch_of db k"
proof -
  have db1: "db1 = lock_reference_resources [key] db"
    and g: "get_by rs_key (canonical key) (ref_states db1) = Some row"
    using assms by (auto simp: locked_state_row_def state_row_def Let_def split: option.splits)
  from g show "get_by rs_key (canonical key) (ref_states db1) = Some row" .
  from g show "rs_key row = canonical key" by (rule get_by_key)
  have "epoch_of db1 key = rs_epoch row" using g by (simp add: epoch_of_def)
  then show "rs_epoch row = epoch_of db key" by (simp add: db1)
  show "advances db db1" by (simp add: advances_def db1)
  show "epoch_of db1 k = epoch_of db k" by (simp add: db1)
qed

lemma epoch_put_state:
  "get_by rs_key (rs_key row) (ref_states db) = Some r \<Longrightarrow>
   epoch_of (put_ref_state row db) key = (if canonical key = rs_key row then rs_epoch row else epoch_of db key)"
  by (auto simp: epoch_of_def put_ref_state_def get_by_put_by)

lemma advances_put_state:
  assumes "get_by rs_key (rs_key row) (ref_states db) = Some r" and "rs_epoch r \<le> rs_epoch row"
  shows "advances db (put_ref_state row db)"
  unfolding advances_def
proof
  fix key show "epoch_of db key \<le> epoch_of (put_ref_state row db) key"
    using assms by (auto simp: epoch_of_def put_ref_state_def get_by_put_by split: option.splits)
qed

lemma put_locked:
  assumes "locked_state_row key db = Inr (row, db1)" and "rs_key row' = rs_key row" and "rs_epoch row \<le> rs_epoch row'"
  shows "advances db (put_ref_state row' db1)"
  using advances_put_state [of row' db1 row] locked_state_row_Inr [OF assms(1)] assms(2,3)
  by (auto intro: advances_trans)

lemma occupied_simps [simp]:
  "rs_key (occupied now actor digest row) = rs_key row"
  "rs_epoch (occupied now actor digest row) = rs_epoch row + 1"
  by (simp_all add: occupied_def Let_def split_def)

lemma invalidated_simps [simp]:
  "rs_key (invalidate_reference_lease row) = rs_key row" "rs_epoch (invalidate_reference_lease row) = rs_epoch row + 1"
  "rs_key (clear_lease row) = rs_key row" "rs_epoch (clear_lease row) = rs_epoch row"
  by (simp_all add: invalidate_reference_lease_def clear_lease_def)

lemma acquire_lock_Inr:
  assumes "acquire_edit_lock st clock key actor token db = Inr (status, db')"
  obtains row db1 where "locked_state_row key db = Inr (row, db1)"
    and "if lease_live (clock 0) row then matches st row actor token None = Inr True \<and> db' = db1
         else db' = put_ref_state (occupied (clock 0) actor (st_sha256 st token) row) db1"
proof -
  from assms obtain digest row db1 where d: "token_hash st token = Inr digest"
    and row: "locked_state_row key db = Inr (row, db1)"
    and rest: "(if lease_live (clock 0) row
           then bindr (matches st row actor token None) (\<lambda>own.
                  if \<not> own then Inl (ReferenceError ''reference_edit_locked'' 409)
                  else Inr (edit_lock_status st (clock 1) key db1, db1))
           else let db2 = put_ref_state (occupied (clock 0) actor digest row) db1
                in Inr (edit_lock_status st (clock 1) key db2, db2)) = Inr (status, db')"
    unfolding acquire_edit_lock_def by (elim bindrE bindr_pairE) (auto split: if_split_asm elim!: bindr_pairE)
  have "digest = st_sha256 st token" using d by (auto simp: token_hash_def split: if_split_asm)
  with rest have "if lease_live (clock 0) row then matches st row actor token None = Inr True \<and> db' = db1
         else db' = put_ref_state (occupied (clock 0) actor (st_sha256 st token) row) db1"
    by (auto simp: Let_def split: if_split_asm)
  with row show ?thesis by (rule that)
qed

lemma acquire_advances: "acquire_edit_lock st clock key actor token db = Inr (status, db') \<Longrightarrow> advances db db'"
  by (erule acquire_lock_Inr) (auto split: if_split_asm dest: locked_state_row_Inr(4) intro: put_locked)

lemma require_Inr:
  assumes "require_edit_lock st now key actor token epoch rec db = Inr (row', db')"
  obtains row db1 where "locked_state_row key db = Inr (row, db1)" and "lease_live now row"
    and "matches st row actor token (Some epoch) = Inr True" and "rs_key row' = rs_key row" and "rs_epoch row' = rs_epoch row"
    and "db' = (if rec then put_ref_state row' db1 else db1)" and "\<not> rec \<Longrightarrow> row' = row"
  using assms unfolding require_edit_lock_def
  by (elim bindrE bindr_pairE) (force simp: Let_def split_def split: if_split_asm)

lemma require_advances: "require_edit_lock st now key actor token epoch rec db = Inr (row', db') \<Longrightarrow> advances db db'"
  by (erule require_Inr) (auto dest: locked_state_row_Inr(4) intro: put_locked)

lemma matches_epoch: "matches st row actor token (Some epoch) = Inr True \<Longrightarrow>
    rs_epoch row = epoch \<and> rs_owner_id row = Some (ac_user_id actor) \<and> rs_token_hash row = Some (st_sha256 st token)"
  by (auto simp: matches_def token_hash_def split: if_split_asm)

lemma require_epoch:
  "require_edit_lock st now key actor token epoch rec db = Inr r \<Longrightarrow> epoch_of db key = epoch"
  by (cases r) (auto elim!: require_Inr dest!: matches_epoch locked_state_row_Inr(3))

lemma renew_advances:
  assumes "renew_edit_lock st clock key actor token epoch activity db = Inr (status, db')"
  shows "advances db db'"
proof -
  from assms obtain row db1 where r: "require_edit_lock st (clock 0) key actor token epoch False db = Inr (row, db1)"
    and db': "db' = put_ref_state (let changed = rs_activity row < activity;
              (expires, idle) = compute_deadlines (clock 1) (the (rs_idle_expires_at row)) changed in
            row\<lparr>rs_activity := (if changed then activity else rs_activity row),
                rs_expires_at := Some expires, rs_idle_expires_at := Some idle\<rparr>) db1"
    unfolding renew_edit_lock_def by (auto simp: Let_def split_def split: if_split_asm)
  from r obtain row0 where row: "locked_state_row key db = Inr (row0, db1)" "row0 = row" by (elim require_Inr) auto
  show ?thesis unfolding db' by (rule put_locked [OF row(1)]) (simp_all add: row(2) Let_def split_def)
qed

lemma release_advances: "release_edit_lock st key actor token epoch db = Inr db' \<Longrightarrow> advances db db'"
  unfolding release_edit_lock_def
  by (elim bindrE bindr_pairE) (auto split: if_split_asm dest: locked_state_row_Inr(4) intro: put_locked)

lemma revoke_advances: "revoke_edit_lock st now key actor expected reason db = Inr (status, db') \<Longrightarrow> advances db db'"
  unfolding revoke_edit_lock_def
  by (auto simp: Let_def split: if_split_asm prod.split_asm intro: put_locked)

lemma bump_revision_Inr:
  fixes db :: ref_db
  assumes "bump_reference_revision st row db = Inr (n, db')"
  shows "ref_states db' = ref_states (put_ref_state (row\<lparr>rs_revision := rs_revision row + 1\<rparr>) db)"
  using assms
  by (auto simp: bump_reference_revision_def bump_cache_revision_def bump_config_revision_def Let_def
      split: if_split_asm option.split_asm)

lemma bump_cache_Inr: "bump_cache_revision st (db :: ref_db) = Inr db' \<Longrightarrow> ref_states db' = ref_states db"
  by (auto simp: bump_cache_revision_def bump_config_revision_def Let_def split: if_split_asm option.split_asm)

lemma bump_advances:
  assumes "locked_state_row key db = Inr (row, db1)" and "bump_reference_revision st row db1 = Inr (n, db2)"
  shows "advances db db2"
proof -
  have "advances db (put_ref_state (row\<lparr>rs_revision := rs_revision row + 1\<rparr>) db1)" by (rule put_locked [OF assms(1)]) simp_all
  then show ?thesis using bump_revision_Inr [OF assms(2)] by (simp add: advances_def epoch_of_def)
qed

lemma initialize_advances:
  assumes "initialize_reference_resource st key db = Inr db'"
  shows "advances db db'"
proof -
  from assms obtain row db1 where row: "locked_state_row key db = Inr (row, db1)"
    and rest: "(if get_by rs_key (canonical key) (ref_states db) \<noteq> None
        then bindr (bump_reference_revision st row db1) (\<lambda>(_, db2).
               bindr (state_row key db2) (\<lambda>row'. Inr (put_ref_state (invalidate_reference_lease row') db2)))
        else bump_cache_revision st db1) = Inr db'"
    unfolding initialize_reference_resource_def Let_def by (elim bindr_pairE)
  show ?thesis
  proof (cases "get_by rs_key (canonical key) (ref_states db) = None")
    case True
    with rest have "ref_states db' = ref_states db1" by (simp add: bump_cache_Inr)
    then show ?thesis using locked_state_row_Inr(4) [OF row] by (auto intro: advances_trans advances_same)
  next
    case False
    with rest obtain n db2 row' where b: "bump_reference_revision st row db1 = Inr (n, db2)"
      and r: "state_row key db2 = Inr row'" and db': "db' = put_ref_state (invalidate_reference_lease row') db2" by auto
    from r have g: "get_by rs_key (canonical key) (ref_states db2) = Some row'" by (auto simp: state_row_def split: option.split_asm)
    have "advances db2 db'" unfolding db'
      by (rule advances_put_state [of _ _ row']) (use g get_by_key [OF g] in simp_all)
    with bump_advances [OF row b] show ?thesis by (rule advances_trans)
  qed
qed

subsection \<open>Runs\<close>

text \<open>
  What transactions do to the leases: the operations of tabs and administrators, a domain mutation under
  a row lock (\<open>bump_reference_revision\<close>), the start of an incarnation, and anything that leaves the
  rows of leases alone. A transaction that raises changes nothing.
\<close>

inductive lease_step :: "ref_settings \<Rightarrow> ref_db \<Rightarrow> ref_db \<Rightarrow> bool" for st where
  acquire: "acquire_edit_lock st clock key actor token db = Inr (status, db') \<Longrightarrow> lease_step st db db'"
| require: "require_edit_lock st now key actor token epoch rec db = Inr (row, db') \<Longrightarrow> lease_step st db db'"
| renew: "renew_edit_lock st clock key actor token epoch activity db = Inr (status, db') \<Longrightarrow> lease_step st db db'"
| release: "release_edit_lock st key actor token epoch db = Inr db' \<Longrightarrow> lease_step st db db'"
| revoke: "revoke_edit_lock st now key actor expected reason db = Inr (status, db') \<Longrightarrow> lease_step st db db'"
| mutate: "locked_state_row key db = Inr (row, db1) \<Longrightarrow> bump_reference_revision st row db1 = Inr (n, db') \<Longrightarrow> lease_step st db db'"
| initialize: "initialize_reference_resource st key db = Inr db' \<Longrightarrow> lease_step st db db'"
| locked: "lease_step st db (lock_reference_resources keys db)"
| elsewhere: "ref_states db' = ref_states db \<Longrightarrow> lease_step st db db'"

lemma lock_advances: "advances db (lock_reference_resources keys db)"
  by (simp add: advances_def)

lemma lease_step_advances: "lease_step st db db' \<Longrightarrow> advances db db'"
  by (induction rule: lease_step.induct)
    (blast intro: acquire_advances require_advances renew_advances release_advances revoke_advances bump_advances
      initialize_advances lock_advances advances_same)+

record tab_token =
  tt_key :: reference_key
  tt_actor :: ref_actor
  tt_token :: string
  tt_epoch :: int

definition accepted :: "ref_settings \<Rightarrow> ref_db \<Rightarrow> time \<Rightarrow> tab_token \<Rightarrow> bool" where
  "accepted st db now t \<longleftrightarrow> is_ok (require_edit_lock st now (tt_key t) (tt_actor t) (tt_token t) (tt_epoch t) False db)"

lemma accepted_holder:
  assumes "accepted st db now t"
  shows "\<exists>row. get_by rs_key (canonical (tt_key t)) (ref_states db) = Some row \<and> rs_epoch row = tt_epoch t \<and>
    rs_owner_id row = Some (ac_user_id (tt_actor t)) \<and> rs_token_hash row = Some (st_sha256 st (tt_token t)) \<and> lease_live now row"
proof -
  from assms obtain r where "require_edit_lock st now (tt_key t) (tt_actor t) (tt_token t) (tt_epoch t) False db = Inr r"
    by (auto simp: accepted_def is_ok_iff)
  then obtain row db1 where l: "locked_state_row (tt_key t) db = Inr (row, db1)" and lease_live: "lease_live now row"
    and m: "matches st row (tt_actor t) (tt_token t) (Some (tt_epoch t)) = Inr True"
    by (cases r) (auto elim: require_Inr)
  have keep: "get_by rs_key k (ref_states (insert_state key (initialize_glossary_state db))) = Some row \<Longrightarrow>
      get_by rs_key k (ref_states db) = Some row \<or> rs_owner_id row = None"
    and keep': "get_by rs_key k (ref_states (insert_state key db)) = Some row \<Longrightarrow>
      get_by rs_key k (ref_states db) = Some row \<or> rs_owner_id row = None" for k key row
    by (auto simp: insert_state_def initialize_glossary_state_def get_by_append split: option.splits if_split_asm)
  have "get_by rs_key (canonical (tt_key t)) (ref_states db) = Some row \<or> rs_owner_id row = None"
    using l by (auto simp: locked_state_row_def state_row_def lock_reference_resources_def order_by_def Let_def
        split: option.split_asm if_split_asm dest: keep keep')
  with matches_epoch [OF m] lease_live show ?thesis by auto
qed

interpretation tabs: fenced_resource "lease_step st" "\<lambda>_. True" epoch_of "accepted st" tt_key tt_epoch for st
  by unfold_locales (auto simp: accepted_def is_ok_iff advances_def dest: require_epoch lease_step_advances)

lemma require_tabs_steps: "require_tabs st clock tokens actor es db = Inr db' \<Longrightarrow> (lease_step st)\<^sup>*\<^sup>* db db'"
proof (induction es arbitrary: clock db)
  case (Cons e es)
  obtain key epoch where e: "e = (key, epoch)" by (cases e)
  from Cons.prems obtain row db1 where "require_edit_lock st (clock 0) key actor (tokens key) epoch False db = Inr (row, db1)"
    and "require_tabs st (\<lambda>i. clock (i + 1)) tokens actor es db1 = Inr db'" unfolding e by auto
  from lease_step.require [OF this(1)] Cons.IH [OF this(2)] show ?case by (rule converse_rtranclp_into_rtranclp)
qed simp

lemma acquire_tabs_steps:
  "acquire_tabs st clock tokens actor keys db = Inr (statuses, db') \<Longrightarrow> (lease_step st)\<^sup>*\<^sup>* db db'"
proof (induction keys arbitrary: clock db statuses)
  case (Cons key keys)
  from Cons.prems obtain status db1 rest where "acquire_edit_lock st clock key actor (tokens key) db = Inr (status, db1)"
    and "acquire_tabs st (\<lambda>i. clock (i + 2)) tokens actor keys db1 = Inr (rest, db')" by auto
  from lease_step.acquire [OF this(1)] Cons.IH [OF this(2)] show ?case by (rule converse_rtranclp_into_rtranclp)
qed simp

lemma acquire_edit_locks_steps:
  assumes "acquire_edit_locks st clock keys actor tokens expected db = Inr (statuses, db')"
  shows "(lease_step st)\<^sup>*\<^sup>* db db'"
proof -
  from assms obtain db1 clock' where
      "require_tabs st clock tokens actor expected (lock_reference_resources keys db) = Inr db1"
    and "acquire_tabs st clock' tokens actor (order_by canonical keys) db1 = Inr (statuses, db')"
    unfolding acquire_edit_locks_def by (auto split: if_split_asm)
  then show ?thesis
    by (meson converse_rtranclp_into_rtranclp rtranclp_trans lease_step.locked require_tabs_steps acquire_tabs_steps)
qed

lemma get_by_locked:
  assumes "get_by rs_key k (ref_states db) = Some row"
  shows "get_by rs_key k (ref_states (lock_reference_resources keys db)) = Some row"
proof -
  have "get_by rs_key k (ref_states d) = Some row \<Longrightarrow> get_by rs_key k (ref_states (fold insert_state ks d)) = Some row" for ks d
    by (induction ks arbitrary: d) (auto simp: insert_state_def get_by_append)
  then show ?thesis using assms by (simp add: lock_reference_resources_def initialize_glossary_state_def Let_def)
qed

lemma takeover_raises_epoch:
  assumes old: "accepted st db now old" and acq: "acquire_edit_lock st clock (tt_key old) actor token db = Inr (status, db1)"
    and other: "ac_user_id actor \<noteq> ac_user_id (tt_actor old) \<or> st_sha256 st token \<noteq> st_sha256 st (tt_token old)"
  shows "tt_epoch old < epoch_of db1 (tt_key old)"
proof -
  from accepted_holder [OF old] obtain row where row: "get_by rs_key (canonical (tt_key old)) (ref_states db) = Some row"
    and e: "rs_epoch row = tt_epoch old" and o: "rs_owner_id row = Some (ac_user_id (tt_actor old))"
    and h: "rs_token_hash row = Some (st_sha256 st (tt_token old))" by blast
  from acq obtain row' dbl where l: "locked_state_row (tt_key old) db = Inr (row', dbl)"
    and rest: "if lease_live (clock 0) row' then matches st row' actor token None = Inr True \<and> db1 = dbl
         else db1 = put_ref_state (occupied (clock 0) actor (st_sha256 st token) row') dbl" by (rule acquire_lock_Inr)
  have same: "row' = row" using l get_by_locked [OF row]
    by (auto simp: locked_state_row_def state_row_def Let_def)
  have "\<not> matches st row actor token None = Inr True"
    using other o h by (auto simp: matches_def token_hash_def split: if_split_asm)
  with rest same have db1: "db1 = put_ref_state (occupied (clock 0) actor (st_sha256 st token) row) dbl" by (auto split: if_split_asm)
  have "get_by rs_key (rs_key (occupied (clock 0) actor (st_sha256 st token) row)) (ref_states dbl) = Some row"
    using locked_state_row_Inr(1,2) [OF l] same by simp
  from epoch_put_state [OF this, of "tt_key old"] show ?thesis
    using locked_state_row_Inr(2) [OF l] same e by (simp add: db1)
qed

subsection \<open>Properties\<close>

text \<open>
  C23. One tab edits a resource: tokens accepted in the same state belong to one user, one token and one
  epoch. Once another tab has taken the lease over, the old tab is refused in every later
  state, whatever tabs, administrators and domain mutations do and whatever the clock says.
\<close>
theorem superseded_tab_refused:
  assumes "accepted st db now old" and "acquire_edit_lock st clock (tt_key old) actor token db = Inr (status, db1)"
    and "ac_user_id actor \<noteq> ac_user_id (tt_actor old) \<or> st_sha256 st token \<noteq> st_sha256 st (tt_token old)"
    and "(lease_step st)\<^sup>*\<^sup>* db1 db2"
  shows "\<not> accepted st db2 now' old \<and>
    (accepted st db2 t1 a \<and> accepted st db2 t2 b \<and> tt_key a = tt_key b \<longrightarrow>
     ac_user_id (tt_actor a) = ac_user_id (tt_actor b) \<and> st_sha256 st (tt_token a) = st_sha256 st (tt_token b) \<and> tt_epoch a = tt_epoch b)"
proof
  show "\<not> accepted st db2 now' old"
    by (rule tabs.superseded_rejected [OF _ assms(4)]) (use takeover_raises_epoch [OF assms(1-3)] in simp_all)
  show "accepted st db2 t1 a \<and> accepted st db2 t2 b \<and> tt_key a = tt_key b \<longrightarrow>
     ac_user_id (tt_actor a) = ac_user_id (tt_actor b) \<and> st_sha256 st (tt_token a) = st_sha256 st (tt_token b) \<and> tt_epoch a = tt_epoch b"
    using accepted_holder [of st db2 t1 a] accepted_holder [of st db2 t2 b] by auto
qed

definition example_key :: reference_key where
  "example_key = \<lparr>rk_type = ''development'', rk_id = ''7'', rk_kind = None, rk_org = None\<rparr>"

definition example_tab :: "string \<Rightarrow> char \<Rightarrow> tab_token" where
  "example_tab user c = \<lparr>tt_key = example_key, tt_actor = \<lparr>ac_user_id = user, ac_username = user, ac_roles = [''editor'']\<rparr>,
     tt_token = replicate 64 c, tt_epoch = 1\<rparr>"

definition example_settings :: ref_settings where
  "example_settings = \<lparr>st_auth_disabled = False, st_locks_enabled = True, st_durable = False, st_sha256 = rev\<rparr>"

definition example_refs :: ref_db where
  "example_refs = coord_db.extend empty_coord \<lparr>ref_states = [], glossary_ready = None, domain_terms = [], infotype_rules = [],
     developments = [''7''], tags = [], locales = []\<rparr>"

definition taken :: "int \<Rightarrow> tab_token \<Rightarrow> ref_db \<Rightarrow> ref_db" where
  "taken now t db = (case acquire_edit_lock example_settings (\<lambda>_. now) (tt_key t) (tt_actor t) (tt_token t) db of
     Inr (_, db') \<Rightarrow> db' | Inl _ \<Rightarrow> db)"

theorem superseded_tab_refused_witness:
  "accepted example_settings (taken 0 (example_tab ''u'' CHR ''a'') example_refs) 5 (example_tab ''u'' CHR ''a'') \<and>
   \<not> accepted example_settings (taken (seconds 181) (example_tab ''v'' CHR ''b'') (taken 0 (example_tab ''u'' CHR ''a'') example_refs))
     5 (example_tab ''u'' CHR ''a'')"
proof
  show a: "accepted example_settings (taken 0 (example_tab ''u'' CHR ''a'') example_refs) 5 (example_tab ''u'' CHR ''a'')"
    by code_simp
  show "\<not> accepted example_settings (taken (seconds 181) (example_tab ''v'' CHR ''b'') (taken 0 (example_tab ''u'' CHR ''a'') example_refs))
     5 (example_tab ''u'' CHR ''a'')"
  proof (rule conjunct1 [OF superseded_tab_refused [OF a]])
    show "acquire_edit_lock example_settings (\<lambda>_. seconds 181) (tt_key (example_tab ''u'' CHR ''a''))
        (tt_actor (example_tab ''v'' CHR ''b'')) (tt_token (example_tab ''v'' CHR ''b'')) (taken 0 (example_tab ''u'' CHR ''a'') example_refs)
      = Inr (edit_lock_status example_settings (seconds 181) example_key
          (taken (seconds 181) (example_tab ''v'' CHR ''b'') (taken 0 (example_tab ''u'' CHR ''a'') example_refs)),
          taken (seconds 181) (example_tab ''v'' CHR ''b'') (taken 0 (example_tab ''u'' CHR ''a'') example_refs))" by code_simp
    show "ac_user_id (tt_actor (example_tab ''v'' CHR ''b'')) \<noteq> ac_user_id (tt_actor (example_tab ''u'' CHR ''a'')) \<or>
      st_sha256 example_settings (tt_token (example_tab ''v'' CHR ''b'')) \<noteq> st_sha256 example_settings (tt_token (example_tab ''u'' CHR ''a''))"
      by (simp add: example_tab_def)
  qed simp
qed

end
