(* ===== verification/Attachment_Policy.thy ===== *)
theory Attachment_Policy
  imports Prelude "HOL-Library.AList"
begin

text \<open>
  Which attachments of an uploaded file are processed: \<open>attachment_limits.py\<close>,
  \<open>attachment_policy.py\<close> and \<open>attachment_assessment.py\<close> of the document parser. The
  recommendation excludes sources by their own properties, then drops the largest ones until
  the totals fit the budget; a source is processed only if all its ancestors are.

  Python compares the quotients \<open>metric / total\<close> as floats. Here they are brought to the common
  denominator, which is the exact order. Division by a zero budget raises.
\<close>

subsection \<open>Limits\<close>

definition validate_attachment_depth :: "int \<Rightarrow> int result" where
  "validate_attachment_depth v = (if \<not> (0 \<le> v \<and> v \<le> 32) then Inl ValueError else Inr v)"

record assessment_limits =
  al_rows :: int
  al_cells :: int
  al_text_bytes :: int
  al_expanded_bytes :: int
  al_file_bytes :: int
  al_total_rows :: int
  al_total_cells :: int
  al_total_text_bytes :: int
  al_total_file_bytes :: int
  al_timeout_seconds :: int
  al_scan_bytes :: int

definition default_assessment_limits :: assessment_limits where
  "default_assessment_limits = \<lparr>al_rows = 500, al_cells = 20000, al_text_bytes = 524288,
     al_expanded_bytes = 8388608, al_file_bytes = 10485760, al_total_rows = 1000,
     al_total_cells = 40000, al_total_text_bytes = 1048576, al_total_file_bytes = 20971520,
     al_timeout_seconds = 15, al_scan_bytes = 33554432\<rparr>"

record traversal_limits =
  tl_max_depth :: int
  tl_max_nodes :: int
  tl_max_payload_bytes :: int
  tl_max_total_bytes :: int
  tl_max_archive_entries :: int
  tl_max_compression_ratio :: int

definition default_traversal_limits :: traversal_limits where
  "default_traversal_limits = \<lparr>tl_max_depth = 6, tl_max_nodes = 1000,
     tl_max_payload_bytes = 50 * 1024 * 1024, tl_max_total_bytes = 200 * 1024 * 1024,
     tl_max_archive_entries = 10000, tl_max_compression_ratio = 1000\<rparr>"

definition make_traversal_limits :: "traversal_limits \<Rightarrow> traversal_limits result" where
  "make_traversal_limits l = bindr (validate_attachment_depth (tl_max_depth l)) (\<lambda>_. Inr l)"

subsection \<open>Inventories and decisions\<close>

record attachment_node =
  an_source_key :: string
  an_parent_key :: string
  an_locator :: string
  an_display_name :: string
  an_kind :: string
  an_supported :: bool
  an_source_id :: "string option"
  an_metrics :: "(string \<times> int option) list"
  an_precision :: string
  an_assessment :: string
  an_children_complete :: bool
  an_status :: string
  an_saved_path :: "string option"
  an_content_fingerprint :: "string option"
  an_format :: "string option"
  an_title :: "string option"
  an_title_source :: "string option"
  an_display_label :: "string option"

definition make_node :: "string \<Rightarrow> string \<Rightarrow> string \<Rightarrow> string \<Rightarrow> string \<Rightarrow> attachment_node" where
  "make_node source_key parent_key locator display_name kind =
     \<lparr>an_source_key = source_key, an_parent_key = parent_key, an_locator = locator,
      an_display_name = display_name, an_kind = kind, an_supported = True, an_source_id = None,
      an_metrics = [], an_precision = ''exact'', an_assessment = ''small'',
      an_children_complete = True, an_status = ''available'', an_saved_path = None,
      an_content_fingerprint = None, an_format = None, an_title = None, an_title_source = None,
      an_display_label = None\<rparr>"

record attachment_inventory =
  ai_source_file_hash :: string
  ai_nodes :: "attachment_node list"
  ai_schema_version :: int
  ai_complete :: bool
  ai_scan_bytes :: int
  ai_traversal_limits :: "traversal_limits option"

definition inventory_from_dict :: "attachment_inventory \<Rightarrow> attachment_inventory result" where
  "inventory_from_dict v = (if ai_schema_version v \<noteq> 1 then Inl ValueError else Inr v)"

text \<open>Absent limits of an old inventory are the defaults.\<close>

definition inventory_traversal_limits :: "attachment_inventory \<Rightarrow> traversal_limits result" where
  "inventory_traversal_limits inventory =
     make_traversal_limits (case ai_traversal_limits inventory of None \<Rightarrow> default_traversal_limits | Some l \<Rightarrow> l)"

record source_decision =
  sd_source_key :: string
  sd_selected :: bool
  sd_effective :: bool
  sd_reason :: string
  sd_origin :: string
  sd_source_id :: "string option"

record scope_selection =
  ss_decisions :: "source_decision list"
  ss_requires_review :: bool

text \<open>\<open>{node.source_key: node for node in nodes}\<close>: the last of several nodes wins.\<close>

definition node_get :: "attachment_node list \<Rightarrow> string \<Rightarrow> attachment_node option" where
  "node_get nodes k = get_by an_source_key k (rev nodes)"

lemma node_get_in: "node_get nodes k = Some n \<Longrightarrow> n \<in> set nodes \<and> an_source_key n = k"
  unfolding node_get_def by (drule get_by_SomeD) simp

lemma node_get_self:
  "distinct (map an_source_key nodes) \<Longrightarrow> n \<in> set nodes \<Longrightarrow> node_get nodes (an_source_key n) = Some n"
  unfolding node_get_def by (rule get_by_self) (simp_all add: unique_key_def rev_map [symmetric])

lemma node_get_None: "node_get nodes k = None \<longleftrightarrow> k \<notin> an_source_key ` set nodes"
  by (simp add: node_get_def get_by_None)

subsection \<open>Depth of a node\<close>

text \<open>
  \<open>inventory_node_depth\<close>: the walk to the parents, with the keys seen on the way. It ends because
  the walk never visits a key twice.
\<close>

function node_depth_from :: "attachment_node list \<Rightarrow> string list \<Rightarrow> int \<Rightarrow> string \<Rightarrow> int option" where
  "node_depth_from nodes seen depth current =
     (if current = ''root'' then Some depth
      else case node_get nodes current of
        None \<Rightarrow> None
      | Some n \<Rightarrow>
          if current \<in> set seen then None
          else node_depth_from nodes (current # seen) (depth + 1) (an_parent_key n))"
  by pat_completeness auto

lemma node_seen_decreases:
  assumes "node_get nodes k = Some n" and "k \<notin> set seen"
  shows "card (an_source_key ` set nodes - insert k (set seen)) < card (an_source_key ` set nodes - set seen)"
proof (rule psubset_card_mono)
  have "k \<in> an_source_key ` set nodes" using node_get_in [OF assms(1)] by auto
  then show "an_source_key ` set nodes - insert k (set seen) \<subset> an_source_key ` set nodes - set seen"
    using assms(2) by auto
qed simp

termination node_depth_from
  by (relation "measure (\<lambda>(nodes, seen, depth, k). card (an_source_key ` set nodes - set seen))")
     (auto intro: node_seen_decreases)

declare node_depth_from.simps [simp del]

definition inventory_node_depth :: "attachment_node list \<Rightarrow> string \<Rightarrow> int option" where
  "inventory_node_depth nodes source_key = node_depth_from nodes [] 0 source_key"

text \<open>The reference: a chain of parent edges from the node to the uploaded root.\<close>

inductive parent_chain :: "attachment_node list \<Rightarrow> string \<Rightarrow> nat \<Rightarrow> bool" for nodes where
  at_root: "parent_chain nodes ''root'' 0"
| parent_edge: "k \<noteq> ''root'' \<Longrightarrow> node_get nodes k = Some n \<Longrightarrow> parent_chain nodes (an_parent_key n) d \<Longrightarrow>
    parent_chain nodes k (Suc d)"

inductive_cases parent_chainE: "parent_chain nodes k d"

lemma chain_fun: "parent_chain nodes k d \<Longrightarrow> parent_chain nodes k d' \<Longrightarrow> d = d'"
proof (induction arbitrary: d' rule: parent_chain.induct)
  case at_root
  then show ?case by (auto elim: parent_chainE)
next
  case (parent_edge k n d)
  from parent_edge.prems parent_edge.hyps obtain e where "d' = Suc e" "parent_chain nodes (an_parent_key n) e"
    by (auto elim: parent_chainE)
  with parent_edge.IH show ?case by simp
qed

lemma depth_sound: "node_depth_from nodes seen m k = Some d \<Longrightarrow> \<exists>e. parent_chain nodes k e \<and> d = m + int e"
proof (induction nodes seen m k arbitrary: d rule: node_depth_from.induct)
  case (1 nodes seen depth current)
  show ?case
  proof (cases "current = ''root''")
    case True
    then show ?thesis using 1 by (auto simp: node_depth_from.simps [of nodes seen] intro: at_root)
  next
    case False
    with "1.prems" obtain n where n: "node_get nodes current = Some n" "current \<notin> set seen"
      and rest: "node_depth_from nodes (current # seen) (depth + 1) (an_parent_key n) = Some d"
      by (auto simp: node_depth_from.simps [of nodes seen] split: option.splits if_split_asm)
    from "1.IH" [OF False n rest] obtain e where "parent_chain nodes (an_parent_key n) e" "d = depth + 1 + int e"
      by auto
    then show ?thesis using parent_edge [OF False n(1)] by (intro exI [of _ "Suc e"]) auto
  qed
qed

text \<open>A chain never returns to a key it has passed: each key has one depth.\<close>

lemma depth_complete:
  "parent_chain nodes k e \<Longrightarrow> \<forall>s\<in>set seen. \<forall>e'. parent_chain nodes s e' \<longrightarrow> e < e' \<Longrightarrow>
   node_depth_from nodes seen m k = Some (m + int e)"
proof (induction arbitrary: seen m rule: parent_chain.induct)
  case at_root
  then show ?case by (simp add: node_depth_from.simps)
next
  case (parent_edge k n d)
  have chain: "parent_chain nodes k (Suc d)" using parent_edge.hyps by (auto intro: parent_chain.parent_edge)
  have fresh: "k \<notin> set seen" using parent_edge.prems chain by blast
  have "\<forall>s\<in>set (k # seen). \<forall>e'. parent_chain nodes s e' \<longrightarrow> d < e'"
  proof (intro ballI allI impI)
    fix s e' assume s: "s \<in> set (k # seen)" and e: "parent_chain nodes s e'"
    show "d < e'"
    proof (cases "s = k")
      case True
      with chain_fun [OF chain] e show ?thesis by blast
    next
      case False
      with parent_edge.prems s e show ?thesis by (auto dest: Suc_lessD)
    qed
  qed
  from parent_edge.IH [OF this] parent_edge.hyps fresh show ?case by (simp add: node_depth_from.simps [of nodes seen])
qed

subsection \<open>The recommendation\<close>

definition metric_value :: "attachment_node \<Rightarrow> string \<Rightarrow> int" where
  "metric_value node name = (case map_of (an_metrics node) name of Some (Some v) \<Rightarrow> v | _ \<Rightarrow> 0)"

definition has_children :: "attachment_node \<Rightarrow> bool" where
  "has_children node = (metric_value node ''has_children'' \<noteq> 0)"

definition own_limit :: "assessment_limits \<Rightarrow> string \<Rightarrow> int" where
  "own_limit l name = (if name = ''rows'' then al_rows l else if name = ''cells'' then al_cells l
     else if name = ''text_bytes'' then al_text_bytes l
     else if name = ''expanded_bytes'' then al_expanded_bytes l else al_file_bytes l)"

definition total_limit :: "assessment_limits \<Rightarrow> string \<Rightarrow> int" where
  "total_limit l name = (if name = ''rows'' then al_total_rows l else if name = ''cells'' then al_total_cells l
     else if name = ''text_bytes'' then al_total_text_bytes l else al_total_file_bytes l)"

definition node_is_heavy :: "attachment_node \<Rightarrow> assessment_limits \<Rightarrow> bool" where
  "node_is_heavy node limits =
     (let container = an_kind node \<in> set [''archive'', ''mail'', ''docx'', ''pdf'', ''xlsx''] \<and> has_children node;
          names = (if an_kind node = ''archive'' \<or> container \<and> an_kind node = ''mail'' then [''text_bytes'']
                   else [''rows'', ''cells'', ''text_bytes'', ''expanded_bytes'', ''file_bytes''])
      in list_ex (\<lambda>name. own_limit limits name \<le> metric_value node name) names)"

type_synonym reasons = "(string \<times> string) list"

definition own_reason :: "assessment_limits \<Rightarrow> attachment_node \<Rightarrow> string option" where
  "own_reason limits node =
     (if an_status node = ''skipped_depth'' then Some ''depth_limit''
      else if \<not> an_supported node then Some ''unsupported''
      else if an_assessment node = ''unknown'' \<or> \<not> an_children_complete node then Some ''unknown''
      else if an_assessment node = ''heavy'' \<or> node_is_heavy node limits then Some ''heavy''
      else None)"

definition own_reasons :: "assessment_limits \<Rightarrow> attachment_node list \<Rightarrow> reasons" where
  "own_reasons limits nodes =
     fold (\<lambda>node reasons. case own_reason limits node of None \<Rightarrow> reasons
            | Some r \<Rightarrow> AList.update (an_source_key node) r reasons) nodes []"

text \<open>\<open>included(node)\<close>: no reason on the node or on any ancestor, and no cycle.\<close>

function included_from :: "attachment_node list \<Rightarrow> reasons \<Rightarrow> string list \<Rightarrow> attachment_node option \<Rightarrow> bool" where
  "included_from nodes reasons seen None = True"
| "included_from nodes reasons seen (Some node) =
     (if map_of reasons (an_source_key node) \<noteq> None \<or> an_source_key node \<in> set seen then False
      else included_from nodes reasons (an_source_key node # seen) (node_get nodes (an_parent_key node)))"
  by pat_completeness auto

termination included_from
proof (relation "measure (\<lambda>(nodes, reasons, seen, node). case node of None \<Rightarrow> 0
    | Some n \<Rightarrow> Suc (card (insert (an_source_key n) (an_source_key ` set nodes) - set seen)))")
  fix nodes :: "attachment_node list" and reasons :: reasons and seen :: "string list" and node :: attachment_node
  assume new: "\<not> (map_of reasons (an_source_key node) \<noteq> None \<or> an_source_key node \<in> set seen)"
  show "((nodes, reasons, an_source_key node # seen, node_get nodes (an_parent_key node)),
      nodes, reasons, seen, Some node) \<in> measure (\<lambda>(nodes, reasons, seen, node). case node of None \<Rightarrow> 0
    | Some n \<Rightarrow> Suc (card (insert (an_source_key n) (an_source_key ` set nodes) - set seen)))"
  proof (cases "node_get nodes (an_parent_key node)")
    case (Some p)
    then have "insert (an_source_key p) (an_source_key ` set nodes) = an_source_key ` set nodes"
      using node_get_in by blast
    moreover have "card (an_source_key ` set nodes - insert (an_source_key node) (set seen))
        < card (insert (an_source_key node) (an_source_key ` set nodes) - set seen)"
      using new by (intro psubset_card_mono) auto
    ultimately show ?thesis using Some by simp
  qed simp
qed simp

definition included :: "attachment_node list \<Rightarrow> reasons \<Rightarrow> attachment_node \<Rightarrow> bool" where
  "included nodes reasons node = included_from nodes reasons [] (Some node)"

definition counted_metric :: "attachment_node \<Rightarrow> string \<Rightarrow> int" where
  "counted_metric node name =
     (if name = ''file_bytes'' \<and> (an_kind node = ''archive'' \<or> has_children node) then 0
      else metric_value node name)"

definition total_names :: "string list" where
  "total_names = [''rows'', ''cells'', ''text_bytes'', ''file_bytes'']"

definition rank_weight :: "assessment_limits \<Rightarrow> attachment_node \<Rightarrow> int" where
  "rank_weight limits node =
     (let scale = prod_list (map (total_limit limits) total_names) in
      foldr max (map (\<lambda>name. counted_metric node name * (scale div total_limit limits name)) (tl total_names))
        (counted_metric node (hd total_names) * (scale div total_limit limits (hd total_names))))"

definition ranked :: "assessment_limits \<Rightarrow> attachment_node list \<Rightarrow> attachment_node list" where
  "ranked limits candidates = order_by (\<lambda>n. (- rank_weight limits n, an_source_key n)) candidates"

definition over_budget :: "assessment_limits \<Rightarrow> attachment_node list \<Rightarrow> bool" where
  "over_budget limits candidates =
     list_ex (\<lambda>name. total_limit limits name \<le> sum_list (map (\<lambda>n. counted_metric n name) candidates)) total_names"

text \<open>The loop drops the largest remaining candidate, and with it its descendants.\<close>

function trim :: "assessment_limits \<Rightarrow> attachment_node list \<Rightarrow> attachment_node list \<Rightarrow> reasons \<Rightarrow>
    attachment_node list \<Rightarrow> reasons \<times> attachment_node list" where
  "trim limits nodes order reasons candidates =
     (if over_budget limits candidates then
        case find (\<lambda>n. n \<in> set candidates) order of
          None \<Rightarrow> (reasons, candidates)
        | Some node \<Rightarrow>
            let reasons' = AList.update (an_source_key node) ''aggregate_budget'' reasons
            in trim limits nodes order reasons' (filter (included nodes reasons') candidates)
      else (reasons, candidates))"
  by pat_completeness auto

lemma not_included_reason: "map_of reasons (an_source_key node) \<noteq> None \<Longrightarrow> \<not> included nodes reasons node"
  by (simp add: included_def)

lemma filter_shrinks: "x \<in> set xs \<Longrightarrow> \<not> P x \<Longrightarrow> length (filter P xs) < length xs"
  by (induction xs) (auto simp: le_imp_less_Suc)

termination trim
proof (relation "measure (\<lambda>(limits, nodes, order, reasons, candidates). length candidates)")
  fix limits :: assessment_limits and nodes order candidates :: "attachment_node list" and reasons reasons' :: reasons
    and node :: attachment_node
  assume node: "find (\<lambda>n. n \<in> set candidates) order = Some node"
    and r: "reasons' = AList.update (an_source_key node) ''aggregate_budget'' reasons"
  have "\<not> included nodes reasons' node"
    by (rule not_included_reason) (simp add: r update_conv')
  then have "length (filter (included nodes reasons') candidates) < length candidates"
    using find_SomeD [OF node] by (intro filter_shrinks) auto
  then show "((limits, nodes, order, reasons', filter (included nodes reasons') candidates),
      limits, nodes, order, reasons, candidates)
      \<in> measure (\<lambda>(limits, nodes, order, reasons, candidates). length candidates)" by simp
qed simp

declare trim.simps [simp del]

definition decision_of :: "attachment_node list \<Rightarrow> reasons \<Rightarrow> attachment_node \<Rightarrow> source_decision" where
  "decision_of nodes reasons node =
     (let effective = included nodes reasons node in
      \<lparr>sd_source_key = an_source_key node, sd_selected = effective, sd_effective = effective,
       sd_reason = (case map_of reasons (an_source_key node) of Some r \<Rightarrow> r
         | None \<Rightarrow> if effective then ''small'' else ''ancestor_excluded''),
       sd_origin = ''automatic'', sd_source_id = an_source_id node\<rparr>)"

definition recommend_scope :: "attachment_inventory \<Rightarrow> assessment_limits \<Rightarrow> scope_selection result" where
  "recommend_scope inventory limits =
     (let nodes = ai_nodes inventory;
          reasons = own_reasons limits nodes;
          candidates = filter (included nodes reasons) nodes
      in if candidates \<noteq> [] \<and> list_ex (\<lambda>name. total_limit limits name = 0) total_names then Inl ZeroDivisionError
         else
           let reasons' = fst (trim limits nodes (ranked limits candidates) reasons candidates) in
           Inr \<lparr>ss_decisions = map (decision_of nodes reasons') nodes,
                ss_requires_review = (\<not> ai_complete inventory \<or>
                  list_ex (\<lambda>r. r \<in> set [''heavy'', ''unknown'', ''aggregate_budget'']) (map snd reasons'))\<rparr>)"

subsection \<open>The processing policy\<close>

text \<open>\<open>ParserProcessingPolicy\<close>: the snapshot a parser receives; unknown sources are not processed.\<close>

record scope_snapshot =
  sn_schema_version :: int
  sn_source_file_hash :: string
  sn_traversal_limits :: "traversal_limits option"
  sn_decisions :: "source_decision list"
  sn_nodes :: "attachment_node list"

record processing_policy =
  pp_snapshot :: scope_snapshot
  pp_traversal :: traversal_limits
  pp_decisions :: "(string \<times> source_decision) list"

definition make_policy :: "scope_snapshot \<Rightarrow> processing_policy result" where
  "make_policy snapshot =
     (if sn_schema_version snapshot \<noteq> 1 then Inl ValueError
      else bindr (make_traversal_limits (case sn_traversal_limits snapshot of
               None \<Rightarrow> default_traversal_limits | Some l \<Rightarrow> l)) (\<lambda>traversal.
        Inr \<lparr>pp_snapshot = snapshot, pp_traversal = traversal,
             pp_decisions = fold (\<lambda>d m. AList.update (sd_source_key d) d m) (sn_decisions snapshot) []\<rparr>))"

definition is_included :: "processing_policy \<Rightarrow> string \<Rightarrow> bool" where
  "is_included policy source_key =
     (source_key = ''root'' \<or>
      (case map_of (pp_decisions policy) source_key of Some d \<Rightarrow> sd_effective d | None \<Rightarrow> False))"

record source_info =
  si_reason :: string
  si_assessment :: "string option"
  si_origin :: "string option"

definition source_metadata :: "processing_policy \<Rightarrow> string \<Rightarrow> source_info" where
  "source_metadata policy source_key =
     (let decision = map_of (pp_decisions policy) source_key;
          node = find (\<lambda>n. an_source_key n = source_key) (sn_nodes (pp_snapshot policy))
      in \<lparr>si_reason = (case decision of Some d \<Rightarrow> sd_reason d | None \<Rightarrow> ''unassessed''),
          si_assessment = map_option an_assessment node,
          si_origin = map_option sd_origin decision\<rparr>)"

definition snapshot_of :: "attachment_inventory \<Rightarrow> scope_selection \<Rightarrow> scope_snapshot" where
  "snapshot_of inventory sel =
     \<lparr>sn_schema_version = 1, sn_source_file_hash = ai_source_file_hash inventory,
      sn_traversal_limits = ai_traversal_limits inventory, sn_decisions = ss_decisions sel,
      sn_nodes = ai_nodes inventory\<rparr>"

subsection \<open>What the selection guarantees\<close>

lemma included_from_antimono:
  "included_from nodes reasons seen x \<Longrightarrow> dom (map_of reasons') \<subseteq> dom (map_of reasons) \<Longrightarrow> set seen' \<subseteq> set seen \<Longrightarrow>
   included_from nodes reasons' seen' x"
proof (induction nodes reasons seen x arbitrary: seen' rule: included_from.induct)
  case (2 nodes reasons seen node)
  let ?k = "an_source_key node"
  from "2.prems" have here: "map_of reasons ?k = None" "?k \<notin> set seen"
    and up: "included_from nodes reasons (?k # seen) (node_get nodes (an_parent_key node))"
    by (auto split: if_split_asm)
  have none: "map_of reasons' ?k = None" and fresh: "?k \<notin> set seen'"
    using here "2.prems"(2,3) by (auto simp: subset_iff domIff)
  have "set (?k # seen') \<subseteq> set (?k # seen)" using "2.prems"(3) by auto
  from "2.IH" [OF _ up "2.prems"(2) this] here none fresh show ?case by simp
qed simp

lemma included_antimono:
  "included nodes reasons node \<Longrightarrow> dom (map_of reasons') \<subseteq> dom (map_of reasons) \<Longrightarrow> included nodes reasons' node"
  unfolding included_def by (erule included_from_antimono) auto

lemma included_parent:
  assumes "included nodes reasons node" and "node_get nodes (an_parent_key node) = Some p"
  shows "included nodes reasons p"
proof -
  have "included_from nodes reasons [an_source_key node] (Some p)"
    using assms by (auto simp: included_def simp del: included_from.simps(2) split: if_split_asm
        dest!: included_from.simps(2) [THEN iffD1])
  then show ?thesis unfolding included_def by (rule included_from_antimono) auto
qed

lemma dom_update: "dom (map_of (AList.update k v reasons)) = insert k (dom (map_of reasons))"
  by (simp add: update_conv')

lemma filter_included_again:
  "dom (map_of reasons) \<subseteq> dom (map_of reasons') \<Longrightarrow>
   filter (included nodes reasons') (filter (included nodes reasons) xs) = filter (included nodes reasons') xs"
  by (auto intro!: filter_cong dest: included_antimono)

text \<open>The loop keeps the candidates equal to what its reasons include and only adds reasons.\<close>

lemma trim_result:
  "trim limits nodes order reasons (filter (included nodes reasons) nodes) = (reasons', kept) \<Longrightarrow>
   kept = filter (included nodes reasons') nodes \<and> dom (map_of reasons) \<subseteq> dom (map_of reasons') \<and>
   (over_budget limits kept \<longrightarrow> set order \<inter> set kept = {})"
proof (induction limits nodes order reasons "filter (included nodes reasons) nodes"
    arbitrary: reasons' kept rule: trim.induct)
  case (1 limits nodes order reasons)
  let ?c = "filter (included nodes reasons) nodes"
  show ?case
  proof (cases "over_budget limits ?c")
    case False
    then show ?thesis using "1.prems" by (auto simp: trim.simps [of limits nodes order reasons])
  next
    case over: True
    show ?thesis
    proof (cases "find (\<lambda>n. n \<in> set ?c) order")
      case None
      then have "set order \<inter> set ?c = {}" by (auto simp: find_None_iff)
      then show ?thesis using over None "1.prems" by (auto simp: trim.simps [of limits nodes order reasons])
    next
      case (Some node)
      let ?r = "AList.update (an_source_key node) ''aggregate_budget'' reasons"
      have again: "filter (included nodes ?r) ?c = filter (included nodes ?r) nodes"
        by (rule filter_included_again) (simp add: dom_update subset_insertI)
      have "trim limits nodes order ?r (filter (included nodes ?r) nodes) = (reasons', kept)"
        using "1.prems" over Some by (simp add: trim.simps [of limits nodes order reasons] again Let_def del: filter_filter)
      from "1.hyps" [OF over Some refl again this]
      show ?thesis by (auto simp: dom_update)
    qed
  qed
qed

lemma own_reasons_dom:
  "dom (map_of (own_reasons limits nodes)) = an_source_key ` {n \<in> set nodes. own_reason limits n \<noteq> None}"
proof -
  have "dom (map_of (fold (\<lambda>node reasons. case own_reason limits node of None \<Rightarrow> reasons
            | Some r \<Rightarrow> AList.update (an_source_key node) r reasons) nodes rs))
      = dom (map_of rs) \<union> an_source_key ` {n \<in> set nodes. own_reason limits n \<noteq> None}" for rs
  proof (induction nodes arbitrary: rs)
    case (Cons node nodes)
    show ?case
    proof (cases "own_reason limits node")
      case None
      then show ?thesis using Cons.IH [of rs] by auto
    next
      case (Some r)
      then show ?thesis using Cons.IH [of "AList.update (an_source_key node) r rs"] by (auto simp: dom_update)
    qed
  qed simp
  then show ?thesis by (simp add: own_reasons_def)
qed

definition final_reasons :: "attachment_inventory \<Rightarrow> assessment_limits \<Rightarrow> reasons" where
  "final_reasons inventory limits =
     (let nodes = ai_nodes inventory; reasons = own_reasons limits nodes;
          candidates = filter (included nodes reasons) nodes
      in fst (trim limits nodes (ranked limits candidates) reasons candidates))"

lemma final_reasons_props:
  "dom (map_of (own_reasons limits (ai_nodes inventory))) \<subseteq> dom (map_of (final_reasons inventory limits))"
  "over_budget limits (filter (included (ai_nodes inventory) (final_reasons inventory limits)) (ai_nodes inventory)) \<Longrightarrow>
   filter (included (ai_nodes inventory) (final_reasons inventory limits)) (ai_nodes inventory) = []"
proof -
  let ?nodes = "ai_nodes inventory" and ?r = "own_reasons limits (ai_nodes inventory)"
  let ?c = "filter (included ?nodes ?r) ?nodes"
  obtain r' kept where t: "trim limits ?nodes (ranked limits ?c) ?r ?c = (r', kept)" by fastforce
  then have r': "final_reasons inventory limits = r'" by (simp add: final_reasons_def Let_def)
  from trim_result [OF t] have kept: "kept = filter (included ?nodes r') ?nodes"
    and d: "dom (map_of ?r) \<subseteq> dom (map_of r')"
    and over: "over_budget limits kept \<longrightarrow> set (ranked limits ?c) \<inter> set kept = {}" by auto
  show "dom (map_of ?r) \<subseteq> dom (map_of (final_reasons inventory limits))" using d r' by simp
  have "set kept \<subseteq> set (ranked limits ?c)"
    unfolding kept ranked_def using included_antimono [OF _ d] by auto
  then show "filter (included ?nodes (final_reasons inventory limits)) ?nodes = []"
    if "over_budget limits (filter (included ?nodes (final_reasons inventory limits)) ?nodes)"
    using that over kept r' by (metis inf.absorb2 set_empty)
qed

lemma recommend_scope_Inr:
  "recommend_scope inventory limits = Inr sel \<Longrightarrow>
   ss_decisions sel = map (decision_of (ai_nodes inventory) (final_reasons inventory limits)) (ai_nodes inventory)"
  by (auto simp: recommend_scope_def final_reasons_def Let_def split: if_split_asm)

definition selected_nodes :: "attachment_inventory \<Rightarrow> scope_selection \<Rightarrow> attachment_node list" where
  "selected_nodes inventory sel =
     map snd (filter (\<lambda>p. sd_effective (fst p)) (zip (ss_decisions sel) (ai_nodes inventory)))"

lemma zip_map_self: "map snd (filter (\<lambda>p. P (fst p)) (zip (map f xs) xs)) = filter (\<lambda>x. P (f x)) xs"
  by (induction xs) auto

lemma selected_nodes_eq:
  "recommend_scope inventory limits = Inr sel \<Longrightarrow>
   selected_nodes inventory sel = filter (included (ai_nodes inventory) (final_reasons inventory limits)) (ai_nodes inventory)"
  by (simp add: selected_nodes_def recommend_scope_Inr zip_map_self) (simp add: decision_of_def Let_def)

lemma over_budget_empty: "over_budget limits [] \<longleftrightarrow> (\<exists>name\<in>set total_names. total_limit limits name \<le> 0)"
  by (auto simp: over_budget_def list_ex_iff)

lemma map_of_fold_update:
  "map_of (fold (\<lambda>d m. AList.update (key d) d m) ds acc) k =
     (case get_by key k (rev ds) of Some d \<Rightarrow> Some d | None \<Rightarrow> map_of acc k)"
  by (induction ds arbitrary: acc) (auto simp: update_conv' get_by_append split: option.splits)

lemma make_policy_decision:
  assumes "make_policy (snapshot_of inventory sel) = Inr policy"
  shows "map_of (pp_decisions policy) k = get_by sd_source_key k (rev (ss_decisions sel))"
  using assms by (auto simp: make_policy_def snapshot_of_def map_of_fold_update split: if_split_asm option.splits)

subsection \<open>Properties\<close>

definition example_inventory :: attachment_inventory where
  "example_inventory =
     \<lparr>ai_source_file_hash = ''h'',
      ai_nodes =
        [(make_node ''m'' ''root'' ''0'' ''mail'' ''mail'')
           \<lparr>an_metrics := [(''has_children'', Some 1), (''text_bytes'', Some 10)]\<rparr>,
         (make_node ''x'' ''m'' ''1'' ''sheet'' ''xlsx'')\<lparr>an_metrics := [(''rows'', Some 40)]\<rparr>,
         (make_node ''y'' ''m'' ''2'' ''sheet'' ''xlsx'')\<lparr>an_metrics := [(''rows'', Some 80)]\<rparr>,
         (make_node ''z'' ''m'' ''3'' ''sheet'' ''xlsx'')\<lparr>an_metrics := [(''rows'', Some 600)]\<rparr>],
      ai_schema_version = 1, ai_complete = True, ai_scan_bytes = 0, ai_traversal_limits = None\<rparr>"

definition tight_limits :: assessment_limits where
  "tight_limits = default_assessment_limits\<lparr>al_total_rows := 100\<rparr>"

text \<open>
  C15. With positive budgets the recommendation returns for every inventory, however its sources
  refer to each other, and the sources it selects stay below the budget of rows, cells, text
  and file bytes.
\<close>
theorem recommendation_within_budget:
  assumes "\<forall>name\<in>set total_names. 0 < total_limit limits name"
  shows "\<exists>sel. recommend_scope inventory limits = Inr sel \<and>
    (\<forall>name\<in>set total_names.
       sum_list (map (\<lambda>n. counted_metric n name) (selected_nodes inventory sel)) < total_limit limits name)"
proof -
  have "\<not> list_ex (\<lambda>name. total_limit limits name = 0) total_names" using assms by (auto simp: list_ex_iff)
  then obtain sel where sel: "recommend_scope inventory limits = Inr sel"
    by (simp add: recommend_scope_def Let_def)
  have "\<not> over_budget limits (selected_nodes inventory sel)"
  proof
    assume over: "over_budget limits (selected_nodes inventory sel)"
    then have "selected_nodes inventory sel = []"
      unfolding selected_nodes_eq [OF sel] by (rule final_reasons_props(2))
    with over assms show False by (auto simp: over_budget_empty)
  qed
  with sel show ?thesis by (auto simp: over_budget_def list_ex_iff not_le)
qed

theorem recommendation_within_budget_witness:
  "\<exists>sel. recommend_scope example_inventory tight_limits = Inr sel \<and>
    (\<forall>name\<in>set total_names.
       sum_list (map (\<lambda>n. counted_metric n name) (selected_nodes example_inventory sel)) < total_limit tight_limits name)"
  by (rule recommendation_within_budget) code_simp

text \<open>
  C16. A parser that receives the recommended scope processes a source only if nothing is wrong
  with it (depth, format, unknown or heavy) and its parent is processed too; a source
  that is not in the inventory is never processed.
\<close>
theorem scope_processes_closed_sources:
  assumes "recommend_scope inventory limits = Inr sel"
    and "make_policy (snapshot_of inventory sel) = Inr policy"
    and "distinct (map an_source_key (ai_nodes inventory))"
    and "is_included policy k" and "k \<noteq> ''root''"
  shows "\<exists>n. node_get (ai_nodes inventory) k = Some n \<and> own_reason limits n = None \<and>
    (node_get (ai_nodes inventory) (an_parent_key n) \<noteq> None \<longrightarrow> is_included policy (an_parent_key n))"
proof -
  let ?nodes = "ai_nodes inventory" and ?r = "final_reasons inventory limits"
  have lookup: "map_of (pp_decisions policy) j = map_option (decision_of ?nodes ?r) (node_get ?nodes j)" for j
  proof -
    have "get_by sd_source_key j (map (decision_of ?nodes ?r) ns)
        = map_option (decision_of ?nodes ?r) (get_by an_source_key j ns)" for ns
      by (induction ns) (auto simp: decision_of_def Let_def)
    then show ?thesis
      by (simp add: make_policy_decision [OF assms(2)] recommend_scope_Inr [OF assms(1)] rev_map node_get_def)
  qed
  have effective: "sd_effective (decision_of ?nodes ?r n) = included ?nodes ?r n" for n
    by (simp add: decision_of_def Let_def)
  from assms(4,5) obtain n where n: "node_get ?nodes k = Some n" "included ?nodes ?r n"
    by (auto simp: is_included_def lookup effective split: option.splits)
  have "own_reason limits n = None"
  proof (rule ccontr)
    assume "own_reason limits n \<noteq> None"
    then have "an_source_key n \<in> dom (map_of (own_reasons limits ?nodes))"
      using node_get_in [OF n(1)] by (auto simp: own_reasons_dom)
    then have "map_of ?r (an_source_key n) \<noteq> None" using final_reasons_props(1) by blast
    then show False using n(2) not_included_reason by blast
  qed
  moreover have "is_included policy (an_parent_key n)" if "node_get ?nodes (an_parent_key n) = Some p" for p
    using included_parent [OF n(2) that] that by (simp add: is_included_def lookup effective)
  ultimately show ?thesis using n(1) by auto
qed

definition example_selection :: scope_selection where
  "example_selection = (case recommend_scope example_inventory tight_limits of Inr s \<Rightarrow> s | _ \<Rightarrow> \<lparr>ss_decisions = [], ss_requires_review = True\<rparr>)"

definition example_policy :: processing_policy where
  "example_policy = (case make_policy (snapshot_of example_inventory example_selection) of Inr p \<Rightarrow> p
     | _ \<Rightarrow> \<lparr>pp_snapshot = snapshot_of example_inventory example_selection, pp_traversal = default_traversal_limits, pp_decisions = []\<rparr>)"

theorem scope_processes_closed_sources_witness:
  "is_included example_policy ''x'' \<and> \<not> is_included example_policy ''y'' \<and>
   (\<exists>n. node_get (ai_nodes example_inventory) ''x'' = Some n \<and> own_reason tight_limits n = None \<and>
    (node_get (ai_nodes example_inventory) (an_parent_key n) \<noteq> None \<longrightarrow> is_included example_policy (an_parent_key n)))"
proof -
  have yes: "is_included example_policy ''x''" by code_simp
  have no: "\<not> is_included example_policy ''y''" by code_simp
  have "recommend_scope example_inventory tight_limits = Inr example_selection"
    "make_policy (snapshot_of example_inventory example_selection) = Inr example_policy"
    "distinct (map an_source_key (ai_nodes example_inventory))" by code_simp+
  from scope_processes_closed_sources [OF this yes] yes no show ?thesis by simp
qed

text \<open>
  The depth of a source is the length of its chain of parents up to the uploaded file, and there
  is none exactly when no such chain exists: missing parents and cycles fail closed.
\<close>
theorem depth_is_chain_length:
  "inventory_node_depth nodes k = Some d \<longleftrightarrow> (\<exists>e. parent_chain nodes k e \<and> d = int e)"
proof
  assume "inventory_node_depth nodes k = Some d"
  from depth_sound [OF this [unfolded inventory_node_depth_def]]
  show "\<exists>e. parent_chain nodes k e \<and> d = int e" by simp
next
  assume "\<exists>e. parent_chain nodes k e \<and> d = int e"
  then obtain e where e: "parent_chain nodes k e" "d = int e" by blast
  from depth_complete [OF e(1), of "[]" 0] e(2)
  show "inventory_node_depth nodes k = Some d" by (simp add: inventory_node_depth_def)
qed

end
