(* ===== verification/Scope_Policy.thy ===== *)
theory Scope_Policy
  imports Attachment_Policy Json "HOL-Library.Option_ord"
begin

text \<open>
  The pure part of \<open>processing_scope.py\<close>: snapshots of a selection with their digest, the summary
  shown to users, the decisions of a refreshed inventory, and the check that prepared data
  holds no excluded source. \<open>dg\<close> is the SHA-256 of the canonical JSON of a selection.
\<close>

subsection \<open>Snapshots\<close>

record review_inventory = attachment_inventory +
  ri_parser_version :: string
  ri_assessor_version :: string
  ri_recommendations :: "source_decision list option"

abbreviation plain_inventory :: "review_inventory \<Rightarrow> attachment_inventory" where
  "plain_inventory \<equiv> attachment_inventory.truncate"

lemma plain_nodes [simp]: "ai_nodes (plain_inventory i) = ai_nodes i"
  by (simp add: attachment_inventory.truncate_def)

type_synonym hash_input = "string \<times> string \<times> traversal_limits \<times> (string \<times> bool) list"

record policy_snapshot =
  ps_schema_version :: int
  ps_source_file_hash :: string
  ps_parser_version :: string
  ps_assessor_version :: string
  ps_inventory :: review_inventory
  ps_policy :: assessment_limits
  ps_traversal :: traversal_limits
  ps_decisions :: "source_decision list"
  ps_selection_hash :: string
  ps_review :: "(string \<times> int \<times> string option) option"
  ps_chunk_counts :: "json option"

definition selection_hash ::
    "(hash_input \<Rightarrow> string) \<Rightarrow> string \<Rightarrow> string \<Rightarrow> traversal_limits \<Rightarrow> source_decision list \<Rightarrow> string" where
  "selection_hash dg source_hash parser_version traversal decisions =
     dg (source_hash, parser_version, traversal, sort (map (\<lambda>d. (sd_source_key d, sd_effective d)) decisions))"

definition automatic_snapshot ::
    "(hash_input \<Rightarrow> string) \<Rightarrow> review_inventory \<Rightarrow> assessment_limits \<Rightarrow> policy_snapshot result" where
  "automatic_snapshot dg inventory limits =
     bindr (recommend_scope (plain_inventory inventory) limits) (\<lambda>sel.
     bindr (inventory_traversal_limits (plain_inventory inventory)) (\<lambda>traversal.
       Inr \<lparr>ps_schema_version = 1, ps_source_file_hash = ai_source_file_hash inventory,
            ps_parser_version = ri_parser_version inventory, ps_assessor_version = ri_assessor_version inventory,
            ps_inventory = inventory\<lparr>ri_recommendations := Some (ss_decisions sel)\<rparr>, ps_policy = limits,
            ps_traversal = traversal, ps_decisions = ss_decisions sel,
            ps_selection_hash = selection_hash dg (ai_source_file_hash inventory) (ri_parser_version inventory) traversal (ss_decisions sel),
            ps_review = None, ps_chunk_counts = None\<rparr>))"

subsection \<open>Summaries\<close>

record scope_summary =
  sm_mode :: string
  sm_counts_version :: "int option"
  sm_generation_id :: "string option"
  sm_total :: "int option"
  sm_included :: "int option"
  sm_excluded :: int
  sm_unsupported :: "int option"
  sm_count_complete :: bool
  sm_selection_hash :: "string option"
  sm_recommended_excluded :: "int option"
  sm_chunk_counts :: "json option"

definition count_where :: "('a \<Rightarrow> bool) \<Rightarrow> 'a list \<Rightarrow> int" where
  "count_where P xs = int (length (filter P xs))"

definition decision_supported :: "attachment_node list \<Rightarrow> source_decision \<Rightarrow> bool" where
  "decision_supported nodes d =
     (case node_get nodes (sd_source_key d) of Some n \<Rightarrow> an_supported n | None \<Rightarrow> sd_reason d \<noteq> ''unsupported'')"

definition make_summary :: "policy_snapshot option \<Rightarrow> string option \<Rightarrow> scope_summary" where
  "make_summary snapshot generation_id =
     (case snapshot of
        None \<Rightarrow> \<lparr>sm_mode = ''legacy_all'', sm_counts_version = None, sm_generation_id = generation_id, sm_total = None,
                 sm_included = None, sm_excluded = 0, sm_unsupported = None, sm_count_complete = False,
                 sm_selection_hash = None, sm_recommended_excluded = None, sm_chunk_counts = None\<rparr>
      | Some s \<Rightarrow>
          let decisions = ps_decisions s;
              supported = decision_supported (ai_nodes (ps_inventory s));
              supported_decisions = filter supported decisions;
              excluded = count_where (\<lambda>d. \<not> sd_effective d) supported_decisions
          in \<lparr>sm_mode = (if excluded \<noteq> 0 then ''selected'' else ''all''), sm_counts_version = Some 2,
              sm_generation_id = generation_id, sm_total = Some (int (length supported_decisions)),
              sm_included = Some (count_where sd_effective supported_decisions), sm_excluded = excluded,
              sm_unsupported = Some (int (length decisions) - int (length supported_decisions)),
              sm_count_complete = ai_complete (ps_inventory s), sm_selection_hash = Some (ps_selection_hash s),
              sm_recommended_excluded = map_option (count_where (\<lambda>d. \<not> sd_effective d \<and> supported d))
                (ri_recommendations (ps_inventory s)),
              sm_chunk_counts = ps_chunk_counts s\<rparr>)"

definition normalize_scope_summary :: "scope_summary option \<Rightarrow> scope_summary option" where
  "normalize_scope_summary summary =
     (case summary of None \<Rightarrow> None
      | Some s \<Rightarrow>
          (case sm_total s of None \<Rightarrow> Some s
           | Some n \<Rightarrow>
               if 2 \<le> (case sm_counts_version s of None \<Rightarrow> 0 | Some v \<Rightarrow> v) then Some s
               else Some (s\<lparr>sm_counts_version := Some 2,
                 sm_total := Some (max 0 (n - (case sm_unsupported s of None \<Rightarrow> 0 | Some u \<Rightarrow> u)))\<rparr>)))"

text \<open>Every supported source is either included or excluded.\<close>

lemma summary_counts:
  assumes "make_summary (Some s) g = m"
  shows "sm_total m = map_option (\<lambda>i. i + sm_excluded m) (sm_included m)"
    and "sm_mode m = ''all'' \<longleftrightarrow> list_all sd_effective (filter (decision_supported (ai_nodes (ps_inventory s))) (ps_decisions s))"
proof -
  have "int (length xs) = count_where sd_effective xs + count_where (\<lambda>d. \<not> sd_effective d) xs" for xs
    using sum_length_filter_compl [of sd_effective xs] by (simp add: count_where_def)
  then show "sm_total m = map_option (\<lambda>i. i + sm_excluded m) (sm_included m)"
    unfolding assms [symmetric] by (simp add: make_summary_def Let_def)
  show "sm_mode m = ''all'' \<longleftrightarrow> list_all sd_effective (filter (decision_supported (ai_nodes (ps_inventory s))) (ps_decisions s))"
    unfolding assms [symmetric] by (auto simp: make_summary_def Let_def count_where_def filter_empty_conv list_all_iff)
qed

lemma normalize_idempotent:
  "normalize_scope_summary (normalize_scope_summary s) = normalize_scope_summary s"
  by (auto simp: normalize_scope_summary_def split: option.splits)

subsection \<open>Selections carried over\<close>

text \<open>\<open>eligible_existing_selection\<close>: the walk up to the root, with the keys seen on the way.\<close>

function eligible_from :: "attachment_node list \<Rightarrow> string list \<Rightarrow> string list \<Rightarrow> attachment_node option \<Rightarrow> bool" where
  "eligible_from nodes selected seen None = False"
| "eligible_from nodes selected seen (Some n) =
     (if an_source_key n \<notin> set selected \<or> an_source_key n \<in> set seen \<or> \<not> an_supported n \<or> \<not> an_children_complete n
         \<or> an_assessment n = ''unknown'' then False
      else if an_parent_key n = ''root'' then True
      else eligible_from nodes selected (an_source_key n # seen) (node_get nodes (an_parent_key n)))"
  by pat_completeness auto
termination
proof (relation "measure (\<lambda>(nodes, selected, seen, n). case n of None \<Rightarrow> 0 | Some _ \<Rightarrow> Suc (card (set selected - set seen)))")
  fix nodes selected seen and n :: attachment_node
  assume n: "\<not> (an_source_key n \<notin> set selected \<or> an_source_key n \<in> set seen \<or> \<not> an_supported n \<or> \<not> an_children_complete n
         \<or> an_assessment n = ''unknown'')"
  have "card (set selected - set (an_source_key n # seen)) < card (set selected - set seen)"
    by (rule psubset_card_mono) (use n in auto)
  then show "((nodes, selected, an_source_key n # seen, node_get nodes (an_parent_key n)), nodes, selected, seen, Some n)
      \<in> measure (\<lambda>(nodes, selected, seen, n). case n of None \<Rightarrow> 0 | Some _ \<Rightarrow> Suc (card (set selected - set seen)))"
    by (cases "node_get nodes (an_parent_key n)") auto
qed simp

definition eligible_existing_selection :: "attachment_node list \<Rightarrow> string list \<Rightarrow> string list" where
  "eligible_existing_selection nodes selected = filter (\<lambda>key. eligible_from nodes selected [] (node_get nodes key)) selected"

text \<open>
  A refreshed inventory: the choices of users are kept, unseen sources start excluded, then every
  decision is checked against its node and its ancestors. The walk to the ancestors has no
  guard against cycles, so it may not return.
\<close>

definition carried_over :: "source_decision list \<Rightarrow> source_decision \<Rightarrow> source_decision" where
  "carried_over old d =
     (case get_by sd_source_key (sd_source_key d) (rev old) of
        Some previous \<Rightarrow> if sd_origin previous = ''user'' then previous else d
      | None \<Rightarrow> d\<lparr>sd_selected := False, sd_effective := False, sd_reason := ''new_source''\<rparr>)"

definition effective_in :: "source_decision list \<Rightarrow> string \<Rightarrow> bool" where
  "effective_in ds key = (case get_by sd_source_key key (rev ds) of None \<Rightarrow> False | Some d \<Rightarrow> sd_effective d)"

partial_function (option) ancestors_effective :: "attachment_node list \<Rightarrow> source_decision list \<Rightarrow> string \<Rightarrow> bool option" where
  "ancestors_effective nodes ds parent =
     (case node_get nodes parent of None \<Rightarrow> Some True
      | Some p \<Rightarrow> Option.bind (ancestors_effective nodes ds (an_parent_key p)) (\<lambda>up. Some (effective_in ds parent \<and> up)))"

definition checked_node :: "attachment_node \<Rightarrow> source_decision \<Rightarrow> source_decision" where
  "checked_node n d =
     (let d1 = (if \<not> an_supported n \<or> an_assessment n = ''unknown'' \<or> \<not> an_children_complete n
                then d\<lparr>sd_selected := False, sd_effective := False\<rparr> else d)
      in if an_status n = ''skipped_depth'' then d1\<lparr>sd_reason := ''depth_limit''\<rparr> else d1)"

fun settle :: "attachment_node list \<Rightarrow> source_decision list \<Rightarrow> source_decision list \<Rightarrow> source_decision list result option" where
  "settle nodes ready [] = Some (Inr ready)"
| "settle nodes ready (d # rest) =
     (case node_get nodes (sd_source_key d) of None \<Rightarrow> Some (Inl KeyError)
      | Some n \<Rightarrow>
          let d1 = checked_node n d in
          Option.bind (ancestors_effective nodes (ready @ d1 # rest) (an_parent_key n)) (\<lambda>up.
            settle nodes (ready @ [if up then d1 else d1\<lparr>sd_effective := False\<rparr>]) rest))"

definition refreshed_decisions ::
    "attachment_node list \<Rightarrow> source_decision list \<Rightarrow> source_decision list \<Rightarrow> source_decision list result option" where
  "refreshed_decisions nodes old decisions = settle nodes [] (map (carried_over old) decisions)"

subsection \<open>Prepared data\<close>

record prepared_source =
  pr_source_id :: string
  pr_parent :: "string option"
  pr_key :: "string option"
  pr_reason :: "string option"

definition source_or_root :: "string option \<Rightarrow> string" where
  "source_or_root s = (case s of None \<Rightarrow> ''root'' | Some i \<Rightarrow> if i = [] then ''root'' else i)"

definition included_ids :: "string list \<Rightarrow> prepared_source list \<Rightarrow> string list" where
  "included_ids allowed sources =
     fold (\<lambda>s ids. if (case pr_key s of None \<Rightarrow> False | Some k \<Rightarrow> k \<in> set allowed) then pr_source_id s # ids
        else if pr_reason s = Some ''inline_body'' \<and> (case pr_parent s of None \<Rightarrow> False | Some p \<Rightarrow> p \<in> set ids)
        then pr_source_id s # ids else ids) sources [''root'']"

definition assert_prepared_scope ::
    "policy_snapshot option \<Rightarrow> prepared_source list \<Rightarrow> string option list \<Rightarrow> string option list \<Rightarrow> string list \<Rightarrow> unit result" where
  "assert_prepared_scope snapshot sources chunks concepts table_source_ids =
     (case snapshot of None \<Rightarrow> Inr ()
      | Some s \<Rightarrow>
          let allowed = map sd_source_key (filter sd_effective (ps_decisions s));
              ids = included_ids allowed sources;
              content = map source_or_root chunks @ map source_or_root concepts @ table_source_ids
          in if list_ex (\<lambda>i. i \<notin> set ids) content then Inl (ProcessingScopeConflict ''processing_scope_integrity'') else Inr ())"

subsection \<open>Closed selections\<close>

text \<open>The order of an inventory: every node comes after its parent, and none is called root.\<close>

fun parents_first :: "string list \<Rightarrow> attachment_node list \<Rightarrow> bool" where
  "parents_first seen [] \<longleftrightarrow> True"
| "parents_first seen (n # ns) \<longleftrightarrow> an_source_key n \<noteq> ''root'' \<and> an_source_key n \<notin> set seen \<and>
     (an_parent_key n = ''root'' \<or> an_parent_key n \<in> set seen) \<and> parents_first (an_source_key n # seen) ns"

definition usable :: "attachment_node \<Rightarrow> bool" where
  "usable n \<longleftrightarrow> an_supported n \<and> an_children_complete n \<and> an_assessment n \<noteq> ''unknown''"

definition closed_selection :: "attachment_node list \<Rightarrow> source_decision list \<Rightarrow> bool" where
  "closed_selection nodes ds \<longleftrightarrow> list_all (\<lambda>d. sd_effective d \<longrightarrow>
     list_ex (\<lambda>n. an_source_key n = sd_source_key d \<and> usable n \<and>
       (an_parent_key n = ''root'' \<or> list_ex (\<lambda>p. sd_source_key p = an_parent_key n \<and> sd_effective p) ds)) nodes) ds"

lemma closed_selectionI:
  assumes "\<And>d. d \<in> set ds \<Longrightarrow> sd_effective d \<Longrightarrow> \<exists>n\<in>set nodes. an_source_key n = sd_source_key d \<and> usable n \<and>
    (an_parent_key n = ''root'' \<or> (\<exists>p\<in>set ds. sd_source_key p = an_parent_key n \<and> sd_effective p))"
  shows "closed_selection nodes ds"
  unfolding closed_selection_def list_all_iff list_ex_iff using assms by blast

lemma parents_first_keys:
  "parents_first seen ns \<Longrightarrow> distinct (map an_source_key ns) \<and> ''root'' \<notin> an_source_key ` set ns \<and>
   set (map an_source_key ns) \<inter> set seen = {}"
proof (induction ns arbitrary: seen)
  case (Cons n ns)
  from Cons.IH [of "an_source_key n # seen"] Cons.prems show ?case by auto
qed simp

lemma unique_key_rev: "unique_key key (rev xs) \<longleftrightarrow> distinct (map key xs)"
  by (simp add: unique_key_def rev_map [symmetric])

lemma parents_first_distinct: "parents_first [] ns \<Longrightarrow> distinct (map an_source_key ns)"
  by (drule parents_first_keys) simp

lemma parents_first_parent:
  "parents_first seen ns \<Longrightarrow> n \<in> set ns \<Longrightarrow> an_parent_key n = ''root'' \<or> an_parent_key n \<in> set seen \<union> an_source_key ` set ns"
proof (induction ns arbitrary: seen)
  case (Cons m ns)
  from Cons.IH [of "an_source_key m # seen"] Cons.prems show ?case by auto
qed simp

lemma parents_first_append:
  "parents_first seen (xs @ ys) \<longleftrightarrow> parents_first seen xs \<and> parents_first (rev (map an_source_key xs) @ seen) ys"
  by (induction xs arbitrary: seen) auto

text \<open>The recommendation is closed.\<close>

lemma recommend_closed:
  assumes "recommend_scope inventory limits = Inr sel" and ord: "parents_first [] (ai_nodes inventory)"
  shows "closed_selection (ai_nodes inventory) (ss_decisions sel)"
    and "map sd_source_key (ss_decisions sel) = map an_source_key (ai_nodes inventory)"
proof -
  let ?nodes = "ai_nodes inventory" and ?r = "final_reasons inventory limits"
  have ds: "ss_decisions sel = map (decision_of ?nodes ?r) ?nodes" by (rule recommend_scope_Inr [OF assms(1)])
  have eff: "sd_effective (decision_of ?nodes ?r n) = included ?nodes ?r n"
    and key: "sd_source_key (decision_of ?nodes ?r n) = an_source_key n" for n
    by (simp_all add: decision_of_def Let_def)
  show "map sd_source_key (ss_decisions sel) = map an_source_key ?nodes" by (simp add: ds key)
  show "closed_selection ?nodes (ss_decisions sel)"
  proof (rule closed_selectionI)
    fix d assume "d \<in> set (ss_decisions sel)" and e: "sd_effective d"
    then obtain n where n: "n \<in> set ?nodes" and d: "d = decision_of ?nodes ?r n" by (auto simp: ds)
    have inc: "included ?nodes ?r n" using e by (simp add: d eff)
    have "map_of ?r (an_source_key n) = None" using inc not_included_reason by blast
    then have "an_source_key n \<notin> dom (map_of (own_reasons limits ?nodes))"
      using subsetD [OF final_reasons_props(1) [of limits inventory]] by blast
    then have "own_reason limits n = None" using n unfolding own_reasons_dom by blast
    then have u: "usable n" by (auto simp: own_reason_def usable_def split: if_split_asm)
    have "\<exists>p\<in>set (ss_decisions sel). sd_source_key p = an_parent_key n \<and> sd_effective p" if "an_parent_key n \<noteq> ''root''"
    proof -
      have "an_parent_key n \<in> an_source_key ` set ?nodes" using parents_first_parent [OF ord n] that by auto
      then obtain p where p: "node_get ?nodes (an_parent_key n) = Some p" using node_get_None by fastforce
      have "included ?nodes ?r p" by (rule included_parent [OF inc p])
      with node_get_in [OF p] show ?thesis by (force simp: ds eff key)
    qed
    with n u show "\<exists>n\<in>set ?nodes. an_source_key n = sd_source_key d \<and> usable n \<and>
        (an_parent_key n = ''root'' \<or> (\<exists>p\<in>set (ss_decisions sel). sd_source_key p = an_parent_key n \<and> sd_effective p))"
      by (auto simp: d key)
  qed
qed

text \<open>With parents first the walks of a refresh end.\<close>

lemma ancestors_total:
  assumes "parents_first [] (pre @ ns)"
  shows "k = ''root'' \<or> k \<in> an_source_key ` set pre \<Longrightarrow>
    \<exists>up. ancestors_effective (pre @ ns) ds k = Some up \<and> (up \<longrightarrow> k = ''root'' \<or> effective_in ds k)"
  using assms
proof (induction pre arbitrary: k ns rule: rev_induct)
  case Nil
  then have "node_get ns ''root'' = None" using parents_first_keys [of "[]" ns] by (simp add: node_get_None)
  with Nil show ?case by (subst ancestors_effective.simps) auto
next
  case (snoc n pre)
  let ?all = "(pre @ [n]) @ ns"
  have "node_get ?all ''root'' = None" using parents_first_keys [OF snoc.prems(2)] by (simp add: node_get_None)
  then have root: "ancestors_effective ?all ds ''root'' = Some True" by (subst ancestors_effective.simps) simp
  have self: "node_get ?all (an_source_key n) = Some n"
    by (rule node_get_self) (use parents_first_distinct [OF snoc.prems(2)] in auto)
  have earlier: "\<exists>up. ancestors_effective ?all ds k = Some up \<and> (up \<longrightarrow> k = ''root'' \<or> effective_in ds k)"
    if "k = ''root'' \<or> k \<in> an_source_key ` set pre" for k
    using snoc.IH [OF that, of "n # ns"] snoc.prems(2) by simp
  show ?case
  proof (cases "k = an_source_key n")
    case True
    have "an_parent_key n = ''root'' \<or> an_parent_key n \<in> an_source_key ` set pre"
      using snoc.prems(2) by (auto simp: parents_first_append)
    from earlier [OF this] obtain up where "ancestors_effective ?all ds (an_parent_key n) = Some up" by blast
    with self show ?thesis unfolding True by (subst (1) ancestors_effective.simps) simp
  next
    case False
    then show ?thesis using snoc.prems(1) earlier by auto
  qed
qed

lemma checked_node_simps [simp]:
  "sd_source_key (checked_node n d) = sd_source_key d" "sd_effective (checked_node n d) \<Longrightarrow> usable n"
  by (auto simp: checked_node_def usable_def Let_def split: if_split_asm)

lemma settle_closed:
  assumes ord: "parents_first [] (pre @ ns)" and "closed_selection (pre @ ns) ready"
    and "map sd_source_key ready = map an_source_key pre" and "map sd_source_key rest = map an_source_key ns"
  shows "\<exists>out. settle (pre @ ns) ready rest = Some (Inr out) \<and> closed_selection (pre @ ns) out \<and>
    map sd_source_key out = map an_source_key (pre @ ns)"
  using assms
proof (induction ns arbitrary: pre ready rest)
  case Nil
  then show ?case by simp
next
  case (Cons n ns)
  let ?all = "pre @ n # ns"
  from Cons.prems(4) obtain d ds where rest: "rest = d # ds" and key: "sd_source_key d = an_source_key n"
    and keys: "map sd_source_key ds = map an_source_key ns" by (cases rest) auto
  have self: "node_get ?all (an_source_key n) = Some n"
    by (rule node_get_self) (use parents_first_distinct [OF Cons.prems(1)] in auto)
  let ?d1 = "checked_node n d"
  have par: "an_parent_key n = ''root'' \<or> an_parent_key n \<in> an_source_key ` set pre"
    using Cons.prems(1) by (auto simp: parents_first_append)
  from ancestors_total [of pre "n # ns", OF Cons.prems(1) par] obtain up
    where up: "ancestors_effective ?all (ready @ ?d1 # ds) (an_parent_key n) = Some up"
      and eff: "up \<Longrightarrow> an_parent_key n = ''root'' \<or> effective_in (ready @ ?d1 # ds) (an_parent_key n)" by blast
  let ?d2 = "if up then ?d1 else ?d1\<lparr>sd_effective := False\<rparr>"
  have key2: "sd_source_key ?d2 = an_source_key n" by (simp add: key)
  have dist: "distinct (map sd_source_key (ready @ ?d1 # ds))"
    using parents_first_distinct [OF Cons.prems(1)] Cons.prems(3) keys key by simp
  have parent: "\<exists>p\<in>set ready. sd_source_key p = an_parent_key n \<and> sd_effective p"
    if "up" and "an_parent_key n \<noteq> ''root''"
  proof -
    have k: "an_parent_key n \<in> sd_source_key ` set ready"
      using par that(2) Cons.prems(3) by (metis list.set_map)
    then obtain p where p: "p \<in> set ready" "sd_source_key p = an_parent_key n" by auto
    have "get_by sd_source_key (an_parent_key n) (rev (ready @ ?d1 # ds)) = Some p"
      unfolding p(2) [symmetric]
      by (rule get_by_self) (use dist p(1) in \<open>simp_all only: unique_key_rev set_rev set_append Un_iff simp_thms\<close>)
    with eff [OF that(1)] that(2) p show ?thesis by (auto simp: effective_in_def)
  qed
  have closed: "closed_selection ?all (ready @ [?d2])"
  proof (rule closed_selectionI)
    fix e assume e: "e \<in> set (ready @ [?d2])" "sd_effective e"
    show "\<exists>m\<in>set ?all. an_source_key m = sd_source_key e \<and> usable m \<and>
      (an_parent_key m = ''root'' \<or> (\<exists>p\<in>set (ready @ [?d2]). sd_source_key p = an_parent_key m \<and> sd_effective p))"
    proof (cases "e \<in> set ready")
      case True
      with Cons.prems(2) e(2) show ?thesis
        by (auto simp: closed_selection_def list_all_iff list_ex_iff)
    next
      case False
      then have e2: "e = ?d2" using e(1) by simp
      then have upT: "up" and "usable n" using e(2) by (auto split: if_split_asm)
      with parent show ?thesis by (intro bexI [of _ n]) (auto simp: e2 key)
    qed
  qed
  have "\<exists>out. settle ((pre @ [n]) @ ns) (ready @ [?d2]) ds = Some (Inr out) \<and> closed_selection ((pre @ [n]) @ ns) out \<and>
      map sd_source_key out = map an_source_key ((pre @ [n]) @ ns)"
    by (rule Cons.IH) (use Cons.prems(1,3) closed keys key in auto)
  then show ?case by (simp add: rest key self up Let_def)
qed

lemma carried_over_key [simp]: "sd_source_key (carried_over old d) = sd_source_key d"
  by (auto simp: carried_over_def split: option.splits dest: get_by_key)

lemma refreshed_closed:
  assumes "parents_first [] nodes" and "map sd_source_key decisions = map an_source_key nodes"
  shows "\<exists>out. refreshed_decisions nodes old decisions = Some (Inr out) \<and> closed_selection nodes out \<and>
    map sd_source_key out = map an_source_key nodes"
  using settle_closed [of "[]" nodes "[]" "map (carried_over old) decisions"] assms
  by (simp add: refreshed_decisions_def closed_selection_def comp_def)

end
