(* ===== verification/Scope_Review.thy ===== *)
theory Scope_Review
  imports Admission Scope_Policy Edit_Lease
begin

text \<open>
  The review of a document's attachments: its draft, the refreshed and the user's selection, and its
  validation (\<open>processing_scope.py\<close>, the transactions of \<open>confirm_processing_scope\<close> in
  \<open>processing_admission.py\<close>), and the editor's lease of \<open>processing_scope_edit_lock.py\<close>.
  Parsing and the search for duplicates run between the transactions and are not modelled; what
  they decide is which transaction comes next.
\<close>

subsection \<open>Rows\<close>

record review =
  rv_doc_id :: string
  rv_id :: string
  rv_revision :: int
  rv_state :: string
  rv_source_file_hash :: string
  rv_parser_version :: string
  rv_assessor_version :: string
  rv_policy :: assessment_limits
  rv_inventory :: review_inventory
  rv_selection :: "source_decision list"
  rv_selection_hash :: string
  rv_summary :: "scope_summary option"
  rv_base_generation_id :: "string option"
  rv_generation_id :: "string option"
  rv_request_id :: "string option"
  rv_validation_token :: "string option"
  rv_validation_started_at :: "time option"
  rv_similarity :: "json option"
  rv_created_by :: "string option"
  rv_confirmed_by :: "string option"

record scope_change =
  sc_id :: string
  sc_doc_id :: string
  sc_request_id :: "string option"
  sc_state :: string
  sc_plan :: json

record scope_lock =
  sl_doc_id :: string
  sl_owner_id :: string
  sl_owner_name :: string
  sl_token_hash :: string
  sl_expires_at :: time
  sl_idle_expires_at :: time
  sl_activity :: int

record scope_db = doc_db +
  reviews :: "review list"
  scope_changes :: "scope_change list"
  scope_locks :: "scope_lock list"

definition put_review :: "review \<Rightarrow> scope_db \<Rightarrow> scope_db" where
  "put_review row db = db\<lparr>reviews := put_by rv_doc_id row (reviews db)\<rparr>"

definition review_of :: "string \<Rightarrow> scope_db \<Rightarrow> review option" where
  "review_of doc_id db = get_by rv_doc_id doc_id (reviews db)"

abbreviation conflict :: "'a result" where
  "conflict \<equiv> Inl (ProcessingScopeConflict ''processing_scope_conflict'')"

definition busy_statuses :: "string list" where
  "busy_statuses = [''uploaded'', ''queued'', ''processing'', ''splitting'', ''indexing'']"

definition document_status :: "string \<Rightarrow> scope_db \<Rightarrow> string" where
  "document_status doc_id db = (case get_by dc_id doc_id (documents db) of None \<Rightarrow> [] | Some d \<Rightarrow> dc_status d)"

definition active_generation :: "string \<Rightarrow> scope_db \<Rightarrow> string option" where
  "active_generation doc_id db = (case get_by gs_doc_id doc_id (gen_states db) of None \<Rightarrow> None | Some s \<Rightarrow> gs_active s)"

definition candidate_generation :: "string \<Rightarrow> scope_db \<Rightarrow> string option" where
  "candidate_generation doc_id db = (case get_by gs_doc_id doc_id (gen_states db) of None \<Rightarrow> None | Some s \<Rightarrow> gs_candidate s)"

subsection \<open>Drafts\<close>

definition snapshot_from_review :: "review \<Rightarrow> policy_snapshot result" where
  "snapshot_from_review r =
     bindr (inventory_traversal_limits (plain_inventory (rv_inventory r))) (\<lambda>traversal.
       Inr \<lparr>ps_schema_version = 1, ps_source_file_hash = rv_source_file_hash r, ps_parser_version = rv_parser_version r,
            ps_assessor_version = rv_assessor_version r, ps_inventory = rv_inventory r, ps_policy = rv_policy r,
            ps_traversal = traversal, ps_decisions = rv_selection r, ps_selection_hash = rv_selection_hash r,
            ps_review = Some (rv_id r, rv_revision r, rv_confirmed_by r), ps_chunk_counts = None\<rparr>)"

definition draft_of :: "string \<Rightarrow> string \<Rightarrow> string option \<Rightarrow> string option \<Rightarrow> policy_snapshot \<Rightarrow> review" where
  "draft_of doc_id new_id base actor scope =
     \<lparr>rv_doc_id = doc_id, rv_id = new_id, rv_revision = 1, rv_state = ''draft'', rv_source_file_hash = ps_source_file_hash scope,
      rv_parser_version = ps_parser_version scope, rv_assessor_version = ps_assessor_version scope, rv_policy = ps_policy scope,
      rv_inventory = ps_inventory scope, rv_selection = ps_decisions scope, rv_selection_hash = ps_selection_hash scope,
      rv_summary = Some (make_summary (Some scope) None), rv_base_generation_id = base, rv_generation_id = None,
      rv_request_id = None, rv_validation_token = None, rv_validation_started_at = None, rv_similarity = None,
      rv_created_by = actor, rv_confirmed_by = None\<rparr>"

definition create_review ::
    "(hash_input \<Rightarrow> string) \<Rightarrow> string \<Rightarrow> string \<Rightarrow> review_inventory \<Rightarrow> string option \<Rightarrow> string option \<Rightarrow> assessment_limits option
     \<Rightarrow> scope_db \<Rightarrow> (review \<times> scope_db) result" where
  "create_review dg new_id doc_id inventory base actor limits db =
     (if \<not> lock_document_write doc_id False db then conflict
      else if document_status doc_id db \<in> set busy_statuses then conflict
      else if \<not> hex_string 64 (ai_source_file_hash inventory) then conflict
      else let existing = review_of doc_id db in
        if (case existing of None \<Rightarrow> False | Some r \<Rightarrow> rv_state r \<notin> set [''published'', ''canceled'']) then conflict
        else if candidate_generation doc_id db \<noteq> None then conflict
        else if active_generation doc_id db \<noteq> base then conflict
        else bindr (automatic_snapshot dg inventory (case limits of None \<Rightarrow> default_assessment_limits | Some l \<Rightarrow> l)) (\<lambda>scope.
          let row = draft_of doc_id new_id base actor scope
          in Inr (row, db\<lparr>reviews := delete_where (\<lambda>r. rv_doc_id r = doc_id) (reviews db) @ [row]\<rparr>)))"

definition locked_review :: "string \<Rightarrow> string \<Rightarrow> int option \<Rightarrow> scope_db \<Rightarrow> review result" where
  "locked_review doc_id review_id revision db =
     (if \<not> lock_document_write doc_id False db then conflict
      else case review_of doc_id db of None \<Rightarrow> conflict
      | Some r \<Rightarrow> if rv_id r \<noteq> review_id \<or> (case revision of None \<Rightarrow> False | Some v \<Rightarrow> rv_revision r \<noteq> v) then conflict else Inr r)"

text \<open>Each selected source, in the order the set yields them.\<close>

definition check_source :: "attachment_node list \<Rightarrow> traversal_limits \<Rightarrow> string list \<Rightarrow> string \<Rightarrow> unit result" where
  "check_source nodes traversal selected key =
     (case node_get nodes key of None \<Rightarrow> Inl KeyError
      | Some n \<Rightarrow>
          (case inventory_node_depth nodes key of None \<Rightarrow> conflict
           | Some depth \<Rightarrow>
               if an_status n = ''skipped_depth'' \<or> tl_max_depth traversal < depth
               then Inl (ProcessingScopeConflict ''attachment_depth_limit'')
               else if \<not> an_supported n \<or> \<not> an_children_complete n \<or> an_assessment n = ''unknown''
               then Inl (ProcessingScopeConflict ''processing_scope_changed'')
               else if an_parent_key n \<noteq> ''root'' \<and> an_parent_key n \<notin> set selected then conflict
               else Inr ()))"

fun check_sources :: "attachment_node list \<Rightarrow> traversal_limits \<Rightarrow> string list \<Rightarrow> string list \<Rightarrow> unit result" where
  "check_sources nodes traversal selected [] = Inr ()"
| "check_sources nodes traversal selected (key # keys) =
     bindr (check_source nodes traversal selected key) (\<lambda>_. check_sources nodes traversal selected keys)"

definition user_decision :: "string list \<Rightarrow> attachment_node \<Rightarrow> source_decision" where
  "user_decision selected n =
     (let chosen = an_source_key n \<in> set selected in
      \<lparr>sd_source_key = an_source_key n, sd_selected = chosen, sd_effective = chosen,
       sd_reason = (if \<not> an_supported n then ''unsupported''
          else if \<not> chosen \<and> an_parent_key n \<noteq> ''root'' \<and> an_parent_key n \<notin> set selected then ''ancestor_excluded''
          else if chosen then ''small'' else ''user_excluded''),
       sd_origin = ''user'', sd_source_id = an_source_id n\<rparr>)"

text \<open>The end of both updates of a draft: the digest, the next revision and the summary.\<close>

definition redraft ::
    "(hash_input \<Rightarrow> string) \<Rightarrow> review \<Rightarrow> source_decision list \<Rightarrow> traversal_limits \<Rightarrow> review result" where
  "redraft dg row decisions traversal =
     (let row1 = row\<lparr>rv_selection := decisions,
            rv_selection_hash := selection_hash dg (rv_source_file_hash row) (rv_parser_version row) traversal decisions,
            rv_revision := rv_revision row + 1, rv_state := ''draft'', rv_similarity := None\<rparr>
      in bindr (snapshot_from_review row1) (\<lambda>s. Inr (row1\<lparr>rv_summary := Some (make_summary (Some s) None)\<rparr>)))"

definition save_review_selection ::
    "(hash_input \<Rightarrow> string) \<Rightarrow> string \<Rightarrow> string \<Rightarrow> int \<Rightarrow> string list \<Rightarrow> string option \<Rightarrow> scope_db \<Rightarrow> (review \<times> scope_db) result" where
  "save_review_selection dg doc_id review_id expected selected actor db =
     bindr (locked_review doc_id review_id (Some expected) db) (\<lambda>row.
       if rv_state row \<notin> set [''draft'', ''awaiting_similar''] then conflict
       else bindr (inventory_from_dict (plain_inventory (rv_inventory row))) (\<lambda>_.
         let nodes = ai_nodes (rv_inventory row) in
         if \<not> set selected \<subseteq> set (map an_source_key nodes) then conflict
         else bindr (inventory_traversal_limits (plain_inventory (rv_inventory row))) (\<lambda>traversal.
           bindr (check_sources nodes traversal selected selected) (\<lambda>_.
           bindr (redraft dg (row\<lparr>rv_confirmed_by := actor\<rparr>) (map (user_decision selected) nodes) traversal) (\<lambda>row'.
             Inr (row', put_review row' db))))))"

definition refresh_review_inventory ::
    "(hash_input \<Rightarrow> string) \<Rightarrow> string \<Rightarrow> string \<Rightarrow> int \<Rightarrow> review_inventory \<Rightarrow> scope_db \<Rightarrow> (review \<times> scope_db) result option" where
  "refresh_review_inventory dg doc_id review_id revision inventory db =
     (case locked_review doc_id review_id (Some revision) db of Inl e \<Rightarrow> Some (Inl e)
      | Inr row \<Rightarrow>
          if rv_state row \<notin> set [''draft'', ''awaiting_similar''] \<or> rv_source_file_hash row \<noteq> ai_source_file_hash inventory
          then Some conflict
          else case (inventory_traversal_limits (plain_inventory (rv_inventory row)),
                     inventory_traversal_limits (plain_inventory inventory)) of
            (Inr old, Inr traversal) \<Rightarrow>
              if old \<noteq> traversal then Some conflict
              else (case recommend_scope (plain_inventory inventory) (rv_policy row) of
                  Inl e \<Rightarrow> Some (Inl e)
                | Inr sel \<Rightarrow>
                    Option.bind (refreshed_decisions (ai_nodes inventory) (rv_selection row) (ss_decisions sel)) (\<lambda>settled.
                      Some (bindr settled (\<lambda>decisions.
                        bindr (redraft dg (row\<lparr>rv_inventory := inventory\<lparr>ri_recommendations := Some (ss_decisions sel)\<rparr>\<rparr>)
                                decisions traversal) (\<lambda>row'.
                          Inr (row', put_review row' db))))))
          | (Inl e, _) \<Rightarrow> Some (Inl e) | (_, Inl e) \<Rightarrow> Some (Inl e))"

record review_view =
  vw_id :: string
  vw_revision :: int
  vw_state :: string
  vw_requires_action :: bool
  vw_summary :: scope_summary

definition review_summary :: "review \<Rightarrow> review_view result" where
  "review_summary r =
     bindr (case normalize_scope_summary (rv_summary r) of Some s \<Rightarrow> Inr s
        | None \<Rightarrow> bindr (snapshot_from_review r) (\<lambda>s. Inr (make_summary (Some s) None))) (\<lambda>summary.
       Inr \<lparr>vw_id = rv_id r, vw_revision = rv_revision r, vw_state = rv_state r,
            vw_requires_action = (rv_state r \<in> set [''draft'', ''awaiting_similar'']), vw_summary = summary\<rparr>)"

definition scope_for_generation :: "string \<Rightarrow> string option \<Rightarrow> scope_db \<Rightarrow> json option result" where
  "scope_for_generation doc_id generation_id db =
     (case generation_id of None \<Rightarrow> Inr None
      | Some g \<Rightarrow> if g = [] then Inr None else
          (case find (\<lambda>x. gn_id x = g \<and> gn_doc_id x = doc_id) (generations db) of None \<Rightarrow> conflict
           | Some gen \<Rightarrow> (case gn_scope gen of None \<Rightarrow> Inr None
               | Some scope \<Rightarrow> if json_get ''schema_version'' scope \<noteq> Some (JInt 1) then conflict else Inr (Some scope))))"

definition has_stored_processing_scope :: "string \<Rightarrow> scope_db \<Rightarrow> bool result" where
  "has_stored_processing_scope doc_id db =
     (if review_of doc_id db \<noteq> None then Inr True
      else case get_by gs_doc_id doc_id (gen_states db) of None \<Rightarrow> Inr False
      | Some s \<Rightarrow> bindr (scope_for_generation doc_id (gs_active s) db) (\<lambda>a.
          if a \<noteq> None then Inr True
          else bindr (scope_for_generation doc_id (gs_candidate s) db) (\<lambda>c. Inr (c \<noteq> None))))"

subsection \<open>The editor's lease\<close>

text \<open>The service reads the clock at every use: \<open>clock i\<close> is the \<open>i\<close>-th reading.\<close>

type_synonym readings = "nat \<Rightarrow> time"

definition later_readings :: "nat \<Rightarrow> readings \<Rightarrow> readings" where
  "later_readings n clock i = clock (i + n)"

definition operation_states :: "string list" where
  "operation_states = [''admitted'', ''queued'', ''processing'', ''copying'', ''ready'']"

definition operation_active :: "string \<Rightarrow> scope_db \<Rightarrow> bool" where
  "operation_active doc_id db \<longleftrightarrow>
     candidate_generation doc_id db \<noteq> None \<or>
     (case review_of doc_id db of None \<Rightarrow> False | Some r \<Rightarrow> rv_state r \<in> set [''validating'', ''submitted'']) \<or>
     document_status doc_id db \<in> set busy_statuses \<or>
     list_ex (\<lambda>c. sc_doc_id c = doc_id \<and> sc_state c \<in> set operation_states) (scope_changes db)"

definition scope_live :: "readings \<Rightarrow> scope_lock option \<Rightarrow> bool" where
  "scope_live clock row = (case row of None \<Rightarrow> False | Some r \<Rightarrow> clock 0 < sl_expires_at r \<and> clock 1 < sl_idle_expires_at r)"

definition scope_matches :: "(string \<Rightarrow> string) \<Rightarrow> scope_lock option \<Rightarrow> string \<Rightarrow> string option \<Rightarrow> bool" where
  "scope_matches sha256 row owner_id token =
     (case (row, token) of (Some r, Some t) \<Rightarrow> t \<noteq> [] \<and> sl_owner_id r = owner_id \<and> sl_token_hash r = sha256 t | _ \<Rightarrow> False)"

datatype lock_view = Applying | Available | Editing string time time time int

definition scope_lock_status :: "readings \<Rightarrow> string \<Rightarrow> scope_db \<Rightarrow> lock_view" where
  "scope_lock_status clock doc_id db =
     (if operation_active doc_id db then Applying
      else let row = get_by sl_doc_id doc_id (scope_locks db) in
        if \<not> scope_live clock row then Available
        else (case row of None \<Rightarrow> Available
          | Some r \<Rightarrow> Editing (sl_owner_name r) (sl_expires_at r) (clock 2) (sl_idle_expires_at r)
              (max 0 ((sl_idle_expires_at r - clock 3) div seconds 1))))"

definition put_lock :: "scope_lock \<Rightarrow> scope_db \<Rightarrow> scope_db" where
  "put_lock row db = db\<lparr>scope_locks := put_by sl_doc_id row (scope_locks db)\<rparr>"

text \<open>\<open>recover\<close> is the recovery of an expired validation (\<open>recover_review_admission\<close>, below).\<close>

definition acquire_scope_lock ::
    "(string \<Rightarrow> string) \<Rightarrow> (scope_db \<Rightarrow> scope_db result) \<Rightarrow> readings \<Rightarrow> string \<Rightarrow> string \<Rightarrow> string \<Rightarrow> string option \<Rightarrow> scope_db
     \<Rightarrow> (lock_view \<times> scope_db) result" where
  "acquire_scope_lock sha256 recover clock doc_id owner_id owner_name token db =
     (if \<not> lock_document_write doc_id False db then conflict
      else bindr (recover db) (\<lambda>db1.
        if operation_active doc_id db1 then Inl (ProcessingScopeConflict ''scope_change_in_progress'')
        else case token of None \<Rightarrow> Inl (ProcessingScopeConflict ''scope_edit_lock_lost'')
        | Some t \<Rightarrow>
          if \<not> hex_string 64 t then Inl (ProcessingScopeConflict ''scope_edit_lock_lost'')
          else let row = get_by sl_doc_id doc_id (scope_locks db1) in
            if scope_live clock row
            then (if \<not> scope_matches sha256 row owner_id token then Inl (ProcessingScopeConflict ''scope_edit_locked'')
                  else Inr (scope_lock_status (later_readings 2 clock) doc_id db1, db1))
            else
              let (expires, idle) = compute_deadlines (clock 2) (clock 3) True;
                  new = \<lparr>sl_doc_id = doc_id, sl_owner_id = owner_id, sl_owner_name = owner_name, sl_token_hash = sha256 t,
                         sl_expires_at = expires, sl_idle_expires_at = idle, sl_activity = 0\<rparr>;
                  db2 = (if row = None then db1\<lparr>scope_locks := scope_locks db1 @ [new]\<rparr> else put_lock new db1)
              in Inr (scope_lock_status (later_readings 4 clock) doc_id db2, db2)))"

definition require_scope_lock ::
    "(string \<Rightarrow> string) \<Rightarrow> readings \<Rightarrow> string \<Rightarrow> string \<Rightarrow> string option \<Rightarrow> bool \<Rightarrow> scope_db \<Rightarrow> (scope_lock \<times> scope_db) result" where
  "require_scope_lock sha256 clock doc_id owner_id token record_activity db =
     (if \<not> lock_document_write doc_id False db then conflict
      else if operation_active doc_id db then Inl (ProcessingScopeConflict ''scope_change_in_progress'')
      else case get_by sl_doc_id doc_id (scope_locks db) of
        None \<Rightarrow> Inl (ProcessingScopeConflict ''scope_edit_lock_lost'')
      | Some r \<Rightarrow>
          if \<not> scope_matches sha256 (Some r) owner_id token \<or> \<not> scope_live clock (Some r)
          then Inl (ProcessingScopeConflict ''scope_edit_lock_lost'')
          else let (expires, idle) = compute_deadlines (clock 2) (sl_idle_expires_at r) record_activity;
                   r' = r\<lparr>sl_expires_at := expires, sl_idle_expires_at := idle\<rparr>
               in Inr (r', put_lock r' db))"

definition renew_scope_lock ::
    "(string \<Rightarrow> string) \<Rightarrow> readings \<Rightarrow> string \<Rightarrow> string \<Rightarrow> string option \<Rightarrow> int \<Rightarrow> scope_db \<Rightarrow> (lock_view \<times> scope_db) result" where
  "renew_scope_lock sha256 clock doc_id owner_id token activity db =
     bindr (require_scope_lock sha256 clock doc_id owner_id token False db) (\<lambda>(r, db1).
       if sl_activity r < activity
       then let (expires, idle) = compute_deadlines (clock 3) (sl_idle_expires_at r) True;
                db2 = put_lock (r\<lparr>sl_activity := activity, sl_expires_at := expires, sl_idle_expires_at := idle\<rparr>) db1
            in Inr (scope_lock_status (later_readings 4 clock) doc_id db2, db2)
       else Inr (scope_lock_status (later_readings 3 clock) doc_id db1, db1))"

definition release_scope_lock ::
    "(string \<Rightarrow> string) \<Rightarrow> string \<Rightarrow> string \<Rightarrow> string option \<Rightarrow> scope_db \<Rightarrow> scope_db result" where
  "release_scope_lock sha256 doc_id owner_id token db =
     (if \<not> lock_document_write doc_id False db then conflict
      else if scope_matches sha256 (get_by sl_doc_id doc_id (scope_locks db)) owner_id token
      then Inr (db\<lparr>scope_locks := delete_where (\<lambda>r. sl_doc_id r = doc_id) (scope_locks db)\<rparr>)
      else Inr db)"

subsection \<open>Validation\<close>

record review_settings =
  vs_durable :: bool
  vs_parser_timeout :: int

definition validation_lease :: "review_settings \<Rightarrow> time" where
  "validation_lease st = seconds (max 180 (vs_parser_timeout st + 60))"

text \<open>\<open>prior\<close> is the generation admitted with a request: its document and its scope.\<close>

definition same_acceptance :: "string \<Rightarrow> string \<Rightarrow> int \<Rightarrow> string \<times> json option \<Rightarrow> bool" where
  "same_acceptance doc_id review_id revision accepted =
     (let scope = (case snd accepted of None \<Rightarrow> JObj [] | Some s \<Rightarrow> s)
      in fst accepted = doc_id \<and> json_get ''review_id'' scope = Some (JStr review_id) \<and>
         json_get ''review_revision'' scope = Some (JInt revision))"

datatype admission_step = Already_Accepted | Still_Validating | Claimed policy_snapshot

definition running_validation :: "review_settings \<Rightarrow> time \<Rightarrow> review \<Rightarrow> bool" where
  "running_validation st now r = (case rv_validation_started_at r of None \<Rightarrow> False | Some t \<Rightarrow> now - t < validation_lease st)"

text \<open>
  The first transaction of \<open>confirm_processing_scope\<close>. \<open>edit\<close> is the check of the editor's lease
  (\<open>require_scope_lock\<close>) when the caller came from the editor, \<open>token\<close> a new \<open>uuid4\<close>. First what
  it does to the locked review.
\<close>

definition claim_review ::
    "review_settings \<Rightarrow> time \<Rightarrow> string \<Rightarrow> (scope_db \<Rightarrow> scope_db result) \<Rightarrow> string \<Rightarrow> string option \<Rightarrow> review \<Rightarrow> scope_db
     \<Rightarrow> (admission_step \<times> scope_db) result" where
  "claim_review st now token edit request_id actor row0 db =
     (if rv_state row0 \<notin> set [''draft'', ''awaiting_similar'', ''validating'', ''submitted'', ''published''] then conflict
      else if rv_state row0 = ''submitted'' \<and> rv_generation_id row0 = None \<and> running_validation st now row0
      then Inr (Still_Validating, db)
      else
        let row = (if rv_state row0 = ''submitted'' \<and> rv_generation_id row0 = None then row0\<lparr>rv_state := ''draft''\<rparr> else row0) in
        if rv_state row \<in> set [''submitted'', ''published'']
        then (if rv_request_id row \<noteq> Some request_id then conflict else Inr (Already_Accepted, db))
        else if rv_state row = ''validating'' \<and> running_validation st now row then Inr (Still_Validating, db)
        else bindr (edit (put_review row db)) (\<lambda>db1.
          let row' = row\<lparr>rv_state := ''validating'', rv_validation_token := Some token, rv_validation_started_at := Some now,
                         rv_request_id := Some request_id, rv_confirmed_by := actor\<rparr>
          in bindr (snapshot_from_review row') (\<lambda>snapshot. Inr (Claimed snapshot, put_review row' db1))))"

definition begin_validation ::
    "review_settings \<Rightarrow> time \<Rightarrow> string \<Rightarrow> (string \<times> json option) option \<Rightarrow> (scope_db \<Rightarrow> scope_db result) \<Rightarrow>
     string \<Rightarrow> string \<Rightarrow> int \<Rightarrow> string \<Rightarrow> string option \<Rightarrow> scope_db \<Rightarrow> (admission_step \<times> scope_db) result" where
  "begin_validation st now token prior edit doc_id review_id revision request_id actor db =
     (case (if vs_durable st then find (\<lambda>w. dw_scope_request_id w = Some request_id) (work_inputs db) else None) of
        Some w \<Rightarrow> if same_acceptance doc_id review_id revision (dw_doc_id w, dw_scope w) then Inr (Already_Accepted, db) else conflict
      | None \<Rightarrow>
        (case prior of
           Some g \<Rightarrow> if same_acceptance doc_id review_id revision g then Inr (Already_Accepted, db) else conflict
         | None \<Rightarrow> bindr (locked_review doc_id review_id (Some revision) db) (\<lambda>row0.
             claim_review st now token edit request_id actor row0 db)))"

text \<open>Similar documents were found: the review waits for the user's consent.\<close>

definition await_similar :: "string \<Rightarrow> string \<Rightarrow> int \<Rightarrow> string \<Rightarrow> json \<Rightarrow> scope_db \<Rightarrow> scope_db result" where
  "await_similar doc_id review_id revision token consent db =
     bindr (locked_review doc_id review_id (Some revision) db) (\<lambda>row.
       if rv_validation_token row \<noteq> Some token then conflict
       else Inr (put_review (row\<lparr>rv_state := ''awaiting_similar'', rv_validation_token := None, rv_similarity := Some consent\<rparr>) db))"

text \<open>The accepted selection; \<open>admit\<close> is the admission of the document's work in the same transaction.\<close>

definition submit_review ::
    "string \<Rightarrow> string \<Rightarrow> int \<Rightarrow> string \<Rightarrow> json option \<Rightarrow> (scope_db \<Rightarrow> scope_db result) \<Rightarrow> scope_db \<Rightarrow> scope_db result" where
  "submit_review doc_id review_id revision token reservation admit db =
     bindr (locked_review doc_id review_id (Some revision) db) (\<lambda>row.
       if rv_validation_token row \<noteq> Some token then conflict
       else if active_generation doc_id db \<noteq> rv_base_generation_id row then conflict
       else admit (put_review (row\<lparr>rv_state := ''submitted'', rv_validation_token := None,
              rv_similarity := (case reservation of None \<Rightarrow> rv_similarity row | Some j \<Rightarrow> Some j)\<rparr>) db))"

definition validation_failed :: "string \<Rightarrow> string \<Rightarrow> string \<Rightarrow> scope_db \<Rightarrow> scope_db" where
  "validation_failed doc_id review_id request_id db =
     (case review_of doc_id db of None \<Rightarrow> db
      | Some row \<Rightarrow>
          if rv_id row = review_id \<and> rv_request_id row = Some request_id \<and> rv_state row \<in> set [''validating'', ''submitted''] \<and>
             rv_generation_id row = None
          then put_review (row\<lparr>rv_state := ''draft'', rv_validation_token := None\<rparr>) db else db)"

subsection \<open>Recovery of an expired validation\<close>

definition accepted_input :: "string \<Rightarrow> string option \<Rightarrow> scope_db \<Rightarrow> bool" where
  "accepted_input doc_id request_id db \<longleftrightarrow>
     list_ex (\<lambda>w. dw_doc_id w = doc_id \<and> request_id \<noteq> None \<and> dw_scope_request_id w = request_id \<and>
       list_ex (\<lambda>i. wi_id i = dw_work_id w \<and> wi_kind i = ''document'' \<and> pending_status i \<and> \<not> wi_cancel_requested i) (work_items db))
     (work_inputs db)"

definition same_plan :: "review \<Rightarrow> json \<Rightarrow> bool" where
  "same_plan row plan \<longleftrightarrow> json_get ''review_id'' plan = Some (JStr (rv_id row)) \<and> json_get ''revision'' plan = Some (JInt (rv_revision row))"

definition pending_plan :: "string \<Rightarrow> review \<Rightarrow> work_item list \<Rightarrow> scope_db \<Rightarrow> bool" where
  "pending_plan doc_id row pending db \<longleftrightarrow>
     list_ex (\<lambda>w. wi_kind w = ''scope_change'' \<and> \<not> wi_cancel_requested w \<and>
       get_str ''request_id'' (wi_payload w) = rv_request_id row \<and>
       (case get_str ''plan_id'' (wi_payload w) of None \<Rightarrow> False
        | Some p \<Rightarrow> (case get_by sc_id p (scope_changes db) of None \<Rightarrow> False
            | Some op \<Rightarrow> sc_doc_id op = doc_id \<and> sc_request_id op = rv_request_id row \<and> same_plan row (sc_plan op)))) pending"

text \<open>\<open>retained\<close> is the plan of \<open>retained_scope_receipt\<close>, read from the update attempts.\<close>

definition recover_review_admission ::
    "review_settings \<Rightarrow> time \<Rightarrow> bool \<Rightarrow> gen_ctx \<Rightarrow> (string option \<Rightarrow> json option result) \<Rightarrow> string \<Rightarrow> scope_db \<Rightarrow> (bool \<times> scope_db) result" where
  "recover_review_admission st now force c retained doc_id db =
     (let pending = (if vs_durable st then fst (lock_document_intents doc_id c db) else []) in
      if \<not> lock_document_write doc_id False db then Inr (False, db)
      else case review_of doc_id db of None \<Rightarrow> Inr (False, db)
      | Some row \<Rightarrow>
          if rv_state row \<notin> set [''validating'', ''submitted''] \<or> rv_generation_id row \<noteq> None then Inr (False, db)
          else bindr (if vs_durable st \<and> rv_state row = ''submitted''
                then bindr (retained (rv_request_id row)) (\<lambda>plan.
                  Inr ((case plan of None \<Rightarrow> False | Some p \<Rightarrow> same_plan row p) \<or> accepted_input doc_id (rv_request_id row) db \<or>
                       pending_plan doc_id row pending db))
                else Inr False) (\<lambda>accepted.
            if accepted then Inr (False, db)
            else if \<not> force \<and> later (rv_validation_started_at row) (now - validation_lease st) then Inr (False, db)
            else
              let db1 = put_review (row\<lparr>rv_state := ''draft'', rv_validation_token := None, rv_similarity := None,
                          rv_revision := rv_revision row + 1\<rparr>) db
              in Inr (True, if active_generation doc_id db = None
                   then db1\<lparr>documents := update_where (\<lambda>d. dc_id d = doc_id) (\<lambda>d. d\<lparr>dc_status := ''awaiting_attachments''\<rparr>) (documents db1)\<rparr>
                   else db1)))"

definition recoverable_reviews :: "scope_db \<Rightarrow> string list" where
  "recoverable_reviews db = map rv_doc_id
     (filter (\<lambda>r. rv_state r \<in> set [''validating'', ''submitted''] \<and> rv_generation_id r = None) (reviews db))"

text \<open>Each review is recovered in its own transaction; an exception ends the pass.\<close>

fun recover_each :: "(string \<Rightarrow> scope_db \<Rightarrow> (bool \<times> scope_db) result) \<Rightarrow> string list \<Rightarrow> scope_db \<Rightarrow> scope_db" where
  "recover_each recover [] db = db"
| "recover_each recover (d # ds) db = (case recover d db of Inl e \<Rightarrow> db | Inr (_, db') \<Rightarrow> recover_each recover ds db')"

definition recover_processing_reviews ::
    "review_settings \<Rightarrow> time \<Rightarrow> bool \<Rightarrow> gen_ctx \<Rightarrow> (string \<Rightarrow> string option \<Rightarrow> json option result) \<Rightarrow> scope_db \<Rightarrow> scope_db" where
  "recover_processing_reviews st now force c retained db =
     recover_each (\<lambda>d. recover_review_admission st now force c (retained d) d) (recoverable_reviews db) db"

subsection \<open>Reviews that a parser can rely on\<close>

definition review_closed :: "(hash_input \<Rightarrow> string) \<Rightarrow> review \<Rightarrow> bool" where
  "review_closed dg r \<longleftrightarrow>
     parents_first [] (ai_nodes (rv_inventory r)) \<and> closed_selection (ai_nodes (rv_inventory r)) (rv_selection r) \<and>
     map sd_source_key (rv_selection r) = map an_source_key (ai_nodes (rv_inventory r)) \<and>
     (\<exists>traversal. inventory_traversal_limits (plain_inventory (rv_inventory r)) = Inr traversal \<and>
        rv_selection_hash r = selection_hash dg (rv_source_file_hash r) (rv_parser_version r) traversal (rv_selection r))"

lemma plain_recommendations [simp]: "plain_inventory (i\<lparr>ri_recommendations := x\<rparr>) = plain_inventory i"
  by (simp add: attachment_inventory.truncate_def)

lemma review_closed_updates [simp]:
  "review_closed dg (r\<lparr>rv_state := a\<rparr>) = review_closed dg r" "review_closed dg (r\<lparr>rv_validation_token := b\<rparr>) = review_closed dg r"
  "review_closed dg (r\<lparr>rv_validation_started_at := c\<rparr>) = review_closed dg r" "review_closed dg (r\<lparr>rv_request_id := e\<rparr>) = review_closed dg r"
  "review_closed dg (r\<lparr>rv_confirmed_by := f\<rparr>) = review_closed dg r" "review_closed dg (r\<lparr>rv_similarity := g\<rparr>) = review_closed dg r"
  "review_closed dg (r\<lparr>rv_revision := h\<rparr>) = review_closed dg r" "review_closed dg (r\<lparr>rv_generation_id := i\<rparr>) = review_closed dg r"
  "review_closed dg (r\<lparr>rv_summary := j\<rparr>) = review_closed dg r"
  by (simp_all add: review_closed_def)

lemma locked_review_Inr: "locked_review d rid vn db = Inr row \<Longrightarrow> review_of d db = Some row \<and> rv_doc_id row = d \<and> rv_id row = rid"
  by (auto simp: locked_review_def review_of_def split: if_split_asm option.split_asm dest: get_by_key)

lemma redraft_Inr:
  "redraft dg row ds t = Inr row' \<Longrightarrow>
   rv_doc_id row' = rv_doc_id row \<and> rv_inventory row' = rv_inventory row \<and> rv_selection row' = ds \<and>
   rv_selection_hash row' = selection_hash dg (rv_source_file_hash row') (rv_parser_version row') t ds \<and>
   rv_validation_token row' = rv_validation_token row \<and> rv_revision row' = rv_revision row + 1"
  by (auto simp: redraft_def Let_def)

lemma check_sources_all:
  "check_sources nodes traversal selected keys = Inr u \<Longrightarrow> key \<in> set keys \<Longrightarrow>
   \<exists>n. node_get nodes key = Some n \<and> usable n \<and> (an_parent_key n = ''root'' \<or> an_parent_key n \<in> set selected)"
proof (induction keys)
  case (Cons k ks)
  show ?case
  proof (cases "key = k")
    case True
    with Cons.prems show ?thesis by (auto simp: check_source_def usable_def split: option.split_asm if_split_asm)
  next
    case False
    with Cons show ?thesis by auto
  qed
qed simp

lemma user_decision_simps [simp]:
  "sd_source_key (user_decision selected n) = an_source_key n"
  "sd_effective (user_decision selected n) \<longleftrightarrow> an_source_key n \<in> set selected"
  by (simp_all add: user_decision_def Let_def)

lemma user_selection_closed:
  assumes "check_sources nodes traversal selected selected = Inr u" and sub: "set selected \<subseteq> set (map an_source_key nodes)"
  shows "closed_selection nodes (map (user_decision selected) nodes)"
proof (rule closed_selectionI)
  fix d assume "d \<in> set (map (user_decision selected) nodes)" and "sd_effective d"
  then have k: "sd_source_key d \<in> set selected" by auto
  from check_sources_all [OF assms(1) k] obtain n where n: "node_get nodes (sd_source_key d) = Some n" "usable n"
    and p: "an_parent_key n = ''root'' \<or> an_parent_key n \<in> set selected" by blast
  have "\<exists>p\<in>set (map (user_decision selected) nodes). sd_source_key p = an_parent_key n \<and> sd_effective p"
    if q: "an_parent_key n \<in> set selected"
  proof -
    from sub q obtain m where "m \<in> set nodes" "an_source_key m = an_parent_key n" by auto
    with q show ?thesis by (intro bexI [of _ "user_decision selected m"]) auto
  qed
  with n p node_get_in [OF n(1)] show "\<exists>n\<in>set nodes. an_source_key n = sd_source_key d \<and> usable n \<and>
      (an_parent_key n = ''root'' \<or> (\<exists>p\<in>set (map (user_decision selected) nodes). sd_source_key p = an_parent_key n \<and> sd_effective p))"
    by blast
qed

lemma save_Inr:
  assumes "save_review_selection dg d rid vn selected actor db = Inr (row', db')"
  obtains row where "review_of d db = Some row" and "rv_doc_id row' = d" and "db' = put_review row' db"
    and "rv_validation_token row' = rv_validation_token row" and "review_closed dg row \<longrightarrow> review_closed dg row'"
proof -
  from assms obtain row t u where row: "locked_review d rid (Some vn) db = Inr row"
    and sub: "set selected \<subseteq> set (map an_source_key (ai_nodes (rv_inventory row)))"
    and t: "inventory_traversal_limits (plain_inventory (rv_inventory row)) = Inr t"
    and c: "check_sources (ai_nodes (rv_inventory row)) t selected selected = Inr u"
    and r: "redraft dg (row\<lparr>rv_confirmed_by := actor\<rparr>) (map (user_decision selected) (ai_nodes (rv_inventory row))) t = Inr row'"
    and db': "db' = put_review row' db"
    unfolding save_review_selection_def Let_def by (elim bindrE) (auto split: if_split_asm)
  have "review_closed dg row \<longrightarrow> review_closed dg row'"
    using user_selection_closed [OF c sub] redraft_Inr [OF r] t
    by (auto simp: review_closed_def comp_def)
  with locked_review_Inr [OF row] redraft_Inr [OF r] db' show ?thesis by (intro that [of row]) auto
qed

lemma refresh_Inr:
  assumes "refresh_review_inventory dg d rid vn inventory db = Some (Inr (row', db'))"
    and ord: "parents_first [] (ai_nodes inventory)"
  obtains row where "review_of d db = Some row" and "rv_doc_id row' = d" and "db' = put_review row' db"
    and "rv_validation_token row' = rv_validation_token row" and "review_closed dg row'"
proof -
  from assms(1) obtain row t sel settled decisions where row: "locked_review d rid (Some vn) db = Inr row"
    and t: "inventory_traversal_limits (plain_inventory inventory) = Inr t"
    and sel: "recommend_scope (plain_inventory inventory) (rv_policy row) = Inr sel"
    and s: "refreshed_decisions (ai_nodes inventory) (rv_selection row) (ss_decisions sel) = Some (Inr decisions)"
    and r: "redraft dg (row\<lparr>rv_inventory := inventory\<lparr>ri_recommendations := Some (ss_decisions sel)\<rparr>\<rparr>) decisions t = Inr row'"
    and db': "db' = put_review row' db"
    unfolding refresh_review_inventory_def
    by (auto split: sum.split_asm if_split_asm option.split_asm simp: bind_eq_Some_conv)
  have "map sd_source_key (ss_decisions sel) = map an_source_key (ai_nodes inventory)"
    using recommend_closed(2) [OF sel] ord by simp
  from refreshed_closed [OF ord this, of "rv_selection row"] s
  have "closed_selection (ai_nodes inventory) decisions" "map sd_source_key decisions = map an_source_key (ai_nodes inventory)" by auto
  then have "review_closed dg row'" using redraft_Inr [OF r] t ord by (auto simp: review_closed_def)
  with locked_review_Inr [OF row] redraft_Inr [OF r] db' show ?thesis by (intro that [of row]) auto
qed

lemma create_Inr:
  assumes "create_review dg new_id d inventory base actor limits db = Inr (row, db')" and "parents_first [] (ai_nodes inventory)"
  shows "reviews db' = delete_where (\<lambda>r. rv_doc_id r = d) (reviews db) @ [row]" and "rv_doc_id row = d"
    and "rv_validation_token row = None" and "review_closed dg row"
proof -
  from assms(1) obtain scope l where scope: "automatic_snapshot dg inventory l = Inr scope"
    and row: "row = draft_of d new_id base actor scope"
    and db': "reviews db' = delete_where (\<lambda>r. rv_doc_id r = d) (reviews db) @ [row]"
    unfolding create_review_def Let_def by (auto split: if_split_asm)
  from scope obtain sel t where sel: "recommend_scope (plain_inventory inventory) l = Inr sel"
    and t: "inventory_traversal_limits (plain_inventory inventory) = Inr t"
    and s: "ps_inventory scope = inventory\<lparr>ri_recommendations := Some (ss_decisions sel)\<rparr>" "ps_decisions scope = ss_decisions sel"
      "ps_source_file_hash scope = ai_source_file_hash inventory" "ps_parser_version scope = ri_parser_version inventory"
      "ps_selection_hash scope = selection_hash dg (ai_source_file_hash inventory) (ri_parser_version inventory) t (ss_decisions sel)"
    unfolding automatic_snapshot_def by auto
  show "reviews db' = delete_where (\<lambda>r. rv_doc_id r = d) (reviews db) @ [row]" by (rule db')
  show "rv_doc_id row = d" "rv_validation_token row = None" by (simp_all add: row draft_of_def)
  show "review_closed dg row"
    using recommend_closed [OF sel] assms(2) t s by (simp add: review_closed_def row draft_of_def)
qed

subsection \<open>Runs\<close>

text \<open>
  The transactions on reviews. \<open>issued\<close> are the tokens that \<open>uuid4\<close> returns during the run. Other
  components (the lease of the editor, work admission, publication) leave selections and tokens
  alone: at most they move a review to another state or give it its generation.
\<close>

inductive review_step :: "(hash_input \<Rightarrow> string) \<Rightarrow> (string \<Rightarrow> bool) \<Rightarrow> scope_db \<Rightarrow> scope_db \<Rightarrow> bool" for dg issued where
  create: "create_review dg new_id d inventory base actor limits db = Inr (row, db') \<Longrightarrow> parents_first [] (ai_nodes inventory)
    \<Longrightarrow> review_step dg issued db db'"
| save: "save_review_selection dg d rid vn selected actor db = Inr (row, db') \<Longrightarrow> review_step dg issued db db'"
| refresh: "refresh_review_inventory dg d rid vn inventory db = Some (Inr (row, db')) \<Longrightarrow> parents_first [] (ai_nodes inventory)
    \<Longrightarrow> review_step dg issued db db'"
| claim: "begin_validation st now token prior edit d rid vn request_id actor db = Inr (Claimed snapshot, db')
    \<Longrightarrow> issued token \<Longrightarrow> (\<And>x y. edit x = Inr y \<Longrightarrow> reviews y = reviews x) \<Longrightarrow> review_step dg issued db db'"
| similar: "await_similar d rid vn token consent db = Inr db' \<Longrightarrow> review_step dg issued db db'"
| submit: "submit_review d rid vn token reservation admit db = Inr db' \<Longrightarrow> (\<And>x y. admit x = Inr y \<Longrightarrow> reviews y = reviews x)
    \<Longrightarrow> review_step dg issued db db'"
| fail: "review_step dg issued db (validation_failed d rid request_id db)"
| recover: "recover_review_admission st now force c retained d db = Inr (b, db') \<Longrightarrow> review_step dg issued db db'"
| moved: "review_of d db = Some row \<Longrightarrow> reviews db' = put_by rv_doc_id (row\<lparr>rv_state := s, rv_generation_id := g\<rparr>) (reviews db)
    \<Longrightarrow> review_step dg issued db db'"
| elsewhere: "reviews db' = reviews db \<Longrightarrow> review_step dg issued db db'"

text \<open>What a step does to the table of reviews.\<close>

definition replaces :: "(hash_input \<Rightarrow> string) \<Rightarrow> (string \<Rightarrow> bool) \<Rightarrow> review \<Rightarrow> review \<Rightarrow> bool" where
  "replaces dg issued row row' \<longleftrightarrow> rv_doc_id row' = rv_doc_id row \<and> (review_closed dg row \<longrightarrow> review_closed dg row') \<and>
     (rv_validation_token row' = rv_validation_token row \<or> rv_validation_token row' = None \<or>
      (\<exists>t. issued t \<and> rv_validation_token row' = Some t))"

lemma review_of_doc: "review_of d db = Some row \<Longrightarrow> rv_doc_id row = d"
  unfolding review_of_def by (rule get_by_key)

lemma put_review_rows [simp]: "reviews (put_review row db) = put_by rv_doc_id row (reviews db)"
  by (simp add: put_review_def)

lemma put_review_twice: "rv_doc_id r = rv_doc_id r' \<Longrightarrow> put_by rv_doc_id r' (put_by rv_doc_id r rows) = put_by rv_doc_id r' rows"
  by (simp add: put_by_def update_where_def)

lemma begin_Inr:
  assumes "begin_validation st now token prior edit d rid vn request_id actor db = Inr (Claimed snapshot, db')"
    and edit: "\<And>x y. edit x = Inr y \<Longrightarrow> reviews y = reviews x"
  obtains row row' where "review_of d db = Some row" and "reviews db' = put_by rv_doc_id row' (reviews db)"
    and "rv_doc_id row' = d" and "rv_validation_token row' = Some token" and "snapshot_from_review row' = Inr snapshot"
    and "review_closed dg row' = review_closed dg row"
proof -
  from assms(1) obtain row0 where row0: "locked_review d rid (Some vn) db = Inr row0"
    and c: "claim_review st now token edit request_id actor row0 db = Inr (Claimed snapshot, db')"
    unfolding begin_validation_def by (auto split: option.split_asm if_split_asm)
  obtain row where row: "row = row0 \<or> row = row0\<lparr>rv_state := ''draft''\<rparr>"
    and rest: "bindr (edit (put_review row db)) (\<lambda>db1.
          let row' = row\<lparr>rv_state := ''validating'', rv_validation_token := Some token, rv_validation_started_at := Some now,
                         rv_request_id := Some request_id, rv_confirmed_by := actor\<rparr>
          in bindr (snapshot_from_review row') (\<lambda>snapshot. Inr (Claimed snapshot, put_review row' db1))) = Inr (Claimed snapshot, db')"
    using c unfolding claim_review_def Let_def by (simp only: split: if_split_asm) blast+
  from rest obtain db1 where db1: "edit (put_review row db) = Inr db1"
    and snap: "snapshot_from_review (row\<lparr>rv_state := ''validating'', rv_validation_token := Some token, rv_validation_started_at := Some now,
        rv_request_id := Some request_id, rv_confirmed_by := actor\<rparr>) = Inr snapshot"
    and db': "db' = put_review (row\<lparr>rv_state := ''validating'', rv_validation_token := Some token, rv_validation_started_at := Some now,
        rv_request_id := Some request_id, rv_confirmed_by := actor\<rparr>) db1"
    unfolding Let_def by auto
  show ?thesis
    by (rule that [of row0, OF _ _ _ _ snap]) (use locked_review_Inr [OF row0] row edit [OF db1] db' in \<open>auto simp: put_review_twice\<close>)
qed

lemma recover_Inr:
  assumes "recover_review_admission st now force c retained d db = Inr (b, db')"
  shows "(\<not> b \<and> db' = db) \<or> (b \<and> (\<exists>row row'. review_of d db = Some row \<and> rv_doc_id row' = d \<and> rv_validation_token row' = None \<and>
     review_closed dg row' = review_closed dg row \<and> reviews db' = put_by rv_doc_id row' (reviews db)))"
proof (cases b)
  case True
  with assms obtain row where row: "review_of d db = Some row"
    and db': "reviews db' = put_by rv_doc_id (row\<lparr>rv_state := ''draft'', rv_validation_token := None, rv_similarity := None,
                          rv_revision := rv_revision row + 1\<rparr>) (reviews db)"
    unfolding recover_review_admission_def Let_def by (auto split: if_split_asm option.split_asm)
  show ?thesis
    by (intro disjI2 conjI exI [of _ row] exI [of _ "row\<lparr>rv_state := ''draft'', rv_validation_token := None, rv_similarity := None,
        rv_revision := rv_revision row + 1\<rparr>"]) (use row db' True review_of_doc [OF row] in auto)
next
  case False
  with assms show ?thesis unfolding recover_review_admission_def Let_def by (auto split: if_split_asm option.split_asm)
qed

definition review_effect :: "(hash_input \<Rightarrow> string) \<Rightarrow> (string \<Rightarrow> bool) \<Rightarrow> scope_db \<Rightarrow> scope_db \<Rightarrow> bool" where
  "review_effect dg issued db db' \<longleftrightarrow> reviews db' = reviews db \<or>
    (\<exists>row row'. review_of (rv_doc_id row') db = Some row \<and> replaces dg issued row row' \<and> reviews db' = put_by rv_doc_id row' (reviews db)) \<or>
    (\<exists>d row. reviews db' = delete_where (\<lambda>r. rv_doc_id r = d) (reviews db) @ [row] \<and> rv_doc_id row = d \<and>
       rv_validation_token row = None \<and> review_closed dg row)"

lemma effect_put:
  "review_of d db = Some row \<Longrightarrow> replaces dg issued row row' \<Longrightarrow> reviews db' = put_by rv_doc_id row' (reviews db) \<Longrightarrow>
   review_effect dg issued db db'"
  unfolding review_effect_def by (metis replaces_def review_of_doc)

lemma effect_same: "reviews db' = reviews db \<Longrightarrow> review_effect dg issued db db'"
  by (simp add: review_effect_def)

lemma review_step_effect:
  assumes "review_step dg issued db db'"
  shows "review_effect dg issued db db'"
  using assms
proof (cases rule: review_step.cases)
  case (create new_id d inventory base actor limits row)
  from create_Inr [OF this] show ?thesis unfolding review_effect_def by blast
next
  case (save d rid vn selected actor row)
  then show ?thesis
    by (rule save_Inr) (rule effect_put, assumption, auto simp: replaces_def dest!: review_of_doc)
next
  case (refresh d rid vn inventory row)
  then show ?thesis
    by (rule refresh_Inr) (rule effect_put, assumption, auto simp: replaces_def dest!: review_of_doc)
next
  case (claim st now token prior edit d rid vn request_id actor snapshot)
  from claim(1) claim(3) show ?thesis
  proof (rule begin_Inr [where dg = dg])
    fix row row'
    assume "review_of d db = Some row" "reviews db' = put_by rv_doc_id row' (reviews db)" "rv_doc_id row' = d"
      "rv_validation_token row' = Some token" "review_closed dg row' = review_closed dg row"
    with claim(2) show ?thesis by (intro effect_put) (auto simp: replaces_def dest: review_of_doc)
  qed
next
  case (similar d rid vn token consent)
  then obtain row where row: "locked_review d rid (Some vn) db = Inr row"
    and db': "db' = put_review (row\<lparr>rv_state := ''awaiting_similar'', rv_validation_token := None, rv_similarity := Some consent\<rparr>) db"
    unfolding await_similar_def by (auto split: if_split_asm)
  from locked_review_Inr [OF row] show ?thesis by (intro effect_put) (auto simp: db' replaces_def)
next
  case (submit d rid vn token reservation admit)
  from submit(1) obtain row x where row: "locked_review d rid (Some vn) db = Inr row"
    and x: "x = put_review (row\<lparr>rv_state := ''submitted'', rv_validation_token := None,
              rv_similarity := (case reservation of None \<Rightarrow> rv_similarity row | Some j \<Rightarrow> Some j)\<rparr>) db" "admit x = Inr db'"
    unfolding submit_review_def by (auto split: if_split_asm)
  from locked_review_Inr [OF row] show ?thesis
    by (intro effect_put) (auto simp: submit(2) [OF x(2)] x(1) replaces_def)
next
  case (fail d rid request_id)
  show ?thesis
  proof (cases "db' = db")
    case False
    with fail obtain row where row: "review_of d db = Some row"
      and db': "db' = put_review (row\<lparr>rv_state := ''draft'', rv_validation_token := None\<rparr>) db"
      by (auto simp: validation_failed_def split: option.splits if_splits)
    show ?thesis by (rule effect_put [OF row]) (simp_all add: db' replaces_def)
  qed (simp add: effect_same)
next
  case (recover st now force c retained d b)
  show ?thesis
  proof (cases b)
    case True
    with recover_Inr [OF recover, of dg] obtain row row' where "review_of d db = Some row" and "rv_doc_id row' = d"
      and "rv_validation_token row' = None" and "review_closed dg row' = review_closed dg row"
      and "reviews db' = put_by rv_doc_id row' (reviews db)" by blast
    then show ?thesis by (intro effect_put) (auto simp: replaces_def dest: review_of_doc)
  qed (use recover_Inr [OF recover] in \<open>simp add: effect_same\<close>)
next
  case (moved d row s g)
  then show ?thesis by (intro effect_put) (auto simp: replaces_def)
qed (rule effect_same)

text \<open>Every review of the table is closed, and no review of the document carries the token.\<close>

definition reviews_closed :: "(hash_input \<Rightarrow> string) \<Rightarrow> scope_db \<Rightarrow> bool" where
  "reviews_closed dg db \<longleftrightarrow> (\<forall>r\<in>set (reviews db). review_closed dg r)"

definition token_free :: "string \<Rightarrow> string \<Rightarrow> scope_db \<Rightarrow> bool" where
  "token_free d token db \<longleftrightarrow> (case review_of d db of None \<Rightarrow> True | Some r \<Rightarrow> rv_validation_token r \<noteq> Some token)"

lemma review_of_in: "review_of d db = Some r \<Longrightarrow> r \<in> set (reviews db)"
  unfolding review_of_def by (drule get_by_SomeD) simp

lemma effect_closed: "review_effect dg issued db db' \<Longrightarrow> reviews_closed dg db \<Longrightarrow> reviews_closed dg db'"
  unfolding review_effect_def reviews_closed_def
  by (auto simp: replaces_def dest!: put_by_member review_of_in)

lemma effect_token_free:
  assumes "review_effect dg issued db db'" and "token_free d token db" and "\<not> issued token"
  shows "token_free d token db'"
proof -
  have app: "get_by rv_doc_id d (delete_where (\<lambda>r. rv_doc_id r = e) rows @ [row]) =
      (if d = e then Some row else get_by rv_doc_id d rows)" if "rv_doc_id row = e" for e row rows
    using that by (induction rows) (auto simp: get_by_append split: option.splits)
  show ?thesis
    using assms unfolding review_effect_def token_free_def review_of_def replaces_def
    by (auto simp: get_by_put_by app split: option.splits if_splits dest: get_by_key)
qed

interpretation closed_reviews: invariant_system "review_step dg issued" "reviews_closed dg" for dg issued
  by unfold_locales (rule effect_closed [OF review_step_effect])

interpretation free_tokens: invariant_system "review_step dg (\<lambda>t. t \<noteq> token \<and> issued t)" "token_free d token" for dg issued token d
  by unfold_locales (rule effect_token_free [OF review_step_effect], auto)

lemma token_free_refused:
  assumes "token_free d token db"
  shows "\<not> is_ok (submit_review d rid vn token reservation admit db)" and "\<not> is_ok (await_similar d rid vn token consent db)"
  using assms
  by (auto simp: is_ok_iff submit_review_def await_similar_def token_free_def dest!: locked_review_Inr split: if_split_asm)

text \<open>The snapshot as a parser receives it.\<close>

definition wire_snapshot :: "policy_snapshot \<Rightarrow> scope_snapshot" where
  "wire_snapshot s = \<lparr>sn_schema_version = ps_schema_version s, sn_source_file_hash = ps_source_file_hash s,
     sn_traversal_limits = Some (ps_traversal s), sn_decisions = ps_decisions s, sn_nodes = ai_nodes (ps_inventory s)\<rparr>"

lemma wire_decision:
  "make_policy (wire_snapshot s) = Inr policy \<Longrightarrow> map_of (pp_decisions policy) k = get_by sd_source_key k (rev (ps_decisions s))"
  by (auto simp: make_policy_def wire_snapshot_def map_of_fold_update split: if_split_asm option.splits)

lemma closed_policy:
  assumes ord: "parents_first [] nodes" and closed: "closed_selection nodes ds"
    and keys: "map sd_source_key ds = map an_source_key nodes"
    and d: "get_by sd_source_key k (rev ds) = Some d" "sd_effective d"
  shows "\<exists>n. node_get nodes k = Some n \<and> usable n \<and>
    (an_parent_key n = ''root'' \<or> (\<exists>p. get_by sd_source_key (an_parent_key n) (rev ds) = Some p \<and> sd_effective p))"
proof -
  have dist: "distinct (map an_source_key nodes)" by (rule parents_first_distinct [OF ord])
  have "d \<in> set ds" "sd_source_key d = k" using get_by_SomeD [OF d(1)] by auto
  with closed d(2) have "\<exists>n\<in>set nodes. an_source_key n = k \<and> usable n \<and>
      (an_parent_key n = ''root'' \<or> (\<exists>p\<in>set ds. sd_source_key p = an_parent_key n \<and> sd_effective p))"
    unfolding closed_selection_def list_all_iff list_ex_iff by blast
  then obtain n where n: "n \<in> set nodes" "an_source_key n = k" "usable n"
    and p: "an_parent_key n = ''root'' \<or> (\<exists>p\<in>set ds. sd_source_key p = an_parent_key n \<and> sd_effective p)" by blast
  have "node_get nodes k = Some n" using node_get_self [OF dist n(1)] n(2) by simp
  moreover have "get_by sd_source_key (sd_source_key p) (rev ds) = Some p" if "p \<in> set ds" for p
    by (rule get_by_self) (use that dist in \<open>simp_all add: unique_key_rev keys\<close>)
  ultimately show ?thesis using n(3) p by metis
qed

subsection \<open>Properties\<close>

text \<open>
  C25. Whatever users, refreshed inventories, failed and recovered validations did to a document's review, the
  selection that a validation claims is closed: a parser that receives it processes a source
  only if it is supported, fully inspected and assessed, and only together with the source that
  contains it. The digest under which it is confirmed is that of this selection.
\<close>
theorem confirmed_selection_closed:
  assumes "reviews db0 = []" and "(review_step dg issued)\<^sup>*\<^sup>* db0 db"
    and "begin_validation st now token prior edit d rid vn request_id actor db = Inr (Claimed snapshot, db')"
    and "\<forall>x y. edit x = Inr y \<longrightarrow> reviews y = reviews x"
    and "make_policy (wire_snapshot snapshot) = Inr policy" and "is_included policy k" and "k \<noteq> ''root''"
  shows "(\<exists>n. node_get (ai_nodes (ps_inventory snapshot)) k = Some n \<and> usable n \<and> is_included policy (an_parent_key n)) \<and>
    ps_selection_hash snapshot = selection_hash dg (ps_source_file_hash snapshot) (ps_parser_version snapshot)
      (ps_traversal snapshot) (ps_decisions snapshot)"
proof -
  have "reviews_closed dg db" using closed_reviews.steps_inv [OF assms(2)] assms(1) by (simp add: reviews_closed_def)
  moreover obtain row row' where row: "review_of d db = Some row" and snap: "snapshot_from_review row' = Inr snapshot"
    and same: "review_closed dg row' = review_closed dg row"
    by (rule begin_Inr [OF assms(3), of dg]) (use assms(4) in auto)
  ultimately have closed: "review_closed dg row'" using review_of_in [OF row] by (simp add: reviews_closed_def)
  from snap have s: "ps_inventory snapshot = rv_inventory row'" "ps_decisions snapshot = rv_selection row'"
    "ps_source_file_hash snapshot = rv_source_file_hash row'" "ps_parser_version snapshot = rv_parser_version row'"
    "ps_selection_hash snapshot = rv_selection_hash row'"
    "inventory_traversal_limits (plain_inventory (rv_inventory row')) = Inr (ps_traversal snapshot)"
    by (auto simp: snapshot_from_review_def)
  have inc: "is_included policy j \<longleftrightarrow> j = ''root'' \<or>
      (\<exists>e. get_by sd_source_key j (rev (rv_selection row')) = Some e \<and> sd_effective e)" for j
    by (auto simp: is_included_def wire_decision [OF assms(5)] s split: option.splits)
  from assms(6,7) obtain e where e: "get_by sd_source_key k (rev (rv_selection row')) = Some e" "sd_effective e" by (auto simp: inc)
  from closed_policy [OF _ _ _ e, of "ai_nodes (rv_inventory row')"] closed
  have "\<exists>n. node_get (ai_nodes (ps_inventory snapshot)) k = Some n \<and> usable n \<and> is_included policy (an_parent_key n)"
    by (auto simp: review_closed_def s inc)
  with closed s show ?thesis by (auto simp: review_closed_def)
qed

definition example_review_inventory :: review_inventory where
  "example_review_inventory = attachment_inventory.extend (example_inventory\<lparr>ai_source_file_hash := replicate 64 CHR ''a''\<rparr>)
     \<lparr>ri_parser_version = ''p'', ri_assessor_version = ''a'', ri_recommendations = None\<rparr>"

definition no_reviews :: scope_db where
  "no_reviews = doc_db.extend example_docs \<lparr>reviews = [], scope_changes = [], scope_locks = []\<rparr>"

definition drafted :: scope_db where
  "drafted = (case create_review (\<lambda>_. ''h'') ''r1'' ''d1'' example_review_inventory None None (Some tight_limits) no_reviews of
     Inr (_, db) \<Rightarrow> db | Inl _ \<Rightarrow> no_reviews)"

definition chosen :: scope_db where
  "chosen = (case save_review_selection (\<lambda>_. ''h'') ''d1'' ''r1'' 1 [''m'', ''y''] (Some ''u'') drafted of
     Inr (_, db) \<Rightarrow> db | Inl _ \<Rightarrow> drafted)"

definition example_review_settings :: review_settings where
  "example_review_settings = \<lparr>vs_durable = False, vs_parser_timeout = 60\<rparr>"

definition validated :: "string \<Rightarrow> time \<Rightarrow> scope_db \<Rightarrow> policy_snapshot option \<times> scope_db" where
  "validated token now db = (case begin_validation example_review_settings now token None Inr ''d1'' ''r1'' 2 ''q'' None db of
     Inr (Claimed s, db') \<Rightarrow> (Some s, db') | _ \<Rightarrow> (None, db))"

definition chosen_snapshot :: policy_snapshot where
  "chosen_snapshot = the (fst (validated ''t'' 0 chosen))"

definition chosen_policy :: processing_policy where
  "chosen_policy = (case make_policy (wire_snapshot chosen_snapshot) of Inr p \<Rightarrow> p
     | _ \<Rightarrow> \<lparr>pp_snapshot = wire_snapshot chosen_snapshot, pp_traversal = default_traversal_limits, pp_decisions = []\<rparr>)"

lemma chosen_steps: "(review_step (\<lambda>_. ''h'') issued)\<^sup>*\<^sup>* no_reviews chosen"
proof -
  have "create_review (\<lambda>_. ''h'') ''r1'' ''d1'' example_review_inventory None None (Some tight_limits) no_reviews
      = Inr (the (review_of ''d1'' drafted), drafted)" by code_simp
  then have one: "review_step (\<lambda>_. ''h'') issued no_reviews drafted"
    by (rule review_step.create) code_simp
  have "save_review_selection (\<lambda>_. ''h'') ''d1'' ''r1'' 1 [''m'', ''y''] (Some ''u'') drafted
      = Inr (the (review_of ''d1'' chosen), chosen)" by code_simp
  then have "review_step (\<lambda>_. ''h'') issued drafted chosen" by (rule review_step.save)
  with one show ?thesis by simp
qed

lemma chosen_claimed:
  "begin_validation example_review_settings 0 ''t'' None Inr ''d1'' ''r1'' 2 ''q'' None chosen
   = Inr (Claimed chosen_snapshot, snd (validated ''t'' 0 chosen))"
  by code_simp

theorem confirmed_selection_closed_witness:
  "is_included chosen_policy ''y'' \<and> \<not> is_included chosen_policy ''x'' \<and>
   (\<exists>n. node_get (ai_nodes (ps_inventory chosen_snapshot)) ''y'' = Some n \<and> usable n \<and> is_included chosen_policy (an_parent_key n))"
proof (intro conjI)
  show y: "is_included chosen_policy ''y''" by code_simp
  show "\<not> is_included chosen_policy ''x''" by code_simp
  have p: "make_policy (wire_snapshot chosen_snapshot) = Inr chosen_policy" by code_simp
  have r: "reviews no_reviews = []" by (simp add: no_reviews_def doc_db.defs work_db.defs maint_db.defs coord_db.defs)
  show "\<exists>n. node_get (ai_nodes (ps_inventory chosen_snapshot)) ''y'' = Some n \<and> usable n \<and> is_included chosen_policy (an_parent_key n)"
    by (rule conjunct1 [OF confirmed_selection_closed [OF r chosen_steps chosen_claimed _ p y]]) simp_all
qed

text \<open>
  C26. A validator that lost its claim never decides: once its validation was recovered, or claimed again by another
  attempt, neither its acceptance nor its question about similar documents can be written, in any
  later state, as long as tokens are not issued twice.
\<close>
theorem superseded_validator_refused:
  assumes "recover_review_admission st now force c retained d db = Inr (True, db1) \<or>
      (begin_validation st now new prior edit d rid vn request_id actor db = Inr (Claimed snapshot, db1) \<and> new \<noteq> token \<and>
       (\<forall>x y. edit x = Inr y \<longrightarrow> reviews y = reviews x))"
    and "(review_step dg (\<lambda>t. t \<noteq> token \<and> issued t))\<^sup>*\<^sup>* db1 db2"
  shows "\<not> is_ok (submit_review d rid' vn' token reservation admit db2) \<and> \<not> is_ok (await_similar d rid' vn' token consent db2)"
proof -
  have gone: "token_free d token db1"
    if "reviews db1 = put_by rv_doc_id row' (reviews db)" "review_of d db = Some row" "rv_doc_id row' = d"
      "rv_validation_token row' \<noteq> Some token" for row row'
    using that by (auto simp: token_free_def review_of_def get_by_put_by)
  have "token_free d token db1"
    using assms(1)
  proof
    assume "recover_review_admission st now force c retained d db = Inr (True, db1)"
    from recover_Inr [OF this, of dg] obtain row row' where "review_of d db = Some row" "rv_doc_id row' = d"
      "rv_validation_token row' = None" "reviews db1 = put_by rv_doc_id row' (reviews db)" by blast
    then show ?thesis by (intro gone) auto
  next
    assume b: "begin_validation st now new prior edit d rid vn request_id actor db = Inr (Claimed snapshot, db1) \<and> new \<noteq> token \<and>
       (\<forall>x y. edit x = Inr y \<longrightarrow> reviews y = reviews x)"
    then obtain row row' where "review_of d db = Some row" "reviews db1 = put_by rv_doc_id row' (reviews db)" "rv_doc_id row' = d"
      "rv_validation_token row' = Some new" by (elim conjE begin_Inr [where dg = dg]) blast+
    with b show ?thesis by (intro gone) auto
  qed
  with free_tokens.steps_inv [OF assms(2)] have "token_free d token db2" by blast
  from token_free_refused [OF this] show ?thesis by blast
qed

theorem superseded_validator_refused_witness:
  "\<not> is_ok (submit_review ''d1'' ''r1'' 2 ''t'' None Inr (snd (validated ''t2'' (seconds 200) (snd (validated ''t'' 0 chosen)))))"
proof -
  have "begin_validation example_review_settings (seconds 200) ''t2'' None Inr ''d1'' ''r1'' 2 ''q'' None (snd (validated ''t'' 0 chosen))
      = Inr (Claimed (the (fst (validated ''t2'' (seconds 200) (snd (validated ''t'' 0 chosen))))),
             snd (validated ''t2'' (seconds 200) (snd (validated ''t'' 0 chosen))))" by code_simp
  then show ?thesis
    by (intro conjunct1 [OF superseded_validator_refused [where token = "''t''" and dg = "\<lambda>_. []" and issued = "\<lambda>_. True"]])
      (rule disjI2, auto)
qed

text \<open>
  The failure of an attempt is told apart by its request only. When the attempt was superseded by
  another one for the same request, its failure drops the running validation of the other.
\<close>

lemma late_failure_drops_successor:
  assumes "review_of d db = Some row" and "rv_id row = rid" and "rv_request_id row = Some request_id"
    and "rv_state row = ''validating''" and "rv_generation_id row = None"
  shows "\<not> is_ok (submit_review d rid vn newer reservation admit (validation_failed d rid request_id db))"
proof -
  have "token_free d newer (validation_failed d rid request_id db)"
    using assms review_of_doc [OF assms(1)]
    by (simp add: token_free_def validation_failed_def review_of_def get_by_put_by put_review_def)
  then show ?thesis by (rule token_free_refused)
qed

end
