(* ===== verification/Archives.thy ===== *)
theory Archives
  imports Attachment_Policy
begin

text \<open>
  Archives that users upload (\<open>archive_guard.py\<close>, \<open>archive_reader.py\<close>, the extraction of \<open>archive_zip.py\<close>
  and the writer of \<open>archive_7z.py\<close>): the limits that are checked before a library expands an
  archive, and those that hold while it writes, whatever the archive declares. What the
  libraries read is an argument: a member's stream is the chunks it yields and whether it
  then fails. Over U+0000 to U+00FF normalisation to NFC is the identity; ratios are compared
  exactly.
\<close>

subsection \<open>OOXML containers\<close>

record archive_limits =
  ml_max_members :: int
  ml_max_member_bytes :: int
  ml_max_uncompressed_bytes :: int
  ml_max_compression_ratio :: int

definition default_archive_limits :: archive_limits where
  "default_archive_limits = \<lparr>ml_max_members = 10000, ml_max_member_bytes = 128 * 1024 * 1024,
     ml_max_uncompressed_bytes = 512 * 1024 * 1024, ml_max_compression_ratio = 1000\<rparr>"

record zip_info =
  zi_filename :: string
  zi_file_size :: int
  zi_compress_size :: int

definition forward_slashes :: "string \<Rightarrow> string" where
  "forward_slashes s = map (\<lambda>c. if c = CHR 0x5C then CHR ''/'' else c) s"

fun split_at :: "char \<Rightarrow> string \<Rightarrow> string list" where
  "split_at sep [] = [[]]"
| "split_at sep (c # s) = (if c = sep then [] # split_at sep s
     else (case split_at sep s of [] \<Rightarrow> [[c]] | p # ps \<Rightarrow> (c # p) # ps))"

text \<open>\<open>PureWindowsPath(name).drive\<close> of a name that does not start with a slash.\<close>

definition windows_drive :: "string \<Rightarrow> bool" where
  "windows_drive name = (case name of _ # c # _ \<Rightarrow> c = CHR '':'' | _ \<Rightarrow> False)"

definition starts_with_slash :: "string \<Rightarrow> bool" where
  "starts_with_slash name = (case name of c # _ \<Rightarrow> c = CHR ''/'' | [] \<Rightarrow> False)"

definition unsafe_zip_name :: "string \<Rightarrow> bool" where
  "unsafe_zip_name name \<longleftrightarrow> starts_with_slash name \<or> windows_drive name \<or> list_ex (\<lambda>p. p = ''..'') (split_at CHR ''/'' name)"

definition ratio_exceeded :: "int \<Rightarrow> int \<Rightarrow> int \<Rightarrow> bool" where
  "ratio_exceeded ratio bytes compressed \<longleftrightarrow> ratio * max compressed 1 < bytes"

definition validate_member :: "archive_limits \<Rightarrow> zip_info \<Rightarrow> unit result" where
  "validate_member l info =
     (if ml_max_member_bytes l < zi_file_size info then Inl ArchiveLimitError
      else if ratio_exceeded (ml_max_compression_ratio l) (zi_file_size info) (zi_compress_size info) then Inl ArchiveLimitError
      else Inr ())"

fun validate_members :: "archive_limits \<Rightarrow> string list \<Rightarrow> int \<Rightarrow> zip_info list \<Rightarrow> unit result" where
  "validate_members l seen total_bytes [] = Inr ()"
| "validate_members l seen total_bytes (info # infos) =
     (let name = forward_slashes (zi_filename info) in
      if unsafe_zip_name name then Inl ArchiveLimitError
      else if name \<in> set seen then Inl ArchiveLimitError
      else bindr (validate_member l info) (\<lambda>_.
        let total' = total_bytes + zi_file_size info in
        if ml_max_uncompressed_bytes l < total' then Inl ArchiveLimitError
        else validate_members l (name # seen) total' infos))"

text \<open>\<open>infolist\<close> is None when the file is no ZIP archive.\<close>

definition validate_zip :: "archive_limits \<Rightarrow> zip_info list option \<Rightarrow> unit result" where
  "validate_zip l infolist =
     (case infolist of None \<Rightarrow> Inl ArchiveLimitError
      | Some infos \<Rightarrow> if ml_max_members l < int (length infos) then Inl ArchiveLimitError
                     else validate_members l [] 0 infos)"

subsection \<open>Attached archives\<close>

record archive_entry =
  ae_key :: string
  ae_display_path :: string
  ae_size :: int
  ae_compressed_size :: "int option"
  ae_is_dir :: bool
  ae_is_special :: bool
  ae_encrypted :: bool

definition strip_slashes :: "string \<Rightarrow> string" where
  "strip_slashes s = rev (dropWhile (\<lambda>c. c = CHR ''/'') (rev s))"

definition bad_part :: "string \<Rightarrow> bool" where
  "bad_part p \<longleftrightarrow> p = [] \<or> p = ''.'' \<or> p = ''..'' \<or> CHR '':'' \<in> set p \<or> CHR 0x00 \<in> set p"

definition safe_member_name :: "string \<Rightarrow> string result" where
  "safe_member_name name =
     (let normalized = forward_slashes name;
          parts = split_at CHR ''/'' (strip_slashes normalized)
      in if normalized = [] \<or> starts_with_slash normalized \<or> windows_drive normalized \<or> list_ex bad_part parts
         then Inl (ArchiveReadError ''archive_unsafe'') else Inr (strip_slashes normalized))"

text \<open>\<open>casefold\<close> on U+0000 to U+00FF: letters go to lower case, the sharp s to two letters. The micro sign, whose
  folding is outside this range, is the only character with that folding and stays.\<close>

definition casefold_char :: "char \<Rightarrow> string" where
  "casefold_char c = (let n = of_char c :: nat in
     if 65 \<le> n \<and> n \<le> 90 \<or> 192 \<le> n \<and> n \<le> 222 \<and> n \<noteq> 215 then [char_of (n + 32)]
     else if n = 223 then ''ss'' else [c])"

definition casefold :: "string \<Rightarrow> string" where
  "casefold s = concat (map casefold_char s)"

definition skipped_size :: exn where "skipped_size = ArchiveReadError ''skipped_size''"

fun check_entries :: "traversal_limits \<Rightarrow> string list \<Rightarrow> int \<Rightarrow> archive_entry list \<Rightarrow> int result" where
  "check_entries l seen total_bytes [] = Inr total_bytes"
| "check_entries l seen total_bytes (e # es) =
     bindr (safe_member_name (ae_display_path e)) (\<lambda>name0.
       let name = casefold name0 in
       if name \<in> set seen \<or> ae_is_special e then Inl (ArchiveReadError ''archive_unsafe'')
       else if ae_size e < 0 \<or> tl_max_payload_bytes l < ae_size e then Inl skipped_size
       else if (case ae_compressed_size e of None \<Rightarrow> False
          | Some c \<Rightarrow> ratio_exceeded (tl_max_compression_ratio l) (ae_size e) c) then Inl skipped_size
       else check_entries l (name # seen) (total_bytes + ae_size e) es)"

record archive_reader =
  ar_limits :: traversal_limits
  ar_file_size :: int
  ar_entries :: "archive_entry list option"
  ar_total :: int

text \<open>\<open>entries\<close>: \<open>read\<close> is what the format lists; a checked list is kept.\<close>

definition reader_entries :: "archive_entry list result \<Rightarrow> archive_reader \<Rightarrow> (archive_entry list \<times> archive_reader) result" where
  "reader_entries read r =
     (case ar_entries r of
        Some es \<Rightarrow> Inr (es, r)
      | None \<Rightarrow> bindr read (\<lambda>es.
          if tl_max_archive_entries (ar_limits r) < int (length es) then Inl (ArchiveReadError ''skipped_count'')
          else bindr (check_entries (ar_limits r) [] 0 es) (\<lambda>tot.
            if tl_max_total_bytes (ar_limits r) < tot \<or> ratio_exceeded (tl_max_compression_ratio (ar_limits r)) tot (ar_file_size r)
            then Inl skipped_size
            else Inr (es, r\<lparr>ar_entries := Some es\<rparr>))))"

subsection \<open>Extraction\<close>

text \<open>
  The counters and what was written to each sink, kept when an extraction fails. A stream is its
  chunks and whether reading then fails.
\<close>

record extraction =
  xt_total :: int
  xt_extracted :: int
  xt_written :: "(string \<times> string) list"

type_synonym member_stream = "string list \<times> bool"

definition charge :: "traversal_limits \<Rightarrow> int \<Rightarrow> extraction \<Rightarrow> unit result \<times> extraction" where
  "charge l count x =
     (let x' = x\<lparr>xt_total := xt_total x + count, xt_extracted := xt_extracted x + count\<rparr>
      in if tl_max_total_bytes l < xt_total x' then (Inl skipped_size, x') else (Inr (), x'))"

definition write_sink :: "string \<Rightarrow> string \<Rightarrow> extraction \<Rightarrow> extraction" where
  "write_sink key chunk x =
     x\<lparr>xt_written := AList.update key ((case map_of (xt_written x) key of None \<Rightarrow> [] | Some s \<Rightarrow> s) @ chunk) (xt_written x)\<rparr>"

text \<open>\<open>copy\<close>: reading stops at an empty chunk.\<close>

fun copy_chunks :: "traversal_limits \<Rightarrow> archive_entry \<Rightarrow> int \<Rightarrow> string list \<Rightarrow> bool \<Rightarrow> extraction \<Rightarrow> unit result \<times> extraction" where
  "copy_chunks l e count [] broken x =
     (if broken then Inl (ArchiveReadError ''archive_unreadable'')
      else if count \<noteq> ae_size e then Inl (ArchiveReadError ''archive_unreadable'') else Inr (), x)"
| "copy_chunks l e count (chunk # chunks) broken x =
     (if chunk = [] then (if count \<noteq> ae_size e then Inl (ArchiveReadError ''archive_unreadable'') else Inr (), x)
      else let count' = count + int (length chunk) in
        if min (ae_size e) (tl_max_payload_bytes l) < count' then (Inl skipped_size, x)
        else (case charge l (int (length chunk)) x of
            (Inl err, x') \<Rightarrow> (Inl err, x')
          | (Inr _, x') \<Rightarrow> copy_chunks l e count' chunks broken (write_sink (ae_key e) chunk x')))"

text \<open>\<open>ZipArchiveReader._extract\<close>: one member after the other, each into a new sink.\<close>

fun extract_members :: "traversal_limits \<Rightarrow> (string \<Rightarrow> member_stream) \<Rightarrow> archive_entry list \<Rightarrow> extraction \<Rightarrow> unit result \<times> extraction" where
  "extract_members l stream [] x = (Inr (), x)"
| "extract_members l stream (e # es) x =
     (case stream (ae_key e) of (chunks, broken) \<Rightarrow>
        (case copy_chunks l e 0 chunks broken x of
           (Inl err, x') \<Rightarrow> (Inl err, x')
         | (Inr _, x') \<Rightarrow> extract_members l stream es x'))"

definition nothing_extracted :: "int \<Rightarrow> extraction" where
  "nothing_extracted tot = \<lparr>xt_total = tot, xt_extracted = 0, xt_written = []\<rparr>"

text \<open>\<open>unpack\<close> is the \<open>_extract\<close> of the format.\<close>

type_synonym extractor = "traversal_limits \<Rightarrow> archive_entry list \<Rightarrow> extraction \<Rightarrow> unit result \<times> extraction"

definition extract_selected ::
    "archive_entry list result \<Rightarrow> extractor \<Rightarrow> string list \<Rightarrow> archive_reader
     \<Rightarrow> extraction result \<times> extraction \<times> archive_reader" where
  "extract_selected read unpack entry_keys r =
     (let none = nothing_extracted (ar_total r) in
      case reader_entries read r of
        Inl err \<Rightarrow> (Inl err, none, r)
      | Inr (entries, r1) \<Rightarrow>
          if \<not> set entry_keys \<subseteq> set (map ae_key entries) then (Inl (ArchiveReadError ''archive_unreadable''), none, r1)
          else let selected = filter (\<lambda>e. ae_key e \<in> set entry_keys \<and> \<not> ae_is_dir e) entries in
            if list_ex ae_encrypted selected then (Inl (ArchiveReadError ''password_required''), none, r1)
            else (case unpack (ar_limits r1) selected none of
                (res, x) \<Rightarrow> (bindr res (\<lambda>_. Inr x), x, r1\<lparr>ar_total := xt_total x\<rparr>)))"

text \<open>
  7z: the library calls back, \<open>Create\<close> for the writer of a file name and \<open>Write\<close> with bytes for the
  writer that a call created; it has no others. A writer counts the bytes it has taken.
\<close>

datatype sevenz_event = Create string | Write nat string

type_synonym sevenz_state = "(archive_entry \<times> int) list \<times> extraction"

definition sevenz_create :: "archive_entry list \<Rightarrow> string \<Rightarrow> sevenz_state \<Rightarrow> unit result \<times> sevenz_state" where
  "sevenz_create selected filename w =
     (case find (\<lambda>e. ae_display_path e = filename) (rev selected) of
        None \<Rightarrow> (Inl (ArchiveReadError ''archive_unreadable''), w)
      | Some e \<Rightarrow> (Inr (), fst w @ [(e, 0)], snd w))"

definition sevenz_write :: "traversal_limits \<Rightarrow> nat \<Rightarrow> string \<Rightarrow> sevenz_state \<Rightarrow> unit result \<times> sevenz_state" where
  "sevenz_write l i bytes w =
     (case w of (writers, x) \<Rightarrow>
        if length writers \<le> i then (Inr (), w)
        else case writers ! i of (e, count) \<Rightarrow>
          if min (ae_size e) (tl_max_payload_bytes l) < count + int (length bytes) then (Inl skipped_size, w)
          else (case charge l (int (length bytes)) x of
              (Inl err, x') \<Rightarrow> (Inl err, writers, x')
            | (Inr _, x') \<Rightarrow> (Inr (), writers[i := (e, count + int (length bytes))], write_sink (ae_key e) bytes x')))"

fun sevenz_events :: "traversal_limits \<Rightarrow> archive_entry list \<Rightarrow> sevenz_event list \<Rightarrow> bool \<Rightarrow> sevenz_state \<Rightarrow> unit result \<times> sevenz_state" where
  "sevenz_events l selected [] broken w = (if broken then Inl (ArchiveReadError ''archive_unreadable'') else Inr (), w)"
| "sevenz_events l selected (ev # evs) broken w =
     (case (case ev of Create filename \<Rightarrow> sevenz_create selected filename w | Write i bytes \<Rightarrow> sevenz_write l i bytes w) of
        (Inl err, w') \<Rightarrow> (Inl err, w')
      | (Inr _, w') \<Rightarrow> sevenz_events l selected evs broken w')"

definition sevenz_extract :: "(archive_entry list \<Rightarrow> sevenz_event list \<times> bool) \<Rightarrow> extractor" where
  "sevenz_extract library l selected x =
     (case library selected of (evs, broken) \<Rightarrow>
        (case sevenz_events l selected evs broken ([], x) of
           (Inl err, w) \<Rightarrow> (Inl err, snd w)
         | (Inr _, w) \<Rightarrow>
             (if list_ex (\<lambda>(e, count). count \<noteq> ae_size e) (fst w) \<or> length (fst w) \<noteq> length selected
              then Inl (ArchiveReadError ''archive_unreadable'') else Inr (), snd w)))"

definition zip_extract :: "(string \<Rightarrow> member_stream) \<Rightarrow> extractor" where
  "zip_extract stream l selected x = extract_members l stream selected x"

text \<open>
  \<open>parse_archive\<close>: every file of the archive is handed on, with its content when the policy includes it and
  with none otherwise. The result is what \<open>process_embedded\<close> is called with, in order.
\<close>

record fed =
  fd_index :: nat
  fd_entry :: archive_entry
  fd_payload :: string

definition sink_content :: "extraction \<Rightarrow> string \<Rightarrow> string" where
  "sink_content x key = (case map_of (xt_written x) key of None \<Rightarrow> [] | Some s \<Rightarrow> s)"

definition wanted_member :: "nat \<Rightarrow> nat \<Rightarrow> (string \<Rightarrow> bool) \<Rightarrow> archive_entry \<Rightarrow> bool" where
  "wanted_member depth max_depth includes_key e \<longleftrightarrow> depth + 1 \<le> max_depth \<and> includes_key (''archive:'' @ ae_key e)"

fun feed_members :: "archive_entry list result \<Rightarrow> extractor \<Rightarrow> (archive_entry \<Rightarrow> bool) \<Rightarrow> nat \<Rightarrow> archive_entry list \<Rightarrow> archive_reader
    \<Rightarrow> unit result \<times> fed list \<times> archive_reader" where
  "feed_members read unpack wanted i [] r = (Inr (), [], r)"
| "feed_members read unpack wanted i (e # es) r =
     (if ae_is_dir e then feed_members read unpack wanted (i + 1) es r
      else if \<not> wanted e then
        (case feed_members read unpack wanted (i + 1) es r of
           (res, out, r') \<Rightarrow> (res, \<lparr>fd_index = i, fd_entry = e, fd_payload = []\<rparr> # out, r'))
      else (case extract_selected read unpack [ae_key e] r of
          (Inl err, _, r1) \<Rightarrow> (Inl err, [], r1)
        | (Inr x, _, r1) \<Rightarrow>
            (case feed_members read unpack wanted (i + 1) es r1 of
               (res, out, r') \<Rightarrow>
                 (res, \<lparr>fd_index = i, fd_entry = e,
                        fd_payload = take (nat (tl_max_payload_bytes (ar_limits r1) + 1)) (sink_content x (ae_key e))\<rparr> # out, r'))))"

definition parse_archive :: "archive_entry list result \<Rightarrow> extractor \<Rightarrow> nat \<Rightarrow> nat \<Rightarrow> (string \<Rightarrow> bool) \<Rightarrow> archive_reader
    \<Rightarrow> unit result \<times> fed list \<times> archive_reader" where
  "parse_archive read unpack depth max_depth includes_key r =
     (case reader_entries read r of
        Inl err \<Rightarrow> (Inl err, [], r)
      | Inr (entries, r1) \<Rightarrow> feed_members read unpack (wanted_member depth max_depth includes_key) 0 entries r1)"

subsection \<open>What is written\<close>

definition written :: "extraction \<Rightarrow> string \<Rightarrow> int" where
  "written x key = (case map_of (xt_written x) key of None \<Rightarrow> 0 | Some s \<Rightarrow> int (length s))"

definition written_total :: "extraction \<Rightarrow> int" where
  "written_total x = sum_list (map (\<lambda>p. int (length (snd p))) (xt_written x))"

lemma sum_update_append:
  "sum_list (map (\<lambda>p. int (length (snd p))) (AList.update k ((case map_of al k of None \<Rightarrow> [] | Some s \<Rightarrow> s) @ c) al))
   = sum_list (map (\<lambda>p. int (length (snd p))) al) + int (length c)"
  by (induction al) auto

lemma write_sink_simps [simp]:
  "written_total (write_sink key c x) = written_total x + int (length c)"
  "written (write_sink key c x) k = (if k = key then written x key + int (length c) else written x k)"
  "xt_total (write_sink key c x) = xt_total x"
  by (auto simp: written_total_def write_sink_def sum_update_append written_def update_conv' split: option.splits)

lemma lengths_nonneg: "0 \<le> (\<Sum>p\<leftarrow>al. int (length (snd p)))"
  by (induction al) auto

lemma map_of_le_sum: "map_of al k = Some s \<Longrightarrow> int (length s) \<le> (\<Sum>p\<leftarrow>al. int (length (snd p)))"
  by (induction al) (auto split: if_splits simp: lengths_nonneg)

lemma content_le_total: "int (length (sink_content x key)) \<le> written_total x"
  by (auto simp: sink_content_def written_total_def lengths_nonneg map_of_le_sum split: option.splits)

lemma charge_cases:
  "charge l n x = (Inr (), x\<lparr>xt_total := xt_total x + n, xt_extracted := xt_extracted x + n\<rparr>) \<and> xt_total x + n \<le> tl_max_total_bytes l \<or>
   charge l n x = (Inl skipped_size, x\<lparr>xt_total := xt_total x + n, xt_extracted := xt_extracted x + n\<rparr>)"
  by (auto simp: charge_def Let_def)

lemma written_counters [simp]:
  "written (x\<lparr>xt_total := a, xt_extracted := b\<rparr>) = written x" "written_total (x\<lparr>xt_total := a, xt_extracted := b\<rparr>) = written_total x"
  by (simp_all add: written_def written_total_def fun_eq_iff)

text \<open>
  Counters of an extraction that began with \<open>start\<close> bytes: exact while it goes well, and never over the
  limit in what was written.
\<close>

definition exact :: "traversal_limits \<Rightarrow> int \<Rightarrow> extraction \<Rightarrow> bool" where
  "exact l start x \<longleftrightarrow> written_total x + start = xt_total x \<and> xt_total x \<le> tl_max_total_bytes l"

definition within :: "traversal_limits \<Rightarrow> int \<Rightarrow> extraction \<Rightarrow> bool" where
  "within l start x \<longleftrightarrow> written_total x + start \<le> tl_max_total_bytes l"

lemma exact_within: "exact l start x \<Longrightarrow> within l start x"
  by (simp add: exact_def within_def)

definition copied :: "traversal_limits \<Rightarrow> archive_entry \<Rightarrow> int \<Rightarrow> extraction \<Rightarrow> unit result \<Rightarrow> extraction \<Rightarrow> bool" where
  "copied l e start x res x' \<longleftrightarrow> within l start x' \<and> written x' (ae_key e) \<le> min (ae_size e) (tl_max_payload_bytes l) \<and>
     (\<forall>k. k \<noteq> ae_key e \<longrightarrow> written x' k = written x k) \<and>
     (is_ok res \<longrightarrow> exact l start x' \<and> written x' (ae_key e) = ae_size e)"

lemma copy_chunks_copied:
  assumes "exact l start x" and "written x (ae_key e) = count" and "count \<le> min (ae_size e) (tl_max_payload_bytes l)"
  shows "copied l e start x (fst (copy_chunks l e count chunks broken x)) (snd (copy_chunks l e count chunks broken x))"
  using assms
proof (induction l e count chunks broken x rule: copy_chunks.induct)
  case (1 l e count broken x)
  then show ?case by (auto simp: copied_def exact_within)
next
  case (2 l e count chunk chunks broken x)
  let ?n = "int (length chunk)" and ?x = "x\<lparr>xt_total := xt_total x + int (length chunk), xt_extracted := xt_extracted x + int (length chunk)\<rparr>"
  consider (eof) "chunk = []" | (over) "chunk \<noteq> []" "min (ae_size e) (tl_max_payload_bytes l) < count + ?n"
    | (refused) "chunk \<noteq> []" "\<not> min (ae_size e) (tl_max_payload_bytes l) < count + ?n" "charge l ?n x = (Inl skipped_size, ?x)"
    | (written) "chunk \<noteq> []" "\<not> min (ae_size e) (tl_max_payload_bytes l) < count + ?n" "charge l ?n x = (Inr (), ?x)"
        "xt_total x + ?n \<le> tl_max_total_bytes l"
    using charge_cases [of l ?n x] by blast
  then show ?case
  proof cases
    case eof
    then show ?thesis using "2.prems" by (auto simp: copied_def exact_within)
  next
    case over
    then show ?thesis using "2.prems" by (auto simp: copied_def exact_within Let_def)
  next
    case refused
    then show ?thesis using "2.prems" by (auto simp: copied_def Let_def exact_def within_def)
  next
    case written
    let ?y = "write_sink (ae_key e) chunk ?x"
    have y: "exact l start ?y" "written ?y (ae_key e) = count + ?n" "count + ?n \<le> min (ae_size e) (tl_max_payload_bytes l)"
      using "2.prems" written by (auto simp: exact_def)
    from "2.IH" [OF written(1) refl written(2) written(3) [symmetric] refl y] show ?thesis
      using written by (simp add: Let_def copied_def)
  qed
qed

subsection \<open>Every member and the whole\<close>

definition member_bounded :: "traversal_limits \<Rightarrow> extraction \<Rightarrow> archive_entry \<Rightarrow> bool" where
  "member_bounded l x e \<longleftrightarrow> written x (ae_key e) \<le> min (ae_size e) (tl_max_payload_bytes l)"

definition size_ok :: "traversal_limits \<Rightarrow> archive_entry \<Rightarrow> bool" where
  "size_ok l e \<longleftrightarrow> 0 \<le> ae_size e \<and> ae_size e \<le> tl_max_payload_bytes l"

definition extracted_ok :: "traversal_limits \<Rightarrow> int \<Rightarrow> archive_entry list \<Rightarrow> extraction \<Rightarrow> unit result \<Rightarrow> extraction \<Rightarrow> bool" where
  "extracted_ok l start es x res x' \<longleftrightarrow> within l start x' \<and> list_all (member_bounded l x') es \<and>
     (\<forall>k. k \<notin> ae_key ` set es \<longrightarrow> written x' k = written x k) \<and>
     (is_ok res \<longrightarrow> exact l start x' \<and> list_all (\<lambda>e. written x' (ae_key e) = ae_size e) es)"

lemma list_all_other_key:
  assumes "list_all (\<lambda>e. written x (ae_key e) = 0 \<and> size_ok l e) es" "k \<notin> ae_key ` set es"
    and "\<And>j. j \<noteq> k \<Longrightarrow> written y j = written x j"
  shows "list_all (\<lambda>e. written y (ae_key e) = 0 \<and> size_ok l e) es"
  using assms by (metis (no_types, lifting) list_all_iff imageI)

lemma extract_members_ok:
  assumes "exact l start x" "distinct (map ae_key es)" "list_all (\<lambda>e. written x (ae_key e) = 0 \<and> size_ok l e) es"
  shows "extracted_ok l start es x (fst (extract_members l stream es x)) (snd (extract_members l stream es x))"
  using assms
proof (induction es arbitrary: x)
  case Nil
  then show ?case by (simp add: extracted_ok_def exact_within)
next
  case (Cons e es)
  obtain chunks broken where s: "stream (ae_key e) = (chunks, broken)" by (cases "stream (ae_key e)")
  obtain res y where c: "copy_chunks l e 0 chunks broken x = (res, y)" by (cases "copy_chunks l e 0 chunks broken x")
  have copied: "copied l e start x res y"
    using copy_chunks_copied [of l start x e 0 chunks broken] Cons.prems c by (simp add: size_ok_def)
  have rest: "list_all (\<lambda>e. written y (ae_key e) = 0 \<and> size_ok l e) es"
    by (rule list_all_other_key [of x l es "ae_key e"]) (use Cons.prems copied in \<open>auto simp: copied_def\<close>)
  show ?case
  proof (cases res)
    case (Inl err)
    from rest have "list_all (member_bounded l y) es" by (auto simp: list_all_iff member_bounded_def size_ok_def)
    then show ?thesis using Inl s c copied by (auto simp: extracted_ok_def copied_def member_bounded_def)
  next
    case (Inr u)
    then have "extracted_ok l start es y (fst (extract_members l stream es y)) (snd (extract_members l stream es y))"
      using Cons rest copied by (simp add: copied_def)
    then show ?thesis using Inr s c copied Cons.prems by (auto simp: extracted_ok_def copied_def member_bounded_def)
  qed
qed

subsection \<open>A checked listing\<close>

text \<open>Names that no extraction can turn into another place, and of which no two are one file anywhere.\<close>

definition entry_name :: "archive_entry \<Rightarrow> string" where
  "entry_name e = (case safe_member_name (ae_display_path e) of Inr n \<Rightarrow> casefold n | Inl _ \<Rightarrow> [])"

definition entry_ok :: "traversal_limits \<Rightarrow> archive_entry \<Rightarrow> bool" where
  "entry_ok l e \<longleftrightarrow> is_ok (safe_member_name (ae_display_path e)) \<and> \<not> ae_is_special e \<and> size_ok l e \<and>
     (case ae_compressed_size e of None \<Rightarrow> True | Some c \<Rightarrow> ae_size e \<le> tl_max_compression_ratio l * max c 1)"

lemma check_entries_ok:
  assumes "check_entries l seen total_bytes es = Inr tot"
  shows "list_all (entry_ok l) es \<and> distinct (map entry_name es) \<and> set (map entry_name es) \<inter> set seen = {} \<and>
    tot = total_bytes + sum_list (map ae_size es)"
  using assms
proof (induction es arbitrary: seen total_bytes)
  case (Cons e es)
  from Cons.prems obtain n where n: "safe_member_name (ae_display_path e) = Inr n"
    by (cases "safe_member_name (ae_display_path e)") (auto simp: bindr_def)
  from Cons.prems n have "casefold n \<notin> set seen" and "check_entries l (casefold n # seen) (total_bytes + ae_size e) es = Inr tot"
    and "entry_ok l e"
    by (auto simp: bindr_def Let_def entry_ok_def size_ok_def ratio_exceeded_def split: if_splits option.splits)
  with Cons.IH [OF this(2)] n show ?case by (auto simp: entry_name_def)
qed simp

definition listing_ok :: "archive_reader \<Rightarrow> archive_entry list \<Rightarrow> bool" where
  "listing_ok r es \<longleftrightarrow> int (length es) \<le> tl_max_archive_entries (ar_limits r) \<and> list_all (entry_ok (ar_limits r)) es \<and>
     distinct (map entry_name es) \<and> distinct (map ae_key es) \<and>
     sum_list (map ae_size es) \<le> tl_max_total_bytes (ar_limits r) \<and>
     sum_list (map ae_size es) \<le> tl_max_compression_ratio (ar_limits r) * max (ar_file_size r) 1"

definition reader_ok :: "archive_reader \<Rightarrow> bool" where
  "reader_ok r \<longleftrightarrow> (case ar_entries r of None \<Rightarrow> True | Some es \<Rightarrow> listing_ok r es)"

definition distinct_keys :: "archive_entry list result \<Rightarrow> bool" where
  "distinct_keys read = (case read of Inl _ \<Rightarrow> True | Inr es \<Rightarrow> distinct (map ae_key es))"

lemma reader_entries_ok:
  assumes "reader_entries read r = Inr (es, r')" "reader_ok r" "distinct_keys read"
  shows "listing_ok r' es \<and> reader_ok r' \<and> ar_limits r' = ar_limits r \<and> ar_total r' = ar_total r \<and> ar_entries r' = Some es"
proof (cases "ar_entries r")
  case None
  from assms(1) None obtain tot where read: "read = Inr es" and r': "r' = r\<lparr>ar_entries := Some es\<rparr>"
    and "check_entries (ar_limits r) [] 0 es = Inr tot"
    and "\<not> tl_max_archive_entries (ar_limits r) < int (length es)"
    and "\<not> (tl_max_total_bytes (ar_limits r) < tot \<or> ratio_exceeded (tl_max_compression_ratio (ar_limits r)) tot (ar_file_size r))"
    by (auto simp: reader_entries_def elim!: bindrE split: if_splits)
  with check_entries_ok [OF this(3)] assms(3) read
  show ?thesis by (auto simp: r' listing_ok_def reader_ok_def distinct_keys_def ratio_exceeded_def)
next
  case (Some es')
  then show ?thesis using assms by (auto simp: reader_entries_def reader_ok_def)
qed

subsection \<open>Formats\<close>

lemma nothing_extracted_simps [simp]:
  "written (nothing_extracted tot) k = 0" "written_total (nothing_extracted tot) = 0" "xt_total (nothing_extracted tot) = tot"
  "exact l start (nothing_extracted tot) \<longleftrightarrow> start = tot \<and> tot \<le> tl_max_total_bytes l"
  "within l start (nothing_extracted tot) \<longleftrightarrow> start \<le> tl_max_total_bytes l"
  by (auto simp: nothing_extracted_def written_def written_total_def exact_def within_def)

lemma reader_entries_same:
  assumes "reader_entries read r = Inr (es, r')"
  shows "ar_limits r' = ar_limits r \<and> ar_total r' = ar_total r \<and> ar_entries r' = Some es"
  using assms by (auto simp: reader_entries_def elim!: bindrE split: if_splits option.splits)

lemma extract_selectedE:
  assumes "extract_selected read unpack keys r = (res, x, r')"
  obtains (refused) err where "res = Inl err" "x = nothing_extracted (ar_total r)"
  | (run) entries r1 out where "reader_entries read r = Inr (entries, r1)" "set keys \<subseteq> set (map ae_key entries)"
      "unpack (ar_limits r) (filter (\<lambda>e. ae_key e \<in> set keys \<and> \<not> ae_is_dir e) entries) (nothing_extracted (ar_total r)) = (out, x)"
      "res = bindr out (\<lambda>_. Inr x)" "r' = r1\<lparr>ar_total := xt_total x\<rparr>"
proof (cases "reader_entries read r")
  case (Inl err)
  then show ?thesis using assms refused by (auto simp: extract_selected_def)
next
  case (Inr p)
  obtain entries r1 where p: "p = (entries, r1)" by (cases p)
  show ?thesis
  proof (cases "set keys \<subseteq> set (map ae_key entries) \<and> \<not> list_ex ae_encrypted (filter (\<lambda>e. ae_key e \<in> set keys \<and> \<not> ae_is_dir e) entries)")
    case False
    then show ?thesis using assms refused Inr p by (auto simp: extract_selected_def Let_def split: if_splits)
  next
    case True
    then show ?thesis using assms run [of entries r1] Inr p reader_entries_same [of read r entries r1]
      by (auto simp: extract_selected_def Let_def split: if_splits prod.splits)
  qed
qed

text \<open>What every format's \<open>_extract\<close> keeps of the counters.\<close>

locale archive_format =
  fixes unpack :: extractor
  assumes extract_within: "exact l start x \<Longrightarrow> within l start (snd (unpack l es x))"
    and extract_exact: "exact l start x \<Longrightarrow> unpack l es x = (Inr (), y) \<Longrightarrow> exact l start y"
begin

lemma selected_within:
  assumes "extract_selected read unpack keys r = (res, x, r')" "ar_total r \<le> tl_max_total_bytes (ar_limits r)"
  shows "written_total x + ar_total r \<le> tl_max_total_bytes (ar_limits r)"
  using assms(1)
proof (cases rule: extract_selectedE)
  case (run entries r1 out)
  with extract_within [of "ar_limits r" "ar_total r" "nothing_extracted (ar_total r)"] assms(2)
  show ?thesis by (metis nothing_extracted_simps(4) snd_conv within_def)
qed (use assms(2) in simp)

lemma selected_exact:
  assumes "extract_selected read unpack keys r = (Inr y, x, r')" "ar_total r \<le> tl_max_total_bytes (ar_limits r)"
  shows "y = x \<and> ar_limits r' = ar_limits r \<and> ar_total r' = ar_total r + written_total x \<and>
    ar_total r' \<le> tl_max_total_bytes (ar_limits r')"
  using assms(1)
proof (cases rule: extract_selectedE)
  case (run entries r1 out)
  from run(4) have "out = Inr ()" and "y = x" by (cases out; simp)+
  with run(3) assms(2) have "exact (ar_limits r) (ar_total r) x"
    by (auto intro: extract_exact [of _ _ "nothing_extracted (ar_total r)"])
  then show ?thesis using run(5) reader_entries_same [OF run(1)] \<open>y = x\<close> by (simp add: exact_def)
qed simp

text \<open>All that an archive hands on, over every extraction.\<close>

lemma fed_within:
  assumes "feed_members read unpack wanted i es r = (res, out, r')" "ar_total r \<le> tl_max_total_bytes (ar_limits r)"
  shows "sum_list (map (\<lambda>f. int (length (fd_payload f))) out) + ar_total r \<le> tl_max_total_bytes (ar_limits r)"
  using assms
proof (induction es arbitrary: i r res out r')
  case Nil
  then show ?case by simp
next
  case (Cons e es)
  consider (dir) "ae_is_dir e" | (skipped) "\<not> ae_is_dir e" "\<not> wanted e"
    | (failed) err x r1 where "\<not> ae_is_dir e" "wanted e" "extract_selected read unpack [ae_key e] r = (Inl err, x, r1)"
    | (fed) y x r1 where "\<not> ae_is_dir e" "wanted e" "extract_selected read unpack [ae_key e] r = (Inr y, x, r1)"
    by (metis sum.exhaust prod.exhaust)
  then show ?case
  proof cases
    case dir
    then show ?thesis using Cons by simp
  next
    case skipped
    then show ?thesis using Cons.prems Cons.IH [of "i + 1" r] by (auto split: prod.splits)
  next
    case failed
    then show ?thesis using Cons.prems by auto
  next
    case (fed y x r1)
    note sel = selected_exact [OF fed(3) Cons.prems(2)]
    obtain res2 out2 r2 where rest: "feed_members read unpack wanted (i + 1) es r1 = (res2, out2, r2)"
      by (cases "feed_members read unpack wanted (i + 1) es r1")
    have "ar_total r1 \<le> tl_max_total_bytes (ar_limits r1)" using sel by blast
    from Cons.IH [OF rest this] sel
    have "sum_list (map (\<lambda>f. int (length (fd_payload f))) out2) + ar_total r1 \<le> tl_max_total_bytes (ar_limits r)" by simp
    moreover have "int (length (sink_content x (ae_key e))) \<le> written_total x" by (rule content_le_total)
    ultimately show ?thesis using Cons.prems(1) fed rest sel by (auto split: prod.splits)
  qed
qed

end

lemma copy_chunks_counters:
  assumes "exact l start x"
  shows "within l start (snd (copy_chunks l e count chunks broken x)) \<and>
    (is_ok (fst (copy_chunks l e count chunks broken x)) \<longrightarrow> exact l start (snd (copy_chunks l e count chunks broken x)))"
  using assms
proof (induction l e count chunks broken x rule: copy_chunks.induct)
  case (2 l e count chunk chunks broken x)
  let ?n = "int (length chunk)"
  show ?case
  proof (cases "chunk = [] \<or> min (ae_size e) (tl_max_payload_bytes l) < count + ?n \<or> xt_total x + ?n > tl_max_total_bytes l")
    case True
    then show ?thesis using 2(2) by (auto simp: exact_within Let_def charge_def within_def exact_def)
  next
    case False
    then show ?thesis using 2 by (auto simp: Let_def charge_def exact_def)
  qed
qed (simp add: exact_within)

lemma extract_members_counters:
  assumes "exact l start x"
  shows "within l start (snd (extract_members l stream es x)) \<and>
    (is_ok (fst (extract_members l stream es x)) \<longrightarrow> exact l start (snd (extract_members l stream es x)))"
  using assms
proof (induction es arbitrary: x)
  case (Cons e es)
  obtain chunks broken where s: "stream (ae_key e) = (chunks, broken)" by (cases "stream (ae_key e)")
  with Cons copy_chunks_counters [OF Cons.prems, of e 0 chunks broken]
  show ?case by (auto split: prod.split sum.split)
qed (simp add: exact_within)

interpretation zip: archive_format "zip_extract stream"
proof
  show "within l start (snd (zip_extract stream l es x))" if "exact l start x" for l start x es
    using extract_members_counters [OF that] by (simp add: zip_extract_def)
  show "exact l start y" if "exact l start x" "zip_extract stream l es x = (Inr (), y)" for l start x es y
    using extract_members_counters [OF that(1), of stream es] that(2) by (simp add: zip_extract_def)
qed

lemma sevenz_create_same: "snd (snd (sevenz_create selected filename w)) = snd w"
  by (simp add: sevenz_create_def split: option.split)

lemma sevenz_write_counters:
  assumes "exact l start (snd w)"
  shows "within l start (snd (snd (sevenz_write l i bytes w))) \<and>
    (is_ok (fst (sevenz_write l i bytes w)) \<longrightarrow> exact l start (snd (snd (sevenz_write l i bytes w))))"
  using assms by (auto simp: sevenz_write_def charge_def Let_def exact_def within_def split: prod.split)

lemma sevenz_events_counters:
  assumes "exact l start (snd w)"
  shows "within l start (snd (snd (sevenz_events l selected evs broken w))) \<and>
    (is_ok (fst (sevenz_events l selected evs broken w)) \<longrightarrow> exact l start (snd (snd (sevenz_events l selected evs broken w))))"
  using assms
proof (induction evs arbitrary: w)
  case (Cons ev evs)
  let ?step = "case ev of Create filename \<Rightarrow> sevenz_create selected filename w | Write i bytes \<Rightarrow> sevenz_write l i bytes w"
  have step: "within l start (snd (snd ?step)) \<and> (is_ok (fst ?step) \<longrightarrow> exact l start (snd (snd ?step)))"
    using sevenz_write_counters [OF Cons.prems] Cons.prems
    by (auto simp: sevenz_create_same exact_within split: sevenz_event.split)
  then show ?case using Cons.IH by (cases ?step; cases "fst ?step") auto
qed (simp add: exact_within)

interpretation sevenz: archive_format "sevenz_extract library"
proof
  show "within l start (snd (sevenz_extract library l es x))" if "exact l start x" for l start x es
    using sevenz_events_counters [of l start "([], x)" es "fst (library es)" "snd (library es)"] that
    by (auto simp: sevenz_extract_def split: prod.splits sum.splits)
  show "exact l start y" if "exact l start x" "sevenz_extract library l es x = (Inr (), y)" for l start x es y
    using sevenz_events_counters [of l start "([], x)" es "fst (library es)" "snd (library es)"] that
    by (auto simp: sevenz_extract_def split: prod.splits sum.splits if_splits)
qed

subsection \<open>What an archive hands on\<close>

lemma filter_one_key:
  assumes "distinct (map f xs)" "e \<in> set xs" "P e"
  shows "filter (\<lambda>d. f d \<in> {f e} \<and> P d) xs = [e]"
  using assms
proof (induction xs)
  case (Cons x xs)
  show ?case
  proof (cases "x = e")
    case True
    then have "filter (\<lambda>d. f d \<in> {f e} \<and> P d) xs = []" using Cons.prems by (auto simp: filter_empty_conv) (metis rev_image_eqI)
    then show ?thesis using True Cons.prems by simp
  next
    case False
    then show ?thesis using Cons by (auto simp: image_iff)
  qed
qed simp

lemma length_sink_content: "int (length (sink_content x key)) = written x key"
  by (simp add: sink_content_def written_def split: option.split)

lemma zip_member_exact:
  assumes "extract_selected read (zip_extract stream) [ae_key e] r = (Inr y, x, r')" "ar_entries r = Some entries"
    and "listing_ok r entries" "e \<in> set entries" "\<not> ae_is_dir e" "ar_total r \<le> tl_max_total_bytes (ar_limits r)"
  shows "written x (ae_key e) = ae_size e \<and> size_ok (ar_limits r) e \<and> r' = r\<lparr>ar_total := xt_total x\<rparr>"
  using assms(1)
proof (cases rule: extract_selectedE)
  case (run entries' r1 out)
  from run(1) assms(2) have "entries' = entries" "r1 = r" by (auto simp: reader_entries_def)
  moreover have "filter (\<lambda>d. ae_key d \<in> {ae_key e} \<and> \<not> ae_is_dir d) entries = [e]"
    by (rule filter_one_key) (use assms in \<open>auto simp: listing_ok_def\<close>)
  ultimately have one: "extract_members (ar_limits r) stream [e] (nothing_extracted (ar_total r)) = (out, x)"
    using run(3) by (simp add: zip_extract_def)
  have e: "size_ok (ar_limits r) e" using assms(3,4) by (auto simp: listing_ok_def entry_ok_def list_all_iff)
  have "extracted_ok (ar_limits r) (ar_total r) [e] (nothing_extracted (ar_total r)) out x"
    using extract_members_ok [of "ar_limits r" "ar_total r" "nothing_extracted (ar_total r)" "[e]" stream] one e assms(6) by simp
  moreover have "out = Inr ()" using run(4) by (cases out) auto
  ultimately show ?thesis using e run(5) \<open>r1 = r\<close> by (auto simp: extracted_ok_def)
qed simp

definition fed_sized :: "(archive_entry \<Rightarrow> bool) \<Rightarrow> fed \<Rightarrow> bool" where
  "fed_sized wanted f \<longleftrightarrow> int (length (fd_payload f)) = (if wanted (fd_entry f) then ae_size (fd_entry f) else 0)"

definition fed_ok :: "(archive_entry \<Rightarrow> bool) \<Rightarrow> archive_entry list \<Rightarrow> unit result \<Rightarrow> fed list \<Rightarrow> bool" where
  "fed_ok wanted es res out \<longleftrightarrow> map fd_entry out = take (length out) (filter (\<lambda>e. \<not> ae_is_dir e) es) \<and>
     (is_ok res \<longrightarrow> length out = length (filter (\<lambda>e. \<not> ae_is_dir e) es)) \<and>
     list_all (fed_sized wanted) out"

lemma listing_ok_total [simp]: "listing_ok (r\<lparr>ar_total := t\<rparr>) es = listing_ok r es"
  by (simp add: listing_ok_def)

lemma feed_zip_ok:
  assumes "feed_members read (zip_extract stream) wanted i es r = (res, out, r')" "ar_entries r = Some entries"
    and "listing_ok r entries" "set es \<subseteq> set entries" "ar_total r \<le> tl_max_total_bytes (ar_limits r)"
  shows "fed_ok wanted es res out"
  using assms
proof (induction es arbitrary: i r res out r')
  case Nil
  then show ?case by (auto simp: fed_ok_def)
next
  case (Cons e es)
  consider (dir) "ae_is_dir e" | (skipped) "\<not> ae_is_dir e" "\<not> wanted e"
    | (failed) err x r1 where "\<not> ae_is_dir e" "wanted e" "extract_selected read (zip_extract stream) [ae_key e] r = (Inl err, x, r1)"
    | (fed) y x r1 where "\<not> ae_is_dir e" "wanted e" "extract_selected read (zip_extract stream) [ae_key e] r = (Inr y, x, r1)"
    by (metis sum.exhaust prod.exhaust)
  then show ?case
  proof cases
    case dir
    then show ?thesis using Cons by (simp add: fed_ok_def)
  next
    case skipped
    then show ?thesis using Cons.prems Cons.IH [of "i + 1" r] by (auto simp: fed_ok_def fed_sized_def split: prod.splits)
  next
    case failed
    then show ?thesis using Cons.prems by (auto simp: fed_ok_def)
  next
    case (fed y x r1)
    have e: "written x (ae_key e) = ae_size e" "size_ok (ar_limits r) e" "r1 = r\<lparr>ar_total := xt_total x\<rparr>"
      using zip_member_exact [OF fed(3) Cons.prems(2,3)] Cons.prems(4,5) fed(1) by auto
    have "y = x" and "ar_total r1 \<le> tl_max_total_bytes (ar_limits r1)"
      using zip.selected_exact [OF fed(3) Cons.prems(5)] by blast+
    obtain res2 out2 r2 where rest: "feed_members read (zip_extract stream) wanted (i + 1) es r1 = (res2, out2, r2)"
      by (cases "feed_members read (zip_extract stream) wanted (i + 1) es r1")
    have "fed_ok wanted es res2 out2"
      using Cons.IH [OF rest] Cons.prems \<open>ar_total r1 \<le> _\<close> e(3) by simp
    moreover have "length (sink_content x (ae_key e)) \<le> nat (tl_max_payload_bytes (ar_limits r1) + 1)"
      using e length_sink_content [of x "ae_key e"] by (simp add: size_ok_def)
    ultimately show ?thesis
      using Cons.prems(1) fed rest e \<open>y = x\<close> length_sink_content [of x "ae_key e"] by (auto simp: fed_ok_def fed_sized_def)
  qed
qed

definition fed_bytes :: "unit result \<times> fed list \<times> archive_reader \<Rightarrow> int" where
  "fed_bytes p = sum_list (map (\<lambda>f. int (length (fd_payload f))) (fst (snd p)))"

lemma parse_within:
  assumes "archive_format unpack" "ar_total r \<le> tl_max_total_bytes (ar_limits r)"
  shows "fed_bytes (parse_archive read unpack depth max_depth includes_key r) + ar_total r \<le> tl_max_total_bytes (ar_limits r)"
proof (cases "reader_entries read r")
  case (Inr p)
  obtain es r1 where p: "p = (es, r1)" by (cases p)
  obtain res out r2 where f: "feed_members read unpack (wanted_member depth max_depth includes_key) 0 es r1 = (res, out, r2)"
    by (cases "feed_members read unpack (wanted_member depth max_depth includes_key) 0 es r1")
  have "ar_limits r1 = ar_limits r" "ar_total r1 = ar_total r" using reader_entries_same Inr p by blast+
  then show ?thesis using archive_format.fed_within [OF assms(1) f] assms(2) Inr p f
    by (simp add: parse_archive_def fed_bytes_def)
qed (use assms(2) in \<open>simp add: parse_archive_def fed_bytes_def\<close>)


definition example_limits :: traversal_limits where
  "example_limits = default_traversal_limits\<lparr>tl_max_total_bytes := 5, tl_max_payload_bytes := 4\<rparr>"

definition example_entry :: "string \<Rightarrow> string \<Rightarrow> int \<Rightarrow> archive_entry" where
  "example_entry key path n = \<lparr>ae_key = key, ae_display_path = path, ae_size = n, ae_compressed_size = Some n,
     ae_is_dir = False, ae_is_special = False, ae_encrypted = False\<rparr>"

definition example_archive :: "archive_entry list" where
  "example_archive = [example_entry ''0'' ''a/b.txt'' 2, example_entry ''1'' ''c.txt'' 3]"

definition example_reader :: archive_reader where
  "example_reader = \<lparr>ar_limits = example_limits, ar_file_size = 100, ar_entries = None, ar_total = 0\<rparr>"

definition example_stream :: "string \<Rightarrow> member_stream" where
  "example_stream key = (if key = ''0'' then ([''h'', ''i''], False) else ([''yes!'', ''no''], False))"

definition example_library :: "archive_entry list \<Rightarrow> sevenz_event list \<times> bool" where
  "example_library es = (Create ''a/b.txt'' # [Write 0 ''hi''], False)"


definition is_error :: "unit result \<Rightarrow> bool" where
  "is_error res = (case res of Inl _ \<Rightarrow> True | Inr _ \<Rightarrow> False)"

text \<open>
  What a ZIP archive hands on: its files in their order and no others, up to the first that
  cannot be extracted and all of them on success; for each included file exactly the declared bytes, for
  each other file none. Their names are relative, without a part that leads upwards, and
  no two are equal without regard to case.
\<close>

theorem zip_members_exact:
  assumes "parse_archive (Inr es) (zip_extract stream) depth max_depth includes_key r = (res, out, r')" "ar_entries r = None"
    and "distinct (map ae_key es)" "ar_total r \<le> tl_max_total_bytes (ar_limits r)"
  shows "is_error res \<and> out = [] \<or> fed_ok (wanted_member depth max_depth includes_key) es res out \<and> distinct (map entry_name es) \<and>
    list_all (entry_ok (ar_limits r)) es"
proof (cases "reader_entries (Inr es) r")
  case (Inl err)
  then show ?thesis using assms(1) by (auto simp: parse_archive_def is_error_def)
next
  case (Inr p)
  obtain es' r1 where p: "p = (es', r1)" by (cases p)
  have same: "es' = es" using Inr p assms(2) by (auto simp: reader_entries_def elim!: bindrE split: if_splits)
  note read = reader_entries_ok [OF Inr [unfolded p]]
  have r: "reader_ok r" "distinct_keys (Inr es)" using assms(2,3) by (simp_all add: reader_ok_def distinct_keys_def)
  have f: "feed_members (Inr es) (zip_extract stream) (wanted_member depth max_depth includes_key) 0 es r1 = (res, out, r')"
    using assms(1) Inr p same by (simp add: parse_archive_def)
  have "fed_ok (wanted_member depth max_depth includes_key) es res out"
    by (rule feed_zip_ok [OF f]) (use read [OF r] assms(4) same in auto)
  then show ?thesis using read [OF r] same by (auto simp: listing_ok_def)
qed

theorem zip_members_exact_witness:
  "\<exists>res out r'. parse_archive (Inr example_archive) (zip_extract example_stream) 1 6 (\<lambda>key. True) example_reader = (res, out, r') \<and>
     res = Inl skipped_size \<and> map fd_payload out = [''hi''] \<and> fed_ok (wanted_member 1 6 (\<lambda>key. True)) example_archive res out"
proof -
  let ?out = "[\<lparr>fd_index = 0, fd_entry = example_entry ''0'' ''a/b.txt'' 2, fd_payload = ''hi''\<rparr>]"
  let ?p = "parse_archive (Inr example_archive) (zip_extract example_stream) 1 6 (\<lambda>key. True) example_reader"
  have p: "fst ?p = Inl skipped_size" "fst (snd ?p) = ?out" by code_simp+
  obtain r' where run: "?p = (Inl skipped_size, ?out, r')" by (cases ?p) (use p in auto)
  have "ar_entries example_reader = None" "distinct (map ae_key example_archive)"
    "ar_total example_reader \<le> tl_max_total_bytes (ar_limits example_reader)" by code_simp+
  from zip_members_exact [OF run this] run show ?thesis by auto
qed

end
