(* ===== verification/Table_Regions.thy ===== *)
theory Table_Regions
  imports Prelude "HOL-Library.AList"
begin

text \<open>
  How a worksheet is taken into tables (\<open>table_model.py\<close>, \<open>detect_table_regions\<close>, \<open>combine_numbered_regions\<close> and
  \<open>split_stacked_regions\<close> of \<open>table_headers.py\<close>, and their composition in \<open>parse_structural_xlsx\<close>). A dict
  of cells is the association list in its insertion order; a float is its \<open>repr\<close>. The rows of a sheet are a list, as the
  code reads them anew from the file for every pass.
\<close>

subsection \<open>Cells, rows and ranges\<close>

record cell_address =
  ca_row :: int
  ca_column :: int

record cell_range =
  cr_sheet_index :: int
  cr_min_row :: int
  cr_min_column :: int
  cr_max_row :: int
  cr_max_column :: int

definition range_of :: "int \<Rightarrow> int \<Rightarrow> int \<Rightarrow> int \<Rightarrow> int \<Rightarrow> cell_range" where
  "range_of sheet r1 c1 r2 c2 = \<lparr>cr_sheet_index = sheet, cr_min_row = r1, cr_min_column = c1, cr_max_row = r2, cr_max_column = c2\<rparr>"

definition contains_cell :: "cell_range \<Rightarrow> int \<Rightarrow> int \<Rightarrow> bool" where
  "contains_cell a row column \<longleftrightarrow> cr_min_row a \<le> row \<and> row \<le> cr_max_row a \<and> cr_min_column a \<le> column \<and> column \<le> cr_max_column a"

datatype cell_value = Text string | Whole int | Float string | Truth bool | No_Value

datatype cell_state = Value_State | Blank_State | Formula_Missing | Error_State

record table_cell =
  tc_address :: string
  tc_raw_value :: cell_value
  tc_display_text :: string
  tc_value_type :: string
  tc_number_format :: string
  tc_formula :: "string option"
  tc_cached_value :: cell_value
  tc_state :: cell_state
  tc_merge_anchor :: "string option"
  tc_hidden :: bool

record table_row =
  tr_row_number :: int
  tr_cells :: "(int \<times> table_cell) list"
  tr_hidden :: bool

text \<open>\<open>_occupied\<close>, and the truth value of \<open>cell.display_text or cell.formula\<close>.\<close>

definition occupied_cell :: "table_cell \<Rightarrow> bool" where
  "occupied_cell c \<longleftrightarrow> tc_state c \<noteq> Blank_State \<and> (tc_formula c \<noteq> None \<or> tc_raw_value c \<noteq> Text [])"

definition visible_cell :: "table_cell \<Rightarrow> bool" where
  "visible_cell c \<longleftrightarrow> tc_display_text c \<noteq> [] \<or> (case tc_formula c of None \<Rightarrow> False | Some f \<Rightarrow> f \<noteq> [])"

fun least_of :: "int list \<Rightarrow> int" where
  "least_of [] = 0"
| "least_of [x] = x"
| "least_of (x # xs) = min x (least_of xs)"

fun greatest_of :: "int list \<Rightarrow> int" where
  "greatest_of [] = 0"
| "greatest_of [x] = x"
| "greatest_of (x # xs) = max x (greatest_of xs)"

lemma least_of_le: "x \<in> set xs \<Longrightarrow> least_of xs \<le> x"
  by (induction xs rule: least_of.induct) auto

lemma greatest_of_ge: "x \<in> set xs \<Longrightarrow> x \<le> greatest_of xs"
  by (induction xs rule: greatest_of.induct) auto

subsection \<open>Detected regions\<close>

text \<open>The rows that each column spans, in the order in which columns are first met.\<close>

type_synonym column_bounds = "(int \<times> int \<times> int) list"

definition widen :: "int \<Rightarrow> int \<Rightarrow> int \<Rightarrow> column_bounds \<Rightarrow> column_bounds" where
  "widen column r1 r2 bounds =
     (case map_of bounds column of None \<Rightarrow> AList.update column (r1, r2) bounds
      | Some (low, high) \<Rightarrow> AList.update column (min low r1, max high r2) bounds)"

fun cell_bounds :: "cell_range list \<Rightarrow> cell_address list \<Rightarrow> column_bounds \<Rightarrow> column_bounds" where
  "cell_bounds declared [] bounds = bounds"
| "cell_bounds declared (cell # cells) bounds =
     (if list_ex (\<lambda>r. contains_cell r (ca_row cell) (ca_column cell)) declared then cell_bounds declared cells bounds
      else cell_bounds declared cells (widen (ca_column cell) (ca_row cell) (ca_row cell) bounds))"

fun merge_bounds :: "cell_range list \<Rightarrow> cell_range list \<Rightarrow> column_bounds \<Rightarrow> column_bounds" where
  "merge_bounds declared [] bounds = bounds"
| "merge_bounds declared (m # merges) bounds =
     (if list_ex (\<lambda>r. contains_cell r (cr_min_row m) (cr_min_column m)) declared then merge_bounds declared merges bounds
      else if map_of bounds (cr_min_column m) = None then merge_bounds declared merges bounds
      else merge_bounds declared merges
        (fold (\<lambda>column. widen column (cr_min_row m) (cr_max_row m)) [cr_min_column m .. cr_max_column m] bounds))"

definition low_of :: "column_bounds \<Rightarrow> int \<Rightarrow> int" where
  "low_of bounds c = (case map_of bounds c of None \<Rightarrow> 0 | Some (low, _) \<Rightarrow> low)"

definition high_of :: "column_bounds \<Rightarrow> int \<Rightarrow> int" where
  "high_of bounds c = (case map_of bounds c of None \<Rightarrow> 0 | Some (_, high) \<Rightarrow> high)"

definition group_range :: "int \<Rightarrow> column_bounds \<Rightarrow> int list \<Rightarrow> cell_range" where
  "group_range sheet bounds grp =
     range_of sheet (least_of (map (low_of bounds) grp)) (hd grp) (greatest_of (map (high_of bounds) grp)) (last grp)"

fun column_groups :: "int \<Rightarrow> column_bounds \<Rightarrow> int list \<Rightarrow> int list \<Rightarrow> cell_range list" where
  "column_groups sheet bounds grp [] = (if grp \<noteq> [] then [group_range sheet bounds grp] else [])"
| "column_groups sheet bounds grp (column # columns) =
     (if grp \<noteq> [] \<and> column \<noteq> last grp + 1
      then group_range sheet bounds grp # column_groups sheet bounds [column] columns
      else column_groups sheet bounds (grp @ [column]) columns)"

text \<open>A region without what a declared table covers of it.\<close>

definition cut_area :: "int \<Rightarrow> cell_range \<Rightarrow> cell_range \<Rightarrow> cell_range list" where
  "cut_area sheet taken area =
     (let upper = max (cr_min_row area) (cr_min_row taken); lower = min (cr_max_row area) (cr_max_row taken);
          left = max (cr_min_column area) (cr_min_column taken); right = min (cr_max_column area) (cr_max_column taken)
      in if lower < upper \<or> right < left then [area]
         else filter (\<lambda>p. cr_min_row p \<le> cr_max_row p \<and> cr_min_column p \<le> cr_max_column p)
           [range_of sheet (cr_min_row area) (cr_min_column area) (upper - 1) (cr_max_column area),
            range_of sheet (lower + 1) (cr_min_column area) (cr_max_row area) (cr_max_column area),
            range_of sheet upper (cr_min_column area) lower (left - 1),
            range_of sheet upper (right + 1) lower (cr_max_column area)])"

definition cut_residual :: "int \<Rightarrow> cell_range list \<Rightarrow> cell_range list \<Rightarrow> cell_range list" where
  "cut_residual sheet declared residual =
     fold (\<lambda>taken areas. concat (map (cut_area sheet taken) areas)) declared residual"

definition region_bounds :: "cell_range list \<Rightarrow> cell_address list \<Rightarrow> cell_range list \<Rightarrow> column_bounds" where
  "region_bounds declared occupied merges = merge_bounds declared merges (cell_bounds declared occupied [])"

definition detect_table_regions ::
    "int \<Rightarrow> cell_range list \<Rightarrow> cell_address list \<Rightarrow> cell_range list \<Rightarrow> cell_range list result" where
  "detect_table_regions sheet declared occupied merges =
     (let bounds = region_bounds declared occupied merges;
          residual = cut_residual sheet declared (column_groups sheet bounds [] (sort (map fst bounds)))
      in if 1000 < length residual + length declared then Inl ArchiveLimitError else Inr (declared @ residual))"

subsection \<open>Regions under one row of ordinals\<close>

text \<open>\<open>isinstance(raw_value, int)\<close>, which holds of booleans too.\<close>

fun whole_value :: "cell_value \<Rightarrow> int option" where
  "whole_value (Whole i) = Some i"
| "whole_value (Truth b) = Some (if b then 1 else 0)"
| "whole_value _ = None"

definition ordinal_cell :: "table_cell \<Rightarrow> bool" where
  "ordinal_cell c \<longleftrightarrow> tc_value_type c = ''number'' \<and> tc_formula c = None \<and> whole_value (tc_raw_value c) \<noteq> None"

definition whole_values :: "table_cell list \<Rightarrow> int list" where
  "whole_values cells = List.map_filter (\<lambda>c. whole_value (tc_raw_value c)) cells"

definition ordinal_labels :: "int list \<Rightarrow> bool" where
  "ordinal_labels numbers \<longleftrightarrow> hd numbers = 1 \<and> last numbers = int (length numbers) \<and>
     length numbers * 9 \<le> length (filter (\<lambda>(position, number). number = int position) (zip [1..<length numbers + 1] numbers)) * 10"

definition numbered_cells :: "cell_range list \<Rightarrow> table_row \<Rightarrow> table_cell list" where
  "numbered_cells residual row =
     map snd (filter (\<lambda>(col, cell). tc_display_text cell \<noteq> [] \<and> list_ex (\<lambda>a. contains_cell a (tr_row_number row) col) residual)
       (sort_key fst (tr_cells row)))"

definition headed_regions :: "cell_range list \<Rightarrow> table_row \<Rightarrow> cell_range list \<Rightarrow> cell_range list" where
  "headed_regions merges row residual =
     filter (\<lambda>area. cr_min_row area \<le> tr_row_number row \<and> tr_row_number row \<le> cr_max_row area \<and>
       list_ex (\<lambda>m. cr_min_row m < tr_row_number row \<and> cr_max_row m = tr_row_number row - 1 \<and> cr_min_row m < cr_max_row m \<and>
         cr_min_column area \<le> cr_min_column m \<and> cr_min_column m \<le> cr_max_column area) merges) residual"

definition combined_region :: "cell_range list \<Rightarrow> cell_range" where
  "combined_region grp = range_of (cr_sheet_index (hd grp)) (least_of (map cr_min_row grp)) (least_of (map cr_min_column grp))
     (cr_max_row (hd grp)) (greatest_of (map cr_max_column grp))"

definition combine_row :: "cell_range list \<Rightarrow> cell_range list \<Rightarrow> table_row \<Rightarrow> cell_range list \<Rightarrow> cell_range list" where
  "combine_row declared merges row areas =
     (let residual = filter (\<lambda>a. a \<notin> set declared) areas; cells = numbered_cells residual row in
      if length cells < 6 \<or> \<not> list_all ordinal_cell cells then areas
      else if \<not> ordinal_labels (whole_values cells) then areas
      else let grp = headed_regions merges row residual in
        if length grp < 2 \<or> length (remdups (map cr_max_row grp)) \<noteq> 1 then areas
        else let whole = combined_region grp in
          if list_ex (\<lambda>a. a \<notin> set grp \<and> \<not> (cr_max_column a < cr_min_column whole \<or> cr_max_column whole < cr_min_column a)) areas then areas
          else filter (\<lambda>a. a \<notin> set grp) areas @ [whole])"

definition combine_numbered_regions ::
    "cell_range list \<Rightarrow> table_row list \<Rightarrow> cell_range list \<Rightarrow> cell_range list \<Rightarrow> cell_range list" where
  "combine_numbered_regions areas sample_rows merges declared = fold (combine_row declared merges) sample_rows areas"

subsection \<open>Stacked tables\<close>

definition text_count :: "table_row \<Rightarrow> nat" where
  "text_count row = length (filter (\<lambda>c. tc_display_text c \<noteq> []) (map snd (tr_cells row)))"

definition shown_values :: "(int \<times> table_cell) list \<Rightarrow> table_cell list" where
  "shown_values cells = filter (\<lambda>c. tc_display_text c \<noteq> [] \<and> tc_state c = Value_State) (map snd cells)"

definition text_header :: "table_row \<Rightarrow> bool" where
  "text_header row = (let cells = shown_values (tr_cells row) in
     2 \<le> length cells \<and> list_all (\<lambda>c. tc_value_type c = ''string'' \<and> tc_formula c = None) cells)"

definition label_row :: "table_row \<Rightarrow> bool" where
  "label_row row =
     (let cells = shown_values (sort_key fst (tr_cells row));
          strings = length (filter (\<lambda>c. tc_value_type c = ''string'') cells)
      in cells \<noteq> [] \<and> tc_value_type (hd cells) = ''string'' \<and> 2 \<le> strings \<and> length cells \<le> strings * 2 \<and>
         list_all (\<lambda>c. tc_formula c = None \<and> (tc_value_type c = ''string'' \<or> tc_value_type c = ''number'')) cells)"

text \<open>A row with the columns of its bold cells; in an area, its cells there and whether one of its columns is bold.\<close>

type_synonym styled_row = "table_row \<times> int list"

definition area_rows :: "cell_range \<Rightarrow> styled_row list \<Rightarrow> (table_row \<times> bool) list" where
  "area_rows area rows =
     filter (\<lambda>(row, bold). list_ex (\<lambda>(col, cell). visible_cell cell) (tr_cells row))
       (map (\<lambda>(row, bold_columns).
           (row\<lparr>tr_cells := filter (\<lambda>(col, cell). cr_min_column area \<le> col \<and> col \<le> cr_max_column area) (tr_cells row)\<rparr>,
            list_ex (\<lambda>col. cr_min_column area \<le> col \<and> col \<le> cr_max_column area) bold_columns))
         (filter (\<lambda>(row, bold_columns). cr_min_row area \<le> tr_row_number row \<and> tr_row_number row \<le> cr_max_row area) rows))"

definition row_merges :: "cell_range \<Rightarrow> cell_range list \<Rightarrow> int \<Rightarrow> cell_range list" where
  "row_merges area merges row_number =
     filter (\<lambda>m. cr_min_row m = row_number \<and> cr_min_column area \<le> cr_min_column m \<and>
       cr_min_column m \<le> cr_max_column m \<and> cr_max_column m \<le> cr_max_column area) merges"

definition starts_table ::
    "cell_range \<Rightarrow> cell_range list \<Rightarrow> int \<Rightarrow> int option \<Rightarrow> table_row \<times> bool \<Rightarrow> (table_row \<times> bool) option \<Rightarrow> bool" where
  "starts_table area merges start previous current following =
     (case current of (row, bold) \<Rightarrow>
       (let gap = (case previous of None \<Rightarrow> False | Some p \<Rightarrow> p + 1 < tr_row_number row);
            level = row_merges area merges (tr_row_number row);
            single_label = (text_count row = 1);
            full_title = (single_label \<and> list_ex (\<lambda>m. cr_min_column m = cr_min_column area \<and>
              cr_max_column m = cr_max_column area \<and> cr_max_row m = cr_min_row m) level);
            lower_numeric = (case following of None \<Rightarrow> False | Some (f, _) \<Rightarrow>
              list_ex (\<lambda>c. tc_state c = Value_State \<and> tc_value_type c \<noteq> ''string'') (map snd (tr_cells f)));
            merged_header = list_ex (\<lambda>m. cr_min_row m < cr_max_row m \<or> cr_min_column m < cr_max_column m) level;
            new_header = (text_header row \<and> (merged_header \<or> bold \<and> lower_numeric));
            merged_caption = (single_label \<and> list_ex (\<lambda>m. cr_min_column m < cr_max_column m \<and> cr_max_row m = cr_min_row m) level);
            section_row = (single_label \<and> (case following of None \<Rightarrow> False
              | Some (f, following_bold) \<Rightarrow> label_row f \<and> (merged_caption \<or> following_bold)));
            crossed_merge = list_ex (\<lambda>m. cr_min_row m < tr_row_number row \<and> tr_row_number row \<le> cr_max_row m \<and>
              cr_min_column m \<le> cr_max_column area \<and> cr_min_column area \<le> cr_max_column m) merges;
            section_after_body = (full_title \<and> section_row \<and> start + 8 < tr_row_number row)
        in (gap \<and> (new_header \<or> section_row) \<or> section_after_body) \<and> \<not> crossed_merge))"

text \<open>\<open>low\<close> and \<open>high\<close>, which the code sets together: None before the first visible cell of a region.\<close>

type_synonym column_span = "(int \<times> int) option"

record stacked_region =
  sg_sheet_index :: int
  sg_min_row :: int
  sg_max_row :: int
  sg_columns :: column_span

definition extend_span :: "int \<times> int \<Rightarrow> column_span \<Rightarrow> column_span" where
  "extend_span p span = (case span of None \<Rightarrow> Some p | Some (low, high) \<Rightarrow> Some (min low (fst p), max high (snd p)))"

definition row_span :: "cell_range \<Rightarrow> cell_range list \<Rightarrow> table_row \<Rightarrow> column_span \<Rightarrow> column_span" where
  "row_span area merges row span =
     fold extend_span
       (map (\<lambda>(col, cell). (col, col)) (filter (\<lambda>(col, cell). visible_cell cell) (tr_cells row)) @
        map (\<lambda>m. (cr_min_column m, cr_max_column m)) (row_merges area merges (tr_row_number row))) span"

definition stacked :: "cell_range \<Rightarrow> int \<Rightarrow> int \<Rightarrow> column_span \<Rightarrow> stacked_region" where
  "stacked area start finish span =
     \<lparr>sg_sheet_index = cr_sheet_index area, sg_min_row = start, sg_max_row = finish, sg_columns = span\<rparr>"

fun split_rows ::
    "cell_range \<Rightarrow> cell_range list \<Rightarrow> stacked_region list \<Rightarrow> int \<Rightarrow> column_span \<Rightarrow> int option \<Rightarrow> (table_row \<times> bool) list
     \<Rightarrow> stacked_region list result" where
  "split_rows area merges parts start span previous [] =
     Inr (if span \<noteq> None then parts @ [stacked area start (cr_max_row area) span] else parts)"
| "split_rows area merges parts start span previous (current # rows) =
     (let row = fst current; following = (case rows of [] \<Rightarrow> None | f # _ \<Rightarrow> Some f) in
      if starts_table area merges start previous current following then
        (let parts' = parts @ [stacked area start (tr_row_number row - 1) span] in
         if 1000 \<le> length parts' then Inl ArchiveLimitError
         else split_rows area merges parts' (tr_row_number row) (row_span area merges row None) (Some (tr_row_number row)) rows)
      else split_rows area merges parts start (row_span area merges row span) (Some (tr_row_number row)) rows)"

definition whole_area :: "cell_range \<Rightarrow> stacked_region" where
  "whole_area area = stacked area (cr_min_row area) (cr_max_row area) (Some (cr_min_column area, cr_max_column area))"

definition split_stacked_regions :: "cell_range \<Rightarrow> styled_row list \<Rightarrow> cell_range list \<Rightarrow> stacked_region list result" where
  "split_stacked_regions area rows merges =
     bindr (split_rows area merges [] (cr_min_row area) None None (area_rows area rows))
       (\<lambda>parts. Inr (if parts \<noteq> [] then parts else [whole_area area]))"

subsection \<open>The tables of a worksheet\<close>

fun split_areas :: "cell_range list \<Rightarrow> styled_row list \<Rightarrow> cell_range list \<Rightarrow> cell_range list \<Rightarrow> stacked_region list result" where
  "split_areas declared rows merges [] = Inr []"
| "split_areas declared rows merges (area # areas) =
     bindr (if area \<in> set declared then Inr [whole_area area] else split_stacked_regions area rows merges) (\<lambda>parts.
       bindr (split_areas declared rows merges areas) (\<lambda>rest. Inr (parts @ rest)))"

definition occupied_addresses :: "table_row list \<Rightarrow> cell_address list" where
  "occupied_addresses rows =
     concat (map (\<lambda>row. map (\<lambda>(col, cell). \<lparr>ca_row = tr_row_number row, ca_column = col\<rparr>)
       (filter (\<lambda>(col, cell). occupied_cell cell) (tr_cells row))) rows)"

definition first_rows :: "table_row list \<Rightarrow> table_row list" where
  "first_rows rows = take 8 (filter (\<lambda>row. list_ex (\<lambda>(col, cell). occupied_cell cell) (tr_cells row)) rows)"

definition sheet_tables :: "int \<Rightarrow> cell_range list \<Rightarrow> styled_row list \<Rightarrow> cell_range list \<Rightarrow> stacked_region list result" where
  "sheet_tables sheet declared rows merges =
     bindr (detect_table_regions sheet declared (occupied_addresses (map fst rows)) merges) (\<lambda>ranges.
     bindr (split_areas declared rows merges (combine_numbered_regions ranges (first_rows (map fst rows)) merges declared)) (\<lambda>parts.
       if 1000 < length parts then Inl ArchiveLimitError else Inr parts))"

subsection \<open>How often a cell is covered\<close>

definition times_in :: "cell_range list \<Rightarrow> int \<Rightarrow> int \<Rightarrow> nat" where
  "times_in areas r c = length (filter (\<lambda>a. contains_cell a r c) areas)"

lemma times_in_simps [simp]:
  "times_in [] r c = 0"
  "times_in (a # areas) r c = (if contains_cell a r c then 1 else 0) + times_in areas r c"
  "times_in (areas @ areas') r c = times_in areas r c + times_in areas' r c"
  by (simp_all add: times_in_def)

lemma times_in_0: "times_in areas r c = 0 \<longleftrightarrow> (\<forall>a\<in>set areas. \<not> contains_cell a r c)"
  by (induction areas) auto

lemma contains_range_of [simp]:
  "contains_cell (range_of sheet r1 c1 r2 c2) r c \<longleftrightarrow> r1 \<le> r \<and> r \<le> r2 \<and> c1 \<le> c \<and> c \<le> c2"
  by (simp add: contains_cell_def range_of_def)

lemma times_in_proper [simp]:
  "times_in (filter (\<lambda>p. cr_min_row p \<le> cr_max_row p \<and> cr_min_column p \<le> cr_max_column p) areas) r c = times_in areas r c"
  by (induction areas) (auto simp: contains_cell_def)

lemma four_parts:
  assumes "upper \<le> lower" "left \<le> right" "a1 \<le> upper" "lower \<le> a2" "b1 \<le> left" "right \<le> b2"
  shows "times_in [range_of sheet a1 b1 (upper - 1) b2, range_of sheet (lower + 1) b1 a2 b2,
      range_of sheet upper b1 lower (left - 1), range_of sheet upper (right + 1) lower b2] r c =
    (if (a1 \<le> r \<and> r \<le> a2 \<and> b1 \<le> c \<and> c \<le> b2) \<and> \<not> (upper \<le> r \<and> r \<le> lower \<and> left \<le> c \<and> c \<le> right) then 1 else 0)"
proof -
  consider "r < upper" | "lower < r" | "upper \<le> r" "r \<le> lower" "c < left" | "upper \<le> r" "r \<le> lower" "right < c"
    | "upper \<le> r" "r \<le> lower" "left \<le> c" "c \<le> right" by linarith
  then show ?thesis by cases (use assms in simp_all)
qed

lemma times_in_cut_area: "times_in (cut_area sheet taken area) r c = (if contains_cell area r c \<and> \<not> contains_cell taken r c then 1 else 0)"
proof -
  define upper where "upper = max (cr_min_row area) (cr_min_row taken)"
  define lower where "lower = min (cr_max_row area) (cr_max_row taken)"
  define left where "left = max (cr_min_column area) (cr_min_column taken)"
  define right where "right = min (cr_max_column area) (cr_max_column taken)"
  have both: "contains_cell area r c \<and> contains_cell taken r c \<longleftrightarrow> upper \<le> r \<and> r \<le> lower \<and> left \<le> c \<and> c \<le> right"
    by (simp add: contains_cell_def upper_def lower_def left_def right_def) blast
  show ?thesis
  proof (cases "lower < upper \<or> right < left")
    case True
    then have "cut_area sheet taken area = [area]" by (simp add: cut_area_def Let_def upper_def lower_def left_def right_def)
    then show ?thesis using True both by auto
  next
    case False
    have "times_in (cut_area sheet taken area) r c = times_in
       [range_of sheet (cr_min_row area) (cr_min_column area) (upper - 1) (cr_max_column area),
        range_of sheet (lower + 1) (cr_min_column area) (cr_max_row area) (cr_max_column area),
        range_of sheet upper (cr_min_column area) lower (left - 1),
        range_of sheet upper (right + 1) lower (cr_max_column area)] r c"
      using False
      by (simp only: cut_area_def Let_def upper_def [symmetric] lower_def [symmetric] left_def [symmetric] right_def [symmetric]
          if_False times_in_proper)
    also have "\<dots> = (if contains_cell area r c \<and> \<not> (upper \<le> r \<and> r \<le> lower \<and> left \<le> c \<and> c \<le> right) then 1 else 0)"
      by (subst four_parts) (use False in \<open>auto simp: upper_def lower_def left_def right_def contains_cell_def\<close>)
    finally show ?thesis using both by auto
  qed
qed

lemma times_in_cuts: "times_in (concat (map (cut_area sheet taken) areas)) r c = (if contains_cell taken r c then 0 else times_in areas r c)"
  by (induction areas) (auto simp: times_in_cut_area)

lemma times_in_cut_residual:
  "times_in (cut_residual sheet declared residual) r c = (if list_ex (\<lambda>a. contains_cell a r c) declared then 0 else times_in residual r c)"
  unfolding cut_residual_def by (induction declared arbitrary: residual) (auto simp: times_in_cuts)

text \<open>Groups of columns.\<close>

definition contiguous :: "int list \<Rightarrow> bool" where
  "contiguous grp \<longleftrightarrow> grp \<noteq> [] \<longrightarrow> grp = [hd grp .. last grp]"

lemma contiguous_snoc: "contiguous grp \<Longrightarrow> grp = [] \<or> column = last grp + 1 \<Longrightarrow> contiguous (grp @ [column])"
proof -
  assume g: "contiguous grp" and c: "grp = [] \<or> column = last grp + 1"
  show ?thesis
  proof (cases grp)
    case Nil
    then show ?thesis by (simp add: contiguous_def)
  next
    case (Cons x xs)
    with g have "grp = [x .. last grp]" unfolding contiguous_def by (metis list.sel(1) list.distinct(1))
    moreover from this have "x \<le> last grp" using Cons by (metis list.distinct(1) upto_empty not_le)
    ultimately have "grp @ [last grp + 1] = [x .. last grp + 1]"
      using upto_rec2 [of x "last grp + 1"] by simp
    moreover have "hd (grp @ [column]) = x" "last (grp @ [column]) = last grp + 1" "column = last grp + 1" using Cons c by auto
    ultimately have "grp @ [column] = [hd (grp @ [column]) .. last (grp @ [column])]" by metis
    then show ?thesis unfolding contiguous_def by blast
  qed
qed

lemma group_range_contains:
  assumes "contiguous grp" "grp \<noteq> []"
  shows "contains_cell (group_range sheet bounds grp) r c \<Longrightarrow> c \<in> set grp"
    and "c \<in> set grp \<Longrightarrow> low_of bounds c \<le> r \<Longrightarrow> r \<le> high_of bounds c \<Longrightarrow> contains_cell (group_range sheet bounds grp) r c"
proof -
  have g: "set grp = {hd grp .. last grp}" using assms unfolding contiguous_def by (metis set_upto)
  show "c \<in> set grp" if "contains_cell (group_range sheet bounds grp) r c"
    using that g by (simp add: group_range_def)
  show "contains_cell (group_range sheet bounds grp) r c" if "c \<in> set grp" "low_of bounds c \<le> r" "r \<le> high_of bounds c"
    using that g least_of_le [of "low_of bounds c" "map (low_of bounds) grp"]
      greatest_of_ge [of "high_of bounds c" "map (high_of bounds) grp"]
    by (auto simp: group_range_def)
qed

definition covers_columns :: "column_bounds \<Rightarrow> int list \<Rightarrow> cell_range list \<Rightarrow> int \<Rightarrow> int \<Rightarrow> bool" where
  "covers_columns bounds columns areas r c \<longleftrightarrow> times_in areas r c \<le> (if c \<in> set columns then 1 else 0) \<and>
     (c \<in> set columns \<and> low_of bounds c \<le> r \<and> r \<le> high_of bounds c \<longrightarrow> times_in areas r c = 1)"

lemma covers_columns_grp:
  assumes "contiguous grp" "grp \<noteq> []"
  shows "covers_columns bounds grp [group_range sheet bounds grp] r c"
  using group_range_contains(1) [OF assms, of sheet bounds r c] group_range_contains(2) [OF assms, of c bounds r sheet]
  by (auto simp: covers_columns_def)

lemma covers_columns_append:
  assumes "covers_columns bounds columns areas r c" "covers_columns bounds columns' areas' r c" "set columns \<inter> set columns' = {}"
  shows "covers_columns bounds (columns @ columns') (areas @ areas') r c"
  using assms by (auto simp: covers_columns_def split: if_splits)

lemma column_groups_times:
  assumes "contiguous grp" "distinct (grp @ columns)"
  shows "covers_columns bounds (grp @ columns) (column_groups sheet bounds grp columns) r c"
  using assms
proof (induction sheet bounds grp columns rule: column_groups.induct)
  case (1 sheet bounds grp)
  then show ?case using covers_columns_grp [of grp bounds sheet r c]
    by (cases "grp = []") (simp_all add: covers_columns_def)
next
  case (2 sheet bounds grp column columns)
  show ?case
  proof (cases "grp \<noteq> [] \<and> column \<noteq> last grp + 1")
    case True
    have one: "contiguous [column]" by (simp add: contiguous_def)
    have "covers_columns bounds ([column] @ columns) (column_groups sheet bounds [column] columns) r c"
      using "2.IH"(1) [OF True one] "2.prems" by simp
    with covers_columns_append [OF covers_columns_grp [OF "2.prems"(1)] this] True "2.prems"
    show ?thesis by auto
  next
    case False
    then show ?thesis using "2.IH"(2) [OF False contiguous_snoc] "2.prems" by auto
  qed
qed

text \<open>Bounds of the columns.\<close>

definition spans :: "column_bounds \<Rightarrow> int \<Rightarrow> int \<Rightarrow> bool" where
  "spans bounds c r \<longleftrightarrow> c \<in> fst ` set bounds \<and> low_of bounds c \<le> r \<and> r \<le> high_of bounds c"

lemma spans_map_of: "spans bounds c r \<longleftrightarrow> (\<exists>low high. map_of bounds c = Some (low, high) \<and> low \<le> r \<and> r \<le> high)"
proof (cases "map_of bounds c")
  case None
  then have "c \<notin> fst ` set bounds" by (simp add: map_of_eq_None_iff)
  then show ?thesis using None by (simp add: spans_def)
next
  case (Some p)
  then have "c \<in> fst ` set bounds" by (metis map_of_eq_None_iff option.distinct(1))
  then show ?thesis using Some by (auto simp: spans_def low_of_def high_of_def split: prod.split)
qed

lemma map_of_widen: "map_of (widen c r1 r2 bounds) = (map_of bounds)(c \<mapsto>
    (case map_of bounds c of None \<Rightarrow> (r1, r2) | Some (low, high) \<Rightarrow> (min low r1, max high r2)))"
  by (auto simp: widen_def update_conv' split: option.split prod.split)

lemma spans_widen: "spans bounds c r \<Longrightarrow> spans (widen column r1 r2 bounds) c r"
  by (auto simp: spans_map_of map_of_widen)

lemma spans_widen_here: "spans (widen c r r bounds) c r"
  by (auto simp: spans_map_of map_of_widen split: option.split prod.split)

lemma distinct_widen: "distinct (map fst bounds) \<Longrightarrow> distinct (map fst (widen column r1 r2 bounds))"
  by (auto simp: widen_def distinct_update split: option.split prod.split)

lemma fold_widen:
  "(spans bounds c r \<longrightarrow> spans (fold (\<lambda>column. widen column r1 r2) columns bounds) c r) \<and>
   (distinct (map fst bounds) \<longrightarrow> distinct (map fst (fold (\<lambda>column. widen column r1 r2) columns bounds)))"
  by (induction columns arbitrary: bounds) (auto simp: spans_widen distinct_widen)

lemma merge_bounds_keep:
  "(spans bounds c r \<longrightarrow> spans (merge_bounds declared merges bounds) c r) \<and>
   (distinct (map fst bounds) \<longrightarrow> distinct (map fst (merge_bounds declared merges bounds)))"
  by (induction declared merges bounds rule: merge_bounds.induct) (use fold_widen in \<open>auto\<close>)

lemma cell_bounds_keep:
  "(spans bounds c r \<longrightarrow> spans (cell_bounds declared cells bounds) c r) \<and>
   (distinct (map fst bounds) \<longrightarrow> distinct (map fst (cell_bounds declared cells bounds)))"
  by (induction declared cells bounds rule: cell_bounds.induct) (auto simp: spans_widen distinct_widen)

lemma cell_bounds_spans:
  assumes "cell \<in> set cells" "\<not> list_ex (\<lambda>a. contains_cell a (ca_row cell) (ca_column cell)) declared"
  shows "spans (cell_bounds declared cells bounds) (ca_column cell) (ca_row cell)"
  using assms
  by (induction declared cells bounds rule: cell_bounds.induct) (auto simp: spans_widen_here cell_bounds_keep)

lemma detected_residual:
  assumes "detect_table_regions sheet declared occupied merges = Inr areas"
  shows "\<exists>residual. areas = declared @ residual \<and>
    times_in residual r c \<le> (if list_ex (\<lambda>a. contains_cell a r c) declared then 0 else 1) \<and>
    (\<lparr>ca_row = r, ca_column = c\<rparr> \<in> set occupied \<and> \<not> list_ex (\<lambda>a. contains_cell a r c) declared \<longrightarrow> times_in residual r c = 1)"
proof -
  let ?bounds = "region_bounds declared occupied merges"
  let ?columns = "sort (map fst ?bounds)"
  let ?grps = "column_groups sheet ?bounds [] ?columns"
  have "distinct (map fst ?bounds)" unfolding region_bounds_def by (simp add: merge_bounds_keep cell_bounds_keep)
  then have "covers_columns ?bounds ?columns ?grps r c"
    using column_groups_times [of "[]" ?columns] by (simp add: contiguous_def)
  moreover have "spans ?bounds c r"
    if "\<lparr>ca_row = r, ca_column = c\<rparr> \<in> set occupied" "\<not> list_ex (\<lambda>a. contains_cell a r c) declared"
    using cell_bounds_spans [OF that(1)] that(2) by (simp add: region_bounds_def merge_bounds_keep)
  moreover have "areas = declared @ cut_residual sheet declared ?grps"
    using assms by (auto simp: detect_table_regions_def Let_def split: if_splits)
  ultimately show ?thesis
    by (auto simp: times_in_cut_residual covers_columns_def spans_def split: if_splits)
qed

subsection \<open>Combination keeps the partition\<close>

lemma times_in_filter: "times_in (filter P areas) r c \<le> times_in areas r c"
  by (induction areas) auto

lemma contains_combined:
  assumes "a \<in> set grp" "length (remdups (map cr_max_row grp)) = 1" "contains_cell a r c"
  shows "contains_cell (combined_region grp) r c"
proof -
  have "cr_max_row a = cr_max_row (hd grp)"
  proof -
    obtain x where "set (map cr_max_row grp) = {x}"
      using assms(2) by (metis length_Suc_conv length_0_conv One_nat_def list.set(1,2) set_remdups)
    moreover have "hd grp \<in> set grp" using assms(1) by (cases grp) auto
    ultimately have "cr_max_row a = x" "cr_max_row (hd grp) = x" using assms(1) by auto
    then show ?thesis by simp
  qed
  moreover have "least_of (map cr_min_row grp) \<le> cr_min_row a" "least_of (map cr_min_column grp) \<le> cr_min_column a"
    "cr_max_column a \<le> greatest_of (map cr_max_column grp)"
    using assms(1) by (auto intro: least_of_le greatest_of_ge)
  ultimately show ?thesis using assms(3) unfolding combined_region_def contains_range_of by (auto simp: contains_cell_def)
qed

definition partitions :: "cell_range list \<Rightarrow> bool" where
  "partitions areas \<longleftrightarrow> (\<forall>r c. times_in areas r c \<le> 1)"

lemma combine_row_cases:
  obtains (same) "combine_row declared merges row areas = areas"
  | (joined) grp where "set grp \<subseteq> set areas - set declared" "length (remdups (map cr_max_row grp)) = 1" "grp \<noteq> []"
      "\<not> list_ex (\<lambda>a. a \<notin> set grp \<and> \<not> (cr_max_column a < cr_min_column (combined_region grp) \<or>
          cr_max_column (combined_region grp) < cr_min_column a)) areas"
      "combine_row declared merges row areas = filter (\<lambda>a. a \<notin> set grp) areas @ [combined_region grp]"
proof (cases "combine_row declared merges row areas = areas")
  case False
  let ?grp = "headed_regions merges row (filter (\<lambda>a. a \<notin> set declared) areas)"
  show ?thesis
  proof (rule joined [of ?grp])
    show "set ?grp \<subseteq> set areas - set declared" by (auto simp: headed_regions_def)
  qed (use False in \<open>auto simp: combine_row_def Let_def split: if_splits\<close>)
qed

lemma combine_row_times:
  assumes "partitions areas"
  shows "partitions (combine_row declared merges row areas) \<and>
    times_in areas r c \<le> times_in (combine_row declared merges row areas) r c \<and>
    set areas \<inter> set declared \<subseteq> set (combine_row declared merges row areas)"
proof (cases rule: combine_row_cases [of declared merges row areas])
  case same
  then show ?thesis using assms by simp
next
  case (joined grp)
  let ?rest = "filter (\<lambda>a. a \<notin> set grp) areas"
  have apart: "times_in ?rest r c = 0" if "contains_cell (combined_region grp) r c" for r c
    using that joined(4) unfolding times_in_0 by (fastforce simp: contains_cell_def list_ex_iff)
  have rest: "times_in areas r c = times_in ?rest r c" if "\<not> contains_cell (combined_region grp) r c" for r c
  proof -
    have "\<not> contains_cell a r c" if "a \<in> set grp" for a
      using contains_combined [OF that joined(2)] \<open>\<not> contains_cell (combined_region grp) r c\<close> by blast
    then have "filter (\<lambda>a. contains_cell a r c) areas = filter (\<lambda>a. contains_cell a r c) ?rest"
      by (simp add: conj_commute) (metis (no_types, lifting))
    then show ?thesis unfolding times_in_def by simp
  qed
  have both: "times_in (combine_row declared merges row areas) r c =
      (if contains_cell (combined_region grp) r c then 1 else times_in areas r c)" for r c
    using apart [of r c] rest [of r c] by (simp add: joined(5))
  have one: "times_in areas r c \<le> 1" for r c using assms by (simp add: partitions_def)
  have "set areas \<inter> set declared \<subseteq> set (combine_row declared merges row areas)"
    using joined(1) unfolding joined(5) by auto
  then show ?thesis using one by (auto simp: partitions_def both)
qed

lemma combined_times:
  assumes "partitions areas"
  shows "partitions (combine_numbered_regions areas rows merges declared) \<and>
    times_in areas r c \<le> times_in (combine_numbered_regions areas rows merges declared) r c \<and>
    set areas \<inter> set declared \<subseteq> set (combine_numbered_regions areas rows merges declared)"
  unfolding combine_numbered_regions_def using assms
proof (induction rows arbitrary: areas)
  case (Cons row rows)
  note step = combine_row_times [OF Cons.prems, of declared merges row r c]
  then show ?case using Cons.IH [of "combine_row declared merges row areas"] by auto
qed simp

subsection \<open>Splitting keeps the partition\<close>

fun in_span :: "column_span \<Rightarrow> int \<Rightarrow> bool" where
  "in_span None c = False"
| "in_span (Some (low, high)) c \<longleftrightarrow> low \<le> c \<and> c \<le> high"

definition stacked_contains :: "stacked_region \<Rightarrow> int \<Rightarrow> int \<Rightarrow> bool" where
  "stacked_contains s r c \<longleftrightarrow> sg_min_row s \<le> r \<and> r \<le> sg_max_row s \<and> in_span (sg_columns s) c"

definition times_stacked :: "stacked_region list \<Rightarrow> int \<Rightarrow> int \<Rightarrow> nat" where
  "times_stacked parts r c = length (filter (\<lambda>s. stacked_contains s r c) parts)"

lemma times_stacked_simps [simp]:
  "times_stacked [] r c = 0"
  "times_stacked (s # parts) r c = (if stacked_contains s r c then 1 else 0) + times_stacked parts r c"
  "times_stacked (parts @ parts') r c = times_stacked parts r c + times_stacked parts' r c"
  by (simp_all add: times_stacked_def)

lemma stacked_contains_stacked [simp]:
  "stacked_contains (stacked area start finish span) r c \<longleftrightarrow> start \<le> r \<and> r \<le> finish \<and> in_span span c"
  by (simp add: stacked_contains_def stacked_def)

lemma in_span_extend: "in_span span c \<Longrightarrow> in_span (extend_span p span) c"
  by (cases span) (auto simp: extend_span_def)

lemma in_span_extend_here: "in_span (extend_span (c, c) span) c"
  by (cases span) (auto simp: extend_span_def)

definition span_within :: "int \<Rightarrow> int \<Rightarrow> column_span \<Rightarrow> bool" where
  "span_within a b span \<longleftrightarrow> (case span of None \<Rightarrow> True | Some (low, high) \<Rightarrow> a \<le> low \<and> high \<le> b)"

lemma span_within_in: "span_within a b span \<Longrightarrow> in_span span c \<Longrightarrow> a \<le> c \<and> c \<le> b"
  by (cases span) (auto simp: span_within_def)

lemma fold_extend:
  "(in_span span c \<longrightarrow> in_span (fold extend_span ps span) c) \<and> ((c, c) \<in> set ps \<longrightarrow> in_span (fold extend_span ps span) c)"
  by (induction ps arbitrary: span) (auto simp: in_span_extend in_span_extend_here)

lemma fold_extend_within:
  assumes "span_within a b span" "\<forall>p\<in>set ps. a \<le> fst p \<and> snd p \<le> b"
  shows "span_within a b (fold extend_span ps span)"
  using assms
proof (induction ps arbitrary: span)
  case (Cons p ps)
  have "span_within a b (extend_span p span)"
    using Cons.prems by (auto simp: span_within_def extend_span_def split: option.splits)
  then show ?case using Cons by simp
qed simp

text \<open>A row whose cells lie in the columns of the area.\<close>

definition row_within :: "cell_range \<Rightarrow> table_row \<Rightarrow> bool" where
  "row_within area row \<longleftrightarrow> (\<forall>p\<in>set (tr_cells row). cr_min_column area \<le> fst p \<and> fst p \<le> cr_max_column area)"

lemma row_span_within:
  assumes "row_within area row" "span_within (cr_min_column area) (cr_max_column area) span"
  shows "span_within (cr_min_column area) (cr_max_column area) (row_span area merges row span)"
  unfolding row_span_def
  by (rule fold_extend_within [OF assms(2)]) (use assms(1) in \<open>auto simp: row_within_def row_merges_def\<close>)

definition shows_at :: "table_row list \<Rightarrow> int \<Rightarrow> int \<Rightarrow> bool" where
  "shows_at rows r c \<longleftrightarrow> (\<exists>row\<in>set rows. tr_row_number row = r \<and> (\<exists>cell. (c, cell) \<in> set (tr_cells row) \<and> visible_cell cell))"

lemma row_span_covers:
  "in_span span c \<Longrightarrow> in_span (row_span area merges row span) c"
  "(c, cell) \<in> set (tr_cells row) \<Longrightarrow> visible_cell cell \<Longrightarrow> in_span (row_span area merges row span) c"
  unfolding row_span_def
  using fold_extend [of span c "map (\<lambda>(col, cell). (col, col)) (filter (\<lambda>(col, cell). visible_cell cell) (tr_cells row)) @
        map (\<lambda>m. (cr_min_column m, cr_max_column m)) (row_merges area merges (tr_row_number row))"]
  by force+

text \<open>
  What \<open>split_rows\<close> adds from a state on: \<open>r\<close> rows before \<open>start\<close> are left alone, a cell of the open region
  or a visible one in the rest is in one region, and no cell in two or outside the area.
\<close>

definition split_good :: "cell_range \<Rightarrow> int \<Rightarrow> column_span \<Rightarrow> int \<Rightarrow> table_row list \<Rightarrow> stacked_region list \<Rightarrow> int \<Rightarrow> int \<Rightarrow> bool" where
  "split_good area start span last_row rows parts r c \<longleftrightarrow>
     times_stacked parts r c \<le> (if start \<le> r \<and> contains_cell area r c then 1 else 0) \<and>
     (start \<le> r \<and> r \<le> last_row \<and> in_span span c \<or> shows_at rows r c \<longrightarrow> times_stacked parts r c = 1)"

lemma shows_at_Cons:
  "shows_at (row # rows) r c \<longleftrightarrow> tr_row_number row = r \<and> (\<exists>cell. (c, cell) \<in> set (tr_cells row) \<and> visible_cell cell) \<or> shows_at rows r c"
  by (simp add: shows_at_def)

lemma split_good_end:
  assumes "cr_min_row area \<le> start" "last_row \<le> cr_max_row area" "span_within (cr_min_column area) (cr_max_column area) span"
  shows "split_good area start span last_row [] (if span \<noteq> None then [stacked area start (cr_max_row area) span] else []) r c"
  using assms span_within_in [OF assms(3), of c]
  by (cases span) (auto simp: split_good_def contains_cell_def shows_at_def)

lemma split_good_keep:
  assumes "split_good area start (row_span area merges row span) (tr_row_number row) rows new r c"
    and "last_row < tr_row_number row" "start \<le> last_row + 1"
  shows "split_good area start span last_row (row # rows) new r c"
  using assms row_span_covers(1) [of span c area merges row] row_span_covers(2) [of c _ row area merges span]
  unfolding split_good_def shows_at_Cons by auto

lemma split_good_new:
  assumes "split_good area (tr_row_number row) (row_span area merges row None) (tr_row_number row) rows new r c"
    and "last_row < tr_row_number row" "start \<le> last_row + 1" "cr_min_row area \<le> start" "tr_row_number row \<le> cr_max_row area"
    and "span_within (cr_min_column area) (cr_max_column area) span"
  shows "split_good area start span last_row (row # rows) (stacked area start (tr_row_number row - 1) span # new) r c"
proof (cases "tr_row_number row \<le> r")
  case True
  then show ?thesis using assms row_span_covers(2) [of c _ row area merges None]
    unfolding split_good_def shows_at_Cons by auto
next
  case False
  then have "times_stacked new r c = 0" and "\<not> shows_at (row # rows) r c"
    using assms(1) unfolding split_good_def shows_at_Cons by (auto split: if_splits)
  then show ?thesis using False assms(2-5) span_within_in [OF assms(6), of c]
    unfolding split_good_def by (auto simp: contains_cell_def)
qed

lemma split_rows_good:
  assumes "split_rows area merges parts start span previous rows = Inr out"
    and "sorted_wrt (<) (last_row # map (\<lambda>p. tr_row_number (fst p)) rows)"
    and "list_all (\<lambda>p. tr_row_number (fst p) \<le> cr_max_row area \<and> row_within area (fst p)) rows"
    and "cr_min_row area \<le> start" "start \<le> last_row + 1" "last_row \<le> cr_max_row area"
    and "span_within (cr_min_column area) (cr_max_column area) span"
  shows "\<exists>new. out = parts @ new \<and> (\<forall>r c. split_good area start span last_row (map fst rows) new r c)"
  using assms
proof (induction area merges parts start span previous rows arbitrary: last_row rule: split_rows.induct)
  case (1 area merges parts start span previous)
  have "out = parts @ (if span \<noteq> None then [stacked area start (cr_max_row area) span] else [])"
    using "1.prems"(1) by auto
  then show ?case using split_good_end [OF "1.prems"(4,6,7)] by auto
next
  case (2 area merges parts start span previous current rows)
  let ?row = "fst current" and ?following = "case rows of [] \<Rightarrow> None | f # _ \<Rightarrow> Some f"
  have sorted: "last_row < tr_row_number ?row" "sorted_wrt (<) (tr_row_number ?row # map (\<lambda>p. tr_row_number (fst p)) rows)"
    using "2.prems"(2) by simp_all
  have row: "tr_row_number ?row \<le> cr_max_row area" "row_within area ?row"
    and rest: "list_all (\<lambda>p. tr_row_number (fst p) \<le> cr_max_row area \<and> row_within area (fst p)) rows"
    using "2.prems"(3) by simp_all
  show ?case
  proof (cases "starts_table area merges start previous current ?following")
    case True
    let ?part = "stacked area start (tr_row_number ?row - 1) span"
    have fits: "\<not> 1000 \<le> length (parts @ [?part])" and
      run: "split_rows area merges (parts @ [?part]) (tr_row_number ?row) (row_span area merges ?row None) (Some (tr_row_number ?row)) rows = Inr out"
      using "2.prems"(1) True by (auto simp: Let_def split: if_splits)
    have "span_within (cr_min_column area) (cr_max_column area) (row_span area merges ?row None)"
      by (rule row_span_within [OF row(2)]) (simp add: span_within_def)
    moreover have "cr_min_row area \<le> tr_row_number ?row" using "2.prems"(4,5) sorted(1) by simp
    ultimately obtain new where out: "out = (parts @ [?part]) @ new"
      and new: "\<forall>r c. split_good area (tr_row_number ?row) (row_span area merges ?row None) (tr_row_number ?row) (map fst rows) new r c"
      using "2.IH"(1) [OF refl refl True refl fits run sorted(2) rest] row(1) by auto
    have "split_good area start span last_row (map fst (current # rows)) (?part # new) r c" for r c
      using split_good_new [OF new [rule_format] sorted(1) "2.prems"(5,4) row(1) "2.prems"(7)] by simp
    then show ?thesis using out by auto
  next
    case False
    have run: "split_rows area merges parts start (row_span area merges ?row span) (Some (tr_row_number ?row)) rows = Inr out"
      using "2.prems"(1) False by (simp add: Let_def)
    have "span_within (cr_min_column area) (cr_max_column area) (row_span area merges ?row span)"
      by (rule row_span_within [OF row(2) "2.prems"(7)])
    moreover have "start \<le> tr_row_number ?row + 1" using "2.prems"(5) sorted(1) by simp
    ultimately obtain new where out: "out = parts @ new"
      and new: "\<forall>r c. split_good area start (row_span area merges ?row span) (tr_row_number ?row) (map fst rows) new r c"
      using "2.IH"(2) [OF refl refl False run sorted(2) rest "2.prems"(4)] row(1) by auto
    have "split_good area start span last_row (map fst (current # rows)) new r c" for r c
      using split_good_keep [OF new [rule_format] sorted(1) "2.prems"(5)] by simp
    then show ?thesis using out by auto
  qed
qed

subsection \<open>Every cell in one table\<close>

definition ascending :: "styled_row list \<Rightarrow> bool" where
  "ascending rows \<longleftrightarrow> sorted_wrt (<) (map (\<lambda>p. tr_row_number (fst p)) rows)"

lemma sorted_map_filter: "sorted_wrt R (map f xs) \<Longrightarrow> sorted_wrt R (map f (filter P xs))"
  by (induction xs) auto

lemma area_rows_sorted:
  assumes "ascending rows"
  shows "sorted_wrt (<) (map (\<lambda>p. tr_row_number (fst p)) (area_rows area rows))"
proof -
  have "sorted_wrt (<) (map (\<lambda>p. tr_row_number (fst p)) (filter P rows))" for P
    using assms unfolding ascending_def by (rule sorted_map_filter)
  then show ?thesis unfolding area_rows_def by (intro sorted_map_filter) (simp add: case_prod_beta comp_def)
qed

lemma area_rows_within:
  "p \<in> set (area_rows area rows) \<Longrightarrow> cr_min_row area \<le> tr_row_number (fst p) \<and> tr_row_number (fst p) \<le> cr_max_row area \<and> row_within area (fst p)"
  by (auto simp: area_rows_def row_within_def)

lemma shows_at_area:
  assumes "shows_at (map fst rows) r c" "contains_cell area r c"
  shows "shows_at (map fst (area_rows area rows)) r c"
proof -
  from assms(1) obtain row bold cell where row: "(row, bold) \<in> set rows" "tr_row_number row = r" "(c, cell) \<in> set (tr_cells row)" "visible_cell cell"
    by (auto simp: shows_at_def)
  let ?row = "row\<lparr>tr_cells := filter (\<lambda>(col, cell). cr_min_column area \<le> col \<and> col \<le> cr_max_column area) (tr_cells row)\<rparr>"
  have cell: "(c, cell) \<in> set (tr_cells ?row)" using row assms(2) by (simp add: contains_cell_def)
  then have "list_ex (\<lambda>(col, cell). visible_cell cell) (tr_cells ?row)" using row(4) by (auto simp: list_ex_iff)
  then have "?row \<in> set (map fst (area_rows area rows))"
    using row(1,2) assms(2) by (force simp: area_rows_def contains_cell_def image_iff)
  then show ?thesis using cell row(2,4) unfolding shows_at_def by (intro bexI [of _ ?row]) auto
qed

lemma split_stacked_good:
  assumes "split_stacked_regions area rows merges = Inr out" "ascending rows"
  shows "times_stacked out r c \<le> (if contains_cell area r c then 1 else 0) \<and>
    (shows_at (map fst rows) r c \<and> contains_cell area r c \<longrightarrow> times_stacked out r c = 1)"
proof -
  from assms(1) obtain parts where run: "split_rows area merges [] (cr_min_row area) None None (area_rows area rows) = Inr parts"
    and out: "out = (if parts \<noteq> [] then parts else [whole_area area])"
    by (auto simp: split_stacked_regions_def elim!: bindrE)
  show ?thesis
  proof (cases "parts = []")
    case True
    then show ?thesis by (simp add: out whole_area_def contains_cell_def)
  next
    case False
    then obtain p where p: "p \<in> set (area_rows area rows)" using run by (cases "area_rows area rows") auto
    have "cr_min_row area \<le> cr_max_row area" using area_rows_within [OF p] by linarith
    moreover have "sorted_wrt (<) ((cr_min_row area - 1) # map (\<lambda>p. tr_row_number (fst p)) (area_rows area rows))"
      using area_rows_sorted [OF assms(2)] area_rows_within by fastforce
    moreover have "list_all (\<lambda>p. tr_row_number (fst p) \<le> cr_max_row area \<and> row_within area (fst p)) (area_rows area rows)"
      using area_rows_within by (auto simp: list_all_iff)
    ultimately have "split_good area (cr_min_row area) None (cr_min_row area - 1) (map fst (area_rows area rows)) parts r c"
      using split_rows_good [OF run] by (fastforce simp: span_within_def)
    then show ?thesis using False shows_at_area [of rows r c area]
      by (auto simp: out split_good_def split: if_splits)
  qed
qed

lemma times_whole_area: "times_stacked [whole_area area] r c = (if contains_cell area r c then 1 else 0)"
  by (simp add: whole_area_def contains_cell_def)

lemma split_areas_times:
  assumes "split_areas declared rows merges areas = Inr out" "ascending rows"
  shows "times_stacked out r c \<le> times_in areas r c \<and> (shows_at (map fst rows) r c \<longrightarrow> times_stacked out r c = times_in areas r c) \<and>
    whole_area ` (set areas \<inter> set declared) \<subseteq> set out"
  using assms(1)
proof (induction areas arbitrary: out)
  case (Cons area areas)
  from Cons.prems obtain parts rest where
    here: "(if area \<in> set declared then Inr [whole_area area] else split_stacked_regions area rows merges) = Inr parts"
    and rest: "split_areas declared rows merges areas = Inr rest" and out: "out = parts @ rest"
    by (auto elim!: bindrE)
  have "times_stacked parts r c \<le> (if contains_cell area r c then 1 else 0) \<and>
    (shows_at (map fst rows) r c \<longrightarrow> times_stacked parts r c = (if contains_cell area r c then 1 else 0)) \<and>
    (area \<in> set declared \<longrightarrow> whole_area area \<in> set parts)"
  proof (cases "area \<in> set declared")
    case True
    then have "parts = [whole_area area]" using here by simp
    then show ?thesis by (simp add: times_whole_area del: times_stacked_simps(2))
  next
    case False
    then show ?thesis using here split_stacked_good [of area rows merges parts r c] assms(2) by auto
  qed
  then show ?case using Cons.IH [OF rest] out by auto
qed simp

lemma detected_partitions:
  assumes "detect_table_regions sheet declared occupied merges = Inr areas" "partitions declared"
  shows "partitions areas \<and> (\<lparr>ca_row = r, ca_column = c\<rparr> \<in> set occupied \<longrightarrow> times_in areas r c = 1) \<and> set declared \<subseteq> set areas"
proof -
  have one: "times_in declared r c = (if list_ex (\<lambda>a. contains_cell a r c) declared then 1 else 0)" for r c
    using assms(2) [unfolded partitions_def, rule_format, of r c] times_in_0 [of declared r c]
    by (cases "times_in declared r c") (auto simp: list_ex_iff)
  have "times_in areas r c \<le> 1 \<and> (\<lparr>ca_row = r, ca_column = c\<rparr> \<in> set occupied \<longrightarrow> times_in areas r c = 1) \<and> set declared \<subseteq> set areas" for r c
    using detected_residual [OF assms(1), of r c] one [of r c] by (auto split: if_splits)
  then show ?thesis by (auto simp: partitions_def)
qed

text \<open>
  C28. The tables found in a worksheet partition it: when the declared tables do not overlap and the rows
  ascend, no cell of the sheet is in two tables, every cell that has text or a formula is in exactly one, and every
  declared table is kept as it is.
\<close>

theorem tables_partition_cells:
  assumes "sheet_tables sheet declared rows merges = Inr parts" "partitions declared" "ascending rows"
  shows "times_stacked parts r c \<le> 1 \<and> whole_area ` set declared \<subseteq> set parts \<and>
    ((row, bold) \<in> set rows \<and> tr_row_number row = r \<and> (c, cell) \<in> set (tr_cells row) \<and> occupied_cell cell \<and> visible_cell cell
      \<longrightarrow> times_stacked parts r c = 1)"
proof -
  from assms(1) obtain areas where
    detect: "detect_table_regions sheet declared (occupied_addresses (map fst rows)) merges = Inr areas" and
    split: "split_areas declared rows merges (combine_numbered_regions areas (first_rows (map fst rows)) merges declared) = Inr parts"
    by (auto simp: sheet_tables_def elim!: bindrE split: if_splits)
  let ?combined = "combine_numbered_regions areas (first_rows (map fst rows)) merges declared"
  note found = detected_partitions [OF detect assms(2), of r c]
  note joined = combined_times [of areas "first_rows (map fst rows)" merges declared r c]
  note parts = split_areas_times [OF split assms(3), of r c]
  have one: "times_in ?combined r c \<le> 1" using found joined by (simp add: partitions_def)
  have "times_stacked parts r c = 1"
    if "(row, bold) \<in> set rows" "tr_row_number row = r" "(c, cell) \<in> set (tr_cells row)" "occupied_cell cell" "visible_cell cell"
  proof -
    have "\<lparr>ca_row = r, ca_column = c\<rparr> \<in> set (occupied_addresses (map fst rows))"
      using that by (force simp: occupied_addresses_def)
    moreover have "shows_at (map fst rows) r c" using that by (force simp: shows_at_def)
    ultimately show ?thesis using found joined parts one by auto
  qed
  then show ?thesis using found joined parts one by fastforce
qed

text \<open>
  A sheet with a note above a declared table and, far below it, a title over its whole width with labels: the
  title opens a table although the region has shown no cell yet, and the region that it closes has no columns.
\<close>

definition example_text :: "string \<Rightarrow> table_cell" where
  "example_text t = \<lparr>tc_address = [], tc_raw_value = Text t, tc_display_text = t, tc_value_type = ''string'',
     tc_number_format = ''General'', tc_formula = None, tc_cached_value = No_Value, tc_state = Value_State,
     tc_merge_anchor = None, tc_hidden = False\<rparr>"

definition example_row :: "int \<Rightarrow> string list \<Rightarrow> styled_row" where
  "example_row n texts = (\<lparr>tr_row_number = n, tr_cells = zip [1..int (length texts)] (map example_text texts), tr_hidden = False\<rparr>, [])"

definition example_sheet :: "styled_row list" where
  "example_sheet = [example_row 1 [''note''], example_row 2 [''a'', ''b'', ''c''], example_row 3 [''1'', ''2'', ''3''],
     example_row 20 [''title''], example_row 21 [''x'', ''y'', ''z''], example_row 22 [''4'', ''5'', ''6'']]"

definition example_declared :: "cell_range list" where
  "example_declared = [range_of 0 2 1 3 3]"

definition example_merges :: "cell_range list" where
  "example_merges = [range_of 0 20 1 20 3]"

definition example_tables :: "stacked_region list" where
  "example_tables =
    [whole_area (range_of 0 2 1 3 3), stacked (range_of 0 1 1 1 3) 1 1 (Some (1, 1)),
     stacked (range_of 0 4 1 22 3) 4 19 None, stacked (range_of 0 4 1 22 3) 20 22 (Some (1, 3))]"

definition example_ranges :: "cell_range list" where
  "example_ranges = [range_of 0 2 1 3 3, range_of 0 1 1 1 3, range_of 0 4 1 22 3]"

lemma example_detected:
  "detect_table_regions 0 example_declared (occupied_addresses (map fst example_sheet)) example_merges = Inr example_ranges"
  by code_simp

lemma example_combined:
  "combine_numbered_regions example_ranges (first_rows (map fst example_sheet)) example_merges example_declared = example_ranges"
  by code_simp

lemma example_split: "split_areas example_declared example_sheet example_merges example_ranges = Inr example_tables"
  by code_simp

lemma region_without_columns: "sheet_tables 0 example_declared example_sheet example_merges = Inr example_tables"
  by (simp add: sheet_tables_def example_detected example_combined example_split) (simp add: example_tables_def)

theorem tables_partition_cells_witness: "times_stacked example_tables 22 2 = 1"
proof -
  let ?row = "fst (example_row 22 [''4'', ''5'', ''6''])"
  have "partitions example_declared" by (simp add: partitions_def example_declared_def)
  moreover have "ascending example_sheet" by code_simp
  moreover have "(?row, []) \<in> set example_sheet" by (simp add: example_sheet_def example_row_def)
  moreover have "tr_row_number ?row = 22" "(2, example_text ''5'') \<in> set (tr_cells ?row)"
    "occupied_cell (example_text ''5'')" "visible_cell (example_text ''5'')" by code_simp+
  ultimately show ?thesis
    using tables_partition_cells [OF region_without_columns, of 22 2 ?row "[]" "example_text ''5''"] by blast
qed

text \<open>
  A cell of a shared formula (whose text stands in another cell) without a cached value counts as occupied but shows nothing:
  where it is alone in the last column, no table contains it.
\<close>

definition example_shared :: table_cell where
  "example_shared = (example_text [])\<lparr>tc_raw_value := No_Value, tc_value_type := ''number'', tc_formula := Some [], tc_state := Formula_Missing\<rparr>"

definition example_formulas :: "styled_row list" where
  "example_formulas = [(\<lparr>tr_row_number = 1, tr_cells = [(1, example_text ''a''), (2, example_shared)], tr_hidden = False\<rparr>, [])]"

lemma occupied_cell_lost:
  "occupied_cell example_shared \<and> sheet_tables 0 [] example_formulas [] = Inr [stacked (range_of 0 1 1 1 2) 1 1 (Some (1, 1))]"
  by code_simp

end
