(* ===== verification/Table_Headers.thy ===== *)
theory Table_Headers
  imports Table_Regions
begin

text \<open>
  The header rows of a table and the labels of its columns (\<open>normalize_headers\<close> of \<open>table_headers.py\<close>). The letters
  of a column come from the spreadsheet library and are an argument. The columns of a descriptor begin at
  its area, as the parser builds them.
\<close>

subsection \<open>Columns and descriptors\<close>

record table_column =
  tb_index :: int
  tb_letter :: string
  tb_header_path :: "string list"
  tb_header_addresses :: "string list"
  tb_hidden :: bool

record table_descriptor =
  td_source_id :: string
  td_table_id :: string
  td_sheet_index :: int
  td_sheet_name :: string
  td_cell_range :: cell_range
  td_header_rows :: "int list"
  td_columns :: "table_column list"
  td_merges :: "cell_range list"
  td_schema_version :: int
  td_normalizer_version :: int
  td_method :: string
  td_warnings :: "string list"
  td_declared :: bool
  td_table_name :: "string option"

record header_decision =
  hd_header_rows :: "int list"
  hd_columns :: "table_column list"
  hd_method :: string
  hd_warnings :: "string list"

subsection \<open>Rows of the sample\<close>

definition sample_of :: "table_row list \<Rightarrow> table_row list" where
  "sample_of rows = take 8 (filter (\<lambda>r. list_ex (\<lambda>c. tc_state c = Value_State \<and> tc_display_text c \<noteq> []) (map snd (tr_cells r))) rows)"

definition row_at :: "table_row list \<Rightarrow> int \<Rightarrow> table_row option" where
  "row_at sample = map_of (rev (map (\<lambda>r. (tr_row_number r, r)) sample))"

definition displayed :: "table_row \<Rightarrow> table_cell list" where
  "displayed row = map snd (filter (\<lambda>(col, c). tc_display_text c \<noteq> []) (sort_key fst (tr_cells row)))"

definition displayed_columns :: "table_row \<Rightarrow> int list" where
  "displayed_columns row = map fst (filter (\<lambda>(col, c). tc_display_text c \<noteq> []) (tr_cells row))"

definition level_merges :: "cell_range \<Rightarrow> cell_range list \<Rightarrow> int \<Rightarrow> cell_range list" where
  "level_merges area merges row_number =
     filter (\<lambda>m. cr_min_row m = row_number \<and> cr_min_column area \<le> cr_min_column m \<and> cr_min_column m \<le> cr_max_column m \<and>
       cr_max_column m \<le> cr_max_column area \<and> (cr_min_column m < cr_max_column m \<or> cr_min_row m < cr_max_row m)) merges"

definition merged_title :: "cell_range \<Rightarrow> cell_range list \<Rightarrow> table_row \<Rightarrow> bool" where
  "merged_title area merges row = (case displayed_columns row of
     [col] \<Rightarrow> list_ex (\<lambda>m. cr_min_column m = col \<and> cr_min_column m < cr_max_column m \<and> cr_max_row m = cr_min_row m)
                (level_merges area merges (tr_row_number row))
   | _ \<Rightarrow> False)"

definition header_width :: "cell_range \<Rightarrow> cell_range list \<Rightarrow> table_row \<Rightarrow> nat" where
  "header_width area merges row = length (remdups (displayed_columns row @
     concat (map (\<lambda>m. [cr_min_column m .. cr_max_column m]) (level_merges area merges (tr_row_number row)))))"

fun drop_preamble :: "cell_range \<Rightarrow> cell_range list \<Rightarrow> nat \<Rightarrow> int list \<Rightarrow> table_row list \<Rightarrow> table_row list" where
  "drop_preamble area merges width bold_rows (first # following # rows) =
     (let sparse_preamble = (header_width area merges first * 2 < width \<and> width \<le> header_width area merges following * 2);
          discard_title = (merged_title area merges first \<and> (merged_title area merges following \<or> tr_row_number first \<notin> set bold_rows))
      in if sparse_preamble \<or> discard_title then drop_preamble area merges width bold_rows (following # rows)
         else first # following # rows)"
| "drop_preamble area merges width bold_rows rows = rows"

definition leading_column :: "table_row \<Rightarrow> int" where
  "leading_column row = (if tr_cells row = [] then 0 else least_of (map fst (tr_cells row)))"

definition numbered_leaf :: "table_row list \<Rightarrow> table_row \<Rightarrow> table_row \<Rightarrow> cell_range list \<Rightarrow> bool" where
  "numbered_leaf sample first leaf geometry =
     (let cells = displayed leaf; strings = length (filter (\<lambda>c. tc_value_type c = ''string'') cells);
          ordinals = (case row_at sample (tr_row_number leaf + 1) of None \<Rightarrow> [] | Some numbered \<Rightarrow> displayed numbered);
          leading = leading_column first
      in cells \<noteq> [] \<and> tc_value_type (hd cells) = ''number'' \<and> 2 \<le> strings \<and> length cells \<le> strings * 2 \<and>
         list_all (\<lambda>c. tc_formula c = None \<and> (tc_value_type c = ''string'' \<or> tc_value_type c = ''number'')) cells \<and>
         list_ex (\<lambda>m. cr_min_column m = leading \<and> cr_max_column m = leading \<and> cr_min_row m = tr_row_number first \<and>
           tr_row_number leaf \<le> cr_max_row m) geometry \<and>
         6 \<le> length ordinals \<and> list_all ordinal_cell ordinals \<and> ordinal_labels (whole_values ordinals))"

subsection \<open>Header rows\<close>

definition wide :: "cell_range \<Rightarrow> bool" where
  "wide m \<longleftrightarrow> cr_min_column m < cr_max_column m"

definition row_below :: "table_row list \<Rightarrow> int \<Rightarrow> table_row option" where
  "row_below candidates last_header = find (\<lambda>row. last_header < tr_row_number row) candidates"

lemma row_below_greater: "row_below candidates last_header = Some lower \<Longrightarrow> last_header < tr_row_number lower"
  by (auto simp: row_below_def find_Some_iff)

text \<open>Merged cells of the last header row have their labels in the row below: the header grows, at most to eight rows.\<close>

function extend_header :: "cell_range \<Rightarrow> cell_range list \<Rightarrow> table_row list \<Rightarrow> int \<Rightarrow> int \<Rightarrow> int" where
  "extend_header area merges candidates first_row last_header =
     (if last_header \<le> first_row + 7 then
        (let lower_merges = filter wide (level_merges area merges last_header) in
         case row_below candidates last_header of
           None \<Rightarrow> last_header
         | Some lower \<Rightarrow>
             if lower_merges = [] \<or> \<not> text_header lower then last_header
             else extend_header area merges candidates first_row (max (tr_row_number lower) (greatest_of (map cr_max_row lower_merges))))
      else last_header)"
  by pat_completeness auto
termination
  by (relation "measure (\<lambda>(area, merges, candidates, first_row, last_header). nat (first_row + 8 - last_header))")
    (auto dest: row_below_greater)

declare extend_header.simps [simp del]

definition merge_signature :: "cell_range \<Rightarrow> cell_range list \<Rightarrow> table_row \<Rightarrow> (int \<times> int) list" where
  "merge_signature area merges row =
     sort_key fst (sort_key snd (map (\<lambda>m. (cr_min_column m, cr_max_column m)) (filter wide (level_merges area merges (tr_row_number row)))))"

definition repeated_groups :: "(int \<times> int) list list \<Rightarrow> bool" where
  "repeated_groups signatures = list_ex (\<lambda>(left, right). left \<noteq> [] \<and> left = right) (zip signatures (tl signatures))"

definition leading_boundary :: "table_row \<Rightarrow> table_row \<Rightarrow> bool" where
  "leading_boundary first following \<longleftrightarrow> displayed first \<noteq> [] \<and> displayed following \<noteq> [] \<and>
     tc_value_type (hd (displayed first)) = ''string'' \<and> tc_value_type (hd (displayed following)) \<noteq> ''string''"

definition textual_row :: "table_row \<Rightarrow> bool" where
  "textual_row row \<longleftrightarrow> displayed row \<noteq> [] \<and> list_all (\<lambda>c. tc_value_type c = ''string'' \<and> tc_formula c = None) (displayed row)"

definition body_row :: "table_row \<Rightarrow> bool" where
  "body_row row = list_ex (\<lambda>c. tc_state c = Value_State \<and> tc_value_type c \<noteq> ''string'') (map snd (tr_cells row))"

definition geometry_header :: "cell_range \<Rightarrow> cell_range list \<Rightarrow> table_row list \<Rightarrow> table_row list \<Rightarrow> table_row \<Rightarrow> table_row \<Rightarrow> cell_range list \<Rightarrow> bool" where
  "geometry_header area merges sample candidates first following geometry =
     (let deepest = greatest_of (map cr_max_row geometry);
          has_body_boundary = list_ex body_row (tl candidates);
          caption_leaf = (merged_title area merges first \<and> text_header following \<and> level_merges area merges (tr_row_number following) = [])
      in (geometry \<noteq> [] \<and> deepest \<le> tr_row_number first + 7) \<and> (has_body_boundary \<or> caption_leaf) \<and>
         (tr_row_number first < deepest \<and>
            (deepest < tr_row_number following \<or> label_row following \<or> numbered_leaf sample first following geometry) \<or>
          text_header following))"

definition initial_header :: "table_row \<Rightarrow> table_row \<Rightarrow> cell_range list \<Rightarrow> int" where
  "initial_header first following geometry =
     greatest_of (map cr_max_row geometry @
       [if list_ex wide geometry \<and> (text_header following \<or> tr_row_number following \<le> greatest_of (map cr_max_row geometry))
        then tr_row_number following else tr_row_number first])"

definition structural_rows :: "cell_range \<Rightarrow> cell_range list \<Rightarrow> table_row list \<Rightarrow> table_row list \<Rightarrow> (int list \<times> string)" where
  "structural_rows area merges sample candidates =
     (case candidates of
        first # following # _ \<Rightarrow>
          if textual_row first \<or> label_row first \<and> leading_boundary first following then
            (let geometry = level_merges area merges (tr_row_number first) in
             if geometry_header area merges sample candidates first following geometry then
               (let last_header = extend_header area merges candidates (tr_row_number first) (initial_header first following geometry);
                    signatures = map (merge_signature area merges) (filter (\<lambda>row. tr_row_number row \<le> last_header) candidates);
                    merged_leaf = list_ex wide (level_merges area merges last_header)
                in if last_header \<le> tr_row_number first + 7 \<and> \<not> (repeated_groups signatures \<and> merged_leaf)
                   then ([tr_row_number first .. last_header], ''structural'') else ([], ''unresolved''))
             else if geometry = [] \<and> (leading_boundary first following \<or> textual_row first \<and> body_row following)
             then ([tr_row_number first], ''structural'') else ([], ''unresolved''))
          else ([], ''unresolved'')
      | _ \<Rightarrow> ([], ''unresolved''))"

definition header_rows_of :: "table_descriptor \<Rightarrow> cell_range list \<Rightarrow> table_row list \<Rightarrow> int list \<Rightarrow> (int list \<times> string)" where
  "header_rows_of descriptor merges sample bold_rows =
     (let area = td_cell_range descriptor;
          candidates = drop_preamble area merges (length (td_columns descriptor)) bold_rows sample
      in if td_declared descriptor \<and> row_at sample (cr_min_row area) \<noteq> None then ([cr_min_row area], ''explicit'')
         else structural_rows area merges sample candidates)"

subsection \<open>Labels\<close>

definition header_cell :: "cell_range list \<Rightarrow> table_row list \<Rightarrow> int list \<Rightarrow> int \<Rightarrow> int \<Rightarrow> table_cell option" where
  "header_cell merges sample headers column row_number =
     (case find (\<lambda>m. contains_cell m row_number column \<and> cr_min_row m \<in> set headers) merges of
        Some m \<Rightarrow> (case row_at sample (cr_min_row m) of None \<Rightarrow> None | Some anchor \<Rightarrow> map_of (tr_cells anchor) (cr_min_column m))
      | None \<Rightarrow> (case row_at sample row_number of None \<Rightarrow> None | Some row \<Rightarrow> map_of (tr_cells row) column))"

definition add_label :: "table_cell option \<Rightarrow> string list \<times> string list \<Rightarrow> string list \<times> string list" where
  "add_label cell found =
     (case cell of
        Some c \<Rightarrow> if tc_display_text c \<noteq> [] \<and> (fst found = [] \<or> last (fst found) \<noteq> tc_display_text c)
                 then (fst found @ [tc_display_text c], snd found @ [tc_address c]) else found
      | None \<Rightarrow> found)"

definition column_labels :: "cell_range list \<Rightarrow> table_row list \<Rightarrow> int list \<Rightarrow> int \<Rightarrow> string list \<times> string list" where
  "column_labels merges sample headers column =
     fold (\<lambda>row_number. add_label (header_cell merges sample headers column row_number)) headers ([], [])"

definition labelled_column :: "(int \<Rightarrow> string) \<Rightarrow> cell_range list \<Rightarrow> table_row list \<Rightarrow> int list \<Rightarrow> table_column \<Rightarrow> table_column" where
  "labelled_column letter merges sample headers column =
     (case column_labels merges sample headers (tb_index column) of (labels, addresses) \<Rightarrow>
        column\<lparr>tb_header_path := if labels = [] then [letter (tb_index column)] else labels, tb_header_addresses := addresses\<rparr>)"

definition declared_column :: "cell_range \<Rightarrow> string list \<Rightarrow> table_column \<Rightarrow> table_column" where
  "declared_column area names column =
     (let offset = tb_index column - cr_min_column area;
          name = (if offset < int (length names) then names ! nat offset else [])
      in column\<lparr>tb_header_path := [if name = [] then tb_letter column else name], tb_header_addresses := []\<rparr>)"

definition normalize_headers ::
    "(int \<Rightarrow> string) \<Rightarrow> table_descriptor \<Rightarrow> table_row list \<Rightarrow> cell_range list \<Rightarrow> int list \<Rightarrow> int \<Rightarrow> string list \<Rightarrow> header_decision" where
  "normalize_headers letter descriptor sample_rows merges bold_rows declared_header_count declared_column_names =
     (if td_declared descriptor \<and> declared_header_count = 0 then
        \<lparr>hd_header_rows = [],
         hd_columns = map (declared_column (td_cell_range descriptor) declared_column_names) (td_columns descriptor),
         hd_method = ''explicit'', hd_warnings = []\<rparr>
      else
        (let sample = sample_of sample_rows in
         case header_rows_of descriptor merges sample bold_rows of (headers, how) \<Rightarrow>
           \<lparr>hd_header_rows = headers, hd_columns = map (labelled_column letter merges sample headers) (td_columns descriptor),
            hd_method = how, hd_warnings = if how = ''unresolved'' then [''header_ambiguous''] else []\<rparr>))"

subsection \<open>Labels come from header rows\<close>

text \<open>The label and address pairs of displayed cells in the rows \<open>headers\<close>.\<close>

definition label_source :: "table_row list \<Rightarrow> int list \<Rightarrow> string \<times> string \<Rightarrow> bool" where
  "label_source rows headers p \<longleftrightarrow> (\<exists>row\<in>set rows. tr_row_number row \<in> set headers \<and>
     (\<exists>cell\<in>snd ` set (tr_cells row). tc_display_text cell \<noteq> [] \<and> p = (tc_display_text cell, tc_address cell)))"

definition labels_ok :: "table_row list \<Rightarrow> int list \<Rightarrow> string list \<times> string list \<Rightarrow> bool" where
  "labels_ok rows headers found \<longleftrightarrow> length (fst found) = length (snd found) \<and> distinct_adj (fst found) \<and>
     (\<forall>p\<in>set (zip (fst found) (snd found)). label_source rows headers p)"

lemma row_at_Some: "row_at sample n = Some row \<Longrightarrow> row \<in> set sample \<and> tr_row_number row = n"
  unfolding row_at_def by (drule map_of_SomeD) auto

lemma header_cell_source:
  assumes "header_cell merges sample headers column n = Some cell" "n \<in> set headers" "tc_display_text cell \<noteq> []"
  shows "label_source sample headers (tc_display_text cell, tc_address cell)"
proof -
  from assms(1,2) obtain row m c where "row_at sample m = Some row" "m \<in> set headers" "map_of (tr_cells row) c = Some cell"
    by (auto simp: header_cell_def find_Some_iff split: option.splits)
  then show ?thesis using row_at_Some [of sample m row] assms(3) map_of_SomeD [of "tr_cells row" c cell]
    unfolding label_source_def by force
qed

lemma distinct_adj_snoc: "distinct_adj (xs @ [x]) \<longleftrightarrow> distinct_adj xs \<and> (xs = [] \<or> last xs \<noteq> x)"
  by (simp add: distinct_adj_append_iff)

lemma add_label_ok:
  assumes "labels_ok sample headers found" "n \<in> set headers"
  shows "labels_ok sample headers (add_label (header_cell merges sample headers column n) found)"
  using assms header_cell_source [of merges sample headers column n]
  by (auto simp: add_label_def labels_ok_def distinct_adj_snoc zip_append split: option.split)

lemma fold_labels_ok:
  assumes "labels_ok sample headers found" "set ns \<subseteq> set headers"
  shows "labels_ok sample headers (fold (\<lambda>n. add_label (header_cell merges sample headers column n)) ns found)"
  using assms by (induction ns arbitrary: found) (simp_all add: add_label_ok)

lemma column_labels_ok: "labels_ok sample headers (column_labels merges sample headers column)"
  unfolding column_labels_def by (rule fold_labels_ok) (simp_all add: labels_ok_def)

subsection \<open>The decision\<close>

definition same_column :: "table_column \<Rightarrow> table_column \<Rightarrow> bool" where
  "same_column c d \<longleftrightarrow> tb_index c = tb_index d \<and> tb_letter c = tb_letter d \<and> tb_hidden c = tb_hidden d"

definition column_ok :: "table_row list \<Rightarrow> int list \<Rightarrow> table_column \<Rightarrow> bool" where
  "column_ok rows headers c \<longleftrightarrow> tb_header_path c \<noteq> [] \<and> distinct_adj (tb_header_path c) \<and>
     (tb_header_addresses c = [] \<and> length (tb_header_path c) = 1 \<or> labels_ok rows headers (tb_header_path c, tb_header_addresses c))"

definition header_block :: "table_row list \<Rightarrow> int list \<Rightarrow> bool" where
  "header_block rows headers \<longleftrightarrow> headers \<noteq> [] \<and> headers = [hd headers .. last headers] \<and> length headers \<le> 8 \<and> hd headers \<in> tr_row_number ` set rows"

definition decision_ok :: "table_descriptor \<Rightarrow> table_row list \<Rightarrow> header_decision \<Rightarrow> bool" where
  "decision_ok descriptor rows d \<longleftrightarrow> list_all2 same_column (td_columns descriptor) (hd_columns d) \<and>
     list_all (column_ok rows (hd_header_rows d)) (hd_columns d) \<and>
     hd_warnings d = (if hd_method d = ''unresolved'' then [''header_ambiguous''] else []) \<and>
     (if hd_method d = ''structural'' then header_block rows (hd_header_rows d)
      else if hd_method d = ''unresolved'' then hd_header_rows d = []
      else hd_method d = ''explicit'' \<and> td_declared descriptor \<and> hd_header_rows d \<in> {[], [cr_min_row (td_cell_range descriptor)]})"

lemma drop_preamble_suffix: "\<exists>pre. rows = pre @ drop_preamble area merges width bold_rows rows"
proof (induction area merges width bold_rows rows rule: drop_preamble.induct)
  case (1 area merges width bold_rows first following rows)
  then show ?case by (auto simp: Let_def) (metis append_Cons)+
qed auto

lemma initial_header_ge:
  assumes "tr_row_number first < tr_row_number following"
  shows "tr_row_number first \<le> initial_header first following geometry"
proof -
  define x where "x = (if list_ex wide geometry \<and> (text_header following \<or> tr_row_number following \<le> greatest_of (map cr_max_row geometry))
    then tr_row_number following else tr_row_number first)"
  have "tr_row_number first \<le> x" using assms by (simp add: x_def)
  also have "x \<le> greatest_of (map cr_max_row geometry @ [x])" by (rule greatest_of_ge) simp
  finally show ?thesis by (simp only: initial_header_def x_def)
qed

lemma extend_header_ge: "last_header \<le> extend_header area merges candidates first_row last_header"
proof (induction area merges candidates first_row last_header rule: extend_header.induct)
  case (1 area merges candidates first_row last_header)
  then show ?case
    by (subst extend_header.simps) (fastforce simp: Let_def split: option.split dest: row_below_greater)
qed

lemma upto_ends: "n \<le> k \<Longrightarrow> hd [n .. k] = n \<and> last [n .. k] = (k::int) \<and> [n .. k] \<noteq> []"
  using upto_rec1 [of n k] upto_rec2 [of n k] by (metis last_snoc list.distinct(1) list.sel(1))

lemma header_block_upto: "n \<in> tr_row_number ` set rows \<Longrightarrow> n \<le> k \<Longrightarrow> k \<le> n + 7 \<Longrightarrow> header_block rows [n .. k]"
  by (simp add: header_block_def upto_ends)

lemma structural_rows_ok:
  assumes "structural_rows area merges sample candidates = (headers, how)" "sorted_wrt (<) (map tr_row_number candidates)"
    and "set candidates \<subseteq> set rows"
  shows "if how = ''structural'' then header_block rows headers else how = ''unresolved'' \<and> headers = []"
proof (cases candidates)
  case (Cons first rest)
  show ?thesis
  proof (cases rest)
    case (Cons following others)
    note c = \<open>candidates = first # rest\<close> Cons
    let ?last = "extend_header area merges candidates (tr_row_number first)
      (initial_header first following (level_merges area merges (tr_row_number first)))"
    have first: "tr_row_number first \<in> tr_row_number ` set rows" using assms(3) c by auto
    have "tr_row_number first \<le> ?last"
      using initial_header_ge [of first following] extend_header_ge assms(2) c by (fastforce intro: order_trans)
    then have "header_block rows [tr_row_number first .. ?last]" if "?last \<le> tr_row_number first + 7"
      using header_block_upto [OF first] that by blast
    moreover have "header_block rows [tr_row_number first]" using header_block_upto [OF first, of "tr_row_number first"] by simp
    ultimately show ?thesis using assms(1) c by (auto simp: structural_rows_def Let_def split: if_splits)
  qed (use assms(1) Cons in \<open>auto simp: structural_rows_def\<close>)
qed (use assms(1) in \<open>auto simp: structural_rows_def\<close>)

lemma labels_ok_mono: "labels_ok sample headers found \<Longrightarrow> set sample \<subseteq> set rows \<Longrightarrow> labels_ok rows headers found"
  by (auto simp: labels_ok_def label_source_def) blast

lemma labelled_column_ok:
  assumes "set sample \<subseteq> set rows"
  shows "same_column column (labelled_column letter merges sample headers column) \<and>
    column_ok rows headers (labelled_column letter merges sample headers column)"
proof -
  obtain labels addresses where l: "column_labels merges sample headers (tb_index column) = (labels, addresses)"
    by (cases "column_labels merges sample headers (tb_index column)")
  have "labels_ok rows headers (labels, addresses)"
    using labels_ok_mono [OF column_labels_ok assms, of headers merges "tb_index column"] l by simp
  then show ?thesis by (auto simp: labelled_column_def l same_column_def column_ok_def labels_ok_def)
qed

lemma sorted_map_suffix: "sorted_wrt R (map f (xs @ ys)) \<Longrightarrow> sorted_wrt R (map f ys)"
  by (simp add: sorted_wrt_append)

lemma sample_of_rows:
  assumes "sorted_wrt (<) (map tr_row_number rows)"
  shows "sorted_wrt (<) (map tr_row_number (sample_of rows)) \<and> set (sample_of rows) \<subseteq> set rows"
proof
  show "sorted_wrt (<) (map tr_row_number (sample_of rows))"
    unfolding sample_of_def take_map [symmetric] by (intro sorted_wrt_take sorted_map_filter assms)
  show "set (sample_of rows) \<subseteq> set rows" by (auto simp: sample_of_def dest: in_set_takeD)
qed

definition rows_decided :: "table_descriptor \<Rightarrow> table_row list \<Rightarrow> int list \<Rightarrow> string \<Rightarrow> bool" where
  "rows_decided descriptor rows headers how \<longleftrightarrow>
     (if how = ''structural'' then header_block rows headers
      else if how = ''unresolved'' then headers = []
      else how = ''explicit'' \<and> td_declared descriptor \<and> headers \<in> {[], [cr_min_row (td_cell_range descriptor)]})"

lemma header_rows_decided:
  assumes "header_rows_of descriptor merges sample bold_rows = (headers, how)" "sorted_wrt (<) (map tr_row_number sample)"
    and "set sample \<subseteq> set rows"
  shows "rows_decided descriptor rows headers how"
proof (cases "td_declared descriptor \<and> row_at sample (cr_min_row (td_cell_range descriptor)) \<noteq> None")
  case True
  then show ?thesis using assms(1) by (auto simp: header_rows_of_def Let_def rows_decided_def)
next
  case False
  let ?candidates = "drop_preamble (td_cell_range descriptor) merges (length (td_columns descriptor)) bold_rows sample"
  obtain pre where pre: "sample = pre @ ?candidates" using drop_preamble_suffix by blast
  have "structural_rows (td_cell_range descriptor) merges sample ?candidates = (headers, how)"
    using assms(1) False unfolding header_rows_of_def Let_def by argo
  moreover have "sorted_wrt (<) (map tr_row_number ?candidates)"
    by (rule sorted_map_suffix [of _ _ pre]) (use assms(2) pre in simp)
  moreover have "set ?candidates \<subseteq> set rows" using assms(3) pre by (metis Un_upper2 order_trans set_append)
  ultimately have "if how = ''structural'' then header_block rows headers else how = ''unresolved'' \<and> headers = []"
    by (rule structural_rows_ok)
  then show ?thesis by (auto simp: rows_decided_def split: if_splits)
qed


definition example_number :: table_cell where
  "example_number = (example_text ''5'')\<lparr>tc_raw_value := Whole 5, tc_value_type := ''number''\<rparr>"

definition example_header_rows :: "table_row list" where
  "example_header_rows =
    [\<lparr>tr_row_number = 1, tr_cells = [(1, example_text ''Key''), (2, example_text ''Size'')], tr_hidden = False\<rparr>,
     \<lparr>tr_row_number = 2, tr_cells = [(2, example_text ''min''), (3, example_text ''max'')], tr_hidden = False\<rparr>,
     \<lparr>tr_row_number = 3, tr_cells = [(1, example_text ''a''), (2, example_number), (3, example_number)], tr_hidden = False\<rparr>]"

definition example_letter :: "int \<Rightarrow> string" where
  "example_letter c = [char_of (nat (64 + c))]"

definition example_descriptor :: table_descriptor where
  "example_descriptor = \<lparr>td_source_id = ''root'', td_table_id = ''t'', td_sheet_index = 0, td_sheet_name = ''s'',
     td_cell_range = range_of 0 1 1 3 3, td_header_rows = [],
     td_columns = map (\<lambda>c. \<lparr>tb_index = c, tb_letter = example_letter c, tb_header_path = [], tb_header_addresses = [], tb_hidden = False\<rparr>) [1, 2, 3],
     td_merges = [], td_schema_version = 1, td_normalizer_version = 4, td_method = ''unresolved'', td_warnings = [],
     td_declared = False, td_table_name = None\<rparr>"

definition example_header_merges :: "cell_range list" where
  "example_header_merges = [range_of 0 1 1 2 1, range_of 0 1 2 1 3]"

definition example_decision :: header_decision where
  "example_decision = normalize_headers example_letter example_descriptor example_header_rows example_header_merges [] 1 []"


end
