(* ===== verification/Llm_Scheduler.thy ===== *)
theory Llm_Scheduler
  imports Interfaces
begin

text \<open>
  Admission to the local GPU (\<open>llm_scheduler.py\<close>): tickets wait in one queue, interactive ones first and
  first come first served within a class; one call runs at a time and its release is
  idempotent. \<open>acquire\<close> is split where it gives up the condition: entering the queue, and one
  round of its loop. \<open>tk_id\<close> is the identity of the ticket object, \<open>tk_deadline\<close> the
  deadline local to its call, and \<open>ls_grants\<close> the \<open>release\<close> closures handed out, with
  their \<open>released\<close> flag.
\<close>

subsection \<open>The scheduler\<close>

record ticket =
  tk_id :: nat
  tk_rank :: nat
  tk_deadline :: time

record scheduler =
  ls_queue :: "ticket list"
  ls_busy :: bool
  ls_grants :: "(nat \<times> bool) list"

definition new_scheduler :: scheduler where
  "new_scheduler = \<lparr>ls_queue = [], ls_busy = False, ls_grants = []\<rparr>"

definition waiting :: "scheduler \<Rightarrow> nat" where
  "waiting s = length (ls_queue s)"

definition new_ticket :: "nat \<Rightarrow> bool \<Rightarrow> time \<Rightarrow> time \<Rightarrow> ticket" where
  "new_ticket i interactive now timeout =
     \<lparr>tk_id = i, tk_rank = (if interactive then 0 else 1), tk_deadline = now + timeout\<rparr>"

definition enter :: "ticket \<Rightarrow> scheduler \<Rightarrow> scheduler" where
  "enter t s = s\<lparr>ls_queue := ls_queue s @ [t]\<rparr>"

text \<open>The \<open>finally\<close> of \<open>acquire\<close>.\<close>

definition leave :: "ticket \<Rightarrow> scheduler \<Rightarrow> scheduler" where
  "leave t s = s\<lparr>ls_queue := remove1 t (ls_queue s)\<rparr>"

text \<open>
  One round of the loop: an exception ends the call, \<open>Inr True\<close> hands out the GPU, and
  \<open>Inr False\<close> waits for the condition.
\<close>

definition poll :: "time \<Rightarrow> bool \<Rightarrow> ticket \<Rightarrow> scheduler \<Rightarrow> bool result \<times> scheduler" where
  "poll now cancelled t s =
     (if cancelled then (Inl LLMCancelled, leave t s)
      else if tk_deadline t \<le> now then (Inl TimeoutError, leave t s)
      else let first = arg_min_list tk_rank (ls_queue s) in
        if \<not> ls_busy s \<and> first = t
        then (Inr True, leave t (s\<lparr>ls_busy := True, ls_grants := ls_grants s @ [(tk_id t, False)]\<rparr>))
        else (Inr False, s))"

definition release_gpu :: "nat \<Rightarrow> scheduler \<Rightarrow> scheduler" where
  "release_gpu i s =
     (if (i, False) \<in> set (ls_grants s)
      then s\<lparr>ls_busy := False, ls_grants := map (\<lambda>(j, r). (j, r \<or> j = i)) (ls_grants s)\<rparr>
      else s)"

subsection \<open>Runs\<close>

datatype sched_op = Enter nat bool time time | Poll time bool nat | Release nat

definition ticket_of :: "nat \<Rightarrow> scheduler \<Rightarrow> ticket option" where
  "ticket_of i s = get_by tk_id i (ls_queue s)"

fun sched_exec :: "sched_op \<Rightarrow> scheduler \<Rightarrow> scheduler" where
  "sched_exec (Enter i interactive now timeout) s = enter (new_ticket i interactive now timeout) s"
| "sched_exec (Poll now cancelled i) s =
     (case ticket_of i s of None \<Rightarrow> s | Some t \<Rightarrow> snd (poll now cancelled t s))"
| "sched_exec (Release i) s = release_gpu i s"

text \<open>Ticket objects are new when their call enters.\<close>

fun fresh_ticket :: "sched_op \<Rightarrow> scheduler \<Rightarrow> bool" where
  "fresh_ticket (Enter i _ _ _) s \<longleftrightarrow> i \<notin> set (map tk_id (ls_queue s)) \<and> i \<notin> set (map fst (ls_grants s))"
| "fresh_ticket _ s \<longleftrightarrow> True"

fun sched_run :: "sched_op list \<Rightarrow> scheduler \<Rightarrow> scheduler" where
  "sched_run [] s = s"
| "sched_run (op # ops) s = sched_run ops (sched_exec op s)"

fun sched_ok :: "sched_op list \<Rightarrow> scheduler \<Rightarrow> bool" where
  "sched_ok [] s \<longleftrightarrow> True"
| "sched_ok (op # ops) s \<longleftrightarrow> fresh_ticket op s \<and> sched_ok ops (sched_exec op s)"

subsection \<open>One call at a time\<close>

definition running :: "scheduler \<Rightarrow> nat list" where
  "running s = map fst (filter (\<lambda>(i, released). \<not> released) (ls_grants s))"

definition sched_inv :: "scheduler \<Rightarrow> bool" where
  "sched_inv s \<longleftrightarrow> distinct (map tk_id (ls_queue s) @ map fst (ls_grants s)) \<and> length (running s) = (if ls_busy s then 1 else 0)"

text \<open>The interactive calls that entered before \<open>i\<close> and still wait.\<close>

definition ahead :: "nat \<Rightarrow> scheduler \<Rightarrow> nat" where
  "ahead i s = length (filter (\<lambda>u. tk_rank u = 0) (takeWhile (\<lambda>u. tk_id u \<noteq> i) (ls_queue s)))"

lemma arg_min_list_zero:
  fixes f :: "'a \<Rightarrow> nat"
  shows "filter (\<lambda>u. f u = 0) q \<noteq> [] \<Longrightarrow> arg_min_list f q = hd (filter (\<lambda>u. f u = 0) q)"
proof (induction f q rule: arg_min_list.induct)
  case (2 f x y zs)
  show ?case
  proof (cases "f x = 0")
    case False
    with 2 have least: "arg_min_list f (y # zs) = hd (filter (\<lambda>u. f u = 0) (y # zs))"
      and ne: "filter (\<lambda>u. f u = 0) (y # zs) \<noteq> []" by simp_all
    have "f (arg_min_list f (y # zs)) = 0" using hd_in_set [OF ne] least by auto
    with False least show ?thesis by (simp add: Let_def)
  qed simp
qed (auto split: if_split_asm)

lemmas first_interactive = arg_min_list_zero [where f = tk_rank]

lemma ticket_of_in: "ticket_of i s = Some t \<Longrightarrow> t \<in> set (ls_queue s) \<and> tk_id t = i"
  unfolding ticket_of_def by (rule get_by_SomeD)

lemma queue_split:
  assumes "ticket_of i s = Some t"
  obtains pre post where "ls_queue s = pre @ t # post" and "takeWhile (\<lambda>u. tk_id u \<noteq> i) (ls_queue s) = pre"
    and "\<forall>u\<in>set pre. tk_id u \<noteq> i" and "tk_id t = i"
proof -
  have "get_by tk_id i q = Some t \<Longrightarrow> q = takeWhile (\<lambda>u. tk_id u \<noteq> i) q @ t # drop (Suc (length (takeWhile (\<lambda>u. tk_id u \<noteq> i) q))) q" for q
    by (induction q) (auto split: if_split_asm)
  from this [OF assms [unfolded ticket_of_def]] show ?thesis
    by (rule that) (use ticket_of_in [OF assms] in \<open>auto dest: set_takeWhileD\<close>)
qed

text \<open>The scheduler grants the first interactive ticket, so a ticket granted before \<open>i\<close> was ahead of it.\<close>

lemma granted_was_ahead:
  assumes t: "ticket_of i s = Some t" "tk_rank t = 0" and u: "arg_min_list tk_rank (ls_queue s) = u" "tk_id u \<noteq> i"
  shows "u \<in> set (takeWhile (\<lambda>u. tk_id u \<noteq> i) (ls_queue s)) \<and> tk_rank u = 0"
proof -
  obtain pre post where q: "ls_queue s = pre @ t # post" and pre: "takeWhile (\<lambda>u. tk_id u \<noteq> i) (ls_queue s) = pre"
    and id: "tk_id t = i" using t(1) by (rule queue_split)
  have u_hd: "u = hd (filter (\<lambda>u. tk_rank u = 0) (ls_queue s))"
    using first_interactive [of "ls_queue s"] t(2) u(1) by (simp add: q)
  have ne: "filter (\<lambda>u. tk_rank u = 0) pre \<noteq> []"
  proof
    assume "filter (\<lambda>u. tk_rank u = 0) pre = []"
    then have "u = t" using u_hd t(2) by (simp add: q)
    with id u(2) show False by simp
  qed
  then have "u = hd (filter (\<lambda>u. tk_rank u = 0) pre)" using u_hd by (simp add: q)
  with hd_in_set [OF ne] show ?thesis by (auto simp: pre)
qed

lemma idle_grants_first:
  assumes "ticket_of i s = Some t" and "tk_rank t = 0" and "ahead i s = 0" and "\<not> ls_busy s" and "now < tk_deadline t"
  shows "fst (poll now False t s) = Inr True"
proof -
  have "arg_min_list tk_rank (ls_queue s) = t"
  proof (rule ccontr)
    assume ne: "arg_min_list tk_rank (ls_queue s) \<noteq> t"
    obtain pre post where q: "ls_queue s = pre @ t # post" and pre: "takeWhile (\<lambda>u. tk_id u \<noteq> i) (ls_queue s) = pre"
      using assms(1) by (rule queue_split)
    have "filter (\<lambda>u. tk_rank u = 0) pre = []" using assms(3) by (simp add: ahead_def pre)
    with first_interactive [of "ls_queue s"] assms(2) ne show False by (simp add: q)
  qed
  then show ?thesis using assms(4,5) by (simp add: poll_def)
qed

subsection \<open>Every step\<close>

definition granted :: "ticket \<Rightarrow> scheduler \<Rightarrow> scheduler" where
  "granted t s = leave t (s\<lparr>ls_busy := True, ls_grants := ls_grants s @ [(tk_id t, False)]\<rparr>)"

lemma poll_cases:
  "snd (poll now c t s) = leave t s \<or> snd (poll now c t s) = s \<or>
   (\<not> ls_busy s \<and> arg_min_list tk_rank (ls_queue s) = t \<and> snd (poll now c t s) = granted t s)"
  by (simp add: poll_def granted_def)

lemma in_set_remove1: "x \<in> set (remove1 t q) \<Longrightarrow> x \<in> set q"
  using set_remove1_subset [of t q] by blast

lemma distinct_remove1_map: "distinct (map f q) \<Longrightarrow> distinct (map f (remove1 t q))"
  by (induction q) (auto dest: in_set_remove1)

lemma set_remove1_map: "distinct (map f q) \<Longrightarrow> t \<in> set q \<Longrightarrow> f ` set (remove1 t q) = f ` set q - {f t}"
  by (induction q) auto

lemma takeWhile_remove1:
  "tk_id t \<noteq> i \<Longrightarrow> i \<in> tk_id ` set q \<Longrightarrow>
   takeWhile (\<lambda>u. tk_id u \<noteq> i) (remove1 t q) = remove1 t (takeWhile (\<lambda>u. tk_id u \<noteq> i) q)"
  by (induction q) auto

lemma leave_inv: "sched_inv s \<Longrightarrow> sched_inv (leave t s)"
  unfolding sched_inv_def leave_def running_def
  by (auto simp: distinct_remove1_map dest!: in_set_remove1)

lemma grant_inv:
  assumes "sched_inv s" and "t \<in> set (ls_queue s)" and "\<not> ls_busy s"
  shows "sched_inv (granted t s)"
proof -
  have "tk_id t \<notin> tk_id ` set (remove1 t (ls_queue s))"
    using assms set_remove1_map [of tk_id "ls_queue s" t] by (auto simp: sched_inv_def)
  with assms show ?thesis
    by (auto simp: sched_inv_def granted_def leave_def running_def distinct_remove1_map image_iff dest: in_set_remove1)
qed

lemma release_inv:
  assumes "sched_inv s"
  shows "sched_inv (release_gpu i s)"
proof (cases "(i, False) \<in> set (ls_grants s)")
  case True
  have same: "fst \<circ> (\<lambda>(j, r). (j, r \<or> j = i)) = fst" "(\<lambda>x. fst (case x of (j, r) \<Rightarrow> (j, r \<or> j = i))) = fst" by auto
  have running: "map fst (filter (\<lambda>(i, released). \<not> released) (map (\<lambda>(j, r). (j, r \<or> j = i)) g))
      = filter (\<lambda>j. j \<noteq> i) (map fst (filter (\<lambda>(i, released). \<not> released) g))" for g :: "(nat \<times> bool) list"
    by (induction g) auto
  have "i \<in> set (running s)" using True by (force simp: running_def)
  moreover have "length (running s) \<le> 1" using assms by (simp add: sched_inv_def)
  ultimately have "running s = [i]" by (cases "running s") auto
  with assms True show ?thesis unfolding sched_inv_def release_gpu_def by (simp add: running_def running same)
qed (use assms in \<open>simp add: release_gpu_def\<close>)

lemma get_by_remove1:
  "key t \<noteq> k \<Longrightarrow> get_by key k (remove1 t q) = get_by key k q"
  by (induction q) auto

lemma ticket_leave_other: "tk_id t \<noteq> i \<Longrightarrow> ticket_of i (leave t s) = ticket_of i s"
  by (simp add: ticket_of_def leave_def get_by_remove1)

lemma exec_inv: "fresh_ticket op s \<Longrightarrow> sched_inv s \<Longrightarrow> sched_inv (sched_exec op s)"
proof (induction op)
  case (Enter i interactive now timeout)
  then show ?case by (auto simp: sched_inv_def enter_def new_ticket_def running_def)
next
  case (Poll now c i)
  show ?case
  proof (cases "ticket_of i s")
    case (Some t)
    with poll_cases [of now c t s] Poll.prems(2) ticket_of_in [OF Some] show ?thesis
      by (auto intro: leave_inv grant_inv)
  qed (use Poll in simp)
qed (simp add: release_inv)

interpretation sched: invariant_system "\<lambda>s s'. \<exists>op. fresh_ticket op s \<and> s' = sched_exec op s" sched_inv
  by unfold_locales (auto intro: exec_inv)

lemma run_steps: "sched_ok ops s \<Longrightarrow> (\<lambda>s s'. \<exists>op. fresh_ticket op s \<and> s' = sched_exec op s)\<^sup>*\<^sup>* s (sched_run ops s)"
  by (induction ops arbitrary: s) (auto intro: converse_rtranclp_into_rtranclp)

lemma run_inv: "sched_ok ops s \<Longrightarrow> sched_inv s \<Longrightarrow> sched_inv (sched_run ops s)"
  by (rule sched.steps_inv [OF run_steps])

text \<open>While \<open>i\<close> waits, a grant to another call uses up one that was ahead of it.\<close>

definition overtaken :: "nat \<Rightarrow> scheduler \<Rightarrow> nat" where
  "overtaken i s = length (ls_grants s) + ahead i s"

lemma ahead_leave:
  assumes "ticket_of i s = Some t" and "tk_id u \<noteq> i"
  shows "ahead i (leave u s) = length (filter (\<lambda>v. tk_rank v = 0) (remove1 u (takeWhile (\<lambda>v. tk_id v \<noteq> i) (ls_queue s))))"
proof -
  have "i \<in> tk_id ` set (ls_queue s)" using ticket_of_in [OF assms(1)] by auto
  from takeWhile_remove1 [OF assms(2) this] show ?thesis by (simp add: ahead_def leave_def)
qed

lemma filter_remove1_le: "length (filter P (remove1 u q)) \<le> length (filter P q)"
  by (induction q) auto

lemma filter_remove1_less: "u \<in> set q \<Longrightarrow> P u \<Longrightarrow> Suc (length (filter P (remove1 u q))) = length (filter P q)"
  by (induction q) auto

lemma overtaken_step:
  assumes t: "ticket_of i s = Some t" "tk_rank t = 0" and inv: "sched_inv s" and op: "fresh_ticket op s"
    and still: "ticket_of i (sched_exec op s) \<noteq> None"
  shows "overtaken i (sched_exec op s) \<le> overtaken i s \<and> ticket_of i (sched_exec op s) = Some t"
proof (cases op)
  case (Enter j interactive now timeout)
  obtain pre post where "ls_queue s = pre @ t # post" "takeWhile (\<lambda>u. tk_id u \<noteq> i) (ls_queue s) = pre" "tk_id t = i"
    "\<forall>u\<in>set pre. tk_id u \<noteq> i" using t(1) by (rule queue_split)
  then have "takeWhile (\<lambda>u. tk_id u \<noteq> i) (ls_queue s @ [v]) = takeWhile (\<lambda>u. tk_id u \<noteq> i) (ls_queue s)" for v
    by (simp add: takeWhile_append)
  moreover have "ticket_of i (enter v s) = Some t" for v using t(1) by (simp add: ticket_of_def enter_def get_by_append)
  ultimately show ?thesis by (simp add: Enter overtaken_def ahead_def enter_def)
next
  case (Release j)
  then show ?thesis using t by (simp add: overtaken_def ahead_def release_gpu_def ticket_of_def)
next
  case (Poll now c j)
  show ?thesis
  proof (cases "ticket_of j s")
    case None
    then show ?thesis using t by (simp add: Poll)
  next
    case (Some u)
    show ?thesis
    proof (cases "j = i")
      case True
      have gone: "ticket_of i (leave t s') = None" if "ls_queue s' = ls_queue s" for s'
      proof -
        have "i \<notin> tk_id ` set (remove1 t (ls_queue s))"
          using set_remove1_map [of tk_id "ls_queue s" t] ticket_of_in [OF t(1)] inv by (auto simp: sched_inv_def)
        then show ?thesis using that by (simp add: ticket_of_def leave_def get_by_None)
      qed
      have same: "u = t" using Some True t by simp
      have "snd (poll now c t s) = s"
        using poll_cases [of now c t s] still gone [of s] gone [of "s\<lparr>ls_busy := True, ls_grants := ls_grants s @ [(tk_id t, False)]\<rparr>"]
        by (auto simp: Poll Some same True t(1) granted_def)
      then show ?thesis using t by (simp add: Poll Some same)
    next
      case False
      then have u: "tk_id u \<noteq> i" using ticket_of_in [OF Some] by simp
      have less: "ahead i (leave u s) \<le> ahead i s"
        unfolding ahead_leave [OF t(1) u] by (simp add: ahead_def filter_remove1_le)
      have one: "Suc (ahead i (leave u s)) = ahead i s" if "arg_min_list tk_rank (ls_queue s) = u"
        unfolding ahead_leave [OF t(1) u] using granted_was_ahead [OF t that u]
        by (simp add: ahead_def filter_remove1_less)
      have other: "ticket_of i (leave u s) = Some t" using t u by (simp add: ticket_leave_other)
      have grant: "ahead i (granted u s) = ahead i (leave u s)" "ticket_of i (granted u s) = ticket_of i (leave u s)"
        "length (ls_grants (granted u s)) = Suc (length (ls_grants s))"
        by (simp_all add: granted_def leave_def ahead_def ticket_of_def)
      have "length (ls_grants (leave u s)) = length (ls_grants s)" by (simp add: leave_def)
      with poll_cases [of now c u s] less one other grant t show ?thesis
        by (auto simp: Poll Some overtaken_def)
    qed
  qed
qed

text \<open>The call of \<open>i\<close> stays in the queue throughout.\<close>

fun waits_through :: "nat \<Rightarrow> sched_op list \<Rightarrow> scheduler \<Rightarrow> bool" where
  "waits_through i [] s \<longleftrightarrow> ticket_of i s \<noteq> None"
| "waits_through i (op # ops) s \<longleftrightarrow> ticket_of i s \<noteq> None \<and> waits_through i ops (sched_exec op s)"

lemma waits_through_now: "waits_through i ops s \<Longrightarrow> ticket_of i s \<noteq> None"
  by (cases ops) auto

lemma overtaken_run:
  assumes "ticket_of i s = Some t" and "tk_rank t = 0" and "sched_inv s" and "sched_ok ops s"
    and "waits_through i ops s"
  shows "overtaken i (sched_run ops s) \<le> overtaken i s \<and> ticket_of i (sched_run ops s) = Some t"
  using assms
proof (induction ops arbitrary: s)
  case (Cons op ops)
  have "ticket_of i (sched_exec op s) \<noteq> None" using Cons.prems(5) by (auto dest: waits_through_now)
  then have one: "overtaken i (sched_exec op s) \<le> overtaken i s" "ticket_of i (sched_exec op s) = Some t"
    using overtaken_step [OF Cons.prems(1-3)] Cons.prems(4) by auto
  have "overtaken i (sched_run ops (sched_exec op s)) \<le> overtaken i (sched_exec op s) \<and> ticket_of i (sched_run ops (sched_exec op s)) = Some t"
  proof (rule Cons.IH [OF one(2) Cons.prems(2)])
    show "sched_inv (sched_exec op s)" "sched_ok ops (sched_exec op s)" using Cons.prems(3,4) by (auto intro: exec_inv)
    show "waits_through i ops (sched_exec op s)" using Cons.prems(5) by simp
  qed
  with one(1) show ?case by simp
qed simp

subsection \<open>Properties\<close>

text \<open>
  C24. The GPU never runs two calls, and an interactive call is served in order: while it waits, no more
  calls are granted than interactive ones were ahead of it, so once those have been granted and
  released its next round before the deadline gets the GPU. Later arrivals, of either class,
  cannot delay it.
\<close>
theorem interactive_call_served:
  assumes "sched_inv s" and "ticket_of i s = Some t" and "tk_rank t = 0" and "sched_ok ops s"
    and "waits_through i ops s"
  shows "length (running (sched_run ops s)) \<le> 1 \<and>
    length (ls_grants (sched_run ops s)) \<le> length (ls_grants s) + ahead i s \<and>
    (length (ls_grants (sched_run ops s)) = length (ls_grants s) + ahead i s \<and>
     \<not> ls_busy (sched_run ops s) \<and> now < tk_deadline t \<longrightarrow> fst (poll now False t (sched_run ops s)) = Inr True)"
proof -
  have o: "overtaken i (sched_run ops s) \<le> overtaken i s" "ticket_of i (sched_run ops s) = Some t"
    using overtaken_run [OF assms(2,3,1,4,5)] by auto
  have "length (running (sched_run ops s)) \<le> 1" using run_inv [OF assms(4,1)] by (simp add: sched_inv_def)
  moreover have "fst (poll now False t (sched_run ops s)) = Inr True"
    if "length (ls_grants (sched_run ops s)) = length (ls_grants s) + ahead i s"
      and "\<not> ls_busy (sched_run ops s)" and "now < tk_deadline t"
    by (rule idle_grants_first [OF o(2) assms(3) _ that(2,3)]) (use o(1) that(1) in \<open>simp add: overtaken_def\<close>)
  ultimately show ?thesis using o(1) by (auto simp: overtaken_def)
qed

definition example_waiting :: scheduler where
  "example_waiting = sched_run [Enter 0 False 0 100, Enter 1 True 0 100, Poll 1 False 1, Enter 2 True 1 100, Enter 3 True 1 100] new_scheduler"

theorem interactive_call_served_witness:
  "fst (poll 10 False (new_ticket 3 True 1 100)
     (sched_run [Poll 2 False 0, Release 1, Poll 3 False 0, Enter 4 True 3 100, Poll 4 False 2, Release 2] example_waiting)) = Inr True"
proof -
  let ?ops = "[Poll 2 False 0, Release 1, Poll 3 False 0, Enter 4 True 3 100, Poll 4 False 2, Release 2]"
  have t: "ticket_of 3 example_waiting = Some (new_ticket 3 True 1 100)" by code_simp
  have "sched_inv example_waiting" "sched_ok ?ops example_waiting" by code_simp+
  moreover have "waits_through 3 ?ops example_waiting" by code_simp
  moreover have "length (ls_grants (sched_run ?ops example_waiting)) = length (ls_grants example_waiting) + ahead 3 example_waiting"
    "\<not> ls_busy (sched_run ?ops example_waiting)" "10 < tk_deadline (new_ticket 3 True 1 100)" by code_simp+
  ultimately show ?thesis
    using interactive_call_served [OF _ t, of ?ops 10] by (simp add: new_ticket_def)
qed

end
