(* ===== verification/Token_Budget.thy ===== *)
theory Token_Budget
  imports Prelude "HOL-Library.AList"
begin

text \<open>
  The token budget of a chat prompt (\<open>chat_token_budget.py\<close>): the context window and the
  token counts are asked of the local model once and kept. The three requests are
  arguments: \<open>Inl\<close> stands for any failure of one, among them the cancellation and the deadline
  of the chat, which \<open>_timeout\<close> raises inside a request.
\<close>

record token_budget =
  tb_profile :: string
  tb_deadline :: "time option"
  tb_max_input :: "int option"
  tb_window :: "int option"
  tb_cache :: "((string \<times> string) \<times> int) list"

definition budget_timeout :: "bool \<Rightarrow> time \<Rightarrow> token_budget \<Rightarrow> time result" where
  "budget_timeout cancelled now b =
     (if cancelled then Inl LLMCancelled
      else case tb_deadline b of None \<Rightarrow> Inr (seconds 5)
      | Some deadline \<Rightarrow> let left = deadline - now in
          if left \<le> 0 then Inl TimeoutError else Inr (min (seconds 5) left))"

text \<open>Only the end of the chat passes; every other failure means there is no trusted count.\<close>

definition unavailable :: "'a result \<Rightarrow> 'a result" where
  "unavailable r = (case r of Inl LLMCancelled \<Rightarrow> Inl LLMCancelled | Inl TimeoutError \<Rightarrow> Inl TimeoutError
     | Inl _ \<Rightarrow> Inl ChatBudgetUnavailable | Inr x \<Rightarrow> Inr x)"

definition context_window :: "int result \<Rightarrow> token_budget \<Rightarrow> int result \<times> token_budget" where
  "context_window props b =
     (case tb_window b of
        Some w \<Rightarrow> (Inr w, b)
      | None \<Rightarrow>
          (case unavailable props of
             Inl e \<Rightarrow> (Inl e, b)
           | Inr w \<Rightarrow> let b' = b\<lparr>tb_window := Some w\<rparr>
                      in if w \<le> 0 then (Inl ChatBudgetUnavailable, b') else (Inr w, b')))"

text \<open>The object keeps what it learned when a later request fails, so it is returned beside the result.\<close>

definition fits ::
    "(string \<Rightarrow> string \<Rightarrow> string result) \<Rightarrow> (string \<Rightarrow> int result) \<Rightarrow> int result \<Rightarrow> bool \<Rightarrow> time \<Rightarrow>
     string \<Rightarrow> string \<Rightarrow> int \<Rightarrow> token_budget \<Rightarrow> bool result \<times> token_budget" where
  "fits template tokenize props cancelled now system user output b =
     (if tb_profile b \<noteq> ''local_qwen'' then (Inl ChatBudgetUnavailable, b)
      else if output < 1 then (Inl ValueError, b)
      else
        let counted = (case map_of (tb_cache b) (system, user) of
               Some n \<Rightarrow> Inr (n, b)
             | None \<Rightarrow> bindr (unavailable (bindr (template system user) tokenize)) (\<lambda>n.
                 Inr (n, b\<lparr>tb_cache := AList.update (system, user) n (tb_cache b)\<rparr>)))
        in case counted of
             Inl e \<Rightarrow> (Inl e, b)
           | Inr (n, b1) \<Rightarrow>
               let fits_input = (case tb_max_input b1 of None \<Rightarrow> True | Some m \<Rightarrow> n \<le> m) in
               (case context_window props b1 of
                  (Inl e, b2) \<Rightarrow> (Inl e, b2)
                | (Inr w, b2) \<Rightarrow>
                    (bindr (budget_timeout cancelled now b2) (\<lambda>_. Inr (fits_input \<and> n + output + 256 \<le> w)), b2)))"

subsection \<open>Counts are the provider's\<close>

definition true_counts :: "(string \<Rightarrow> string \<Rightarrow> string result) \<Rightarrow> (string \<Rightarrow> int result) \<Rightarrow> token_budget \<Rightarrow> bool" where
  "true_counts template tokenize b \<longleftrightarrow>
     (\<forall>system user n. map_of (tb_cache b) (system, user) = Some n \<longrightarrow> bindr (template system user) tokenize = Inr n)"

lemma unavailable_Inr [simp]: "unavailable r = Inr x \<longleftrightarrow> r = Inr x"
  by (auto simp: unavailable_def split: sum.splits exn.splits)

lemma context_window_keeps:
  "tb_cache (snd (context_window props b)) = tb_cache b" "tb_max_input (snd (context_window props b)) = tb_max_input b"
  by (auto simp: context_window_def Let_def split: option.splits sum.splits)

lemma context_window_again:
  "context_window props b = (Inr w, b') \<Longrightarrow> tb_window b' = Some w"
  by (auto simp: context_window_def Let_def split: option.splits sum.splits if_splits)

lemma counted:
  assumes "true_counts template tokenize b"
    and "(case map_of (tb_cache b) (system, user) of
        Some n \<Rightarrow> Inr (n, b)
      | None \<Rightarrow> bindr (unavailable (bindr (template system user) tokenize)) (\<lambda>n.
          Inr (n, b\<lparr>tb_cache := AList.update (system, user) n (tb_cache b)\<rparr>))) = Inr (n, b')"
  shows "bindr (template system user) tokenize = Inr n" and "true_counts template tokenize b'"
    and "map_of (tb_cache b') (system, user) = Some n" and "tb_max_input b' = tb_max_input b"
  using assms by (auto simp: true_counts_def update_conv' split: option.split_asm if_split_asm)

text \<open>
  A prompt is accepted only within the budget: the provider's count of its rendered template, with the
  output and the reserve of 256 tokens, is within the context window and within the configured
  input. The counts kept stay the provider's, and a prompt that was answered is not counted
  again: whatever the provider says later the answer follows from the counts kept.
\<close>
theorem fits_within_window:
  assumes "true_counts template tokenize b" and "fits template tokenize props cancelled now system user output b = (Inr ok, b')"
  shows "\<exists>n w. bindr (template system user) tokenize = Inr n \<and> tb_window b' = Some w \<and>
      (ok \<longleftrightarrow> n + output + 256 \<le> w \<and> (case tb_max_input b of None \<Rightarrow> True | Some m \<Rightarrow> n \<le> m)) \<and>
      true_counts template tokenize b' \<and>
      fits template' tokenize' props' False now' system user output (b'\<lparr>tb_deadline := None\<rparr>) = (Inr ok, b'\<lparr>tb_deadline := None\<rparr>)"
proof -
  from assms(2) obtain n b1 w where profile: "tb_profile b = ''local_qwen''" "1 \<le> output"
    and c: "(case map_of (tb_cache b) (system, user) of
        Some n \<Rightarrow> Inr (n, b)
      | None \<Rightarrow> bindr (unavailable (bindr (template system user) tokenize)) (\<lambda>n.
          Inr (n, b\<lparr>tb_cache := AList.update (system, user) n (tb_cache b)\<rparr>))) = Inr (n, b1)"
    and w: "context_window props b1 = (Inr w, b')"
    and ok: "ok \<longleftrightarrow> (case tb_max_input b1 of None \<Rightarrow> True | Some m \<Rightarrow> n \<le> m) \<and> n + output + 256 \<le> w"
    unfolding fits_def Let_def by (auto split: if_split_asm sum.split_asm prod.split_asm)
  note n = counted [OF assms(1) c]
  have keep: "tb_cache b' = tb_cache b1" "tb_max_input b' = tb_max_input b1" "tb_profile b' = ''local_qwen''"
    using context_window_keeps [of props b1] w profile c
    by (auto simp: context_window_def Let_def split: option.split_asm sum.split_asm if_split_asm)
  have win: "tb_window b' = Some w" by (rule context_window_again [OF w])
  have "fits template' tokenize' props' False now' system user output (b'\<lparr>tb_deadline := None\<rparr>) = (Inr ok, b'\<lparr>tb_deadline := None\<rparr>)"
    using keep n(3,4) win profile ok by (simp add: fits_def context_window_def budget_timeout_def)
  moreover have "true_counts template tokenize b'" using n(2) keep(1) by (simp add: true_counts_def)
  ultimately show ?thesis using n win ok by auto
qed

definition example_budget :: token_budget where
  "example_budget = \<lparr>tb_profile = ''local_qwen'', tb_deadline = None, tb_max_input = None, tb_window = None, tb_cache = []\<rparr>"

theorem fits_within_window_witness:
  "\<exists>n w. bindr (Inr (''sys'' @ ''user'')) (\<lambda>p. Inr (int (length p))) = Inr n \<and> tb_window (example_budget\<lparr>tb_window := Some 4096,
      tb_cache := [((''sys'', ''user''), 7)]\<rparr>) = Some w \<and> n + 100 + 256 \<le> w"
  using fits_within_window [of "\<lambda>s u. Inr (s @ u)" "\<lambda>p. Inr (int (length p))" example_budget "Inr 4096" False 0 "''sys''" "''user''" 100
    True "example_budget\<lparr>tb_window := Some 4096, tb_cache := [((''sys'', ''user''), 7)]\<rparr>"]
  by (auto simp: true_counts_def example_budget_def fits_def context_window_def budget_timeout_def)

text \<open>
  An invalid window is refused once but kept: the next question is answered from it.
\<close>

lemma invalid_window_kept:
  "tb_window b = None \<Longrightarrow> w \<le> 0 \<Longrightarrow> fst (context_window (Inr w) b) = Inl ChatBudgetUnavailable \<and>
   fst (context_window props (snd (context_window (Inr w) b))) = Inr w"
  by (simp add: context_window_def unavailable_def Let_def)

end
