(* ===== verification/Rate_Limiter.thy ===== *)
theory Rate_Limiter
  imports Coordination Json
begin

text \<open>
  \<open>services/rate_limiter.py\<close>: the limiter of interactive actions and of bulk regeneration. With
  replicas it spends the shared budget of \<open>consume_rate\<close>; a single process keeps deques of
  timestamps, from whose left end expired entries are dropped. An exception does not undo that
  dropping, so a check returns its result and the limiter. The reference is a log of every
  accepted request, counted afresh at each check.
\<close>

subsection \<open>The shared budget\<close>

definition rate_key :: "string \<Rightarrow> string \<Rightarrow> string option \<Rightarrow> string" where
  "rate_key domain user_id action = json_dumps (JArr [JStr domain, JStr user_id, opt_str action])"

text \<open>\<open>window\<close> is the ceiling of \<open>window_seconds\<close>; a refusal rolls the session back.\<close>

definition spend :: "(string \<Rightarrow> string) \<Rightarrow> time \<Rightarrow> string \<Rightarrow> string \<Rightarrow> int \<Rightarrow> int \<Rightarrow> int \<Rightarrow> 'a coord_db_scheme \<Rightarrow>
    'a coord_db_scheme result" where
  "spend sha now new_id key limit window weight db =
     bindr (consume_rate sha now new_id key limit window weight db) (\<lambda>(ok, db').
       if ok then Inr db' else Inl (RateLimitExceeded (seconds window)))"

definition check_action_shared ::
    "(string \<Rightarrow> string) \<Rightarrow> time \<Rightarrow> string \<Rightarrow> string \<Rightarrow> string \<Rightarrow> int \<Rightarrow> int \<Rightarrow> 'a coord_db_scheme \<Rightarrow>
     'a coord_db_scheme result" where
  "check_action_shared sha now new_id user_id action max_requests window db =
     spend sha now new_id (rate_key ''action'' user_id (Some action)) max_requests window 1 db"

definition check_bulk_shared ::
    "(string \<Rightarrow> string) \<Rightarrow> time \<Rightarrow> string \<Rightarrow> string \<Rightarrow> string \<Rightarrow> int \<Rightarrow> int \<Rightarrow> int \<Rightarrow> int \<Rightarrow> 'a coord_db_scheme \<Rightarrow>
     'a coord_db_scheme result" where
  "check_bulk_shared sha now id1 id2 user_id doc_count max_ops max_docs window db =
     (if \<not> (1 \<le> doc_count \<and> doc_count \<le> 10000) then Inl ValueError
      else bindr (spend sha now id1 (rate_key ''bulk_ops'' user_id None) max_ops window 1 db) (\<lambda>db'.
             spend sha now id2 (rate_key ''bulk_docs'' user_id None) max_docs window doc_count db'))"

subsection \<open>The deques of one process\<close>

record rate_limiter =
  rl_ops :: "string \<Rightarrow> time list"
  rl_docs :: "string \<Rightarrow> (time \<times> int) list"
  rl_actions :: "string \<times> string \<Rightarrow> time list"

text \<open>A \<open>defaultdict(deque)\<close> is a total function.\<close>

definition reset_limiter :: rate_limiter where
  "reset_limiter = \<lparr>rl_ops = (\<lambda>_. []), rl_docs = (\<lambda>_. []), rl_actions = (\<lambda>_. [])\<rparr>"

definition refusal :: "time \<Rightarrow> time \<Rightarrow> time list \<Rightarrow> unit result" where
  "refusal window now requests = (case requests of
       [] \<Rightarrow> Inl IndexError
     | t # _ \<Rightarrow> Inl (RateLimitExceeded (max (seconds 1) (window - (now - t)))))"

definition check_action ::
    "time \<Rightarrow> string \<Rightarrow> string \<Rightarrow> int \<Rightarrow> time \<Rightarrow> rate_limiter \<Rightarrow> unit result \<times> rate_limiter" where
  "check_action now user_id action max_requests window l =
     (let key = (user_id, action);
          requests = dropWhile (\<lambda>t. window \<le> now - t) (rl_actions l key)
      in if max_requests \<le> int (length requests)
         then (refusal window now requests, l\<lparr>rl_actions := (rl_actions l)(key := requests)\<rparr>)
         else (Inr (), l\<lparr>rl_actions := (rl_actions l)(key := requests @ [now])\<rparr>))"

definition check_bulk_regenerate ::
    "time \<Rightarrow> string \<Rightarrow> int \<Rightarrow> int \<Rightarrow> int \<Rightarrow> time \<Rightarrow> rate_limiter \<Rightarrow> unit result \<times> rate_limiter" where
  "check_bulk_regenerate now user_id doc_count max_ops max_docs window l =
     (let ops = dropWhile (\<lambda>t. window \<le> now - t) (rl_ops l user_id);
          docs = dropWhile (\<lambda>e. window \<le> now - fst e) (rl_docs l user_id);
          l' = l\<lparr>rl_ops := (rl_ops l)(user_id := ops), rl_docs := (rl_docs l)(user_id := docs)\<rparr>
      in if max_ops \<le> int (length ops) then (refusal window now ops, l')
         else if max_docs < sum_list (map snd docs) + doc_count
         then (if docs = [] then Inl (RateLimitExceeded window) else refusal window now (map fst docs), l')
         else (Inr (), l\<lparr>rl_ops := (rl_ops l)(user_id := ops @ [now]),
                         rl_docs := (rl_docs l)(user_id := docs @ [(now, doc_count)])\<rparr>))"

datatype rate_op =
    Action (op_user: string) (op_action: string) (op_max: int) (op_window: time)
  | Bulk (op_user: string) (op_docs: int) (op_max: int) (op_max_docs: int) (op_window: time)

fun check :: "time \<Rightarrow> rate_op \<Rightarrow> rate_limiter \<Rightarrow> unit result \<times> rate_limiter" where
  "check now (Action u a m w) l = check_action now u a m w l"
| "check now (Bulk u n m d w) l = check_bulk_regenerate now u n m d w l"

fun limiter_run :: "rate_limiter \<Rightarrow> (time \<times> rate_op) list \<Rightarrow> unit result list" where
  "limiter_run l [] = []"
| "limiter_run l ((now, op) # qs) = fst (check now op l) # limiter_run (snd (check now op l)) qs"

subsection \<open>The reference: a log of accepted requests\<close>

fun op_key :: "rate_op \<Rightarrow> string \<times> string option" where
  "op_key (Action u a m w) = (u, Some a)"
| "op_key (Bulk u n m d w) = (u, None)"

fun op_weight :: "rate_op \<Rightarrow> int" where
  "op_weight (Action u a m w) = 1"
| "op_weight (Bulk u n m d w) = n"

type_synonym rate_log = "(time \<times> rate_op) list"

definition entries :: "rate_log \<Rightarrow> string \<times> string option \<Rightarrow> (time \<times> int) list" where
  "entries log key = map (\<lambda>(t, op). (t, op_weight op)) (filter (\<lambda>(t, op). op_key op = key) log)"

definition live :: "time \<Rightarrow> time \<Rightarrow> time \<times> int \<Rightarrow> bool" where
  "live window now e = (now - fst e < window)"

definition in_window :: "rate_log \<Rightarrow> time \<Rightarrow> rate_op \<Rightarrow> (time \<times> int) list" where
  "in_window log now op = filter (live (op_window op) now) (entries log (op_key op))"

definition log_check :: "rate_log \<Rightarrow> time \<Rightarrow> rate_op \<Rightarrow> unit result" where
  "log_check log now op =
     (let es = in_window log now op in
      if op_max op \<le> int (length es) then refusal (op_window op) now (map fst es)
      else case op of
        Action _ _ _ _ \<Rightarrow> Inr ()
      | Bulk _ n _ max_docs w \<Rightarrow>
          if max_docs < sum_list (map snd es) + n
          then if es = [] then Inl (RateLimitExceeded w) else refusal w now (map fst es)
          else Inr ())"

fun log_run :: "rate_log \<Rightarrow> (time \<times> rate_op) list \<Rightarrow> unit result list" where
  "log_run log [] = []"
| "log_run log ((now, op) # qs) =
     (let r = log_check log now op in r # log_run (if is_ok r then log @ [(now, op)] else log) qs)"

subsection \<open>Deques hold what is still live\<close>

definition window_rel :: "time \<Rightarrow> time \<Rightarrow> (time \<times> int) list \<Rightarrow> (time \<times> int) list \<Rightarrow> bool" where
  "window_rel w now d es \<longleftrightarrow> sorted (map fst d) \<and> (\<forall>e\<in>set d. fst e \<le> now) \<and>
     filter (live w now) d = filter (live w now) es"

lemma sorted_dropWhile_live:
  "sorted (map fst d) \<Longrightarrow> dropWhile (\<lambda>e. \<not> live w now e) d = filter (live w now) d"
proof (induction d)
  case (Cons e d)
  show ?case
  proof (cases "live w now e")
    case True
    then have "\<forall>x\<in>set d. live w now x" using Cons.prems by (auto simp: live_def)
    then show ?thesis using True by (simp add: filter_True)
  qed (use Cons in simp)
qed simp

lemma window_rel_later:
  assumes "window_rel w now d es" and "now \<le> now'"
  shows "window_rel w now' d es"
proof -
  have *: "filter (live w now') xs = filter (live w now') (filter (live w now) xs)" for xs
    using assms(2) by (auto simp: live_def intro!: filter_cong)
  show ?thesis
    using assms * [of d] * [of es] by (force simp: window_rel_def simp del: filter_filter)
qed

lemma window_rel_expire:
  assumes "window_rel w now d es"
  shows "dropWhile (\<lambda>e. \<not> live w now e) d = filter (live w now) es"
    and "window_rel w now (filter (live w now) es) es"
    and "window_rel w now (filter (live w now) es @ [(now, x)]) (es @ [(now, x)])"
proof -
  from assms have d: "filter (live w now) es = filter (live w now) d" and s: "sorted (map fst d)"
    and le: "\<forall>e\<in>set d. fst e \<le> now" by (simp_all add: window_rel_def)
  show "dropWhile (\<lambda>e. \<not> live w now e) d = filter (live w now) es"
    using sorted_dropWhile_live [OF s] d by simp
  have s': "sorted (map fst (filter (live w now) d))" using s by (rule sorted_filter)
  show "window_rel w now (filter (live w now) es) es"
    using s' le by (auto simp: window_rel_def d)
  show "window_rel w now (filter (live w now) es @ [(now, x)]) (es @ [(now, x)])"
    using s' le by (auto simp: window_rel_def d sorted_append)
qed

definition limiter_rel :: "(string \<times> string option \<Rightarrow> time) \<Rightarrow> time \<Rightarrow> rate_limiter \<Rightarrow> rate_log \<Rightarrow> bool" where
  "limiter_rel win now l log \<longleftrightarrow>
     (\<forall>u a. window_rel (win (u, Some a)) now (map (\<lambda>t. (t, 1)) (rl_actions l (u, a))) (entries log (u, Some a))) \<and>
     (\<forall>u. window_rel (win (u, None)) now (rl_docs l u) (entries log (u, None)) \<and> rl_ops l u = map fst (rl_docs l u))"

lemma entries_append: "entries (log @ [(now, op)]) key = entries log key @ (if op_key op = key then [(now, op_weight op)] else [])"
  by (simp add: entries_def)

lemma limiter_rel_later: "limiter_rel win now l log \<Longrightarrow> now \<le> now' \<Longrightarrow> limiter_rel win now' l log"
  unfolding limiter_rel_def by (meson window_rel_later)

lemma dropWhile_map_pair:
  "map (\<lambda>t. (t, 1)) (dropWhile (\<lambda>t. w \<le> now - t) ts) = dropWhile (\<lambda>e. \<not> live w now e) (map (\<lambda>t. (t, 1::int)) ts)"
  by (induction ts) (auto simp: live_def not_less)

lemma dropWhile_map_fst:
  "dropWhile (\<lambda>t. w \<le> now - t) (map fst d) = map fst (dropWhile (\<lambda>e. \<not> live w now e) d)"
  by (induction d) (auto simp: live_def not_less)

lemma dropWhile_live: "dropWhile (\<lambda>e. w \<le> now - fst e) d = dropWhile (\<lambda>e. \<not> live w now e) d"
  by (simp add: live_def not_less)

lemma check_refines:
  assumes "limiter_rel win now l log" and "op_window op = win (op_key op)"
  shows "fst (check now op l) = log_check log now op"
    and "limiter_rel win now (snd (check now op l)) (if is_ok (log_check log now op) then log @ [(now, op)] else log)"
proof (atomize (full), cases op)
  case (Action u a m w)
  let ?es = "entries log (u, Some a)" and ?ts = "dropWhile (\<lambda>t. w \<le> now - t) (rl_actions l (u, a))"
  have w: "w = win (u, Some a)" using assms(2) Action by simp
  have rel: "window_rel w now (map (\<lambda>t. (t, 1)) (rl_actions l (u, a))) ?es"
    using assms(1) by (simp add: limiter_rel_def w)
  have pairs: "map (\<lambda>t. (t, 1)) ?ts = filter (live w now) ?es"
    by (simp add: dropWhile_map_pair window_rel_expire(1) [OF rel])
  have ts: "?ts = map fst (filter (live w now) ?es)" and len: "length ?ts = length (filter (live w now) ?es)"
    by (simp_all add: pairs [symmetric] comp_def)
  have rest: "limiter_rel win now (l\<lparr>rl_actions := (rl_actions l)((u, a) := ts')\<rparr>) log'"
    if "window_rel w now (map (\<lambda>t. (t, 1)) ts') (entries log' (u, Some a))"
      and "\<And>key. key \<noteq> (u, Some a) \<Longrightarrow> entries log' key = entries log key" for ts' log'
    using assms(1) that by (auto simp: limiter_rel_def w)
  show "fst (check now op l) = log_check log now op \<and>
    limiter_rel win now (snd (check now op l)) (if is_ok (log_check log now op) then log @ [(now, op)] else log)"
  proof (cases "m \<le> int (length ?ts)")
    case True
    then have "log_check log now op = refusal w now ?ts"
      using len ts Action by (simp add: log_check_def in_window_def Let_def)
    moreover have "\<not> is_ok (refusal w now ?ts)" by (simp add: refusal_def split: list.split)
    moreover have "limiter_rel win now (l\<lparr>rl_actions := (rl_actions l)((u, a) := ?ts)\<rparr>) log"
      by (rule rest) (simp_all add: pairs window_rel_expire(2) [OF rel])
    ultimately show ?thesis using True Action by (simp add: check_action_def Let_def)
  next
    case False
    then have "log_check log now op = Inr ()"
      using len Action by (simp add: log_check_def in_window_def Let_def)
    moreover have "limiter_rel win now (l\<lparr>rl_actions := (rl_actions l)((u, a) := ?ts @ [now])\<rparr>) (log @ [(now, op)])"
      by (rule rest) (auto simp: pairs entries_append Action window_rel_expire(3) [OF rel])
    ultimately show ?thesis using False Action by (simp add: check_action_def Let_def)
  qed
next
  case (Bulk u n m d w)
  let ?es = "entries log (u, None)" and ?docs = "dropWhile (\<lambda>e. w \<le> now - fst e) (rl_docs l u)"
  have w: "w = win (u, None)" using assms(2) Bulk by simp
  have rel: "window_rel w now (rl_docs l u) ?es" and ops: "rl_ops l u = map fst (rl_docs l u)"
    using assms(1) by (simp_all add: limiter_rel_def w)
  have docs: "?docs = filter (live w now) ?es" by (simp add: dropWhile_live window_rel_expire(1) [OF rel])
  have ts: "dropWhile (\<lambda>t. w \<le> now - t) (rl_ops l u) = map fst ?docs"
    by (simp add: ops dropWhile_map_fst dropWhile_live)
  have rest: "limiter_rel win now (l\<lparr>rl_ops := (rl_ops l)(u := map fst ds), rl_docs := (rl_docs l)(u := ds)\<rparr>) log'"
    if "window_rel w now ds (entries log' (u, None))"
      and "\<And>key. key \<noteq> (u, None) \<Longrightarrow> entries log' key = entries log key" for ds log'
    using assms(1) that by (auto simp: limiter_rel_def w)
  have refused: "limiter_rel win now (l\<lparr>rl_ops := (rl_ops l)(u := map fst ?docs), rl_docs := (rl_docs l)(u := ?docs)\<rparr>) log"
    by (rule rest) (simp_all add: docs window_rel_expire(2) [OF rel])
  have accepted: "limiter_rel win now (l\<lparr>rl_ops := (rl_ops l)(u := map fst ?docs @ [now]),
      rl_docs := (rl_docs l)(u := ?docs @ [(now, n)])\<rparr>) (log @ [(now, op)])"
    using rest [of "?docs @ [(now, n)]" "log @ [(now, op)]"]
    by (auto simp: docs entries_append Bulk window_rel_expire(3) [OF rel])
  have r: "\<not> is_ok (refusal w now ts)" for ts by (simp add: refusal_def split: list.split)
  show "fst (check now op l) = log_check log now op \<and>
    limiter_rel win now (snd (check now op l)) (if is_ok (log_check log now op) then log @ [(now, op)] else log)"
    using refused accepted r
    by (simp add: Bulk check_bulk_regenerate_def log_check_def in_window_def Let_def ts docs)
qed

lemma limiter_run_refines:
  "limiter_rel win now l log \<Longrightarrow> sorted (now # map fst qs) \<Longrightarrow> \<forall>(t, op)\<in>set qs. op_window op = win (op_key op) \<Longrightarrow>
   limiter_run l qs = log_run log qs"
proof (induction qs arbitrary: now l log)
  case (Cons q qs)
  obtain t op where q: "q = (t, op)" by (cases q)
  with Cons.prems have rel: "limiter_rel win t l log" and w: "op_window op = win (op_key op)"
    by (auto intro: limiter_rel_later)
  from Cons.IH [OF check_refines(2) [OF rel w]] Cons.prems(2,3) check_refines(1) [OF rel w]
  show ?case by (simp add: q Let_def)
qed simp

lemma limiter_rel_reset: "limiter_rel win now reset_limiter []"
  by (simp add: limiter_rel_def reset_limiter_def window_rel_def entries_def)

subsection \<open>Properties\<close>


definition example_rate_ops :: "(time \<times> rate_op) list" where
  "example_rate_ops =
     [(0, Action ''u'' ''search'' 2 (seconds 60)), (seconds 1, Bulk ''u'' 5 3 8 (seconds 3600)),
      (seconds 2, Action ''u'' ''search'' 2 (seconds 60)), (seconds 3, Action ''u'' ''search'' 2 (seconds 60)),
      (seconds 4, Bulk ''u'' 4 3 8 (seconds 3600)), (seconds 60, Action ''u'' ''search'' 2 (seconds 60))]"


end
