(* ===== verification/Blocklist.thy ===== *)
theory Blocklist
  imports Prelude
begin

text \<open>
  \<open>services/blocklist.py\<close>: the table of user blocks. The two ways in which \<open>is_blocked\<close> reads it, the
  query of a replica and the loop of a single process, are both definitions. The clock of
  either is the argument \<open>now\<close>; ids are the autoincrement of the table.
\<close>

record user_block =
  ub_id :: int
  ub_external_id :: string
  ub_username :: "string option"
  ub_reason :: "string option"
  ub_blocked_by :: "string option"
  ub_created_at :: time
  ub_expires_at :: "time option"
  ub_is_active :: bool

definition block_is_active :: "time \<Rightarrow> user_block \<Rightarrow> bool" where
  "block_is_active now block =
     (if \<not> ub_is_active block then False
      else case ub_expires_at block of Some t \<Rightarrow> now < t | None \<Rightarrow> True)"

definition is_blocked_query :: "time \<Rightarrow> string \<Rightarrow> user_block list \<Rightarrow> bool" where
  "is_blocked_query now external_id blocks =
     (map ub_id (filter (\<lambda>b. ub_external_id b = external_id \<and> ub_is_active b \<and>
        (ub_expires_at b = None \<or> later (ub_expires_at b) now)) blocks) \<noteq> [])"

definition is_blocked :: "bool \<Rightarrow> time \<Rightarrow> string \<Rightarrow> user_block list \<Rightarrow> bool" where
  "is_blocked durable now external_id blocks =
     (if external_id = [] \<or> external_id = ''anonymous'' then False
      else if durable then is_blocked_query now external_id blocks
      else list_ex (block_is_active now) (filter (\<lambda>b. ub_external_id b = external_id) blocks))"

definition block_in_session ::
    "time \<Rightarrow> int \<Rightarrow> string \<Rightarrow> string \<Rightarrow> string option \<Rightarrow> string option \<Rightarrow> time option \<Rightarrow> user_block list \<Rightarrow>
     (int \<times> string) \<times> user_block list" where
  "block_in_session now new_id external_id blocked_by username reason expires_at blocks =
     ((new_id, external_id),
      blocks @ [\<lparr>ub_id = new_id, ub_external_id = external_id, ub_username = username, ub_reason = reason,
                 ub_blocked_by = Some blocked_by, ub_created_at = now, ub_expires_at = expires_at, ub_is_active = True\<rparr>])"

definition unblock_in_session :: "string \<Rightarrow> user_block list \<Rightarrow> nat \<times> user_block list" where
  "unblock_in_session external_id blocks =
     (let hit = (\<lambda>b. ub_external_id b = external_id \<and> ub_is_active b) in
      (length (filter hit blocks), update_where hit (\<lambda>b. b\<lparr>ub_is_active := False\<rparr>) blocks))"

text \<open>The panel lists every row still marked active, newest first, with its state at \<open>now\<close>.\<close>

definition list_active :: "time \<Rightarrow> user_block list \<Rightarrow> (user_block \<times> bool) list" where
  "list_active now blocks =
     map (\<lambda>b. (b, block_is_active now b)) (order_by (\<lambda>b. - ub_created_at b) (filter ub_is_active blocks))"

datatype block_op =
    Block_User int string string "string option" "string option" "time option"
  | Unblock_User string

fun block_exec :: "time \<times> block_op \<Rightarrow> user_block list \<Rightarrow> user_block list" where
  "block_exec (now, Block_User i u who name reason expires) bs = snd (block_in_session now i u who name reason expires bs)"
| "block_exec (now, Unblock_User u) bs = snd (unblock_in_session u bs)"

lemma query_eq_loop: "is_blocked_query now u bs = list_ex (block_is_active now) (filter (\<lambda>b. ub_external_id b = u) bs)"
  by (auto simp: is_blocked_query_def list_ex_iff filter_empty_conv block_is_active_def later_def split: option.splits)

text \<open>The reference: a user's blocks since the last unblocking, by their expiry.\<close>

fun standing :: "string \<Rightarrow> time \<times> block_op \<Rightarrow> time option list \<Rightarrow> time option list" where
  "standing u (now, Block_User i v who name reason expires) es = (if u = v then es @ [expires] else es)"
| "standing u (now, Unblock_User v) es = (if u = v then [] else es)"

definition active_expiries :: "string \<Rightarrow> user_block list \<Rightarrow> time option list" where
  "active_expiries u bs = map ub_expires_at (filter (\<lambda>b. ub_external_id b = u \<and> ub_is_active b) bs)"

lemma active_expiries_exec: "active_expiries u (block_exec op bs) = standing u op (active_expiries u bs)"
proof -
  obtain now b where op: "op = (now, b)" by (cases op)
  have "active_expiries u (update_where (\<lambda>b. ub_external_id b = v \<and> ub_is_active b) (\<lambda>b. b\<lparr>ub_is_active := False\<rparr>) bs)
    = (if u = v then [] else active_expiries u bs)" for v
    by (induction bs) (auto simp: active_expiries_def)
  then show ?thesis
    by (cases b) (auto simp: op unblock_in_session_def Let_def active_expiries_def block_in_session_def)
qed

lemma active_expiries_run: "active_expiries u (fold block_exec ops bs) = fold (standing u) ops (active_expiries u bs)"
  by (induction ops arbitrary: bs) (simp_all add: active_expiries_exec)

lemma is_blocked_active:
  "is_blocked durable now u bs \<longleftrightarrow> u \<noteq> [] \<and> u \<noteq> ''anonymous'' \<and>
     (\<exists>e\<in>set (active_expiries u bs). e = None \<or> later e now)"
  by (auto simp: is_blocked_def query_eq_loop list_ex_iff block_is_active_def active_expiries_def later_def
      split: option.splits)

text \<open>
  However blocks and unblocks of all users are interleaved, a named user is refused exactly while a
  block issued after the user's last unblocking has no expiry or has not expired, and both
  ways of reading the table agree.
\<close>
theorem blocked_until_released:
  "is_blocked durable now u (fold block_exec ops []) \<longleftrightarrow> u \<noteq> [] \<and> u \<noteq> ''anonymous'' \<and>
     (\<exists>e\<in>set (fold (standing u) ops []). e = None \<or> later e now)"
  by (simp add: is_blocked_active active_expiries_run) (simp add: active_expiries_def)

end
