(* ===== verification/Fusion.thy ===== *)
theory Fusion
  imports Prelude Complex_Main "HOL-Library.AList"
begin

text \<open>
  \<open>services/fusion.py\<close>: reciprocal rank fusion of the ranked lists of several search branches. The
  scores are rationals: the code's floats approximate them. A zero denominator raises.
\<close>

record 'p hit =
  hit_point_id :: string
  hit_score :: rat
  hit_payload :: 'p
  hit_rank :: int

type_synonym 'p fused = "(string \<times> rat) list \<times> (string \<times> 'p) list"

text \<open>One iteration of the inner loop over the two accumulator dicts.\<close>

definition fuse_hit :: "int \<Rightarrow> rat \<Rightarrow> 'p hit \<Rightarrow> 'p fused \<Rightarrow> 'p fused" where
  "fuse_hit k weight h acc =
     (let (scores, payloads) = acc;
          score = weight / of_int (k + hit_rank h);
          before = (case map_of scores (hit_point_id h) of Some s \<Rightarrow> s | None \<Rightarrow> 0)
      in (AList.update (hit_point_id h) (before + score) scores,
          if map_of payloads (hit_point_id h) = None then payloads @ [(hit_point_id h, hit_payload h)] else payloads))"

definition fuse_list :: "int \<Rightarrow> 'p hit list \<times> rat \<Rightarrow> 'p fused \<Rightarrow> 'p fused" where
  "fuse_list k branch acc = (case branch of (hits, weight) \<Rightarrow> fold (fuse_hit k weight) hits acc)"

definition fused :: "int \<Rightarrow> ('p hit list \<times> rat) list \<Rightarrow> 'p fused" where
  "fused k ranked_lists = fold (fuse_list k) ranked_lists ([], [])"

definition divisible :: "int \<Rightarrow> ('p hit list \<times> rat) list \<Rightarrow> bool" where
  "divisible k ranked_lists = list_all (\<lambda>(hits, w). list_all (\<lambda>h. k + hit_rank h \<noteq> 0) hits) ranked_lists"

text \<open>\<open>sorted(.., reverse=True)\<close> is stable: it orders by the negated score.\<close>

definition reciprocal_rank_fusion :: "int \<Rightarrow> ('p hit list \<times> rat) list \<Rightarrow> 'p hit list result" where
  "reciprocal_rank_fusion k ranked_lists =
     (if \<not> divisible k ranked_lists then Inl ZeroDivisionError
      else let (scores, payloads) = fused k ranked_lists in
        Inr (map (\<lambda>(pid, score). \<lparr>hit_point_id = pid, hit_score = score,
               hit_payload = the (map_of payloads pid), hit_rank = 0\<rparr>) (order_by (\<lambda>p. - snd p) scores)))"

subsection \<open>The reference: a sum over all hits of a point\<close>

definition weighted_hits :: "('p hit list \<times> rat) list \<Rightarrow> ('p hit \<times> rat) list" where
  "weighted_hits ranked_lists = concat (map (\<lambda>(hits, w). map (\<lambda>h. (h, w)) hits) ranked_lists)"

definition rrf_score :: "int \<Rightarrow> ('p hit \<times> rat) list \<Rightarrow> string \<Rightarrow> rat" where
  "rrf_score k hs pid = (\<Sum>(h, w) \<leftarrow> filter (\<lambda>(h, w). hit_point_id h = pid) hs. w / of_int (k + hit_rank h))"

definition first_hit :: "('p hit \<times> rat) list \<Rightarrow> string \<Rightarrow> 'p hit option" where
  "first_hit hs pid = get_by hit_point_id pid (map fst hs)"

lemma fused_flat: "fused k ranked_lists = fold (\<lambda>(h, w). fuse_hit k w h) (weighted_hits ranked_lists) ([], [])"
proof -
  have one: "fold (\<lambda>(h, w). fuse_hit k w h) (map (\<lambda>h. (h, w)) hits) acc = fold (fuse_hit k w) hits acc"
    for hits :: "'p hit list" and w acc by (induction hits arbitrary: acc) auto
  have "fold (fuse_list k) ls acc = fold (\<lambda>(h, w). fuse_hit k w h) (weighted_hits ls) acc"
    for ls :: "('p hit list \<times> rat) list" and acc
    by (induction ls arbitrary: acc) (auto simp: weighted_hits_def fuse_list_def one)
  then show ?thesis by (simp add: fused_def)
qed

text \<open>The accumulators after a prefix of the hits.\<close>

definition fused_ok :: "int \<Rightarrow> ('p hit \<times> rat) list \<Rightarrow> 'p fused \<Rightarrow> bool" where
  "fused_ok k hs acc \<longleftrightarrow> distinct (map fst (fst acc)) \<and>
     (\<forall>pid. map_of (fst acc) pid = (if first_hit hs pid = None then None else Some (rrf_score k hs pid))) \<and>
     (\<forall>pid. map_of (snd acc) pid = map_option hit_payload (first_hit hs pid))"

lemma first_hit_snoc: "first_hit (hs @ [(h, w)]) pid =
    (case first_hit hs pid of None \<Rightarrow> if hit_point_id h = pid then Some h else None | Some x \<Rightarrow> Some x)"
  by (simp add: first_hit_def get_by_append split: option.split)

lemma rrf_score_snoc: "rrf_score k (hs @ [(h, w)]) pid =
    rrf_score k hs pid + (if hit_point_id h = pid then w / of_int (k + hit_rank h) else 0)"
  by (simp add: rrf_score_def)

lemma rrf_score_none: "first_hit hs pid = None \<Longrightarrow> rrf_score k hs pid = 0"
proof -
  assume "first_hit hs pid = None"
  then have "filter (\<lambda>(h, w). hit_point_id h = pid) hs = []"
    by (auto simp: first_hit_def get_by_None filter_empty_conv image_iff)
  then show ?thesis by (simp add: rrf_score_def)
qed

lemma fuse_hit_ok:
  assumes "fused_ok k hs acc"
  shows "fused_ok k (hs @ [(h, w)]) (fuse_hit k w h acc)"
proof -
  obtain scores payloads where acc: "acc = (scores, payloads)" by (cases acc)
  from assms have d: "distinct (map fst scores)"
    and s: "\<And>pid. map_of scores pid = (if first_hit hs pid = None then None else Some (rrf_score k hs pid))"
    and p: "\<And>pid. map_of payloads pid = map_option hit_payload (first_hit hs pid)"
    by (simp_all add: fused_ok_def acc)
  have "map_of (AList.update (hit_point_id h) ((case map_of scores (hit_point_id h) of Some s \<Rightarrow> s | None \<Rightarrow> 0)
      + w / of_int (k + hit_rank h)) scores) pid
    = (if first_hit (hs @ [(h, w)]) pid = None then None else Some (rrf_score k (hs @ [(h, w)]) pid))" for pid
    by (auto simp: update_conv' s first_hit_snoc rrf_score_snoc rrf_score_none split: option.splits)
  moreover have "map_of (if map_of payloads (hit_point_id h) = None then payloads @ [(hit_point_id h, hit_payload h)] else payloads) pid
    = map_option hit_payload (first_hit (hs @ [(h, w)]) pid)" for pid
    by (auto simp: p first_hit_snoc map_add_def split: option.splits)
  ultimately show ?thesis using d by (simp add: fused_ok_def fuse_hit_def acc Let_def distinct_update)
qed

lemma fold_fused_ok: "fused_ok k hs acc \<Longrightarrow> fused_ok k (hs @ xs) (fold (\<lambda>(h, w). fuse_hit k w h) xs acc)"
proof (induction xs arbitrary: hs acc)
  case (Cons x xs)
  obtain h w where x: "x = (h, w)" by (cases x)
  from Cons.IH [OF fuse_hit_ok [OF Cons.prems, of h w]] show ?case by (simp add: x)
qed simp

lemma fused_result: "fused_ok k (weighted_hits ls) (fused k ls)"
proof -
  have "fused_ok k [] ([], [])" by (simp add: fused_ok_def first_hit_def)
  from fold_fused_ok [OF this, of "weighted_hits ls"] show ?thesis by (simp add: fused_flat)
qed

text \<open>
  C18. Fusion returns every point of the branches exactly once, in descending score; the score is the sum
  of weight over k plus rank over all its hits in all branches, and the payload is that of its
  first hit.
\<close>
theorem fusion_is_weighted_sum:
  assumes "divisible k branches"
  shows "\<exists>hits. reciprocal_rank_fusion k branches = Inr hits \<and>
    distinct (map hit_point_id hits) \<and> sorted (map (\<lambda>h. - hit_score h) hits) \<and>
    hit_point_id ` set hits = hit_point_id ` fst ` set (weighted_hits branches) \<and>
    (\<forall>h\<in>set hits. hit_score h = rrf_score k (weighted_hits branches) (hit_point_id h) \<and>
       map_option hit_payload (first_hit (weighted_hits branches) (hit_point_id h)) = Some (hit_payload h))"
proof -
  obtain scores payloads where acc: "fused k branches = (scores, payloads)" by fastforce
  from fused_result [of k branches, unfolded acc] have d: "distinct (map fst scores)"
    and s: "\<And>pid. map_of scores pid = (if first_hit (weighted_hits branches) pid = None then None else Some (rrf_score k (weighted_hits branches) pid))"
    and p: "\<And>pid. map_of payloads pid = map_option hit_payload (first_hit (weighted_hits branches) pid)"
    by (simp_all add: fused_ok_def)
  let ?o = "order_by (\<lambda>p. - snd p) scores"
  let ?hits = "map (\<lambda>(pid, score). \<lparr>hit_point_id = pid, hit_score = score, hit_payload = the (map_of payloads pid), hit_rank = 0\<rparr>) ?o"
  have run: "reciprocal_rank_fusion k branches = Inr ?hits" using assms by (simp add: reciprocal_rank_fusion_def acc)
  have ids: "map hit_point_id ?hits = map fst ?o" "map (\<lambda>h. - hit_score h) ?hits = map (\<lambda>p. - snd p) ?o"
    by (simp_all add: split_def comp_def)
  have "distinct (map hit_point_id ?hits)" unfolding ids using d by (simp add: order_by_def distinct_map)
  moreover have "sorted (map (\<lambda>h. - hit_score h) ?hits)" unfolding ids by (rule sorted_order_by)
  moreover have "hit_point_id ` set ?hits = hit_point_id ` fst ` set (weighted_hits branches)"
  proof -
    have "hit_point_id ` set ?hits = fst ` set scores" by (force simp: image_iff)
    also have "\<dots> = {pid. first_hit (weighted_hits branches) pid \<noteq> None}"
      using s by (auto simp: dom_map_of_conv_image_fst [symmetric] split: if_split_asm)
    also have "\<dots> = hit_point_id ` fst ` set (weighted_hits branches)" by (simp add: first_hit_def get_by_None)
    finally show ?thesis .
  qed
  moreover have "hit_score h = rrf_score k (weighted_hits branches) (hit_point_id h) \<and>
      map_option hit_payload (first_hit (weighted_hits branches) (hit_point_id h)) = Some (hit_payload h)"
    if h: "h \<in> set ?hits" for h
  proof -
    from h obtain pid score where m: "(pid, score) \<in> set scores"
      and h': "h = \<lparr>hit_point_id = pid, hit_score = score, hit_payload = the (map_of payloads pid), hit_rank = 0\<rparr>" by auto
    from d m have "map_of scores pid = Some score" by simp
    with s [of pid] p [of pid] show ?thesis by (auto simp: h' split: if_split_asm)
  qed
  ultimately show ?thesis using run by blast
qed

definition example_branches :: "(nat hit list \<times> rat) list" where
  "example_branches =
     (let h = (\<lambda>i p r. \<lparr>hit_point_id = i, hit_score = 0, hit_payload = p, hit_rank = r\<rparr>)
      in [([h ''a'' 1 0, h ''b'' 2 1], 1), ([], 2), ([h ''b'' 3 0, h ''c'' 4 1], 1)])"

theorem fusion_is_weighted_sum_witness:
  "\<exists>hits. reciprocal_rank_fusion 60 example_branches = Inr hits \<and>
    distinct (map hit_point_id hits) \<and> sorted (map (\<lambda>h. - hit_score h) hits) \<and>
    hit_point_id ` set hits = hit_point_id ` fst ` set (weighted_hits example_branches) \<and>
    (\<forall>h\<in>set hits. hit_score h = rrf_score 60 (weighted_hits example_branches) (hit_point_id h) \<and>
       map_option hit_payload (first_hit (weighted_hits example_branches) (hit_point_id h)) = Some (hit_payload h))"
  by (rule fusion_is_weighted_sum) (simp add: divisible_def example_branches_def)

end
