(* ===== verification/Glossary_Text.thy ===== *)
theory Glossary_Text
  imports Prelude
begin

text \<open>
  Normalisation of glossary terms and queries (\<open>glossary/normalization.py\<close>). Text is a list of code points. The Unicode
  database of Python (\<open>unicodedata\<close>, the predicates of \<open>str\<close>, the other cases of a character for \<open>re.IGNORECASE\<close>) is the argument \<open>u\<close>; a regular expression that
  searches a literal is a scan of the text. A character class of an expression is its predicate.
\<close>

type_synonym utext = "nat list"

record unicode =
  uc_nfc :: "utext \<Rightarrow> utext"
  uc_lower :: "utext \<Rightarrow> utext"
  uc_upper :: "utext \<Rightarrow> utext"
  uc_alnum :: "nat \<Rightarrow> bool"
  uc_alpha :: "nat \<Rightarrow> bool"
  uc_digit :: "nat \<Rightarrow> bool"
  uc_space :: "nat \<Rightarrow> bool"
  uc_combining :: "nat \<Rightarrow> bool"
  uc_control :: "nat \<Rightarrow> bool"
  uc_cases :: "nat \<Rightarrow> nat list"

definition chars :: "string \<Rightarrow> utext" where
  "chars s = map of_char s"

definition dot_above :: nat where
  "dot_above = 775"

definition strip :: "('a \<Rightarrow> bool) \<Rightarrow> 'a list \<Rightarrow> 'a list" where
  "strip P xs = rev (dropWhile P (rev (dropWhile P xs)))"

lemma dropWhile_shorter [termination_simp]: "length (dropWhile P xs) < Suc (length xs)"
  by (simp add: length_dropWhile_le le_imp_less_Suc)

text \<open>\<open>re.sub(r"\s+", " ", text)\<close>.\<close>

fun collapse :: "(nat \<Rightarrow> bool) \<Rightarrow> utext \<Rightarrow> utext" where
  "collapse P [] = []"
| "collapse P (c # cs) = (if P c then 32 # collapse P (dropWhile P cs) else c # collapse P cs)"

subsection \<open>Aliases\<close>

definition normalize_alias :: "unicode \<Rightarrow> utext \<Rightarrow> utext" where
  "normalize_alias u text =
     uc_nfc u (filter (\<lambda>c. c \<noteq> dot_above) (uc_lower u (collapse (uc_space u) (strip (uc_space u) (uc_nfc u text)))))"

definition short_denylist :: "utext list" where
  "short_denylist = [[1090, 1088], chars ''pa'', chars ''py'', [1086, 1084], chars ''om'']"

definition all_of :: "(nat \<Rightarrow> bool) \<Rightarrow> utext \<Rightarrow> bool" where
  "all_of P xs \<longleftrightarrow> xs \<noteq> [] \<and> list_all P xs"

definition validate_alias_options :: "unicode \<Rightarrow> utext \<Rightarrow> string \<Rightarrow> bool \<Rightarrow> bool \<Rightarrow> utext result" where
  "validate_alias_options u alias kind auto_expand search_enabled =
     (let n = normalize_alias u alias in
      if n = [] \<or> 256 < length n then Inl (GlossaryError ''glossary_invalid_alias'')
      else if n \<in> set short_denylist \<and> (auto_expand \<or> search_enabled) then Inl (GlossaryError ''glossary_unsafe_auto_expand'')
      else if all_of (uc_alpha u) n \<and> length n < 3 \<and> (auto_expand \<or> search_enabled) then Inl (GlossaryError ''glossary_unsafe_auto_expand'')
      else if all_of (uc_digit u) n \<and> auto_expand then Inl (GlossaryError ''glossary_unsafe_auto_expand'')
      else if all_of (uc_digit u) n \<and> search_enabled \<and> (kind \<noteq> ''sap_infotype'' \<or> length n \<noteq> 4) then Inl (GlossaryError ''glossary_unsafe_auto_expand'')
      else Inr n)"

definition ascii_digit :: "nat \<Rightarrow> bool" where
  "ascii_digit c \<longleftrightarrow> 48 \<le> c \<and> c \<le> 57"

definition four_digits :: "utext \<Rightarrow> bool" where
  "four_digits xs \<longleftrightarrow> length xs = 4 \<and> list_all ascii_digit xs"

definition validate_infotype_number :: "string \<Rightarrow> utext option \<Rightarrow> unit result" where
  "validate_infotype_number kind number =
     (if kind = ''sap_infotype'' then
        (case number of None \<Rightarrow> Inl (GlossaryError ''glossary_invalid_alias'')
         | Some n \<Rightarrow> if four_digits n then Inr () else Inl (GlossaryError ''glossary_invalid_alias''))
      else if number \<noteq> None then Inl (GlossaryError ''glossary_invalid_alias'') else Inr ())"

definition supported_kinds :: "string list" where
  "supported_kinds = [''sap_infotype'', ''sap_transaction'', ''sap_table'', ''sap_program'', ''sap_object'', ''abbreviation'', ''business_term'']"

definition canonical_char :: "nat \<Rightarrow> bool" where
  "canonical_char c \<longleftrightarrow> 65 \<le> c \<and> c \<le> 90 \<or> ascii_digit c \<or> c \<in> set (chars ''_/:.-'')"

definition normalize_canonical :: "unicode \<Rightarrow> utext \<Rightarrow> string \<Rightarrow> utext result" where
  "normalize_canonical u value kind =
     (if kind \<notin> set supported_kinds then Inl (GlossaryError ''glossary_invalid_alias'')
      else let c = uc_upper u (strip (uc_space u) value) in
        if kind = ''sap_infotype''
        then if take 2 c = chars ''IT'' \<and> four_digits (drop 2 c) then Inr c else Inl (GlossaryError ''glossary_invalid_alias'')
        else if 1 \<le> length c \<and> length c \<le> 128 \<and> list_all canonical_char c \<and> list_ex (\<lambda>x. 65 \<le> x \<and> x \<le> 90) c then Inr c
        else Inl (GlossaryError ''glossary_invalid_alias''))"

subsection \<open>Queries\<close>

text \<open>A normalised query: each character with the span of the source it comes from.\<close>

type_synonym normalized = "(nat \<times> nat \<times> nat) list"

abbreviation normalized_text :: "normalized \<Rightarrow> utext" where
  "normalized_text n \<equiv> map fst n"

definition source_span :: "normalized \<Rightarrow> nat \<Rightarrow> nat \<Rightarrow> (nat \<times> nat) result" where
  "source_span n start stop =
     (if stop \<le> start \<or> length n < stop then Inl ValueError else Inr (fst (snd (n ! start)), snd (snd (n ! (stop - 1)))))"

definition cluster_value :: "unicode \<Rightarrow> utext \<Rightarrow> utext" where
  "cluster_value u cluster =
     (if all_of (uc_space u) cluster then [32] else filter (\<lambda>c. c \<noteq> dot_above) (uc_lower u (uc_nfc u cluster)))"

definition emit :: "unicode \<Rightarrow> nat \<Rightarrow> nat \<Rightarrow> normalized \<Rightarrow> nat \<Rightarrow> normalized" where
  "emit u start stop acc c =
     (let out = if uc_space u c then 32 else c in
      if out = 32 \<and> acc \<noteq> [] \<and> fst (last acc) = 32
      then butlast acc @ [(32, fst (snd (last acc)), stop)] else acc @ [(out, start, stop)])"

fun map_clusters :: "unicode \<Rightarrow> nat \<Rightarrow> utext \<Rightarrow> normalized \<Rightarrow> normalized" where
  "map_clusters u index [] acc = acc"
| "map_clusters u index (c # cs) acc =
     (let marks = takeWhile (uc_combining u) cs; stop = index + 1 + length marks
      in map_clusters u stop (dropWhile (uc_combining u) cs) (foldl (emit u index stop) acc (cluster_value u (c # marks))))"

definition trim :: "normalized \<Rightarrow> normalized" where
  "trim n = rev (dropWhile (\<lambda>e. fst e = 32) (rev (dropWhile (\<lambda>e. fst e = 32) n)))"

definition normalize_query_with_mapping :: "unicode \<Rightarrow> utext \<Rightarrow> normalized" where
  "normalize_query_with_mapping u text = trim (map_clusters u 0 text [])"

subsection \<open>Boundaries and literal matches\<close>

definition is_identifier_char :: "unicode \<Rightarrow> nat \<Rightarrow> bool" where
  "is_identifier_char u c \<longleftrightarrow> uc_alnum u c \<or> c = 95"

text \<open>\<open>ctx\<close> is the text next to the span, read away from it.\<close>

definition continues :: "unicode \<Rightarrow> utext \<Rightarrow> bool" where
  "continues u ctx = (case dropWhile (\<lambda>c. c \<in> set (chars ''.:-'')) ctx of [] \<Rightarrow> False | c # _ \<Rightarrow> is_identifier_char u c \<or> c = 47)"

definition technical_span_boundary :: "unicode \<Rightarrow> utext \<Rightarrow> nat \<Rightarrow> nat \<Rightarrow> bool" where
  "technical_span_boundary u text start stop \<longleftrightarrow> \<not> continues u (rev (take start text)) \<and> \<not> continues u (drop stop text)"

definition phrase_boundary :: "unicode \<Rightarrow> utext \<Rightarrow> utext \<Rightarrow> nat \<Rightarrow> nat \<Rightarrow> bool" where
  "phrase_boundary u text key start stop \<longleftrightarrow>
     \<not> (0 < start \<and> is_identifier_char u (text ! (start - 1)) \<and> is_identifier_char u (hd key)) \<and>
     \<not> (stop < length text \<and> is_identifier_char u (text ! stop) \<and> is_identifier_char u (last key))"

text \<open>\<open>finditer\<close> of an expression: \<open>m\<close> gives the length of its match at the head of a text.\<close>

function finditer :: "(utext \<Rightarrow> nat option) \<Rightarrow> nat \<Rightarrow> utext \<Rightarrow> (nat \<times> nat) list" where
  "finditer m pos [] = []"
| "finditer m pos (c # cs) =
     (case m (c # cs) of
        None \<Rightarrow> finditer m (pos + 1) cs
      | Some n \<Rightarrow> (pos, pos + n) # finditer m (pos + max 1 n) (drop (max 1 n) (c # cs)))"
  by pat_completeness auto
termination by (relation "measure (\<lambda>(m, pos, text). length text)") auto

definition literal :: "utext \<Rightarrow> utext \<Rightarrow> nat option" where
  "literal key text = (if take (length key) text = key then Some (length key) else None)"

datatype boundary_mode = Phrase | Identifier | Infotype

definition boundary_ok :: "unicode \<Rightarrow> boundary_mode \<Rightarrow> utext \<Rightarrow> utext \<Rightarrow> nat \<Rightarrow> nat \<Rightarrow> bool" where
  "boundary_ok u mode text key start stop \<longleftrightarrow>
     (if mode = Identifier then technical_span_boundary u text start stop else phrase_boundary u text key start stop)"

definition literal_matches :: "unicode \<Rightarrow> normalized \<Rightarrow> utext \<Rightarrow> boundary_mode \<Rightarrow> (nat \<times> nat) list" where
  "literal_matches u n form mode =
     (let key = normalize_alias u form; text = normalized_text n in
      if key = [] then [] else filter (\<lambda>(start, stop). boundary_ok u mode text key start stop) (finditer (literal key) 0 text))"

subsection \<open>Offsets into the source\<close>

definition squeezed :: "unicode \<Rightarrow> utext \<Rightarrow> bool" where
  "squeezed u xs \<longleftrightarrow> successively (\<lambda>a b. \<not> (a = 32 \<and> b = 32)) xs \<and> list_all (\<lambda>c. uc_space u c \<longrightarrow> c = 32) xs"

text \<open>The spans so far: ordered, not empty, and within \<open>lo\<close> (starts) and \<open>hi\<close> (ends).\<close>

definition spans_ok :: "unicode \<Rightarrow> nat \<Rightarrow> nat \<Rightarrow> normalized \<Rightarrow> bool" where
  "spans_ok u lo hi n \<longleftrightarrow> sorted (map (fst \<circ> snd) n) \<and> sorted (map (snd \<circ> snd) n) \<and>
     list_all (\<lambda>(c, s, e). s < e \<and> s \<le> lo \<and> e \<le> hi) n \<and> squeezed u (map fst n)"

lemma spans_ok_append:
  "spans_ok u lo hi (xs @ [(c, s, e)]) \<longleftrightarrow> spans_ok u lo hi xs \<and> s < e \<and> s \<le> lo \<and> e \<le> hi \<and>
     list_all (\<lambda>(c', s', e'). s' \<le> s \<and> e' \<le> e) xs \<and> (uc_space u c \<longrightarrow> c = 32) \<and> (xs \<noteq> [] \<longrightarrow> \<not> (fst (last xs) = 32 \<and> c = 32))"
  by (auto simp: spans_ok_def squeezed_def sorted_append successively_append_iff last_map list_all_iff)

lemma spans_ok_mono: "spans_ok u lo hi n \<Longrightarrow> lo \<le> lo' \<Longrightarrow> hi \<le> hi' \<Longrightarrow> spans_ok u lo' hi' n"
  by (auto simp: spans_ok_def list_all_iff)

lemma spans_ok_bounds: "spans_ok u lo hi n \<Longrightarrow> list_all (\<lambda>(c, s, e). s \<le> lo \<and> e \<le> hi) n"
  by (auto simp: spans_ok_def list_all_iff)

lemma emit_ok:
  assumes ok: "spans_ok u start hi acc" and "start < hi"
  shows "spans_ok u start hi (emit u start hi acc c)"
proof (cases "acc \<noteq> [] \<and> fst (last acc) = 32 \<and> (if uc_space u c then 32 else c) = 32")
  case True
  then obtain xs s e where acc: "acc = xs @ [(32, s, e)]" by (metis append_butlast_last_id prod.collapse)
  have "spans_ok u start hi (xs @ [(32, s, hi)])"
    using ok assms(2) spans_ok_bounds [OF ok] unfolding acc spans_ok_append by (auto simp: list_all_iff)
  then show ?thesis using True by (simp add: acc emit_def)
next
  case False
  have "spans_ok u start hi (acc @ [(if uc_space u c then 32 else c, start, hi)])"
    unfolding spans_ok_append using False assms spans_ok_bounds [OF ok] by auto
  then show ?thesis using False by (auto simp: emit_def Let_def)
qed

lemma emits_ok: "spans_ok u start hi acc \<Longrightarrow> start < hi \<Longrightarrow> spans_ok u start hi (foldl (emit u start hi) acc cs)"
  by (induction cs arbitrary: acc) (auto intro: emit_ok)

lemma marks_length: "length (takeWhile P xs) + length (dropWhile P xs) = length xs"
  by (metis length_append takeWhile_dropWhile_id)

lemma map_clusters_ok: "spans_ok u index index acc \<Longrightarrow> spans_ok u (index + length text) (index + length text) (map_clusters u index text acc)"
proof (induction u index "text" acc rule: map_clusters.induct)
  case (2 u index c cs acc)
  let ?stop = "index + 1 + length (takeWhile (uc_combining u) cs)"
  have "spans_ok u index ?stop acc" using 2(2) by (rule spans_ok_mono) auto
  then have "spans_ok u index ?stop (foldl (emit u index ?stop) acc (cluster_value u (c # takeWhile (uc_combining u) cs)))"
    by (rule emits_ok) simp
  then have "spans_ok u ?stop ?stop (foldl (emit u index ?stop) acc (cluster_value u (c # takeWhile (uc_combining u) cs)))"
    by (rule spans_ok_mono) auto
  from 2(1) [OF refl refl this] show ?case using marks_length [of "uc_combining u" cs] by (simp add: Let_def add_ac)
qed simp

lemma trim_split:
  obtains pre post where "n = pre @ trim n @ post" "list_all (\<lambda>e. fst e = 32) pre" "list_all (\<lambda>e. fst e = 32) post"
    "trim n \<noteq> [] \<Longrightarrow> fst (hd (trim n)) \<noteq> 32 \<and> fst (last (trim n)) \<noteq> 32"
proof -
  let ?P = "\<lambda>e :: nat \<times> nat \<times> nat. fst e = 32"
  let ?d = "dropWhile ?P n"
  have split: "?d = trim n @ rev (takeWhile ?P (rev ?d))"
    unfolding trim_def by (metis rev_append rev_rev_ident takeWhile_dropWhile_id)
  have "fst (hd (trim n)) \<noteq> 32 \<and> fst (last (trim n)) \<noteq> 32" if ne: "trim n \<noteq> []"
  proof -
    have "hd (trim n) = hd ?d" "?d \<noteq> []" using split ne by (metis hd_append2, metis append_is_Nil_conv)
    then have "fst (hd (trim n)) \<noteq> 32" using hd_dropWhile [of ?P n] by simp
    moreover have "fst (last (trim n)) \<noteq> 32"
      using ne hd_dropWhile [of ?P "rev ?d"] by (auto simp: trim_def last_rev)
    ultimately show ?thesis by blast
  qed
  moreover have "n = takeWhile ?P n @ trim n @ rev (takeWhile ?P (rev ?d))"
    using split by (metis takeWhile_dropWhile_id)
  ultimately show thesis
    by (intro that [of "takeWhile ?P n" "rev (takeWhile ?P (rev ?d))"]) (auto simp: list_all_iff dest: set_takeWhileD)
qed

lemma trim_ends: "trim n \<noteq> [] \<Longrightarrow> fst (hd (trim n)) \<noteq> 32 \<and> fst (last (trim n)) \<noteq> 32"
  by (rule trim_split [of n])

lemma spans_ok_middle: "spans_ok u lo hi (pre @ n @ post) \<Longrightarrow> spans_ok u lo hi n"
  by (auto simp: spans_ok_def squeezed_def sorted_append successively_append_iff)

lemma query_spans: "spans_ok u (length text) (length text) (normalize_query_with_mapping u text)"
proof -
  have "spans_ok u (length text) (length text) (map_clusters u 0 text [])"
    using map_clusters_ok [of u 0 "[]" "text"] by (simp add: spans_ok_def squeezed_def)
  then show ?thesis
    unfolding normalize_query_with_mapping_def by (metis trim_split spans_ok_middle)
qed

text \<open>
  C38. The normalised query is clean and its offsets are those of the source: white space is single
  blanks inside the text only, every span of it has a source span that is not empty and lies
  within what the user typed, and the order of two spans is kept.
\<close>

theorem query_offsets_valid:
  assumes "n = normalize_query_with_mapping u query" and "start < stop" "stop \<le> length n" and "start \<le> start'" "stop \<le> stop'" "start' < stop'" "stop' \<le> length n"
  shows "squeezed u (normalized_text n) \<and> hd (normalized_text n) \<noteq> 32 \<and> last (normalized_text n) \<noteq> 32 \<and>
    (\<exists>a b a' b'. source_span n start stop = Inr (a, b) \<and> source_span n start' stop' = Inr (a', b') \<and> a < b \<and> b \<le> length query \<and> a \<le> a' \<and> b \<le> b')"
proof -
  have ok: "spans_ok u (length query) (length query) n" using query_spans assms(1) by simp
  have ne: "n \<noteq> []" using assms(2,3) by auto
  have starts: "i \<le> j \<Longrightarrow> j < length n \<Longrightarrow> fst (snd (n ! i)) \<le> fst (snd (n ! j))" for i j
    using ok sorted_nth_mono [of "map (fst \<circ> snd) n" i j] by (simp add: spans_ok_def)
  have ends: "i \<le> j \<Longrightarrow> j < length n \<Longrightarrow> snd (snd (n ! i)) \<le> snd (snd (n ! j))" for i j
    using ok sorted_nth_mono [of "map (snd \<circ> snd) n" i j] by (simp add: spans_ok_def)
  have each: "i < length n \<Longrightarrow> fst (snd (n ! i)) < snd (snd (n ! i)) \<and> snd (snd (n ! i)) \<le> length query" for i
    using ok by (cases "n ! i") (auto simp: spans_ok_def list_all_length)
  have "fst (snd (n ! start)) < snd (snd (n ! (stop - 1)))"
    using each [of start] ends [of start "stop - 1"] assms(2,3) by fastforce
  moreover have "snd (snd (n ! (stop - 1))) \<le> length query" using each [of "stop - 1"] assms(2,3) by simp
  moreover have "fst (snd (n ! start)) \<le> fst (snd (n ! start'))" using starts assms by simp
  moreover have "snd (snd (n ! (stop - 1))) \<le> snd (snd (n ! (stop' - 1)))" using ends [of "stop - 1" "stop' - 1"] assms by simp
  moreover have "hd (normalized_text n) \<noteq> 32 \<and> last (normalized_text n) \<noteq> 32"
    using ne trim_ends [of "map_clusters u 0 query []"] by (simp add: assms(1) normalize_query_with_mapping_def hd_map last_map)
  ultimately show ?thesis
    using ok assms(2,3,6,7) by (auto simp: source_span_def spans_ok_def)
qed

definition ascii :: unicode where
  "ascii = (let letter = (\<lambda>c. 65 \<le> c \<and> c \<le> 90 \<or> 97 \<le> c \<and> c \<le> 122) in
     \<lparr>uc_nfc = id, uc_lower = map (\<lambda>c. if 65 \<le> c \<and> c \<le> 90 then c + 32 else c), uc_upper = map (\<lambda>c. if 97 \<le> c \<and> c \<le> 122 then c - 32 else c),
      uc_alnum = (\<lambda>c. letter c \<or> ascii_digit c), uc_alpha = letter, uc_digit = ascii_digit, uc_space = (\<lambda>c. 9 \<le> c \<and> c \<le> 13 \<or> 28 \<le> c \<and> c \<le> 32),
      uc_combining = (\<lambda>c. False), uc_control = (\<lambda>c. c < 32 \<or> c = 127),
      uc_cases = (\<lambda>c. if letter c then [if c < 97 then c + 32 else c - 32] else [])\<rparr>)"

theorem query_offsets_valid_witness:
  "\<exists>a b a' b'. source_span (normalize_query_with_mapping ascii (chars '' IT  0003 '')) 0 2 = Inr (a, b) \<and>
     source_span (normalize_query_with_mapping ascii (chars '' IT  0003 '')) 3 7 = Inr (a', b') \<and> a < b \<and> b \<le> 11 \<and> a \<le> a' \<and> b \<le> b'"
proof -
  have n: "length (normalize_query_with_mapping ascii (chars '' IT  0003 '')) = 7" "length (chars '' IT  0003 '') = 10" by code_simp+
  then show ?thesis using query_offsets_valid [OF refl, where query = "chars '' IT  0003 ''" and u = ascii and start = 0 and stop = 2 and start' = 3 and stop' = 7]
    by fastforce
qed

subsection \<open>Queries and aliases are normalised alike\<close>

text \<open>
  Text that the Unicode functions treat one character at a time: no combining marks, no white space but what stays white space
  in lower case, and nothing for NFC to compose. The registry's normalisation works on the whole text, the query's on
  clusters, so that in general they may differ.
\<close>

definition plain_char :: "unicode \<Rightarrow> nat \<Rightarrow> bool" where
  "plain_char u c \<longleftrightarrow> \<not> uc_combining u c \<and> uc_nfc u [c] = [c] \<and>
     (uc_space u c \<or> (case uc_lower u [c] of [l] \<Rightarrow> l \<noteq> dot_above \<and> \<not> uc_space u l | _ \<Rightarrow> False))"

definition lower_char :: "unicode \<Rightarrow> nat \<Rightarrow> nat" where
  "lower_char u c = (if uc_space u c then 32 else hd (uc_lower u [c]))"

definition plain_text :: "unicode \<Rightarrow> utext \<Rightarrow> bool" where
  "plain_text u text \<longleftrightarrow> uc_space u 32 \<and> list_all (plain_char u) text \<and> uc_nfc u text = text \<and>
     (let t = collapse (uc_space u) (strip (uc_space u) text)
      in uc_lower u t = map (lower_char u) t \<and> uc_nfc u (map (lower_char u) t) = map (lower_char u) t)"

definition push :: "utext \<Rightarrow> nat \<Rightarrow> utext" where
  "push acc c = (if c = 32 \<and> acc \<noteq> [] \<and> last acc = 32 then acc else acc @ [c])"

lemma emit_text: "normalized_text (emit u start stop acc c) = push (normalized_text acc) (if uc_space u c then 32 else c)"
  by (cases acc rule: rev_cases) (auto simp: emit_def push_def Let_def)

lemma plain_cluster:
  "plain_char u c \<Longrightarrow> uc_space u 32 \<Longrightarrow>
    normalized_text (foldl (emit u i j) acc (cluster_value u [c])) = push (normalized_text acc) (lower_char u c)"
  by (auto simp: plain_char_def cluster_value_def all_of_def lower_char_def emit_text split: list.splits)

lemma plain_lower: "plain_char u c \<Longrightarrow> \<not> uc_space u c \<Longrightarrow> lower_char u c \<noteq> dot_above \<and> \<not> uc_space u (lower_char u c)"
  by (auto simp: plain_char_def lower_char_def split: list.splits)

lemma map_clusters_text:
  "list_all (plain_char u) text \<Longrightarrow> uc_space u 32 \<Longrightarrow>
    normalized_text (map_clusters u i text acc) = foldl push (normalized_text acc) (map (lower_char u) text)"
proof (induction u i "text" acc rule: map_clusters.induct)
  case (2 u i c cs acc)
  have "takeWhile (uc_combining u) cs = []" "dropWhile (uc_combining u) cs = cs"
    using 2(2) by (cases cs; simp add: plain_char_def)+
  then show ?case using 2 plain_cluster [of u c] by simp
qed simp

lemma push_collapse:
  "foldl push acc xs = acc @ collapse (\<lambda>c. c = 32) (if acc \<noteq> [] \<and> last acc = 32 then dropWhile (\<lambda>c. c = 32) xs else xs)"
proof (induction xs arbitrary: acc)
  case (Cons c xs)
  show ?case using Cons [of "push acc c"] by (cases "c = 32") (auto simp: push_def)
qed simp

lemma collapse_map:
  "P 32 \<Longrightarrow> f 32 = 32 \<Longrightarrow> (\<And>c. c \<in> set xs \<Longrightarrow> f c = 32 \<longleftrightarrow> P c) \<Longrightarrow> collapse (\<lambda>c. c = 32) (map f xs) = map f (collapse P xs)"
proof (induction P xs rule: collapse.induct)
  case (2 P c cs)
  have "dropWhile (\<lambda>c. c = 32) (map f cs) = map f (dropWhile P cs)"
    using 2(5) by (induction cs) auto
  then show ?case using 2 by (auto dest: set_dropWhileD)
qed simp

lemma collapse_Cons: "collapse P (c # cs) =
    (if P c then (if cs \<noteq> [] \<and> P (hd cs) then collapse P cs else 32 # collapse P cs) else c # collapse P cs)"
  by (cases cs) auto

lemma collapse_snoc: "collapse P (cs @ [c]) =
    (if P c then (if cs \<noteq> [] \<and> P (last cs) then collapse P cs else collapse P cs @ [32]) else collapse P cs @ [c])"
  by (induction cs) (auto simp: collapse_Cons simp del: collapse.simps(2))

lemma collapse_rev: "collapse P (rev xs) = rev (collapse P xs)"
  by (induction xs) (auto simp: collapse_Cons collapse_snoc last_rev simp del: collapse.simps(2))

lemma dropWhile_collapse: "P 32 \<Longrightarrow> dropWhile P (collapse P xs) = collapse P (dropWhile P xs)"
  by (induction xs) (auto simp: collapse_Cons simp del: collapse.simps(2))

lemma strip_collapse: "P 32 \<Longrightarrow> strip P (collapse P xs) = collapse P (strip P xs)"
  by (simp add: strip_def dropWhile_collapse collapse_rev [symmetric])

lemma dropWhile_map_iff: "(\<And>c. c \<in> set ys \<Longrightarrow> Q (f c) \<longleftrightarrow> P c) \<Longrightarrow> dropWhile Q (map f ys) = map f (dropWhile P ys)"
  by (induction ys) auto

lemma strip_map:
  assumes "\<And>c. c \<in> set xs \<Longrightarrow> Q (f c) \<longleftrightarrow> P c"
  shows "strip Q (map f xs) = map f (strip P xs)"
proof -
  have "dropWhile Q (map f (rev (dropWhile P xs))) = map f (dropWhile P (rev (dropWhile P xs)))"
    using assms by (intro dropWhile_map_iff) (auto dest: set_dropWhileD)
  moreover have "dropWhile Q (map f xs) = map f (dropWhile P xs)" by (rule dropWhile_map_iff) (rule assms)
  ultimately show ?thesis by (simp add: strip_def rev_map [symmetric])
qed

lemma trim_text: "normalized_text (trim n) = strip (\<lambda>c. c = 32) (normalized_text n)"
  by (simp add: trim_def strip_def rev_map dropWhile_map comp_def)

lemma set_strip: "c \<in> set (strip P xs) \<Longrightarrow> c \<in> set xs"
  by (auto simp: strip_def dest!: set_dropWhileD)

lemma set_collapse: "c \<in> set (collapse P xs) \<Longrightarrow> c = 32 \<or> c \<in> set xs"
  by (induction P xs rule: collapse.induct) (auto split: if_splits dest: set_dropWhileD)

text \<open>
  What a query is compared with is what the registry stored: on plain text the normalisation of queries, which keeps the
  offsets, and that of aliases yield the same text.
\<close>

theorem normalizations_agree:
  assumes "plain_text u text"
  shows "normalized_text (normalize_query_with_mapping u text) = normalize_alias u text"
proof -
  let ?low = "lower_char u" and ?sp = "uc_space u" and ?b = "\<lambda>c :: nat. c = 32"
  from assms have sp: "?sp 32" and pl: "list_all (plain_char u) text" and nfc: "uc_nfc u text = text"
    by (auto simp: plain_text_def Let_def)
  have low: "?low c = 32 \<longleftrightarrow> ?sp c" if "c \<in> set text" for c
    using pl that sp plain_lower [of u c] by (cases "?sp c") (auto simp: list_all_iff lower_char_def)
  let ?t = "collapse ?sp (strip ?sp text)"
  have "normalized_text (normalize_query_with_mapping u text) = strip ?b (collapse ?b (map ?low text))"
    by (simp add: normalize_query_with_mapping_def trim_text map_clusters_text [OF pl sp] push_collapse)
  also have "\<dots> = collapse ?b (map ?low (strip ?sp text))"
    using strip_map [of "text" ?b ?low ?sp] low by (simp add: strip_collapse)
  also have "\<dots> = map ?low ?t"
    by (rule collapse_map) (use sp low in \<open>auto simp: lower_char_def [of u 32] dest: set_strip\<close>)
  finally have query: "normalized_text (normalize_query_with_mapping u text) = map ?low ?t" .
  have "?low c \<noteq> dot_above" if "c \<in> set ?t" for c
  proof (cases "?sp c")
    case False
    then have "c \<in> set text" using set_collapse [OF that] sp by (auto dest: set_strip)
    then show ?thesis using pl False plain_lower [of u c] by (simp add: list_all_iff)
  qed (simp add: lower_char_def dot_above_def)
  then have "filter (\<lambda>c. c \<noteq> dot_above) (map ?low ?t) = map ?low ?t" by (auto simp: filter_id_conv)
  moreover have "uc_lower u ?t = map ?low ?t" "uc_nfc u (map ?low ?t) = map ?low ?t"
    using assms by (simp_all add: plain_text_def Let_def)
  ultimately show ?thesis using query nfc by (simp add: normalize_alias_def)
qed

theorem normalizations_agree_witness:
  "normalized_text (normalize_query_with_mapping ascii (chars ''  IT-0003  Card'')) = normalize_alias ascii (chars ''  IT-0003  Card'')"
  by (rule normalizations_agree) code_simp

subsection \<open>What a scan finds\<close>

definition proper :: "(utext \<Rightarrow> nat option) \<Rightarrow> bool" where
  "proper m \<longleftrightarrow> (\<forall>xs n. m xs = Some n \<longrightarrow> 0 < n \<and> n \<le> length xs)"

lemma properD: "proper m \<Longrightarrow> m xs = Some n \<Longrightarrow> 0 < n \<and> n \<le> length xs"
  by (simp add: proper_def)

lemma proper_literal: "key \<noteq> [] \<Longrightarrow> proper (literal key)"
  by (auto simp: proper_def literal_def split: if_splits) (metis length_take min.cobounded1)

lemma finditer_sound:
  "(s, e) \<in> set (finditer m pos xs) \<Longrightarrow> \<exists>k n. s = pos + k \<and> k < length xs \<and> m (drop k xs) = Some n \<and> e = s + n"
proof (induction m pos xs rule: finditer.induct)
  case (2 m pos c cs)
  show ?case
  proof (cases "m (c # cs)")
    case None
    with 2 obtain k n where "s = pos + 1 + k" "k < length cs" "m (drop k cs) = Some n" "e = s + n" by force
    then show ?thesis by (intro exI [of _ "Suc k"] exI [of _ n]) simp
  next
    case (Some n)
    show ?thesis
    proof (cases "(s, e) = (pos, pos + n)")
      case True
      then show ?thesis using Some by - (rule exI [of _ 0], rule exI [of _ n], simp)
    next
      case False
      with 2(2) [OF Some] 2(3) Some obtain k n' where
        "s = pos + max 1 n + k" "k < length (drop (max 1 n) (c # cs))" "m (drop k (drop (max 1 n) (c # cs))) = Some n'" "e = s + n'" by auto
      then show ?thesis by (intro exI [of _ "max 1 n + k"] exI [of _ n']) (auto simp: add.commute)
    qed
  qed
qed simp

text \<open>Whatever matches is found unless it begins inside something found.\<close>

lemma finditer_complete:
  "m (drop k xs) = Some n \<Longrightarrow> k < length xs \<Longrightarrow> proper m \<Longrightarrow>
    (pos + k, pos + k + n) \<in> set (finditer m pos xs) \<or> (\<exists>s e. (s, e) \<in> set (finditer m pos xs) \<and> s < pos + k \<and> pos + k < e)"
proof (induction m pos xs arbitrary: k rule: finditer.induct)
  case (2 m pos c cs)
  show ?case
  proof (cases k)
    case 0
    then show ?thesis using 2(3) by simp
  next
    case (Suc k')
    show ?thesis
    proof (cases "m (c # cs)")
      case None
      then show ?thesis using 2(1) [OF None, of k'] 2(3-5) Suc by simp
    next
      case (Some n')
      then have pos: "0 < n'" using 2(5) by (auto dest: properD)
      show ?thesis
      proof (cases "k < n'")
        case True
        have "(pos, pos + n') \<in> set (finditer m pos (c # cs))" using Some by simp
        moreover have "pos < pos + k \<and> pos + k < pos + n'" using True Suc by simp
        ultimately show ?thesis by blast
      next
        case False
        then have "drop (k - n') (drop (max 1 n') (c # cs)) = drop k (c # cs)" "pos + max 1 n' + (k - n') = pos + k" "k - n' < length (drop (max 1 n') (c # cs))"
          using pos 2(4) by (auto simp: max_def)
        then show ?thesis using 2(2) [OF Some, of "k - n'"] 2(3,5) Some by auto
      qed
    qed
  qed
qed simp

lemma finditer_exact:
  assumes "proper m" and "\<And>j k n n'. j < k \<Longrightarrow> k < j + n \<Longrightarrow> m (drop j xs) = Some n \<Longrightarrow> m (drop k xs) = Some n' \<Longrightarrow> False"
  shows "(s, e) \<in> set (finditer m 0 xs) \<longleftrightarrow> s < length xs \<and> m (drop s xs) = Some (e - s) \<and> s \<le> e"
proof
  assume "s < length xs \<and> m (drop s xs) = Some (e - s) \<and> s \<le> e"
  then have s: "s < length xs" "m (drop s xs) = Some (e - s)" "s \<le> e" by auto
  from finditer_complete [OF s(2,1) assms(1), of 0] show "(s, e) \<in> set (finditer m 0 xs)"
  proof (elim disjE exE conjE)
    fix s' e' assume "(s', e') \<in> set (finditer m 0 xs)" and b: "s' < 0 + s" "0 + s < e'"
    from finditer_sound [OF this(1)] obtain n where "m (drop s' xs) = Some n" "e' = s' + n" by auto
    with assms(2) [of s' s n] b s show ?thesis by auto
  qed (use s in simp)
qed (auto dest: finditer_sound)

text \<open>
  \<open>literal_matches\<close> goes on behind every occurrence, also behind one that its boundaries refuse: a complete form that overlaps
  a refused occurrence is not found in a query.
\<close>

lemma overlapping_form_missed:
  "boundary_ok ascii Phrase (chars ''xa-a-a'') (chars ''a-a'') 3 6 \<and> take 3 (drop 3 (chars ''xa-a-a'')) = chars ''a-a'' \<and>
   literal_matches ascii (normalize_query_with_mapping ascii (chars ''xa-a-a'')) (chars ''a-a'') Phrase = []"
  by code_simp

end
