(* ===== verification/Glossary_Forms.thy ===== *)
theory Glossary_Forms
  imports Glossary_Text Json "HOL-Library.Multiset"
begin

text \<open>
  The forms of a glossary term (\<open>glossary/rules.py\<close>, \<open>glossary/forms.py\<close>, the records of \<open>glossary/types.py\<close>): its name, its
  aliases and what the administrator's rules derive from an infotype number.
  The caches of \<open>forms.py\<close> hold values of pure functions and are left out.
\<close>

record infotype_rule =
  ir_rule_id :: int
  ir_name :: utext
  ir_number_from :: int
  ir_number_to :: int
  ir_prefixes :: "utext list"
  ir_enabled :: bool
  ir_version :: int

datatype form_source = Source_Name | Source_Alias int | Source_Rule int int

record resolved_form =
  rf_text :: utext
  rf_normalized :: utext
  rf_identity :: utext
  rf_boundary :: boundary_mode
  rf_sources :: "form_source list"
  rf_can_trigger :: bool
  rf_can_search :: bool

record rule_match =
  rm_start :: nat
  rm_end :: nat
  rm_matched_text :: utext
  rm_number :: utext
  rm_rule_ids :: "int list"

record alias_snapshot =
  as_alias_id :: int
  as_alias :: utext
  as_normalized_alias :: utext
  as_locale :: "string option"
  as_auto_expand :: bool
  as_search_enabled :: bool
  as_is_conflicting :: bool

record translation_snapshot =
  ts_locale :: string
  ts_display_name :: utext
  ts_source_revision :: int
  ts_is_machine_translated :: bool

record term_snapshot =
  gt_term_id :: int
  gt_canonical :: utext
  gt_kind :: string
  gt_original_name :: utext
  gt_canonical_locale :: string
  gt_enabled :: bool
  gt_version :: int
  gt_source_revision :: int
  gt_aliases :: "alias_snapshot list"
  gt_translations :: "translation_snapshot list"
  gt_infotype_number :: "utext option"

subsection \<open>Rules\<close>

definition normalize_rule_prefix :: "unicode \<Rightarrow> utext \<Rightarrow> utext result" where
  "normalize_rule_prefix u prefix =
     (let n = collapse (uc_space u) (filter (\<lambda>c. c \<noteq> dot_above) (uc_lower u (uc_nfc u prefix))) in
      if n = [] \<or> strip (uc_space u) n = [] \<or> hd n = 32 \<or> 64 < length n then Inl (GlossaryError ''glossary_invalid_rule'')
      else if list_ex (uc_control u) n then Inl (GlossaryError ''glossary_invalid_rule'')
      else if \<not> list_ex (uc_alpha u) n then Inl (GlossaryError ''glossary_invalid_rule'')
      else Inr n)"

fun distinct_prefixes :: "unicode \<Rightarrow> utext list \<Rightarrow> utext list \<Rightarrow> utext list result" where
  "distinct_prefixes u [] acc = Inr acc"
| "distinct_prefixes u (p # ps) acc =
     bindr (normalize_rule_prefix u p) (\<lambda>n.
       if n \<in> set acc then Inl (GlossaryError ''glossary_invalid_rule'') else distinct_prefixes u ps (acc @ [n]))"

definition validate_rule :: "unicode \<Rightarrow> infotype_rule \<Rightarrow> utext list result" where
  "validate_rule u r =
     (let name = strip (uc_space u) (ir_name r) in
      if name = [] \<or> 128 < length name then Inl (GlossaryError ''glossary_invalid_rule'')
      else if \<not> (0 \<le> ir_number_from r \<and> ir_number_from r \<le> ir_number_to r \<and> ir_number_to r \<le> 9999) then Inl (GlossaryError ''glossary_invalid_rule'')
      else if \<not> (1 \<le> length (ir_prefixes r) \<and> length (ir_prefixes r) \<le> 50) then Inl (GlossaryError ''glossary_invalid_rule'')
      else distinct_prefixes u (ir_prefixes r) [])"

definition number_value :: "utext \<Rightarrow> int" where
  "number_value xs = foldl (\<lambda>n c. n * 10 + (int c - 48)) 0 xs"

definition in_range :: "infotype_rule \<Rightarrow> utext \<Rightarrow> bool" where
  "in_range r number \<longleftrightarrow> ir_number_from r \<le> number_value number \<and> number_value number \<le> ir_number_to r"

text \<open>The expression: the prefix, then four digits.\<close>

definition code_at :: "utext \<Rightarrow> utext \<Rightarrow> nat option" where
  "code_at prefix text =
     (if take (length prefix) text = prefix \<and> four_digits (take 4 (drop (length prefix) text)) then Some (length prefix + 4) else None)"

definition code_spans :: "unicode \<Rightarrow> utext \<Rightarrow> infotype_rule \<Rightarrow> utext \<Rightarrow> (nat \<times> nat \<times> utext) list" where
  "code_spans u text r prefix =
     filter (\<lambda>(start, stop, number). in_range r number)
       (map (\<lambda>(start, stop). (start, stop, take 4 (drop (start + length prefix) text)))
         (filter (\<lambda>(start, stop). technical_span_boundary u text start stop) (finditer (code_at prefix) 0 text)))"

fun source_codes :: "normalized \<Rightarrow> int \<Rightarrow> (nat \<times> nat \<times> utext) list \<Rightarrow> rule_match list result" where
  "source_codes n rule_id [] = Inr []"
| "source_codes n rule_id ((start, stop, number) # rest) =
     bindr (source_span n start stop) (\<lambda>(a, b).
       bindr (source_codes n rule_id rest) (\<lambda>ms.
         Inr (\<lparr>rm_start = a, rm_end = b, rm_matched_text = [], rm_number = number, rm_rule_ids = [rule_id]\<rparr> # ms)))"

definition rule_matches :: "unicode \<Rightarrow> normalized \<Rightarrow> infotype_rule \<Rightarrow> rule_match list result" where
  "rule_matches u n r =
     (if \<not> ir_enabled r then Inr []
      else bindr (validate_rule u r) (\<lambda>prefixes.
        source_codes n (ir_rule_id r) (concat (map (code_spans u (normalized_text n) r) prefixes))))"

fun all_matches :: "unicode \<Rightarrow> normalized \<Rightarrow> infotype_rule list \<Rightarrow> rule_match list result" where
  "all_matches u n [] = Inr []"
| "all_matches u n (r # rs) = bindr (rule_matches u n r) (\<lambda>ms. bindr (all_matches u n rs) (\<lambda>rest. Inr (ms @ rest)))"

definition match_key :: "rule_match \<Rightarrow> nat \<times> nat \<times> utext" where
  "match_key m = (rm_start m, rm_end m, rm_number m)"

definition match_infotypes :: "unicode \<Rightarrow> utext \<Rightarrow> infotype_rule list \<Rightarrow> rule_match list result" where
  "match_infotypes u text rules =
     bindr (all_matches u (normalize_query_with_mapping u text) rules) (\<lambda>ms.
       Inr (map (\<lambda>(start, stop, number).
           \<lparr>rm_start = start, rm_end = stop, rm_matched_text = take (stop - start) (drop start text), rm_number = number,
            rm_rule_ids = sort (remdups (concat (map rm_rule_ids (filter (\<lambda>m. match_key m = (start, stop, number)) ms))))\<rparr>)
         (sort (remdups (map match_key ms)))))"

subsection \<open>Forms\<close>

fun prefix_forms :: "unicode \<Rightarrow> utext \<Rightarrow> infotype_rule \<Rightarrow> utext list \<Rightarrow> resolved_form list \<Rightarrow> resolved_form list" where
  "prefix_forms u number r [] acc = acc"
| "prefix_forms u number r (p # ps) acc =
     prefix_forms u number r ps
       (let n = normalize_alias u (p @ number) in
        if n \<in> set (map rf_normalized acc) then acc
        else acc @ [\<lparr>rf_text = p @ number, rf_normalized = n, rf_identity = chars ''infotype:'' @ number, rf_boundary = Identifier,
                     rf_sources = [Source_Rule (ir_rule_id r) (ir_version r)], rf_can_trigger = True, rf_can_search = True\<rparr>])"

fun build_number_forms :: "unicode \<Rightarrow> utext \<Rightarrow> infotype_rule list \<Rightarrow> resolved_form list \<Rightarrow> resolved_form list result" where
  "build_number_forms u number [] acc = Inr acc"
| "build_number_forms u number (r # rs) acc =
     (if \<not> ir_enabled r \<or> \<not> in_range r number then build_number_forms u number rs acc
      else bindr (validate_rule u r) (\<lambda>prefixes. build_number_forms u number rs (prefix_forms u number r prefixes acc)))"

definition forms_for_number :: "unicode \<Rightarrow> utext \<Rightarrow> infotype_rule list \<Rightarrow> resolved_form list result" where
  "forms_for_number u number rules = (if \<not> four_digits number then Inr [] else build_number_forms u number rules [])"

definition name_is_allowed :: "unicode \<Rightarrow> utext \<Rightarrow> string \<Rightarrow> bool" where
  "name_is_allowed u name kind = is_ok (validate_alias_options u name kind True True)"

definition add_form ::
    "unicode \<Rightarrow> utext \<Rightarrow> form_source \<Rightarrow> bool \<Rightarrow> bool \<Rightarrow> utext \<Rightarrow> boundary_mode \<Rightarrow> resolved_form list \<Rightarrow> resolved_form list" where
  "add_form u text source can_trigger can_search identity boundary acc =
     (let n = normalize_alias u text in
      if n = [] then acc
      else if n \<in> set (map rf_normalized acc)
      then map (\<lambda>f. if rf_normalized f = n
             then f\<lparr>rf_sources := (if source \<in> set (rf_sources f) then rf_sources f else rf_sources f @ [source]),
                    rf_can_trigger := rf_can_trigger f \<or> can_trigger, rf_can_search := rf_can_search f \<or> can_search\<rparr>
             else f) acc
      else acc @ [\<lparr>rf_text = text, rf_normalized = n, rf_identity = identity, rf_boundary = boundary, rf_sources = [source],
                   rf_can_trigger = can_trigger, rf_can_search = can_search\<rparr>])"

definition decimal :: "int \<Rightarrow> utext" where
  "decimal i = chars (int_text i)"

definition sap_kind :: "string \<Rightarrow> bool" where
  "sap_kind kind \<longleftrightarrow> take 4 kind = ''sap_''"

definition add_rule_form :: "unicode \<Rightarrow> resolved_form \<Rightarrow> resolved_form list \<Rightarrow> resolved_form list" where
  "add_rule_form u f acc =
     foldl (\<lambda>acc source. add_form u (rf_text f) source (rf_can_trigger f) (rf_can_search f) (rf_identity f) (rf_boundary f) acc) acc (rf_sources f)"

text \<open>\<open>list.sort\<close> is stable: rule forms in the order of the rules, then the others as they are.\<close>

definition rules_first :: "resolved_form list \<Rightarrow> resolved_form list \<Rightarrow> resolved_form list" where
  "rules_first rule_forms result =
     (let order = map rf_normalized rule_forms; key = (\<lambda>f. length (takeWhile (\<lambda>n. n \<noteq> rf_normalized f) order))
      in sort_key (\<lambda>f. if rf_normalized f \<in> set order then (0 :: nat, key f) else (1, 0)) result)"

definition resolve_term_forms :: "unicode \<Rightarrow> term_snapshot \<Rightarrow> infotype_rule list \<Rightarrow> resolved_form list result" where
  "resolve_term_forms u t rules =
     (let boundary = (if sap_kind (gt_kind t) then Identifier else Phrase);
          identity = chars ''term:'' @ decimal (gt_term_id t);
          allowed = name_is_allowed u (gt_original_name t) (gt_kind t);
          named = add_form u (gt_original_name t) Source_Name allowed allowed identity boundary [];
          explicit = foldl (\<lambda>acc a. if as_is_conflicting a then acc
              else add_form u (as_alias a) (Source_Alias (as_alias_id a)) (as_auto_expand a) (as_search_enabled a) identity boundary acc)
            named (gt_aliases t)
      in bindr (case gt_infotype_number t of None \<Rightarrow> Inr [] | Some number \<Rightarrow> if number = [] then Inr [] else forms_for_number u number rules) (\<lambda>rule_forms.
        Inr (if rule_forms = [] then explicit
             else rules_first rule_forms (foldl (\<lambda>acc f. add_rule_form u f acc) explicit rule_forms))))"

subsection \<open>Codes in a text\<close>

lemma code_at_iff:
  "code_at p (drop j xs) = Some n \<longleftrightarrow> n = length p + 4 \<and> take (length p) (drop j xs) = p \<and> four_digits (take 4 (drop (j + length p) xs))"
  by (auto simp: code_at_def add.commute)

lemma code_at_nth:
  assumes "code_at p (drop j xs) = Some n"
  shows "j + length p + 4 \<le> length xs" "i < length p \<Longrightarrow> xs ! (j + i) = p ! i" "i < 4 \<Longrightarrow> ascii_digit (xs ! (j + length p + i))"
proof -
  have t: "take (length p) (drop j xs) = p" and d: "four_digits (take 4 (drop (j + length p) xs))" using assms by (auto simp: code_at_iff)
  from d show len: "j + length p + 4 \<le> length xs" by (auto simp: four_digits_def)
  show "xs ! (j + i) = p ! i" if "i < length p"
    using that len arg_cong [OF t, of "\<lambda>ys. ys ! i"] by (simp add: nth_drop)
  show "ascii_digit (xs ! (j + length p + i))" if "i < 4"
  proof -
    have "take 4 (drop (j + length p) xs) ! i = xs ! (j + length p + i)" using that len by (simp add: nth_drop)
    then show ?thesis using d that len by (metis four_digits_def list_all_length)
  qed
qed

lemma codes_apart:
  assumes m: "code_at p (drop j xs) = Some n" "code_at p (drop k xs) = Some n'" and jk: "j < k" "k < j + n"
    and p: "p \<noteq> []" "\<not> list_ex ascii_digit p"
  shows False
proof -
  have n: "n = length p + 4" using m(1) by (simp add: code_at_iff)
  have nodigit: "i < length p \<Longrightarrow> \<not> ascii_digit (p ! i)" for i using p(2) by (auto simp: list_ex_iff)
  show False
  proof (cases "k \<le> j + length p")
    case True
    let ?i = "j + length p - k"
    have "?i < length p" "k + ?i = j + length p" using True jk(1) p(1) by auto
    then have "ascii_digit (p ! ?i)" using code_at_nth(2) [OF m(2), of ?i] code_at_nth(3) [OF m(1), of 0] by simp
    then show False using nodigit \<open>?i < length p\<close> by simp
  next
    case False
    let ?i = "k - (j + length p)"
    have "?i < 4" "j + length p + ?i = k" using False jk(2) n by auto
    then have "ascii_digit (xs ! k)" using code_at_nth(3) [OF m(1), of ?i] by simp
    moreover have "0 < length p" using p(1) by simp
    ultimately show False using code_at_nth(2) [OF m(2), of 0] nodigit [of 0] by simp
  qed
qed

lemma proper_code: "proper (code_at p)"
proof -
  have "0 < n \<and> n \<le> length xs" if "code_at p xs = Some n" for xs n
    using code_at_nth(1) [of p 0 xs n] code_at_iff [of p 0 xs n] that by simp
  then show ?thesis by (simp add: proper_def)
qed

lemma code_spans_iff:
  assumes "p \<noteq> []" "\<not> list_ex ascii_digit p"
  shows "(start, stop, number) \<in> set (code_spans u text r p) \<longleftrightarrow>
    code_at p (drop start text) = Some (length p + 4) \<and> stop = start + length p + 4 \<and> technical_span_boundary u text start stop \<and>
    number = take 4 (drop (start + length p) text) \<and> in_range r number"
proof -
  have ex: "(s, e) \<in> set (finditer (code_at p) 0 text) \<longleftrightarrow> s < length text \<and> code_at p (drop s text) = Some (e - s) \<and> s \<le> e" for s e
    by (rule finditer_exact [OF proper_code]) (use codes_apart assms in blast)
  have "s < length text" if "code_at p (drop s text) = Some (length p + 4)" for s
    using code_at_nth(1) [OF that] by simp
  then show ?thesis
    by (auto simp: code_spans_def ex code_at_iff)
qed

lemma distinct_prefixes_ok:
  "distinct_prefixes u ps acc = Inr ns \<Longrightarrow> list_all (\<lambda>n. n \<noteq> []) acc \<Longrightarrow> list_all (\<lambda>n. n \<noteq> []) ns"
  by (induction u ps acc rule: distinct_prefixes.induct) (auto simp: normalize_rule_prefix_def Let_def split: if_splits)

lemma validate_rule_ok: "validate_rule u r = Inr ns \<Longrightarrow> p \<in> set ns \<Longrightarrow> p \<noteq> []"
  using distinct_prefixes_ok [of u "ir_prefixes r" "[]" ns] by (auto simp: validate_rule_def Let_def list_all_iff split: if_splits)

lemma source_codes_eq:
  "source_codes n i codes = Inr ms \<Longrightarrow> list_all (\<lambda>(start, stop, number). is_ok (source_span n start stop)) codes \<and>
     ms = map (\<lambda>(start, stop, number). let (a, b) = projr (source_span n start stop)
       in \<lparr>rm_start = a, rm_end = b, rm_matched_text = [], rm_number = number, rm_rule_ids = [i]\<rparr>) codes"
  by (induction n i codes arbitrary: ms rule: source_codes.induct) auto

lemma source_codes_set:
  assumes "source_codes n i codes = Inr ms"
  shows "m \<in> set ms \<longleftrightarrow> (\<exists>start stop number a b. (start, stop, number) \<in> set codes \<and> source_span n start stop = Inr (a, b) \<and>
     m = \<lparr>rm_start = a, rm_end = b, rm_matched_text = [], rm_number = number, rm_rule_ids = [i]\<rparr>)"
proof -
  note eq = source_codes_eq [OF assms]
  have ok: "\<exists>a b. source_span n start stop = Inr (a, b)" if "(start, stop, number) \<in> set codes" for start stop number
    using eq that by (auto simp: list_all_iff is_ok_iff)
  show ?thesis
  proof
    assume "m \<in> set ms"
    then obtain start stop number where c: "(start, stop, number) \<in> set codes"
      and m: "m = (let (a, b) = projr (source_span n start stop) in \<lparr>rm_start = a, rm_end = b, rm_matched_text = [], rm_number = number, rm_rule_ids = [i]\<rparr>)"
      using eq by auto
    obtain a b where sp: "source_span n start stop = Inr (a, b)" using ok [OF c] by blast
    have "m = \<lparr>rm_start = a, rm_end = b, rm_matched_text = [], rm_number = number, rm_rule_ids = [i]\<rparr>" using m sp by simp
    then show "\<exists>start stop number a b. (start, stop, number) \<in> set codes \<and> source_span n start stop = Inr (a, b) \<and>
     m = \<lparr>rm_start = a, rm_end = b, rm_matched_text = [], rm_number = number, rm_rule_ids = [i]\<rparr>" using c sp by blast
  next
    assume "\<exists>start stop number a b. (start, stop, number) \<in> set codes \<and> source_span n start stop = Inr (a, b) \<and>
     m = \<lparr>rm_start = a, rm_end = b, rm_matched_text = [], rm_number = number, rm_rule_ids = [i]\<rparr>"
    then show "m \<in> set ms" using eq by force
  qed
qed

text \<open>A complete form of a rule: its prefix and a number of its range, with nothing of an identifier next to it.\<close>

definition code_found :: "unicode \<Rightarrow> utext \<Rightarrow> infotype_rule list \<Rightarrow> nat \<times> nat \<times> utext \<Rightarrow> int \<Rightarrow> bool" where
  "code_found u text rules key i \<longleftrightarrow>
     (\<exists>r ps p start. r \<in> set rules \<and> ir_enabled r \<and> validate_rule u r = Inr ps \<and> p \<in> set ps \<and> i = ir_rule_id r \<and>
        (let n = normalize_query_with_mapping u text; stop = start + length p + 4; number = take 4 (drop (start + length p) (normalized_text n)) in
         take (length p) (drop start (normalized_text n)) = p \<and> four_digits number \<and> in_range r number \<and>
         technical_span_boundary u (normalized_text n) start stop \<and> source_span n start stop = Inr (fst key, fst (snd key)) \<and> snd (snd key) = number))"

definition digit_free :: "unicode \<Rightarrow> infotype_rule list \<Rightarrow> bool" where
  "digit_free u rules \<longleftrightarrow> list_all (\<lambda>r. case validate_rule u r of Inl _ \<Rightarrow> True | Inr ps \<Rightarrow> list_all (\<lambda>p. \<not> list_ex ascii_digit p) ps) rules"

lemma rule_matches_set:
  assumes "rule_matches u n r = Inr ms" "digit_free u [r]"
  shows "m \<in> set ms \<longleftrightarrow> (\<exists>ps p start a b number. ir_enabled r \<and> validate_rule u r = Inr ps \<and> p \<in> set ps \<and>
     number = take 4 (drop (start + length p) (normalized_text n)) \<and>
     take (length p) (drop start (normalized_text n)) = p \<and> four_digits number \<and> in_range r number \<and>
     technical_span_boundary u (normalized_text n) start (start + length p + 4) \<and> source_span n start (start + length p + 4) = Inr (a, b) \<and>
     m = \<lparr>rm_start = a, rm_end = b, rm_matched_text = [], rm_number = number, rm_rule_ids = [ir_rule_id r]\<rparr>)"
proof (cases "ir_enabled r")
  case True
  with assms(1) obtain ps where ps: "validate_rule u r = Inr ps"
    and src: "source_codes n (ir_rule_id r) (concat (map (code_spans u (normalized_text n) r) ps)) = Inr ms"
    by (auto simp: rule_matches_def)
  have "p \<in> set ps \<Longrightarrow> p \<noteq> [] \<and> \<not> list_ex ascii_digit p" for p
    using assms(2) ps validate_rule_ok [OF ps] by (auto simp: digit_free_def list_all_iff)
  then have codes: "(start, stop, number) \<in> set (concat (map (code_spans u (normalized_text n) r) ps)) \<longleftrightarrow>
      (\<exists>p \<in> set ps. take (length p) (drop start (normalized_text n)) = p \<and> four_digits number \<and> stop = start + length p + 4 \<and>
        technical_span_boundary u (normalized_text n) start stop \<and> number = take 4 (drop (start + length p) (normalized_text n)) \<and> in_range r number)"
    for start stop number using code_spans_iff [of _ start stop number u "normalized_text n" r] by (auto simp: code_at_iff)
  show ?thesis unfolding source_codes_set [OF src, of m] codes by (simp only: ps True sum.inject) blast
qed (use assms(1) in \<open>simp add: rule_matches_def\<close>)

lemma all_matches_set:
  assumes "all_matches u (normalize_query_with_mapping u text) rules = Inr ms" "digit_free u rules"
  shows "m \<in> set ms \<longleftrightarrow> rm_matched_text m = [] \<and> (\<exists>i. rm_rule_ids m = [i] \<and> code_found u text rules (match_key m) i)"
  using assms
proof (induction rules arbitrary: ms)
  case (Cons r rules)
  let ?n = "normalize_query_with_mapping u text"
  from Cons.prems(1) obtain xs ys where xs: "rule_matches u ?n r = Inr xs" and ys: "all_matches u ?n rules = Inr ys" and ms: "ms = xs @ ys" by auto
  have df: "digit_free u [r]" "digit_free u rules" using Cons.prems(2) by (auto simp: digit_free_def)
  have "code_found u text (r # rules) k i \<longleftrightarrow> code_found u text [r] k i \<or> code_found u text rules k i" for k i
    unfolding code_found_def by auto
  moreover have "m \<in> set xs \<longleftrightarrow> rm_matched_text m = [] \<and> (\<exists>i. rm_rule_ids m = [i] \<and> code_found u text [r] (match_key m) i)"
    unfolding rule_matches_set [OF xs df(1), of m] code_found_def match_key_def Let_def
    by (cases m) auto
  ultimately show ?case using Cons.IH [OF ys df(2)] ms by auto
qed (simp add: code_found_def)


definition example_rule :: infotype_rule where
  "example_rule = \<lparr>ir_rule_id = 1, ir_name = chars ''SAP'', ir_number_from = 0, ir_number_to = 999, ir_prefixes = [chars ''IT'', chars ''IT ''],
     ir_enabled = True, ir_version = 1\<rparr>"

definition example_query :: utext where
  "example_query = chars ''IT  0003, IT00037 it1234 it0021''"


subsection \<open>Rights of forms\<close>

text \<open>What the code adds, in order: text, source, the two rights, identity and boundary.\<close>

type_synonym contribution = "utext \<times> form_source \<times> bool \<times> bool \<times> utext \<times> boundary_mode"

definition contribute :: "unicode \<Rightarrow> resolved_form list \<Rightarrow> contribution \<Rightarrow> resolved_form list" where
  "contribute u acc c = (case c of (text, source, trigger, search, identity, boundary) \<Rightarrow> add_form u text source trigger search identity boundary acc)"

definition rule_contributions :: "resolved_form list \<Rightarrow> contribution list" where
  "rule_contributions fs = concat (map (\<lambda>f. map (\<lambda>source. (rf_text f, source, rf_can_trigger f, rf_can_search f, rf_identity f, rf_boundary f)) (rf_sources f)) fs)"

definition contributions :: "unicode \<Rightarrow> term_snapshot \<Rightarrow> resolved_form list \<Rightarrow> contribution list" where
  "contributions u t rule_forms =
     (let boundary = (if sap_kind (gt_kind t) then Identifier else Phrase); identity = chars ''term:'' @ decimal (gt_term_id t);
          allowed = name_is_allowed u (gt_original_name t) (gt_kind t)
      in (gt_original_name t, Source_Name, allowed, allowed, identity, boundary) #
         map (\<lambda>a. (as_alias a, Source_Alias (as_alias_id a), as_auto_expand a, as_search_enabled a, identity, boundary))
           (filter (\<lambda>a. \<not> as_is_conflicting a) (gt_aliases t)) @
         rule_contributions rule_forms)"

definition granted :: "unicode \<Rightarrow> (contribution \<Rightarrow> bool) \<Rightarrow> contribution list \<Rightarrow> utext \<Rightarrow> bool" where
  "granted u right cs k \<longleftrightarrow> (\<exists>c \<in> set cs. normalize_alias u (fst c) = k \<and> right c)"

abbreviation may_trigger :: "contribution \<Rightarrow> bool" where
  "may_trigger c \<equiv> fst (snd (snd c))"

abbreviation may_search :: "contribution \<Rightarrow> bool" where
  "may_search c \<equiv> fst (snd (snd (snd c)))"

definition resolved_from :: "unicode \<Rightarrow> contribution list \<Rightarrow> resolved_form list \<Rightarrow> bool" where
  "resolved_from u cs fs \<longleftrightarrow> distinct (map rf_normalized fs) \<and>
     set (map rf_normalized fs) = {k. k \<noteq> [] \<and> granted u (\<lambda>c. True) cs k} \<and>
     (\<forall>f \<in> set fs. (rf_can_trigger f \<longleftrightarrow> granted u may_trigger cs (rf_normalized f)) \<and>
        (rf_can_search f \<longleftrightarrow> granted u may_search cs (rf_normalized f)) \<and>
        set (rf_sources f) = {s. granted u (\<lambda>c. fst (snd c) = s) cs (rf_normalized f)})"

lemma granted_snoc: "granted u right (cs @ [c]) k \<longleftrightarrow> granted u right cs k \<or> normalize_alias u (fst c) = k \<and> right c"
  by (auto simp: granted_def)

lemma resolved_keys: "resolved_from u cs fs \<Longrightarrow> f \<in> set fs \<Longrightarrow> rf_normalized f \<noteq> []"
  by (auto simp: resolved_from_def)

lemma contribute_resolved:
  assumes "resolved_from u cs fs"
  shows "resolved_from u (cs @ [c]) (contribute u fs c)"
proof -
  obtain words source trigger search identity boundary where c: "c = (words, source, trigger, search, identity, boundary)" by (cases c)
  let ?n = "normalize_alias u words"
  have no: "\<not> granted u right cs ?n" if "?n \<notin> set (map rf_normalized fs)" "?n \<noteq> []" for right
    using that assms by (auto simp: resolved_from_def granted_def)
  consider "?n = []" | "?n \<noteq> []" "?n \<in> set (map rf_normalized fs)" | "?n \<noteq> []" "?n \<notin> set (map rf_normalized fs)" by blast
  then show ?thesis
  proof cases
    case 1
    then have "contribute u fs c = fs" by (simp add: contribute_def c add_form_def)
    then show ?thesis using assms 1 resolved_keys [OF assms] by (auto simp: resolved_from_def granted_snoc c)
  next
    case 2
    define upd where "upd f = (if rf_normalized f = ?n
             then f\<lparr>rf_sources := (if source \<in> set (rf_sources f) then rf_sources f else rf_sources f @ [source]),
                    rf_can_trigger := rf_can_trigger f \<or> trigger, rf_can_search := rf_can_search f \<or> search\<rparr>
             else f)" for f :: resolved_form
    have eq: "contribute u fs c = map upd fs" using 2 by (simp add: contribute_def c add_form_def Let_def upd_def)
    have key: "rf_normalized (upd f) = rf_normalized f" for f by (simp add: upd_def)
    then have keys: "map rf_normalized (map upd fs) = map rf_normalized fs" by simp
    have "set (map rf_normalized fs) = {k. k \<noteq> [] \<and> granted u (\<lambda>c. True) (cs @ [c]) k}"
      using assms 2 by (auto simp: resolved_from_def granted_snoc c)
    moreover have "(rf_can_trigger g \<longleftrightarrow> granted u may_trigger (cs @ [c]) (rf_normalized g)) \<and>
        (rf_can_search g \<longleftrightarrow> granted u may_search (cs @ [c]) (rf_normalized g)) \<and>
        set (rf_sources g) = {s. granted u (\<lambda>c. fst (snd c) = s) (cs @ [c]) (rf_normalized g)}" if "g \<in> set (map upd fs)" for g
      using that assms by (auto simp: resolved_from_def granted_snoc c upd_def split: if_splits)
    ultimately show ?thesis using assms unfolding resolved_from_def eq keys by simp
  next
    case 3
    have eq: "contribute u fs c = fs @ [\<lparr>rf_text = words, rf_normalized = ?n, rf_identity = identity, rf_boundary = boundary, rf_sources = [source],
                   rf_can_trigger = trigger, rf_can_search = search\<rparr>]"
      using 3 by (simp add: contribute_def c add_form_def Let_def)
    have "set (map rf_normalized (contribute u fs c)) = {k. k \<noteq> [] \<and> granted u (\<lambda>c. True) (cs @ [c]) k}"
      unfolding eq using assms 3 by (auto simp: resolved_from_def granted_snoc c)
    moreover have "distinct (map rf_normalized (contribute u fs c))" unfolding eq using assms 3 by (simp add: resolved_from_def)
    moreover have "(rf_can_trigger g \<longleftrightarrow> granted u may_trigger (cs @ [c]) (rf_normalized g)) \<and>
        (rf_can_search g \<longleftrightarrow> granted u may_search (cs @ [c]) (rf_normalized g)) \<and>
        set (rf_sources g) = {s. granted u (\<lambda>c. fst (snd c) = s) (cs @ [c]) (rf_normalized g)}" if "g \<in> set (contribute u fs c)" for g
    proof (cases "g \<in> set fs")
      case True
      then have "rf_normalized g \<noteq> ?n" using 3(2) by (metis image_eqI list.set_map)
      then show ?thesis using True assms by (auto simp: resolved_from_def granted_snoc c)
    next
      case False
      then show ?thesis using that no [OF 3(2,1)] unfolding eq by (auto simp: granted_snoc c)
    qed
    ultimately show ?thesis by (simp add: resolved_from_def)
  qed
qed

lemma contribute_all: "resolved_from u cs fs \<Longrightarrow> resolved_from u (cs @ ds) (foldl (contribute u) fs ds)"
proof (induction ds arbitrary: cs fs)
  case (Cons d ds)
  from Cons.IH [OF contribute_resolved [OF Cons.prems]] show ?case by simp
qed simp

text \<open>The order of the forms is all the rules change in the end.\<close>

lemma resolved_from_perm:
  assumes "resolved_from u cs fs" "mset gs = mset fs"
  shows "resolved_from u cs gs"
proof -
  have "mset (map rf_normalized gs) = mset (map rf_normalized fs)" using assms(2) by simp
  then have "distinct (map rf_normalized gs) = distinct (map rf_normalized fs)" by (rule mset_eq_imp_distinct_iff)
  moreover have "set gs = set fs" using assms(2) by (rule mset_eq_setD)
  ultimately show ?thesis using assms(1) by (simp add: resolved_from_def)
qed

lemma foldl_explicit:
  "foldl (\<lambda>acc a. if as_is_conflicting a then acc
      else add_form u (as_alias a) (Source_Alias (as_alias_id a)) (as_auto_expand a) (as_search_enabled a) identity boundary acc) acc as =
   foldl (contribute u) acc (map (\<lambda>a. (as_alias a, Source_Alias (as_alias_id a), as_auto_expand a, as_search_enabled a, identity, boundary))
           (filter (\<lambda>a. \<not> as_is_conflicting a) as))"
  by (induction as arbitrary: acc) (simp_all add: contribute_def)

lemma foldl_rules: "foldl (\<lambda>acc f. add_rule_form u f acc) acc fs = foldl (contribute u) acc (rule_contributions fs)"
proof (induction fs arbitrary: acc)
  case (Cons f fs)
  have "add_rule_form u f acc =
      foldl (contribute u) acc (map (\<lambda>source. (rf_text f, source, rf_can_trigger f, rf_can_search f, rf_identity f, rf_boundary f)) (rf_sources f))"
    by (simp add: add_rule_form_def foldl_map contribute_def)
  then show ?case using Cons by (simp add: rule_contributions_def)
qed (simp add: rule_contributions_def)

definition rule_forms_of :: "unicode \<Rightarrow> term_snapshot \<Rightarrow> infotype_rule list \<Rightarrow> resolved_form list result" where
  "rule_forms_of u t rules = (case gt_infotype_number t of None \<Rightarrow> Inr [] | Some number \<Rightarrow> if number = [] then Inr [] else forms_for_number u number rules)"

lemma resolve_term_forms_from:
  assumes "resolve_term_forms u t rules = Inr forms" and "rule_forms_of u t rules = Inr rule_forms"
  shows "resolved_from u (contributions u t rule_forms) forms"
proof -
  let ?all = "foldl (contribute u) [] (contributions u t rule_forms)"
  have nil: "resolved_from u [] []" by (simp add: resolved_from_def granted_def)
  have "mset forms = mset ?all"
    using assms
    by (auto simp: resolve_term_forms_def rule_forms_of_def [symmetric] contributions_def Let_def foldl_explicit foldl_rules contribute_def rules_first_def
        rule_contributions_def)
  with contribute_all [OF nil, of "contributions u t rule_forms"] show ?thesis using resolved_from_perm by fastforce
qed


definition example_term :: term_snapshot where
  "example_term = \<lparr>gt_term_id = 7, gt_canonical = chars ''IT0003'', gt_kind = ''sap_infotype'', gt_original_name = chars ''Payroll status'',
     gt_canonical_locale = ''en'', gt_enabled = True, gt_version = 1, gt_source_revision = 1,
     gt_aliases = [\<lparr>as_alias_id = 1, as_alias = chars ''status'', as_normalized_alias = chars ''status'', as_locale = None, as_auto_expand = True,
                     as_search_enabled = True, as_is_conflicting = True\<rparr>,
                   \<lparr>as_alias_id = 2, as_alias = chars ''It0003'', as_normalized_alias = chars ''it0003'', as_locale = None, as_auto_expand = False,
                     as_search_enabled = False, as_is_conflicting = False\<rparr>],
     gt_translations = [], gt_infotype_number = Some (chars ''0003'')\<rparr>"


end
