(* ===== verification/Glossary_Plan.thy ===== *)
theory Glossary_Plan
  imports Glossary_Forms
begin

text \<open>
  The expansion of a query (\<open>glossary/expansion.py\<close>): which terms a query names and which forms are added to it within
  the limits of the settings. The snapshot of terms and rules is an argument; an outcome \<open>Inl\<close> of \<open>prepare_query\<close>
  is a rule of it that does not validate.
\<close>

datatype match_type = Match_Alias | Match_Structural | Match_Mixed

record candidate =
  cd_term :: term_snapshot
  cd_start :: nat
  cd_end :: nat
  cd_matched_text :: utext
  cd_match_type :: match_type
  cd_source_form :: utext

record match_span =
  sp_start :: nat
  sp_end :: nat
  sp_matched_text :: utext
  sp_match_type :: match_type
  sp_source_form :: utext

record match_group =
  mg_term_id :: "int option"
  mg_canonical :: utext
  mg_kind :: string
  mg_canonical_locale :: string
  mg_original_name :: utext
  mg_term_version :: int
  mg_source_revision :: int
  mg_spans :: "match_span list"
  mg_matched_forms :: "utext list"
  mg_match_type :: match_type
  mg_system_rule :: bool
  mg_structural_code :: "utext option"
  mg_resolved_forms :: "resolved_form list"

text \<open>\<open>collect f xs\<close> is \<open>[f x for x in xs]\<close> where \<open>f\<close> may raise.\<close>

fun collect :: "('a \<Rightarrow> 'b result) \<Rightarrow> 'a list \<Rightarrow> 'b list result" where
  "collect f [] = Inr []"
| "collect f (x # xs) = bindr (f x) (\<lambda>y. bindr (collect f xs) (\<lambda>ys. Inr (y # ys)))"

text \<open>\<open>dict.fromkeys\<close>: the first of equals, in order.\<close>

fun first_of :: "'a list \<Rightarrow> 'a list" where
  "first_of [] = []"
| "first_of (x # xs) = x # first_of (filter (\<lambda>y. y \<noteq> x) xs)"

subsection \<open>Candidates\<close>

definition contains :: "utext \<Rightarrow> utext \<Rightarrow> bool" where
  "contains key text \<longleftrightarrow> list_ex (\<lambda>k. take (length key) (drop k text) = key) [0..<length text + 1]"

definition rule_source :: "form_source \<Rightarrow> bool" where
  "rule_source s = (case s of Source_Rule _ _ \<Rightarrow> True | _ \<Rightarrow> False)"

definition form_candidates :: "unicode \<Rightarrow> utext \<Rightarrow> normalized \<Rightarrow> term_snapshot \<Rightarrow> resolved_form \<Rightarrow> candidate list result" where
  "form_candidates u query n t f =
     (if \<not> rf_can_trigger f \<or> \<not> contains (rf_normalized f) (normalized_text n) then Inr []
      else collect (\<lambda>(start, stop). bindr (source_span n start stop) (\<lambda>(a, b).
             Inr \<lparr>cd_term = t, cd_start = a, cd_end = b, cd_matched_text = take (b - a) (drop a query),
                  cd_match_type = if list_ex rule_source (rf_sources f) then Match_Structural else Match_Alias, cd_source_form = rf_text f\<rparr>))
        (literal_matches u n (rf_normalized f) (rf_boundary f)))"

definition alias_candidates :: "unicode \<Rightarrow> utext \<Rightarrow> normalized \<Rightarrow> term_snapshot \<Rightarrow> candidate list result" where
  "alias_candidates u query n t =
     bindr (resolve_term_forms u t []) (\<lambda>forms. bindr (collect (form_candidates u query n t) forms) (\<lambda>cs. Inr (concat cs)))"

definition candidate_key :: "unicode \<Rightarrow> candidate \<Rightarrow> int \<times> nat \<times> nat \<times> int \<times> utext" where
  "candidate_key u c = (int (cd_start c) - int (cd_end c), cd_start c, if cd_match_type c = Match_Alias then 0 else 1, gt_term_id (cd_term c),
     normalize_alias u (cd_source_form c))"

definition overlaps :: "candidate \<Rightarrow> candidate \<Rightarrow> bool" where
  "overlaps c d \<longleftrightarrow> cd_start c < cd_end d \<and> cd_start d < cd_end c"

fun accept :: "candidate list \<Rightarrow> candidate list \<Rightarrow> candidate list" where
  "accept [] accepted = accepted"
| "accept (c # cs) accepted = accept cs (if list_ex (overlaps c) accepted then accepted else accepted @ [c])"

definition enabled_candidates :: "unicode \<Rightarrow> utext \<Rightarrow> term_snapshot list \<Rightarrow> candidate list result" where
  "enabled_candidates u query terms =
     bindr (collect (alias_candidates u query (normalize_query_with_mapping u query)) (filter gt_enabled terms)) (\<lambda>cs. Inr (concat cs))"

definition collect_candidates :: "unicode \<Rightarrow> utext \<Rightarrow> term_snapshot list \<Rightarrow> candidate list result" where
  "collect_candidates u query terms =
     bindr (enabled_candidates u query terms) (\<lambda>cs.
       Inr (sort_key (\<lambda>c. (cd_start c, cd_end c, gt_term_id (cd_term c))) (accept (sort_key (candidate_key u) cs) [])))"

subsection \<open>Groups\<close>

definition span_of :: "candidate \<Rightarrow> match_span" where
  "span_of c = \<lparr>sp_start = cd_start c, sp_end = cd_end c, sp_matched_text = cd_matched_text c, sp_match_type = cd_match_type c, sp_source_form = cd_source_form c\<rparr>"

definition common_type :: "match_type list \<Rightarrow> match_type" where
  "common_type ts = (case remdups ts of [t] \<Rightarrow> t | _ \<Rightarrow> Match_Mixed)"

definition term_group :: "unicode \<Rightarrow> infotype_rule list \<Rightarrow> term_snapshot \<Rightarrow> candidate list \<Rightarrow> match_group result" where
  "term_group u rules t items =
     bindr (resolve_term_forms u t rules) (\<lambda>forms.
       Inr \<lparr>mg_term_id = Some (gt_term_id t), mg_canonical = gt_canonical t, mg_kind = gt_kind t, mg_canonical_locale = gt_canonical_locale t,
            mg_original_name = gt_original_name t, mg_term_version = gt_version t, mg_source_revision = gt_source_revision t,
            mg_spans = map span_of items, mg_matched_forms = first_of (map cd_source_form items),
            mg_match_type = common_type (map cd_match_type items), mg_system_rule = False, mg_structural_code = None, mg_resolved_forms = forms\<rparr>)"

definition first_start :: "match_group \<Rightarrow> nat" where
  "first_start g = sp_start (hd (mg_spans g))"

definition term_number :: "match_group \<Rightarrow> int" where
  "term_number g = (case mg_term_id g of None \<Rightarrow> 0 | Some i \<Rightarrow> i)"

definition group_candidates :: "unicode \<Rightarrow> infotype_rule list \<Rightarrow> candidate list \<Rightarrow> match_group list result" where
  "group_candidates u rules cs =
     bindr (collect (\<lambda>i.
         let items = sort_key (\<lambda>c. (cd_start c, cd_end c, cd_source_form c)) (filter (\<lambda>c. gt_term_id (cd_term c) = i) cs)
         in term_group u rules (cd_term (hd items)) items) (first_of (map (\<lambda>c. gt_term_id (cd_term c)) cs))) (\<lambda>groups.
       Inr (sort_key (\<lambda>g. (first_start g, term_number g)) groups))"

definition it_code :: "utext \<Rightarrow> utext" where
  "it_code number = chars ''IT'' @ number"

text \<open>The last term with a number is the one a dict comprehension keeps.\<close>

definition term_by_number :: "term_snapshot list \<Rightarrow> utext \<Rightarrow> term_snapshot option" where
  "term_by_number terms number = find (\<lambda>t. gt_infotype_number t = Some number \<and> number \<noteq> []) (rev terms)"

definition target_group :: "term_snapshot option \<Rightarrow> utext \<Rightarrow> match_group \<Rightarrow> bool" where
  "target_group t number g \<longleftrightarrow>
     (case t of Some t \<Rightarrow> mg_term_id g = Some (gt_term_id t) | None \<Rightarrow> mg_term_id g = None \<and> mg_structural_code g = Some (it_code number))"

definition new_group :: "unicode \<Rightarrow> infotype_rule list \<Rightarrow> term_snapshot option \<Rightarrow> utext \<Rightarrow> match_span \<Rightarrow> match_group result" where
  "new_group u rules t number sp =
     (case t of
        None \<Rightarrow>
          bindr (forms_for_number u number rules) (\<lambda>forms.
            Inr \<lparr>mg_term_id = None, mg_canonical = it_code number, mg_kind = ''sap_infotype'', mg_canonical_locale = ''und'',
                 mg_original_name = it_code number, mg_term_version = 0, mg_source_revision = 0, mg_spans = [sp],
                 mg_matched_forms = [sp_matched_text sp], mg_match_type = Match_Structural, mg_system_rule = True,
                 mg_structural_code = Some (it_code number), mg_resolved_forms = forms\<rparr>)
      | Some t \<Rightarrow>
          bindr (resolve_term_forms u t rules) (\<lambda>forms.
            Inr \<lparr>mg_term_id = Some (gt_term_id t), mg_canonical = gt_canonical t, mg_kind = gt_kind t, mg_canonical_locale = gt_canonical_locale t,
                 mg_original_name = gt_original_name t, mg_term_version = gt_version t, mg_source_revision = gt_source_revision t, mg_spans = [sp],
                 mg_matched_forms = [sp_matched_text sp], mg_match_type = Match_Structural, mg_system_rule = True,
                 mg_structural_code = Some (it_code number), mg_resolved_forms = forms\<rparr>))"

definition type_rank :: "match_type \<Rightarrow> nat" where
  "type_rank t = (case t of Match_Alias \<Rightarrow> 0 | Match_Mixed \<Rightarrow> 1 | Match_Structural \<Rightarrow> 2)"

definition enrich_group :: "utext \<Rightarrow> match_span \<Rightarrow> match_group \<Rightarrow> match_group" where
  "enrich_group number sp g =
     (if list_ex (\<lambda>s. sp_start s = sp_start sp \<and> sp_end s = sp_end sp) (mg_spans g)
      then g\<lparr>mg_system_rule := True, mg_structural_code := Some (it_code number)\<rparr>
      else let spans = sort_key (\<lambda>s. (sp_start s, sp_end s, type_rank (sp_match_type s))) (mg_spans g @ [sp])
        in g\<lparr>mg_spans := spans, mg_matched_forms := first_of (mg_matched_forms g @ [sp_matched_text sp]),
             mg_match_type := if 1 < length (remdups (map sp_match_type spans)) then Match_Mixed else Match_Structural,
             mg_system_rule := True, mg_structural_code := Some (it_code number)\<rparr>)"

fun update_first :: "('a \<Rightarrow> bool) \<Rightarrow> ('a \<Rightarrow> 'a) \<Rightarrow> 'a list \<Rightarrow> 'a list" where
  "update_first P f [] = []"
| "update_first P f (x # xs) = (if P x then f x # xs else x # update_first P f xs)"

fun add_infotypes :: "unicode \<Rightarrow> infotype_rule list \<Rightarrow> term_snapshot list \<Rightarrow> rule_match list \<Rightarrow> match_group list \<Rightarrow> match_group list result" where
  "add_infotypes u rules terms [] groups = Inr groups"
| "add_infotypes u rules terms (m # ms) groups =
     (let t = term_by_number terms (rm_number m);
          sp = \<lparr>sp_start = rm_start m, sp_end = rm_end m, sp_matched_text = rm_matched_text m, sp_match_type = Match_Structural,
                sp_source_form = rm_matched_text m\<rparr>
      in if (case t of None \<Rightarrow> False | Some t \<Rightarrow> \<not> gt_enabled t) then add_infotypes u rules terms ms groups
         else if list_ex (target_group t (rm_number m)) groups
         then add_infotypes u rules terms ms (update_first (target_group t (rm_number m)) (enrich_group (rm_number m) sp) groups)
         else bindr (new_group u rules t (rm_number m) sp) (\<lambda>g. add_infotypes u rules terms ms (groups @ [g])))"

definition with_configured_infotype_groups ::
    "unicode \<Rightarrow> term_snapshot list \<Rightarrow> infotype_rule list \<Rightarrow> utext \<Rightarrow> match_group list \<Rightarrow> match_group list result" where
  "with_configured_infotype_groups u terms rules query groups =
     bindr (match_infotypes u query rules) (\<lambda>ms.
     bindr (add_infotypes u rules terms ms groups) (\<lambda>enriched.
       Inr (sort_key (\<lambda>g. (first_start g, if mg_term_id g = None then (1 :: nat) else 0, term_number g, mg_canonical g)) enriched)))"

subsection \<open>The plan\<close>

record plan_settings =
  ps_max_terms :: nat
  ps_max_aliases :: nat
  ps_max_tokens :: nat
  ps_max_chars :: nat
  ps_max_query_chars :: nat

datatype skip_reason = Skip_Ambiguous | Skip_Unsafe_Name | Skip_Max_Terms | Skip_Max_Aliases | Skip_Max_Tokens | Skip_Max_Chars | Skip_Max_Query

type_synonym skipped_reason = "int option \<times> utext \<times> skip_reason \<times> utext option"

record applied_term =
  at_term_id :: "int option"
  at_canonical :: utext
  at_kind :: string
  at_display_name :: utext
  at_display_locale :: string
  at_display_is_machine :: bool
  at_display_is_fallback :: bool
  at_canonical_locale :: string
  at_term_version :: int
  at_source_revision :: int
  at_matched_texts :: "utext list"
  at_match_type :: match_type
  at_added_forms :: "utext list"
  at_system_rule :: bool
  at_saved_alias_forms :: "utext list"
  at_form_sources :: "form_source list"

datatype plan_status = Plan_Disabled | Plan_No_Match | Plan_Applied | Plan_Limited | Plan_Unavailable

record query_plan =
  qp_original_query :: utext
  qp_dense_query :: utext
  qp_added_sparse_texts :: "utext list"
  qp_match_groups :: "match_group list"
  qp_applied_terms :: "applied_term list"
  qp_status :: plan_status
  qp_skipped :: "skipped_reason list"
  qp_revision :: int
  qp_strict_groups :: "match_group list"

definition display :: "unicode \<Rightarrow> term_snapshot \<Rightarrow> string \<Rightarrow> utext \<times> string \<times> bool \<times> bool" where
  "display u t locale =
     (if locale = gt_canonical_locale t then (gt_original_name t, gt_canonical_locale t, False, False)
      else case find (\<lambda>tr. ts_locale tr = locale \<and> ts_source_revision tr = gt_source_revision t) (gt_translations t) of
        Some tr \<Rightarrow> (ts_display_name tr, locale, ts_is_machine_translated tr, False)
      | None \<Rightarrow> (gt_original_name t, gt_canonical_locale t, False, True))"

definition token_class :: "nat \<Rightarrow> bool" where
  "token_class c \<longleftrightarrow> 97 \<le> c \<and> c \<le> 122 \<or> 1072 \<le> c \<and> c \<le> 1103 \<or> c = 1105 \<or> ascii_digit c \<or> c = 223 \<or> 224 \<le> c \<and> c \<le> 246 \<or>
     248 \<le> c \<and> c \<le> 255 \<or> 257 \<le> c \<and> c \<le> 382 \<or> c = 537 \<or> c = 539"

definition token_run :: "unicode \<Rightarrow> utext \<Rightarrow> nat option" where
  "token_run u text =
     (let n = length (takeWhile (\<lambda>c. list_ex token_class (c # uc_cases u c)) text) in if n = 0 then None else Some n)"

definition token_count :: "unicode \<Rightarrow> utext \<Rightarrow> nat" where
  "token_count u text = length (finditer (token_run u) 0 (uc_lower u text))"

text \<open>What the loop over the groups carries.\<close>

record plan_state =
  st_limited :: bool
  st_sparse :: "utext list"
  st_seen :: "utext list"
  st_tokens :: nat
  st_chars :: nat
  st_dense :: utext
  st_groups :: "match_group list"
  st_terms :: "applied_term list"
  st_skipped :: "skipped_reason list"

text \<open>The forms of one group: what was accepted, the explicit aliases among it and its sources.\<close>

record accepted =
  ac_forms :: "utext list"
  ac_alias_forms :: "utext list"
  ac_sources :: "form_source list"

definition explicit_source :: "form_source \<Rightarrow> bool" where
  "explicit_source s = (case s of Source_Alias _ \<Rightarrow> True | _ \<Rightarrow> False)"

fun admit_forms :: "unicode \<Rightarrow> plan_settings \<Rightarrow> match_group \<Rightarrow> resolved_form list \<Rightarrow> accepted \<Rightarrow> plan_state \<Rightarrow> accepted \<times> plan_state" where
  "admit_forms u st g [] acc s = (acc, s)"
| "admit_forms u st g (f # fs) acc s =
     (let form = rf_text f; n = normalize_alias u form; tokens = token_count u form in
      if n = [] \<or> n \<in> set (st_seen s) then admit_forms u st g fs acc s
      else if ps_max_tokens st < st_tokens s + tokens \<or> ps_max_chars st < st_chars s + length form
      then admit_forms u st g fs acc (s\<lparr>st_limited := True, st_skipped := st_skipped s @
          [(mg_term_id g, mg_canonical g, if ps_max_tokens st < st_tokens s + tokens then Skip_Max_Tokens else Skip_Max_Chars, Some form)]\<rparr>)
      else admit_forms u st g fs
          (acc\<lparr>ac_forms := ac_forms acc @ [form],
               ac_alias_forms := ac_alias_forms acc @ (if list_ex explicit_source (rf_sources f) then [form] else []),
               ac_sources := ac_sources acc @ rf_sources f\<rparr>)
          (s\<lparr>st_seen := st_seen s @ [n], st_sparse := st_sparse s @ [form], st_tokens := st_tokens s + tokens, st_chars := st_chars s + length form\<rparr>))"

fun extend_dense :: "plan_settings \<Rightarrow> match_group \<Rightarrow> utext list \<Rightarrow> plan_state \<Rightarrow> plan_state" where
  "extend_dense st g [] s = s"
| "extend_dense st g (form # fs) s =
     extend_dense st g fs
       (if length (st_dense s) + length (10 # form) \<le> ps_max_query_chars st then s\<lparr>st_dense := st_dense s @ 10 # form\<rparr>
        else s\<lparr>st_limited := True, st_skipped := st_skipped s @ [(mg_term_id g, mg_canonical g, Skip_Max_Query, Some form)]\<rparr>)"

definition searchable_forms :: "unicode \<Rightarrow> normalized \<Rightarrow> match_group \<Rightarrow> resolved_form list \<Rightarrow> utext list \<Rightarrow> resolved_form list" where
  "searchable_forms u n g resolved seen =
     (let keys = map (normalize_alias u) (mg_matched_forms g)
      in sort_key (\<lambda>f. if rf_normalized f \<in> set keys then (0 :: nat) else 1)
          (filter (\<lambda>f. rf_can_search f \<and> rf_normalized f \<notin> set seen \<and> literal_matches u n (rf_normalized f) (rf_boundary f) = []) resolved))"

text \<open>What the triggers that the query contains give a term before anything is added.\<close>

definition matched_forms :: "unicode \<Rightarrow> normalized \<Rightarrow> resolved_form list \<Rightarrow> accepted" where
  "matched_forms u n resolved =
     (let matched = filter (\<lambda>f. rf_can_trigger f \<and> literal_matches u n (rf_normalized f) (rf_boundary f) \<noteq> []) resolved
      in \<lparr>ac_forms = [], ac_alias_forms = map rf_text (filter (\<lambda>f. list_ex explicit_source (rf_sources f)) matched),
          ac_sources = concat (map rf_sources matched)\<rparr>)"

definition limit_aliases :: "plan_settings \<Rightarrow> match_group \<Rightarrow> resolved_form list \<Rightarrow> plan_state \<Rightarrow> plan_state" where
  "limit_aliases st g searchable s =
     (if ps_max_aliases st < length searchable
      then s\<lparr>st_limited := True, st_skipped := st_skipped s @ [(mg_term_id g, mg_canonical g, Skip_Max_Aliases, None)]\<rparr> else s)"

definition applied_of :: "unicode \<Rightarrow> string \<Rightarrow> term_snapshot option \<Rightarrow> match_group \<Rightarrow> accepted \<Rightarrow> applied_term" where
  "applied_of u locale t g acc =
     (let shown = (case t of Some t \<Rightarrow> display u t locale | None \<Rightarrow> (mg_original_name g, mg_canonical_locale g, False, False))
      in \<lparr>at_term_id = mg_term_id g, at_canonical = mg_canonical g, at_kind = mg_kind g, at_display_name = fst shown,
          at_display_locale = fst (snd shown), at_display_is_machine = fst (snd (snd shown)), at_display_is_fallback = snd (snd (snd shown)),
          at_canonical_locale = mg_canonical_locale g, at_term_version = mg_term_version g, at_source_revision = mg_source_revision g,
          at_matched_texts = first_of (map sp_matched_text (mg_spans g)), at_match_type = mg_match_type g, at_added_forms = ac_forms acc,
          at_system_rule = mg_system_rule g, at_saved_alias_forms = ac_alias_forms acc, at_form_sources = first_of (ac_sources acc)\<rparr>)"

definition plan_group ::
    "unicode \<Rightarrow> plan_settings \<Rightarrow> string \<Rightarrow> normalized \<Rightarrow> (int \<Rightarrow> term_snapshot option) \<Rightarrow> match_group \<Rightarrow> plan_state \<Rightarrow> plan_state result" where
  "plan_group u st locale n terms g s =
     (let t = (case mg_term_id g of None \<Rightarrow> None | Some i \<Rightarrow> terms i) in
      bindr (if mg_resolved_forms g \<noteq> [] then Inr (mg_resolved_forms g)
             else case t of None \<Rightarrow> Inr [] | Some t \<Rightarrow> resolve_term_forms u t []) (\<lambda>resolved.
      let searchable = searchable_forms u n g resolved (st_seen s);
          (acc, s2) = admit_forms u st g (take (ps_max_aliases st) searchable) (matched_forms u n resolved) (limit_aliases st g searchable s);
          s3 = extend_dense st g (ac_forms acc) s2
      in Inr (s3\<lparr>st_groups := st_groups s3 @ [g\<lparr>mg_matched_forms := ac_forms acc\<rparr>], st_terms := st_terms s3 @ [applied_of u locale t g acc]\<rparr>)))"

fun plan_groups ::
    "unicode \<Rightarrow> plan_settings \<Rightarrow> string \<Rightarrow> normalized \<Rightarrow> (int \<Rightarrow> term_snapshot option) \<Rightarrow> match_group list \<Rightarrow> plan_state \<Rightarrow> plan_state result" where
  "plan_groups u st locale n terms [] s = Inr s"
| "plan_groups u st locale n terms (g # gs) s = bindr (plan_group u st locale n terms g s) (plan_groups u st locale n terms gs)"

definition empty_plan :: "utext \<Rightarrow> plan_status \<Rightarrow> query_plan" where
  "empty_plan query status =
     \<lparr>qp_original_query = query, qp_dense_query = query, qp_added_sparse_texts = [], qp_match_groups = [], qp_applied_terms = [],
      qp_status = status, qp_skipped = [], qp_revision = 0, qp_strict_groups = []\<rparr>"

definition start_state :: "utext \<Rightarrow> plan_state" where
  "start_state query = \<lparr>st_limited = False, st_sparse = [], st_seen = [], st_tokens = 0, st_chars = 0, st_dense = query, st_groups = [], st_terms = [], st_skipped = []\<rparr>"

definition build_plan ::
    "unicode \<Rightarrow> plan_settings \<Rightarrow> string \<Rightarrow> utext \<Rightarrow> match_group list \<Rightarrow> (int \<Rightarrow> term_snapshot option) \<Rightarrow> query_plan result" where
  "build_plan u st locale query groups terms =
     bindr (plan_groups u st locale (normalize_query_with_mapping u query) terms groups (start_state query)) (\<lambda>s.
       Inr (if st_terms s = [] then (empty_plan query Plan_No_Match)\<lparr>qp_skipped := st_skipped s\<rparr>
            else \<lparr>qp_original_query = query, qp_dense_query = st_dense s, qp_added_sparse_texts = st_sparse s, qp_match_groups = st_groups s,
                  qp_applied_terms = st_terms s, qp_status = if st_limited s then Plan_Limited else Plan_Applied, qp_skipped = st_skipped s,
                  qp_revision = 0, qp_strict_groups = []\<rparr>))"

text \<open>The last term with an id is the one a dict comprehension keeps.\<close>

definition term_by_id :: "term_snapshot list \<Rightarrow> int \<Rightarrow> term_snapshot option" where
  "term_by_id terms i = find (\<lambda>t. gt_term_id t = i) (rev terms)"

definition ambiguous_aliases :: "unicode \<Rightarrow> normalized \<Rightarrow> term_snapshot list \<Rightarrow> skipped_reason list" where
  "ambiguous_aliases u n terms =
     concat (map (\<lambda>t. map (\<lambda>a. (Some (gt_term_id t), gt_canonical t, Skip_Ambiguous, Some (as_alias a)))
       (filter (\<lambda>a. as_is_conflicting a \<and> as_auto_expand a \<and> literal_matches u n (as_normalized_alias a) Phrase \<noteq> []) (gt_aliases t)))
      (filter gt_enabled terms))"

definition unsafe_names :: "unicode \<Rightarrow> normalized \<Rightarrow> term_snapshot list \<Rightarrow> skipped_reason list" where
  "unsafe_names u n terms =
     map (\<lambda>t. (Some (gt_term_id t), gt_canonical t, Skip_Unsafe_Name, Some (gt_original_name t)))
       (filter (\<lambda>t. gt_enabled t \<and> \<not> name_is_allowed u (gt_original_name t) (gt_kind t) \<and>
          literal_matches u n (gt_original_name t) (if sap_kind (gt_kind t) then Identifier else Phrase) \<noteq> []) terms)"

text \<open>\<open>snapshot\<close> is what the loader returns (revision, terms and rules), or the failure it raised; \<open>locale\<close> is stripped.\<close>

datatype snapshot_outcome = Snapshot int "term_snapshot list" "infotype_rule list" | Migration_Required | Snapshot_Failed

definition prepare_query :: "unicode \<Rightarrow> plan_settings \<Rightarrow> bool \<Rightarrow> string \<Rightarrow> snapshot_outcome \<Rightarrow> utext \<Rightarrow> query_plan result" where
  "prepare_query u st enabled locale snapshot query =
     (if \<not> enabled then Inr (empty_plan query Plan_Disabled)
      else case snapshot of
        Migration_Required \<Rightarrow> Inl (GlossaryError ''glossary_migration_required'')
      | Snapshot_Failed \<Rightarrow> Inr (empty_plan query Plan_Unavailable)
      | Snapshot revision terms rules \<Rightarrow>
          bindr (collect_candidates u query terms) (\<lambda>candidates.
          let n = normalize_query_with_mapping u query;
              ambiguous = ambiguous_aliases u n terms @ unsafe_names u n terms
          in bindr (group_candidates u rules candidates) (\<lambda>groups0.
          bindr (with_configured_infotype_groups u terms rules query groups0) (\<lambda>groups.
          if groups = []
          then Inr ((empty_plan query Plan_No_Match)\<lparr>qp_skipped := ambiguous, qp_revision := revision\<rparr>)
          else let limited = ps_max_terms st < length groups;
                   skipped = ambiguous @ map (\<lambda>g. (mg_term_id g, mg_canonical g, Skip_Max_Terms, None)) (drop (ps_max_terms st) groups)
               in bindr (build_plan u st locale query (take (ps_max_terms st) groups) (term_by_id terms)) (\<lambda>plan.
                 Inr (plan\<lparr>qp_status := if limited \<and> qp_status plan = Plan_Applied then Plan_Limited else qp_status plan,
                           qp_skipped := skipped @ qp_skipped plan, qp_revision := revision, qp_strict_groups := groups\<rparr>))))))"

subsection \<open>The accepted candidates\<close>

lemma overlaps_sym: "overlaps c d = overlaps d c"
  by (auto simp: overlaps_def)

lemma accept_subset: "set acc \<subseteq> set (accept cs acc) \<and> set (accept cs acc) \<subseteq> set acc \<union> set cs"
  by (induction cs acc rule: accept.induct) (auto split: if_splits)

lemma accept_disjoint: "sorted_wrt (\<lambda>a b. \<not> overlaps a b) acc \<Longrightarrow> sorted_wrt (\<lambda>a b. \<not> overlaps a b) (accept cs acc)"
  by (induction cs acc rule: accept.induct) (auto simp: sorted_wrt_append list_ex_iff overlaps_sym)

lemma accept_covers:
  assumes "sorted (map key (acc @ cs))" and "c \<in> set cs"
  shows "c \<in> set (accept cs acc) \<or> (\<exists>a \<in> set (accept cs acc). overlaps c a \<and> key a \<le> key c)"
  using assms
proof (induction cs acc rule: accept.induct)
  case (2 d cs acc)
  let ?acc = "if list_ex (overlaps d) acc then acc else acc @ [d]"
  have sorted: "sorted (map key (?acc @ cs))" using 2(2) by (auto simp: sorted_append)
  show ?case
  proof (cases "c \<in> set cs")
    case True
    then show ?thesis using 2(1) [OF sorted] by simp
  next
    case False
    then have c: "c = d" using 2(3) by simp
    show ?thesis
    proof (cases "list_ex (overlaps d) acc")
      case True
      then obtain a where "a \<in> set acc" "overlaps d a" by (auto simp: list_ex_iff)
      moreover have "key a \<le> key d" using 2(2) \<open>a \<in> set acc\<close> by (auto simp: sorted_append)
      ultimately show ?thesis using accept_subset [of ?acc cs] True c by auto
    next
      case False
      then show ?thesis using accept_subset [of ?acc cs] c by auto
    qed
  qed
qed simp

lemma sorted_wrt_sort:
  assumes "symp P" "sorted_wrt P xs"
  shows "sorted_wrt P (sort_key k xs)"
proof -
  have "sorted_wrt P (insort_key k x ys)" if "sorted_wrt P ys" "\<forall>y \<in> set ys. P x y" for x ys
    using that assms(1) by (induction ys) (auto simp: set_insort_key dest: sympD)
  then show ?thesis using assms(2) by (induction xs) auto
qed


subsection \<open>The limits\<close>

definition plan_inv :: "unicode \<Rightarrow> plan_settings \<Rightarrow> utext \<Rightarrow> plan_state \<Rightarrow> bool" where
  "plan_inv u st query s \<longleftrightarrow>
     st_tokens s = sum_list (map (token_count u) (st_sparse s)) \<and> st_tokens s \<le> ps_max_tokens st \<and>
     st_chars s = sum_list (map length (st_sparse s)) \<and> st_chars s \<le> ps_max_chars st \<and>
     st_seen s = map (normalize_alias u) (st_sparse s) \<and> distinct (st_seen s) \<and> [] \<notin> set (st_seen s) \<and>
     take (length query) (st_dense s) = query \<and> length (st_dense s) \<le> max (length query) (ps_max_query_chars st)"

lemma admit_forms_inv:
  assumes "plan_inv u st query s" and "admit_forms u st g fs acc s = (acc', s')"
  shows "plan_inv u st query s' \<and> st_terms s' = st_terms s \<and> (\<exists>new. st_sparse s' = st_sparse s @ new \<and> ac_forms acc' = ac_forms acc @ new \<and> length new \<le> length fs)"
  using assms
proof (induction u st g fs acc s rule: admit_forms.induct)
  case (2 u st g f fs acc s)
  let ?n = "normalize_alias u (rf_text f)"
  consider (skip) "?n = [] \<or> ?n \<in> set (st_seen s)"
    | (full) "?n \<noteq> []" "?n \<notin> set (st_seen s)" "ps_max_tokens st < st_tokens s + token_count u (rf_text f) \<or> ps_max_chars st < st_chars s + length (rf_text f)"
    | (take) "?n \<noteq> []" "?n \<notin> set (st_seen s)" "\<not> (ps_max_tokens st < st_tokens s + token_count u (rf_text f) \<or> ps_max_chars st < st_chars s + length (rf_text f))"
    by blast
  then show ?case
  proof cases
    case skip
    then show ?thesis using 2(1) [OF refl refl refl skip 2(4)] 2(5) by (auto simp: Let_def)
  next
    case full
    let ?s = "s\<lparr>st_limited := True, st_skipped := st_skipped s @ [(mg_term_id g, mg_canonical g,
      if ps_max_tokens st < st_tokens s + token_count u (rf_text f) then Skip_Max_Tokens else Skip_Max_Chars, Some (rf_text f))]\<rparr>"
    have "plan_inv u st query ?s" using 2(4) by (auto simp: plan_inv_def)
    moreover have "admit_forms u st g fs acc ?s = (acc', s')" using 2(5) full by (simp add: Let_def)
    ultimately show ?thesis using 2(2) [OF refl refl refl _ full(3)] full by fastforce
  next
    case take
    let ?s = "s\<lparr>st_seen := st_seen s @ [?n], st_sparse := st_sparse s @ [rf_text f], st_tokens := st_tokens s + token_count u (rf_text f),
      st_chars := st_chars s + length (rf_text f)\<rparr>"
    let ?acc = "acc\<lparr>ac_forms := ac_forms acc @ [rf_text f],
               ac_alias_forms := ac_alias_forms acc @ (if list_ex explicit_source (rf_sources f) then [rf_text f] else []),
               ac_sources := ac_sources acc @ rf_sources f\<rparr>"
    have "plan_inv u st query ?s" using 2(4) take by (auto simp: plan_inv_def)
    moreover have "admit_forms u st g fs ?acc ?s = (acc', s')" using 2(5) take by (simp add: Let_def)
    ultimately have "plan_inv u st query s' \<and> st_terms s' = st_terms ?s \<and> (\<exists>new. st_sparse s' = st_sparse ?s @ new \<and> ac_forms acc' = ac_forms ?acc @ new \<and> length new \<le> length fs)"
      using 2(3) [OF refl refl refl _ take(3)] take(1,2) by blast
    then show ?thesis by (auto intro: exI [of _ "rf_text f # _"])
  qed
qed simp

lemma extend_dense_inv:
  "plan_inv u st query s \<Longrightarrow> plan_inv u st query (extend_dense st g fs s) \<and> st_terms (extend_dense st g fs s) = st_terms s \<and>
    st_sparse (extend_dense st g fs s) = st_sparse s"
proof (induction st g fs s rule: extend_dense.induct)
  case (2 st g form fs s)
  let ?s = "if length (st_dense s) + length (10 # form) \<le> ps_max_query_chars st then s\<lparr>st_dense := st_dense s @ 10 # form\<rparr>
        else s\<lparr>st_limited := True, st_skipped := st_skipped s @ [(mg_term_id g, mg_canonical g, Skip_Max_Query, Some form)]\<rparr>"
  have "length query \<le> length (st_dense s)" using 2(2) by (metis plan_inv_def length_take min.cobounded2 min.commute nat_le_linear take_all)
  then have "plan_inv u st query ?s" using 2(2) by (auto simp: plan_inv_def)
  from 2(1) [OF this] show ?case by simp
qed simp

definition terms_inv :: "plan_settings \<Rightarrow> plan_state \<Rightarrow> bool" where
  "terms_inv st s \<longleftrightarrow> concat (map at_added_forms (st_terms s)) = st_sparse s \<and> list_all (\<lambda>t. length (at_added_forms t) \<le> ps_max_aliases st) (st_terms s)"

lemma plan_inv_terms [simp]: "plan_inv u st query (s\<lparr>st_groups := gs, st_terms := ts\<rparr>) = plan_inv u st query s"
  by (simp add: plan_inv_def)

lemma plan_group_inv:
  assumes inv: "plan_inv u st query s" "terms_inv st s" and g: "plan_group u st locale n terms g s = Inr s'"
  shows "plan_inv u st query s' \<and> terms_inv st s' \<and> length (st_terms s') = length (st_terms s) + 1"
proof -
  from g obtain resolved acc s2 t where
    a: "admit_forms u st g (take (ps_max_aliases st) (searchable_forms u n g resolved (st_seen s))) (matched_forms u n resolved)
      (limit_aliases st g (searchable_forms u n g resolved (st_seen s)) s) = (acc, s2)"
    and s': "s' = (extend_dense st g (ac_forms acc) s2)\<lparr>st_groups := st_groups (extend_dense st g (ac_forms acc) s2) @ [g\<lparr>mg_matched_forms := ac_forms acc\<rparr>],
      st_terms := st_terms (extend_dense st g (ac_forms acc) s2) @ [applied_of u locale t g acc]\<rparr>"
    unfolding plan_group_def Let_def by (auto simp del: bindr_eq_Inr elim!: bindrE split: prod.splits)
  have start: "plan_inv u st query (limit_aliases st g (searchable_forms u n g resolved (st_seen s)) s)"
    "st_terms (limit_aliases st g (searchable_forms u n g resolved (st_seen s)) s) = st_terms s"
    "st_sparse (limit_aliases st g (searchable_forms u n g resolved (st_seen s)) s) = st_sparse s"
    using inv(1) by (auto simp: limit_aliases_def plan_inv_def)
  from admit_forms_inv [OF start(1) a] obtain new where
    s2: "plan_inv u st query s2" "st_terms s2 = st_terms s" "st_sparse s2 = st_sparse s @ new" "ac_forms acc = new" "length new \<le> ps_max_aliases st"
    by (auto simp: start matched_forms_def Let_def)
  from extend_dense_inv [OF s2(1), of g "ac_forms acc"] s2 inv(2) show ?thesis
    by (simp add: s' plan_inv_terms terms_inv_def applied_of_def Let_def)
qed

lemma plan_groups_inv:
  "plan_inv u st query s \<Longrightarrow> terms_inv st s \<Longrightarrow> plan_groups u st locale n terms gs s = Inr s' \<Longrightarrow>
    plan_inv u st query s' \<and> terms_inv st s' \<and> length (st_terms s') = length (st_terms s) + length gs"
proof (induction gs arbitrary: s)
  case (Cons g gs)
  from Cons.prems(3) obtain s1 where "plan_group u st locale n terms g s = Inr s1" "plan_groups u st locale n terms gs s1 = Inr s'" by auto
  with plan_group_inv [OF Cons.prems(1,2) this(1)] Cons.IH [of s1] show ?case by auto
qed auto

lemma build_plan_limits:
  assumes "build_plan u st locale query groups terms = Inr plan"
  shows "length (qp_applied_terms plan) \<le> length groups \<and> concat (map at_added_forms (qp_applied_terms plan)) = qp_added_sparse_texts plan \<and>
    list_all (\<lambda>t. length (at_added_forms t) \<le> ps_max_aliases st) (qp_applied_terms plan) \<and>
    sum_list (map (token_count u) (qp_added_sparse_texts plan)) \<le> ps_max_tokens st \<and> sum_list (map length (qp_added_sparse_texts plan)) \<le> ps_max_chars st \<and>
    distinct (map (normalize_alias u) (qp_added_sparse_texts plan)) \<and>
    take (length query) (qp_dense_query plan) = query \<and> length (qp_dense_query plan) \<le> max (length query) (ps_max_query_chars st)"
proof -
  from assms obtain s where s: "plan_groups u st locale (normalize_query_with_mapping u query) terms groups (start_state query) = Inr s"
    and plan: "plan = (if st_terms s = [] then (empty_plan query Plan_No_Match)\<lparr>qp_skipped := st_skipped s\<rparr>
            else \<lparr>qp_original_query = query, qp_dense_query = st_dense s, qp_added_sparse_texts = st_sparse s, qp_match_groups = st_groups s,
                  qp_applied_terms = st_terms s, qp_status = if st_limited s then Plan_Limited else Plan_Applied, qp_skipped = st_skipped s,
                  qp_revision = 0, qp_strict_groups = []\<rparr>)"
    by (auto simp: build_plan_def)
  have "plan_inv u st query (start_state query)" "terms_inv st (start_state query)"
    by (auto simp: plan_inv_def terms_inv_def start_state_def)
  from plan_groups_inv [OF this s] have inv: "plan_inv u st query s" "terms_inv st s" "length (st_terms s) = length groups"
    by (auto simp: start_state_def)
  show ?thesis
  proof (cases "st_terms s = []")
    case True
    then show ?thesis by (simp add: plan empty_plan_def)
  next
    case False
    then show ?thesis using inv by (auto simp: plan plan_inv_def terms_inv_def)
  qed
qed

text \<open>
  C37. Expansion stays within its limits for every snapshot and query: at most the set number of terms, of forms for each, of
  tokens and of characters over all; no form is added twice; and the query for the
  embedding is what the user asked, extended only as far as its limit allows.
\<close>

theorem expansion_within_limits:
  assumes "prepare_query u st enabled locale snapshot query = Inr plan"
  shows "length (qp_applied_terms plan) \<le> ps_max_terms st \<and> concat (map at_added_forms (qp_applied_terms plan)) = qp_added_sparse_texts plan \<and>
    list_all (\<lambda>t. length (at_added_forms t) \<le> ps_max_aliases st) (qp_applied_terms plan) \<and>
    sum_list (map (token_count u) (qp_added_sparse_texts plan)) \<le> ps_max_tokens st \<and> sum_list (map length (qp_added_sparse_texts plan)) \<le> ps_max_chars st \<and>
    distinct (map (normalize_alias u) (qp_added_sparse_texts plan)) \<and>
    take (length query) (qp_dense_query plan) = query \<and> length (qp_dense_query plan) \<le> max (length query) (ps_max_query_chars st)"
proof -
  consider (empty) status skipped revision where "plan = (empty_plan query status)\<lparr>qp_skipped := skipped, qp_revision := revision\<rparr>"
    | (built) terms groups p status skipped revision where "build_plan u st locale query (take (ps_max_terms st) groups) (term_by_id terms) = Inr p"
        "plan = p\<lparr>qp_status := status, qp_skipped := skipped, qp_revision := revision, qp_strict_groups := groups\<rparr>"
  proof -
    have "empty_plan query status = (empty_plan query status)\<lparr>qp_skipped := [], qp_revision := 0\<rparr>" for status by (simp add: empty_plan_def)
    then show ?thesis using assms that unfolding prepare_query_def Let_def
      by (auto simp del: bindr_eq_Inr elim!: bindrE split: if_splits snapshot_outcome.splits) metis+
  qed
  then show ?thesis
  proof cases
    case empty
    then show ?thesis by (simp add: empty_plan_def)
  next
    case built
    then show ?thesis using build_plan_limits [OF built(1)] by auto
  qed
qed

subsection \<open>An example\<close>

definition example_plan_settings :: plan_settings where
  "example_plan_settings = \<lparr>ps_max_terms = 5, ps_max_aliases = 4, ps_max_tokens = 32, ps_max_chars = 768, ps_max_query_chars = 32\<rparr>"

definition other_term :: term_snapshot where
  "other_term = example_term\<lparr>gt_term_id := 8, gt_canonical := chars ''PAYROLL'', gt_kind := ''business_term'', gt_original_name := chars ''payroll'',
     gt_aliases := [], gt_infotype_number := None\<rparr>"

definition plan_query :: utext where
  "plan_query = chars ''payroll status it0003''"


theorem expansion_within_limits_witness:
  "\<exists>plan. prepare_query ascii example_plan_settings True ''en'' (Snapshot 3 [example_term] [example_rule]) (chars ''it0003'') = Inr plan \<and>
    qp_added_sparse_texts plan = [chars ''it 0003'', chars ''Payroll status''] \<and> length (qp_dense_query plan) \<le> max 6 32"
proof -
  let ?r = "prepare_query ascii example_plan_settings True ''en'' (Snapshot 3 [example_term] [example_rule]) (chars ''it0003'')"
  have "is_ok ?r" by code_simp
  then have p: "?r = Inr (projr ?r)" by (metis is_ok_iff sum.sel(2))
  have "qp_added_sparse_texts (projr ?r) = [chars ''it 0003'', chars ''Payroll status'']" by code_simp
  moreover have "length (chars ''it0003'') = 6" "ps_max_query_chars example_plan_settings = 32" by code_simp+
  ultimately show ?thesis using expansion_within_limits [OF p] p by (intro exI [of _ "projr ?r"]) simp
qed

end
