(* ===== verification/Glossary_Match.thy ===== *)
theory Glossary_Match
  imports Glossary_Plan Fusion
begin

text \<open>
  Recognition of terms in what the search returns (\<open>glossary/matching.py\<close>). The caches hold values of pure functions and are
  left out; expressions are scans of the normalised text. Texts of a hit are its title and its content.
\<close>

subsection \<open>Forms of a group\<close>

fun dedupe_forms :: "unicode \<Rightarrow> utext list \<Rightarrow> utext list \<Rightarrow> utext list" where
  "dedupe_forms u seen [] = []"
| "dedupe_forms u seen (f # fs) =
     (let n = normalize_alias u f in
      if n = [] \<or> n \<in> set seen then dedupe_forms u seen fs else f # dedupe_forms u (n # seen) fs)"

definition unique_forms :: "unicode \<Rightarrow> match_group \<Rightarrow> utext list" where
  "unique_forms u g =
     dedupe_forms u [] (mg_matched_forms g @ map rf_text (filter rf_can_search (mg_resolved_forms g)) @ map sp_matched_text (mg_spans g))"

definition mode_of :: "string \<Rightarrow> boundary_mode" where
  "mode_of kind = (if kind = ''sap_infotype'' then Infotype else if sap_kind kind then Identifier else Phrase)"

subsection \<open>Spans\<close>

text \<open>The expression of one form: the form and what must not follow it.\<close>

definition form_here :: "unicode \<Rightarrow> boundary_mode \<Rightarrow> utext \<Rightarrow> utext \<Rightarrow> bool" where
  "form_here u mode form text \<longleftrightarrow> take (length form) text = form \<and>
     (let after = drop (length form) text in
      if mode = Phrase then \<not> (is_identifier_char u (last form) \<and> after \<noteq> [] \<and> is_identifier_char u (hd after))
      else \<not> continues u after)"

definition alternatives :: "unicode \<Rightarrow> utext list \<Rightarrow> utext list" where
  "alternatives u forms = sort_key (\<lambda>f. - int (length f)) (remdups (filter (\<lambda>f. f \<noteq> []) (map (normalize_alias u) forms)))"

definition left_ok :: "unicode \<Rightarrow> boundary_mode \<Rightarrow> utext \<Rightarrow> nat \<Rightarrow> nat \<Rightarrow> bool" where
  "left_ok u mode text start stop \<longleftrightarrow>
     (if mode = Phrase then \<not> (0 < start \<and> is_identifier_char u (text ! (start - 1)) \<and> is_identifier_char u (text ! start))
      else technical_span_boundary u text start stop)"

definition form_spans :: "unicode \<Rightarrow> utext \<Rightarrow> utext list \<Rightarrow> boundary_mode \<Rightarrow> (nat \<times> nat) list" where
  "form_spans u text forms mode =
     concat (map (\<lambda>start. case find (\<lambda>f. form_here u mode f (drop start text)) (alternatives u forms) of
         None \<Rightarrow> []
       | Some f \<Rightarrow> if left_ok u mode text start (start + length f) then [(start, start + length f)] else [])
      [0..<length text])"

text \<open>
  References to infotypes by context: \<open>word_IT0003\<close> and lists such as \<open>IT0002, 0003 and 0021\<close>. Of a form only its prefix
  and its four digits count; \<open>prefix_char\<close> is the class of the prefix.
\<close>

definition prefix_char :: "nat \<Rightarrow> bool" where
  "prefix_char c \<longleftrightarrow> 97 \<le> c \<and> c \<le> 122 \<or> 1072 \<le> c \<and> c \<le> 1103 \<or> c = 1105"

definition split_code :: "utext \<Rightarrow> (utext \<times> utext) option" where
  "split_code form =
     (let p = take (length form - 4) form; number = drop (length form - 4) form
      in if 5 \<le> length form \<and> prefix_char (hd p) \<and> list_all (\<lambda>c. prefix_char c \<or> c = 32 \<or> c = 45) (tl p) \<and> four_digits number
         then Some (p, number) else None)"

definition code_here :: "unicode \<Rightarrow> utext \<Rightarrow> bool" where
  "code_here u text \<longleftrightarrow> four_digits (take 4 text) \<and> \<not> continues u (drop 4 text)"

definition conjunctions :: "utext list" where
  "conjunctions = [[1080], [1080, 1083, 1080], chars ''and'', chars ''or'']"

text \<open>A conjunction and the white space behind it.\<close>

definition conjunction_at :: "unicode \<Rightarrow> utext \<Rightarrow> nat option" where
  "conjunction_at u text =
     (case find (\<lambda>w. take (length w) text = w \<and> drop (length w) text \<noteq> [] \<and> uc_space u (hd (drop (length w) text))) conjunctions of
        None \<Rightarrow> None
      | Some w \<Rightarrow> Some (length w + length (takeWhile (uc_space u) (drop (length w) text))))"

definition separator_at :: "unicode \<Rightarrow> utext \<Rightarrow> nat option" where
  "separator_at u text =
     (let blanks = length (takeWhile (uc_space u) text); rest = drop blanks text in
      if rest \<noteq> [] \<and> hd rest = 44
      then let gap = length (takeWhile (uc_space u) (tl rest)); n = blanks + 1 + gap in
        Some (n + (case conjunction_at u (drop n text) of None \<Rightarrow> 0 | Some k \<Rightarrow> k))
      else if 0 < blanks then (case conjunction_at u rest of None \<Rightarrow> None | Some k \<Rightarrow> Some (blanks + k)) else None)"

function more_codes :: "unicode \<Rightarrow> utext \<Rightarrow> nat" where
  "more_codes u text =
     (case separator_at u text of None \<Rightarrow> 0
      | Some n \<Rightarrow> if code_here u (drop n text) then n + 4 + more_codes u (drop (n + 4) text) else 0)"
  by pat_completeness auto
termination
  by (relation "measure (\<lambda>(u, text). length text)") (auto simp: code_here_def four_digits_def)

definition coordinated_at :: "unicode \<Rightarrow> utext \<Rightarrow> utext \<Rightarrow> nat option" where
  "coordinated_at u prefix text =
     (if take (length prefix) text = prefix \<and> code_here u (drop (length prefix) text)
      then let n = length prefix + 4; k = more_codes u (drop n text) in if k = 0 then None else Some (n + k) else None)"

text \<open>\<open>\w+_form\<close>: the longest word for which it holds, as the greedy repetition finds it.\<close>

definition qualified_at :: "unicode \<Rightarrow> utext \<Rightarrow> utext \<Rightarrow> nat option" where
  "qualified_at u form text =
     (let word = length (takeWhile (is_identifier_char u) text)
      in case find (\<lambda>k. take (1 + length form) (drop k text) = 95 # form) (rev [1..<word + 1]) of
        None \<Rightarrow> None | Some k \<Rightarrow> Some (k + 1 + length form))"

text \<open>A match may not begin behind a word character.\<close>

fun finditer_words :: "unicode \<Rightarrow> (utext \<Rightarrow> nat option) \<Rightarrow> utext \<Rightarrow> nat list \<Rightarrow> nat \<Rightarrow> (nat \<times> nat) list" where
  "finditer_words u m text [] from = []"
| "finditer_words u m text (start # rest) from =
     (if from \<le> start \<and> \<not> (0 < start \<and> is_identifier_char u (text ! (start - 1)))
      then case m (drop start text) of
          None \<Rightarrow> finditer_words u m text rest from
        | Some n \<Rightarrow> (start, start + n) # finditer_words u m text rest (start + n)
      else finditer_words u m text rest from)"

definition reference_spans :: "unicode \<Rightarrow> utext \<Rightarrow> utext list \<Rightarrow> (nat \<times> nat) list" where
  "reference_spans u text forms =
     concat (map (\<lambda>form. case split_code form of
         None \<Rightarrow> []
       | Some (prefix, number) \<Rightarrow>
           (if prefix \<in> {chars ''it'', [1080, 1090]}
            then filter (\<lambda>(start, stop). technical_span_boundary u text start stop) (finditer_words u (qualified_at u form) text [0..<length text] 0)
            else []) @
           concat (map (\<lambda>(start, stop).
               if \<not> technical_span_boundary u text start stop then []
               else map (\<lambda>(a, b). (start, start + b))
                 (filter (\<lambda>(a, b). take (b - a) (drop (start + a) text) = number)
                   (finditer (\<lambda>t. if four_digits (take 4 t) then Some 4 else None) 0 (take (stop - start) (drop start text)))))
             (finditer (coordinated_at u prefix) 0 text)))
      (first_of (map (normalize_alias u) forms)))"

definition normalized_spans :: "unicode \<Rightarrow> utext \<Rightarrow> utext list \<Rightarrow> boundary_mode \<Rightarrow> (nat \<times> nat) list" where
  "normalized_spans u text forms mode = form_spans u text forms mode @ (if mode = Infotype then reference_spans u text forms else [])"

definition contains_complete_form :: "unicode \<Rightarrow> utext \<Rightarrow> utext list \<Rightarrow> boundary_mode \<Rightarrow> bool" where
  "contains_complete_form u text forms mode \<longleftrightarrow> normalized_spans u (normalize_alias u text) forms mode \<noteq> []"

definition group_form_matches :: "unicode \<Rightarrow> utext \<Rightarrow> match_group \<Rightarrow> bool" where
  "group_form_matches u text g = contains_complete_form u text (unique_forms u g) (mode_of (mg_kind g))"

definition matching_group_keys :: "unicode \<Rightarrow> utext \<Rightarrow> match_group list \<Rightarrow> utext list" where
  "matching_group_keys u text groups = first_of (map mg_canonical (filter (group_form_matches u text) groups))"

definition via_form :: "match_group \<Rightarrow> utext" where
  "via_form g = (case mg_spans g of [] \<Rightarrow> mg_original_name g | s # _ \<Rightarrow> sp_matched_text s)"

definition via_label :: "match_group \<Rightarrow> utext" where
  "via_label g = mg_original_name g @ chars '' via '' @ via_form g"

text \<open>\<open>key\<close> is the digest that stands for a group in \<open>_full_domain_matches\<close>; \<open>preserved\<close> are those of the hit.\<close>

definition matched_domain_terms :: "unicode \<Rightarrow> (match_group \<Rightarrow> string) \<Rightarrow> string list \<Rightarrow> utext \<times> utext \<Rightarrow> match_group list \<Rightarrow> utext list" where
  "matched_domain_terms u key preserved item groups =
     (let text = fst item @ [10] @ snd item in
      if groups = [] then []
      else if preserved \<noteq> [] then map via_label (filter (\<lambda>g. key g \<in> set preserved \<or> group_form_matches u text g) groups)
      else map via_label (filter (group_form_matches u text) groups))"

definition preserve_domain_matches :: "unicode \<Rightarrow> (match_group \<Rightarrow> string) \<Rightarrow> utext \<Rightarrow> utext \<Rightarrow> match_group list \<Rightarrow> string list" where
  "preserve_domain_matches u key full excerpt groups =
     map key (filter (\<lambda>g. \<not> group_form_matches u excerpt g \<and> group_form_matches u full g) groups)"

subsection \<open>Excerpts\<close>

fun retreat :: "unicode \<Rightarrow> utext \<Rightarrow> nat \<Rightarrow> nat \<Rightarrow> nat" where
  "retreat u text low 0 = 0"
| "retreat u text low (Suc right) =
     (if low < Suc right \<and> \<not> technical_span_boundary u text 0 (Suc right) then retreat u text low right else Suc right)"

function advance :: "unicode \<Rightarrow> utext \<Rightarrow> nat \<Rightarrow> nat \<Rightarrow> nat" where
  "advance u text left stop =
     (if left < stop \<and> \<not> technical_span_boundary u text left (length text) then advance u text (left + 1) stop else left)"
  by pat_completeness auto
termination by (relation "measure (\<lambda>(u, text, left, stop). stop - left)") auto

definition same_offsets :: "unicode \<Rightarrow> utext \<Rightarrow> bool" where
  "same_offsets u text \<longleftrightarrow>
     (let lowered = uc_lower u text; n = normalize_alias u text
      in length lowered = length text \<and> (n = lowered \<or> n = map (\<lambda>c. if uc_space u c then 32 else c) lowered))"

definition group_spans :: "unicode \<Rightarrow> utext \<Rightarrow> match_group list \<Rightarrow> (nat \<times> nat) list result" where
  "group_spans u text groups =
     (let spans = concat (map (\<lambda>g. normalized_spans u (normalize_alias u text) (unique_forms u g) (mode_of (mg_kind g))) groups)
      in if same_offsets u text then Inr spans
         else collect (\<lambda>(start, stop). source_span (normalize_query_with_mapping u text) start stop) spans)"

definition excerpt_left :: "unicode \<Rightarrow> utext \<Rightarrow> nat \<Rightarrow> (nat \<times> nat) list \<Rightarrow> nat" where
  "excerpt_left u text max_chars found =
     (let (fitting, oversized) = partition (\<lambda>(start, stop). stop - start \<le> max_chars) found in
      case sort fitting of
        (start, stop) # _ \<Rightarrow> if max_chars < stop then advance u text (start - min 80 (max_chars - (stop - start))) start else 0
      | [] \<Rightarrow> (case sort oversized of (start, stop) # _ \<Rightarrow> advance u text (max start (stop - max_chars)) stop | [] \<Rightarrow> 0))"

definition exact_excerpt :: "unicode \<Rightarrow> utext \<Rightarrow> nat \<Rightarrow> match_group list \<Rightarrow> utext result" where
  "exact_excerpt u text max_chars groups =
     (if length text \<le> max_chars \<or> groups = [] then Inr (take max_chars text)
      else let head = take (retreat u text 0 max_chars) text in
        if list_ex (group_form_matches u head) groups then Inr head
        else bindr (group_spans u text groups) (\<lambda>found.
          let left = excerpt_left u text max_chars found;
              right = retreat u text left (min (length text) (left + max_chars))
          in Inr (take (right - left) (drop left text))))"

subsection \<open>Promotion of exact hits\<close>

type_synonym text_hit = "(utext \<times> utext) hit"

definition identifier_forms :: "unicode \<Rightarrow> match_group \<Rightarrow> utext list" where
  "identifier_forms u g =
     filter (\<lambda>f. list_ex (uc_alpha u) (normalize_alias u f) \<and> list_ex (uc_digit u) (normalize_alias u f)) (mg_matched_forms g)"

definition identifier_group_matches :: "unicode \<Rightarrow> utext \<Rightarrow> match_group \<Rightarrow> bool" where
  "identifier_group_matches u text g =
     (if mg_system_rule g then group_form_matches u text g else contains_complete_form u text (identifier_forms u g) Identifier)"

definition exact_hit :: "unicode \<Rightarrow> match_group list \<Rightarrow> text_hit \<Rightarrow> bool" where
  "exact_hit u groups h = list_ex (identifier_group_matches u (fst (hit_payload h) @ [10] @ snd (hit_payload h))) groups"

definition promote_glossary_identifier_hits :: "unicode \<Rightarrow> text_hit list \<Rightarrow> match_group list \<Rightarrow> text_hit list" where
  "promote_glossary_identifier_hits u hits groups =
     (let exact = exact_hit u (filter (\<lambda>g. identifier_forms u g \<noteq> []) groups) in
      if hits = [] \<or> filter (\<lambda>g. identifier_forms u g \<noteq> []) groups = [] \<or> \<not> list_ex exact hits then hits
      else let top_score = Max (set (map hit_score hits))
        in sort_key (\<lambda>h. - hit_score h) (map (\<lambda>h. if exact h then h\<lparr>hit_score := top_score + hit_score h\<rparr> else h) hits))"

subsection \<open>Complete forms\<close>

lemma find_Some_iff_ex: "(\<exists>x. find P xs = Some x) \<longleftrightarrow> list_ex P xs"
  by (induction xs) auto

lemma form_here_boundary:
  assumes "f \<noteq> []" "start < length text" "mode \<noteq> Infotype"
  shows "form_here u mode f (drop start text) \<and> left_ok u mode text start (start + length f) \<longleftrightarrow>
    take (length f) (drop start text) = f \<and> boundary_ok u mode text f start (start + length f)"
proof (cases "take (length f) (drop start text) = f")
  case True
  then have "hd f = text ! start" using assms(1,2) by (metis hd_drop_conv_nth hd_take length_greater_0_conv)
  moreover have "drop (length f) (drop start text) = drop (start + length f) text" by (simp add: add.commute)
  moreover have "drop (start + length f) text \<noteq> [] \<Longrightarrow> hd (drop (start + length f) text) = text ! (start + length f)"
    by (simp add: hd_drop_conv_nth)
  ultimately show ?thesis
    using True assms(3) by (cases mode) (auto simp: form_here_def left_ok_def boundary_ok_def phrase_boundary_def technical_span_boundary_def)
qed (simp add: form_here_def)

lemma left_ok_other:
  "left_ok u mode text start stop \<Longrightarrow> form_here u mode f (drop start text) \<Longrightarrow> left_ok u mode text start (start + length f)"
  by (auto simp: left_ok_def form_here_def technical_span_boundary_def Let_def add.commute)

lemma form_spans_iff:
  assumes "mode \<noteq> Infotype"
  shows "form_spans u text forms mode \<noteq> [] \<longleftrightarrow> (\<exists>f start. f \<in> set (alternatives u forms) \<and> start < length text \<and>
    take (length f) (drop start text) = f \<and> boundary_ok u mode text f start (start + length f))"
proof
  assume "form_spans u text forms mode \<noteq> []"
  then obtain start f where "start < length text" "find (\<lambda>f. form_here u mode f (drop start text)) (alternatives u forms) = Some f"
      "left_ok u mode text start (start + length f)"
    by (force simp: form_spans_def split: option.splits if_splits)
  moreover from this(2) have "f \<in> set (alternatives u forms)" "form_here u mode f (drop start text)" using find_SomeD by fastforce+
  moreover from this(1) have "f \<noteq> []" by (auto simp: alternatives_def)
  ultimately show "\<exists>f start. f \<in> set (alternatives u forms) \<and> start < length text \<and>
    take (length f) (drop start text) = f \<and> boundary_ok u mode text f start (start + length f)"
    using form_here_boundary [OF _ _ assms] by blast
next
  assume "\<exists>f start. f \<in> set (alternatives u forms) \<and> start < length text \<and>
    take (length f) (drop start text) = f \<and> boundary_ok u mode text f start (start + length f)"
  then obtain f start where f: "f \<in> set (alternatives u forms)" "start < length text"
      "take (length f) (drop start text) = f \<and> boundary_ok u mode text f start (start + length f)" by blast
  have "f \<noteq> []" using f(1) by (auto simp: alternatives_def)
  with form_here_boundary [OF this f(2) assms, of u] f(3)
  have here: "form_here u mode f (drop start text)" "left_ok u mode text start (start + length f)" by auto
  then obtain f0 where f0: "find (\<lambda>f. form_here u mode f (drop start text)) (alternatives u forms) = Some f0"
    using find_Some_iff_ex [of "\<lambda>f. form_here u mode f (drop start text)" "alternatives u forms"] f(1) by (auto simp: list_ex_iff)
  then have "form_here u mode f0 (drop start text)" using find_SomeD by fastforce
  then have "left_ok u mode text start (start + length f0)" using left_ok_other here(2) by blast
  then have "(start, start + length f0) \<in> set (form_spans u text forms mode)"
    using f0 f(2) unfolding form_spans_def by (auto intro!: bexI [of _ start])
  then show "form_spans u text forms mode \<noteq> []" by auto
qed



subsection \<open>Excerpts are clean\<close>

lemma retreat_spec: "low \<le> right \<Longrightarrow> low \<le> retreat u text low right \<and> retreat u text low right \<le> right \<and>
    (low < retreat u text low right \<longrightarrow> technical_span_boundary u text 0 (retreat u text low right))"
  by (induction u "text" low right rule: retreat.induct) (auto split: if_splits simp: le_Suc_eq)


definition example_group :: match_group where
  "example_group = \<lparr>mg_term_id = Some 7, mg_canonical = chars ''IT0003'', mg_kind = ''sap_transaction'', mg_canonical_locale = ''en'',
     mg_original_name = chars ''PA30'', mg_term_version = 1, mg_source_revision = 1, mg_spans = [], mg_matched_forms = [chars ''PA30''],
     mg_match_type = Match_Alias, mg_system_rule = False, mg_structural_code = None, mg_resolved_forms = []\<rparr>"


subsection \<open>Exact hits come first\<close>

lemma filter_partition_by:
  assumes "\<And>x y. x \<in> set xs \<Longrightarrow> y \<in> set xs \<Longrightarrow> P x \<Longrightarrow> \<not> P y \<Longrightarrow> Q (f x) \<Longrightarrow> \<not> Q (f y)"
  shows "filter Q (map f (filter P xs @ filter (\<lambda>x. \<not> P x) xs)) = filter Q (map f xs)"
proof (cases "\<exists>x \<in> set xs. P x \<and> Q (f x)")
  case True
  then have "y \<in> set xs \<Longrightarrow> Q (f y) \<Longrightarrow> P y" for y using assms by blast
  then have "filter (\<lambda>x. P x \<and> Q (f x)) xs = filter (\<lambda>x. Q (f x)) xs" "filter (\<lambda>x. \<not> P x \<and> Q (f x)) xs = []"
    by (auto intro: filter_cong simp: filter_empty_conv)
  then show ?thesis by (simp add: filter_map comp_def conj_commute)
next
  case False
  then have "filter (\<lambda>x. P x \<and> Q (f x)) xs = []" "filter (\<lambda>x. \<not> P x \<and> Q (f x)) xs = filter (\<lambda>x. Q (f x)) xs"
    by (auto intro: filter_cong simp: filter_empty_conv)
  then show ?thesis by (simp add: filter_map comp_def conj_commute)
qed

text \<open>
  Promotion moves exactly the hits that contain an identifier of the expansion to the front and keeps the order of the search among
  them and among the others; without such a hit nothing changes (scores are positive and descending, as fusion returns them).
\<close>

theorem exact_hits_first:
  fixes u :: unicode and hits :: "text_hit list" and groups :: "match_group list"
  assumes "sorted (map (\<lambda>h. - hit_score h) hits)" and "list_all (\<lambda>h. 0 < hit_score h) hits"
  defines "exact \<equiv> exact_hit u (filter (\<lambda>g. identifier_forms u g \<noteq> []) groups)"
  shows "map hit_point_id (promote_glossary_identifier_hits u hits groups) =
    map hit_point_id (filter exact hits @ filter (\<lambda>h. \<not> exact h) hits)"
proof (cases "list_ex exact hits")
  case False
  then have "filter exact hits = []" "filter (\<lambda>h. \<not> exact h) hits = hits" by (auto simp: list_ex_iff filter_empty_conv filter_id_conv)
  then show ?thesis using False by (simp add: promote_glossary_identifier_hits_def Let_def exact_def)
next
  case True
  then have ne: "hits \<noteq> []" "filter (\<lambda>g. identifier_forms u g \<noteq> []) groups \<noteq> []"
    unfolding exact_def exact_hit_def by (auto simp: list_ex_iff filter_empty_conv)
  define m where "m = Max (set (map hit_score hits))"
  define boost where "boost h = (if exact h then h\<lparr>hit_score := m + hit_score h\<rparr> else h)" for h :: text_hit
  let ?ys = "map boost (filter exact hits @ filter (\<lambda>h. \<not> exact h) hits)"
  have top: "h \<in> set hits \<Longrightarrow> hit_score h \<le> m" for h by (simp add: m_def)
  have key: "hit_score (boost h) = (if exact h then m + hit_score h else hit_score h)" for h by (simp add: boost_def)
  have above: "hit_score h < hit_score (boost x)" if "h \<in> set hits" "x \<in> set hits" "exact x" for h x
    using top [OF that(1)] assms(2) that by (auto simp: key list_all_iff)
  have "sort_key (\<lambda>h. - hit_score h) (map boost hits) = ?ys"
  proof (rule properties_for_sort_key)
    show "mset ?ys = mset (map boost hits)" by (simp flip: image_mset_union add: multiset_partition [symmetric])
    show "sorted (map (\<lambda>h. - hit_score h) ?ys)"
    proof -
      have part: "sorted (map (\<lambda>h. - hit_score h) (map boost (filter P hits)))" if "\<And>h. P h \<Longrightarrow> exact h = b" for P b
      proof -
        have "sorted_wrt (\<lambda>x y. - hit_score x \<le> - hit_score y) (filter P hits)"
          using assms(1) by (simp add: sorted_map sorted_wrt_filter)
        then have "sorted_wrt (\<lambda>x y. - hit_score (boost x) \<le> - hit_score (boost y)) (filter P hits)"
          by (rule sorted_wrt_mono_rel [rotated]) (simp add: key that)
        then show ?thesis by (simp add: sorted_map comp_def)
      qed
      have "- hit_score (boost x) \<le> - hit_score (boost y)"
        if "x \<in> set (filter exact hits)" "y \<in> set (filter (\<lambda>h. \<not> exact h) hits)" for x y
        using above [of y x] that by (simp add: boost_def [of y])
      then show ?thesis using part [of exact True] part [of "\<lambda>h. \<not> exact h" False]
        unfolding map_append sorted_append by fastforce
    qed
    fix k assume "k \<in> set ?ys"
    show "filter (\<lambda>x. - hit_score k = - hit_score x) ?ys = filter (\<lambda>x. - hit_score k = - hit_score x) (map boost hits)"
      by (rule filter_partition_by) (use above in \<open>force simp: key\<close>)
  qed
  moreover have "promote_glossary_identifier_hits u hits groups = sort_key (\<lambda>h. - hit_score h) (map boost hits)"
    using True ne unfolding promote_glossary_identifier_hits_def Let_def exact_def [symmetric] m_def boost_def [abs_def] by simp
  moreover have "hit_point_id (boost h) = hit_point_id h" for h by (simp add: boost_def)
  ultimately show ?thesis by (simp add: comp_def)
qed

theorem exact_hits_first_witness:
  "map hit_point_id (promote_glossary_identifier_hits ascii
     [\<lparr>hit_point_id = ''a'', hit_score = 3, hit_payload = (chars ''Time'', chars ''PA3000''), hit_rank = 1\<rparr>,
      \<lparr>hit_point_id = ''b'', hit_score = 2, hit_payload = (chars ''Data'', chars ''see pa30.''), hit_rank = 2\<rparr>] [example_group]) = [''b'', ''a'']"
proof -
  let ?hits = "[\<lparr>hit_point_id = ''a'', hit_score = 3, hit_payload = (chars ''Time'', chars ''PA3000''), hit_rank = 1\<rparr>,
      \<lparr>hit_point_id = ''b'', hit_score = 2, hit_payload = (chars ''Data'', chars ''see pa30.''), hit_rank = 2\<rparr>] :: text_hit list"
  let ?exact = "exact_hit ascii (filter (\<lambda>g. identifier_forms ascii g \<noteq> []) [example_group])"
  have "map ?exact ?hits = [False, True]" by code_simp
  then have "map hit_point_id (filter ?exact ?hits @ filter (\<lambda>h. \<not> ?exact h) ?hits) = [''b'', ''a'']" by simp
  then show ?thesis by (subst exact_hits_first) simp_all
qed

end
