(* ===== verification/Spec2Isabelle.thy ===== *)
theory Spec2Isabelle
  imports Bulk_Jobs Chat_Runs Artifacts Edit_Locks Scope_Review Archives Table_Headers Llm_Scheduler Token_Budget Rate_Limiter Blocklist Fusion Glossary_Match
begin

text \<open>
  Verification library of the knowledge base's backend (\<open>backend/app\<close>) and of the part of its
  document parser (\<open>doc-parser/src/docparser\<close>) that decides what is processed.

  \<^bold>\<open>The program.\<close> Replicas of a FastAPI backend share one SQL database and an object store. A document
  is uploaded, its attachments are assessed and reviewed, it is parsed, indexed and published as
  an immutable generation; chats answer questions from the published generations with a local
  or a remote model. Nothing coordinates the replicas but rows of the database: leases with an owner
  and a fence, a durable ledger of work, pointers to generations, and epochs that fence off
  processes across maintenance. That coordination is the core of the program and what is modelled
  here; parsing, retrieval, generation of text, the HTTP layer and the user interface are not.

  \<^bold>\<open>Theories and sources.\<close>
  \<^item> \<open>Prelude\<close>: exceptions as values (\<open>'a result\<close>), database time in microseconds, tables as lists of rows with
    the statements the services issue, character classes of the regular expressions. \<open>Json\<close>: stored JSON
    with \<open>json.dumps\<close>. \<open>Interfaces\<close>: the contracts as locales (\<open>invariant_system\<close>, \<open>fenced_resource\<close>).
  \<^item> \<open>Coordination\<close>: \<open>services/work/coordination.py\<close>, capacity slots, rate windows and revisions.
    \<open>Maintenance\<close>: \<open>work/maintenance_control.py\<close>, the epoch of the processes. \<open>Work_Store\<close>: \<open>work/store.py\<close>,
    the ledger of work. \<open>Work_Runtime\<close>: \<open>work/registry.py\<close>, \<open>scheduler.py\<close>, \<open>runtime.py\<close>, \<open>progress.py\<close> and the
    session guard. \<open>Generations\<close>: \<open>generation_store.py\<close> and \<open>work/document_handler.py\<close>. \<open>Admission\<close>:
    \<open>work/admission.py\<close>. \<open>Trash\<close>: deletion and restoration in \<open>registry.py\<close>, \<open>trash.py\<close> and \<open>work/trash.py\<close>. \<open>Bulk_Jobs\<close>:
    \<open>job_queue.py\<close>, \<open>bulk_generation.py\<close> and \<open>work/bulk.py\<close>. \<open>Chat_Runs\<close>: \<open>work/chat.py\<close> with the attempts of \<open>chat_history.py\<close>.
  \<^item> \<open>Artifacts\<close>: \<open>services/artifacts\<close>, registration, bindings, leases, deletion and the transactions of the
    collector.
  \<^item> \<open>Edit_Lease\<close>: \<open>edit_lease_policy.py\<close>. \<open>Edit_Locks\<close>: \<open>reference_resources.py\<close>, \<open>reference_concurrency.py\<close>,
    \<open>reference_edit_lock.py\<close>.
  \<^item> \<open>Attachment_Policy\<close>: \<open>attachment_policy.py\<close>, \<open>attachment_assessment.py\<close>, \<open>attachment_limits.py\<close> of the parser.
    \<open>Scope_Policy\<close> and \<open>Scope_Review\<close>: \<open>processing_scope.py\<close>, the transactions of \<open>processing_admission.py\<close>,
    \<open>processing_scope_edit_lock.py\<close>. \<open>Archives\<close>: \<open>archive_guard.py\<close>, \<open>archive_reader.py\<close>, \<open>archive_parser.py\<close> and the extraction
    of \<open>archive_zip.py\<close> and \<open>archive_7z.py\<close> in the parser. \<open>Table_Regions\<close> and \<open>Table_Headers\<close>: \<open>table_model.py\<close>,
    \<open>table_headers.py\<close> and their use in \<open>xlsx_structure.py\<close>.
  \<^item> \<open>Llm_Scheduler\<close>: \<open>llm_scheduler.py\<close>. \<open>Token_Budget\<close>: \<open>chat_token_budget.py\<close>. \<open>Rate_Limiter\<close>: \<open>rate_limiter.py\<close>.
    \<open>Blocklist\<close>: \<open>blocklist.py\<close>. \<open>Fusion\<close>: \<open>fusion.py\<close>.
  \<^item> \<open>Glossary_Text\<close>: \<open>glossary/normalization.py\<close>. \<open>Glossary_Forms\<close>: \<open>glossary/rules.py\<close>, \<open>forms.py\<close>, \<open>types.py\<close>.
    \<open>Glossary_Plan\<close>: \<open>glossary/expansion.py\<close>, from a query and a snapshot of the terms to the plan of the search.
    \<open>Glossary_Match\<close>: \<open>glossary/matching.py\<close>, the plan's forms in what the search returns. They are functions of texts without a state.

  \<^bold>\<open>State.\<close> A theory has one record of tables, which extends that of the component it calls: \<open>coord_db\<close>,
  \<open>maint_db\<close>, \<open>work_db\<close>, \<open>doc_db\<close>, then \<open>art_db\<close> and \<open>scope_db\<close>, and \<open>trash_db\<close> and \<open>job_db\<close>; \<open>chat_db\<close> and \<open>ref_db\<close> extend \<open>coord_db\<close>. The
  fields of a row are the columns of its class in \<open>db/models.py\<close>. An operation is a function on the tables: it
  returns \<open>Inl e\<close> where the Python raises and has then changed nothing, since the caller rolls its
  transaction back; operations on objects in memory that keep what they did (\<open>Rate_Limiter\<close>,
  \<open>Llm_Scheduler\<close>, \<open>Token_Budget\<close>, the handlers of \<open>Work_Runtime\<close>) return the state beside the result.
  Transactions run one after the other, in any order: the row locks the code takes (\<open>SELECT FOR UPDATE\<close>,
  updates of a row to itself) are what makes a service function one step.

  \<^bold>\<open>Arguments.\<close> Every reading of a clock, every \<open>uuid4\<close>, every digest, the settings, and what other components
  decide (the verification of a generation's tables, the provider's deletion of an object, the model's token
  count, the search for duplicates) is an argument. Nothing is assumed of them but what a theorem
  states: fresh identifiers in \<open>run_ok\<close>, \<open>gen_run_ok\<close>, \<open>fresh_ids\<close>, \<open>sched_ok\<close>, an ordered inventory in
  \<open>parents_first\<close>, a sorted clock where one is needed.

  \<^bold>\<open>What the lemmas show.\<close> Each component has a well-formedness invariant kept by every operation (\<open>capacity_inv\<close>,
  \<open>work_inv\<close>, \<open>gen_inv\<close>, \<open>chat_inv\<close>, \<open>art_inv\<close>, \<open>sched_inv\<close>, \<open>reviews_closed\<close>, \<open>jobs_inv\<close>), an effect lemma per operation (its
  name ends in \<open>_Inr\<close> or \<open>E\<close>), and the contracts of \<open>Interfaces\<close>: what holds in every run
  (\<open>invariant_system\<close>), and that a superseded holder is refused for ever (\<open>fenced_resource\<close>, for capacity leases,
  claims of work and editing tabs); \<open>archive_format\<close> is what the extraction of each archive format keeps. On them rest the properties: bounds (capacity slots, rate
  windows, pending work, live chats, the token window, the bytes of an archive, header rows, the expansion of a query), exclusion (one active generation, one answer per
  session, one tab, one call on the GPU), finality (finished work, stopped answers, granted deletions, retired
  epochs), idempotence and round trips (enqueue, periodic slots, progress), equivalences (rank fusion, the depth
  of a source, the collector's query against its claim, recognised forms against occurrences), a refinement (the rate limiter against the log of
  all accepted requests; the trash against the log of deletions), termination (the budget loop) and fair service (interactive calls).

  \<^bold>\<open>Loops.\<close> The walks through parents and the budget loop are total functions with their termination
  proofs. The walk of a refreshed review has no guard against cycles and is a partial function, None when it
  does not return; \<open>refreshed_closed\<close> proves that it returns on inventories with parents first. The loop of
  the scheduler's \<open>acquire\<close> is modelled one round at a time, since other calls run between rounds. No
  definition uses fuel.

  \<^bold>\<open>Not modelled.\<close> Routers and request models, authentication providers, configuration and deployment, migrations,
  prompts and the clients of models, embeddings and the vector store, the stages of the pipeline, parsers of
  document formats, table and chunk stores, the editing of glossary and tag registries, search, export, diagnostics and the audit
  trail: they are input and output, text processing, or wait for a later step of this development. Of the modelled components, what is
  left out is named in the text of their theory. Text is over the characters U+0000 to U+00FF, but over all code points in the glossary,
  where the Unicode database is an argument; floats of scores
  and budgets are exact rationals or integers.
\<close>

end
